(* ===== verification/Prelude.thy ===== *)
theory Prelude
  imports Main "HOL-Library.Word"
begin

text \<open>
  Shared vocabulary of the development: Go's fixed-width integers, the ways a Go call
  can end abnormally, nested maps with Go's nil-map behaviour, and the lemmas on them
  that every protocol proof uses.
\<close>

section \<open>Fact collections\<close>

named_theorems go_simps \<open>how results of Go calls and nested maps compute\<close>
named_theorems model_defs \<open>definitions unfolded when a closed term is evaluated\<close>

section \<open>Integers\<close>

text \<open>
  Go's \<open>int32\<close>, \<open>uint64\<close> and \<open>byte\<close> are words. A process identifier is an \<open>int32\<close>
  (\<open>type ProcessId int32\<close>).
\<close>

type_synonym int32 = "32 word"
type_synonym uint64 = "64 word"
type_synonym byte = "8 word"
type_synonym ProcessId = int32

lemma unat_bound: "unat (w :: 'a::len word) < 2 ^ LENGTH('a)"
  by (rule unsigned_less)

text \<open>
  Go's \<open>int\<close> on a 64-bit machine, kept as \<open>int\<close> with the wrap-around written out, and its
  \<open>%\<close>, which truncates towards zero.
\<close>

definition i64 :: "int \<Rightarrow> int" where
  "i64 x = (x + 2 ^ 63) mod 2 ^ 64 - 2 ^ 63"

definition go_rem :: "int \<Rightarrow> int \<Rightarrow> int" where
  "go_rem a b = sgn a * (\<bar>a\<bar> mod \<bar>b\<bar>)"

definition go_quot :: "int \<Rightarrow> int \<Rightarrow> int" where
  "go_quot a b = sgn a * sgn b * (\<bar>a\<bar> div \<bar>b\<bar>)"

lemma i64_id [simp]: "- (2 ^ 63) \<le> x \<Longrightarrow> x < 2 ^ 63 \<Longrightarrow> i64 x = x"
  by (simp add: i64_def)

lemma go_rem_pos [simp]: "0 \<le> a \<Longrightarrow> 0 < b \<Longrightarrow> go_rem a b = a mod b"
  by (cases "a = 0") (simp_all add: go_rem_def)

lemma go_quot_pos [simp]: "0 \<le> a \<Longrightarrow> 0 < b \<Longrightarrow> go_quot a b = a div b"
  by (cases "a = 0") (simp_all add: go_quot_def)

lemma go_rem_bounds:
  assumes "0 < b"
  shows "- b < go_rem a b \<and> go_rem a b < b"
proof -
  have "\<bar>a\<bar> mod b < b" "0 \<le> \<bar>a\<bar> mod b" using assms by simp_all
  moreover have "go_rem a b = \<bar>a\<bar> mod b \<or> go_rem a b = - (\<bar>a\<bar> mod b)"
    using assms by (auto simp: go_rem_def sgn_if)
  ultimately show ?thesis using assms by linarith
qed

lemma go_rem_cong:
  assumes "0 < b"
  shows "go_rem a b mod b = a mod b"
proof (cases "0 \<le> a")
  case False
  then have "go_rem a b mod b = (- ((- a) mod b)) mod b"
    using assms by (simp add: go_rem_def)
  also have "\<dots> = a mod b" by (simp add: mod_minus_eq)
  finally show ?thesis .
qed (use assms in simp)

section \<open>Abnormal endings\<close>

text \<open>
  A Go call ends normally, panics, or stops the process through \<open>log.Fatal\<close>. A panic is not
  recovered anywhere in the program, so each of these ends the process.
\<close>

datatype failure =
    NilMapAssign      \<comment> \<open>assignment to an entry of a nil map\<close>
  | NilDereference    \<comment> \<open>field access through a nil pointer\<close>
  | IndexOutOfRange
  | LengthOutOfRange  \<comment> \<open>\<open>make\<close> of a slice of negative length\<close>
  | DivideByZero
  | FatalExit         \<comment> \<open>\<open>log.Fatal\<close>\<close>
  | Diverges          \<comment> \<open>the call never returns\<close>

type_synonym 'a go = "failure + 'a"

fun go_bind :: "'a go \<Rightarrow> ('a \<Rightarrow> 'b go) \<Rightarrow> 'b go" where
  "go_bind (Inl e) f = Inl e"
| "go_bind (Inr x) f = f x"

fun go_ok :: "'a go \<Rightarrow> bool" where
  "go_ok (Inl e) = False"
| "go_ok (Inr x) = True"

lemma go_bind_Inr [go_simps]: "go_bind m f = Inr y \<longleftrightarrow> (\<exists>x. m = Inr x \<and> f x = Inr y)"
  by (cases m) auto

lemma go_bind_Inl [go_simps]:
  "go_bind m f = Inl e \<longleftrightarrow> m = Inl e \<or> (\<exists>x. m = Inr x \<and> f x = Inl e)"
  by (cases m) auto

lemma go_bindE:
  assumes "go_bind m f = Inr y"
  obtains x where "m = Inr x" "f x = Inr y"
  using assms by (cases m) auto

lemma go_ok_iff: "go_ok m \<longleftrightarrow> (\<exists>x. m = Inr x)"
  by (cases m) auto

text \<open>Slice indexing panics out of range; a negative index is out of range too.\<close>

definition go_index :: "'a list \<Rightarrow> int \<Rightarrow> 'a go" where
  "go_index xs i = (if 0 \<le> i \<and> i < int (length xs) then Inr (xs ! nat i) else Inl IndexOutOfRange)"

lemma go_index_Inr [go_simps]:
  "go_index xs i = Inr x \<longleftrightarrow> 0 \<le> i \<and> i < int (length xs) \<and> x = xs ! nat i"
  by (auto simp: go_index_def)

lemma go_index_nat: "k < length xs \<Longrightarrow> go_index xs (int k) = Inr (xs ! k)"
  by (simp add: go_index_def)

text \<open>Reading a field through a pointer that may be nil.\<close>

definition go_deref :: "'a option \<Rightarrow> 'a go" where
  "go_deref q = (case q of None \<Rightarrow> Inl NilDereference | Some x \<Rightarrow> Inr x)"

text \<open>
  A loop over a list whose body may fail: the results in order, or the first failure.
\<close>

fun go_map :: "('a \<Rightarrow> 'b go) \<Rightarrow> 'a list \<Rightarrow> 'b list go" where
  "go_map f [] = Inr []"
| "go_map f (x # xs) = go_bind (f x) (\<lambda>y. go_bind (go_map f xs) (\<lambda>ys. Inr (y # ys)))"

lemma go_map_Inr_I: "(\<And>x. x \<in> set xs \<Longrightarrow> f x = Inr (g x)) \<Longrightarrow> go_map f xs = Inr (map g xs)"
  by (induction xs) auto

lemma go_map_length: "go_map f xs = Inr ys \<Longrightarrow> length ys = length xs"
  by (induction xs arbitrary: ys) (auto simp: go_simps)

fun go_fold :: "('s \<Rightarrow> 'a \<Rightarrow> 's go) \<Rightarrow> 's \<Rightarrow> 'a list \<Rightarrow> 's go" where
  "go_fold f s [] = Inr s"
| "go_fold f s (x # xs) = go_bind (f s x) (\<lambda>s'. go_fold f s' xs)"

lemma go_fold_append: "go_fold f s (xs @ ys) = go_bind (go_fold f s xs) (\<lambda>s'. go_fold f s' ys)"
proof (induction xs arbitrary: s)
  case (Cons x xs)
  then show ?case by (cases "f s x") simp_all
qed simp

text \<open>An invariant under which the body never fails carries over to the whole loop.\<close>

lemma go_fold_total:
  assumes "P s" and "\<And>s x. P s \<Longrightarrow> x \<in> set xs \<Longrightarrow> \<exists>s'. f s x = Inr s' \<and> P s'"
  shows "\<exists>s'. go_fold f s xs = Inr s' \<and> P s'"
  using assms
proof (induction xs arbitrary: s)
  case (Cons x xs)
  then obtain s1 where "f s x = Inr s1" "P s1" by (meson list.set_intros(1))
  with Cons show ?case by simp
qed simp

section \<open>Nested maps\<close>

text \<open>
  The protocols keep \<open>map[ProcessId]map[int32]X\<close>. Reading a missing outer key gives the nil
  map, which reads as empty; assigning to an entry of the nil map panics; deleting from it
  does nothing. \<open>poke2\<close> writes through a pointer that is known to be in the map.
\<close>

type_synonym 'v map2 = "int32 \<rightharpoonup> int32 \<rightharpoonup> 'v"

definition lookup2 :: "'v map2 \<Rightarrow> int32 \<Rightarrow> int32 \<Rightarrow> 'v option" where
  "lookup2 m a s = (case m a of None \<Rightarrow> None | Some inner \<Rightarrow> inner s)"

definition assign2 :: "'v map2 \<Rightarrow> int32 \<Rightarrow> int32 \<Rightarrow> 'v \<Rightarrow> 'v map2 go" where
  "assign2 m a s v = (case m a of None \<Rightarrow> Inl NilMapAssign | Some inner \<Rightarrow> Inr (m(a \<mapsto> inner(s \<mapsto> v))))"

definition delete2 :: "'v map2 \<Rightarrow> int32 \<Rightarrow> int32 \<Rightarrow> 'v map2" where
  "delete2 m a s = (case m a of None \<Rightarrow> m | Some inner \<Rightarrow> m(a \<mapsto> inner(s := None)))"

definition poke2 :: "'v map2 \<Rightarrow> int32 \<Rightarrow> int32 \<Rightarrow> 'v \<Rightarrow> 'v map2" where
  "poke2 m a s v = (case lookup2 m a s of None \<Rightarrow> m | Some _ \<Rightarrow>
     (case m a of None \<Rightarrow> m | Some inner \<Rightarrow> m(a \<mapsto> inner(s \<mapsto> v))))"

text \<open>The processes \<open>ProcessId(0), \<dots>, ProcessId(n-1)\<close> and the maps the constructors build for them.\<close>

definition procs :: "nat \<Rightarrow> ProcessId list" where
  "procs n = map of_nat [0..<n]"

definition make_maps :: "nat \<Rightarrow> 'v map2" where
  "make_maps n = fold (\<lambda>index m. m(of_nat index \<mapsto> Map.empty)) [0..<n] Map.empty"

lemma fold_make: "fold (\<lambda>i m. m(f i \<mapsto> c)) is m0 a = (if a \<in> f ` set is then Some c else m0 a)"
  by (induction "is" arbitrary: m0) auto

lemma make_maps_apply: "make_maps n a = (if a \<in> set (procs n) then Some Map.empty else None)"
  by (simp add: make_maps_def procs_def fold_make)

lemma dom_make_maps [simp]: "dom (make_maps n) = set (procs n)"
  by (auto simp: make_maps_apply dom_def)

lemma lookup2_make_maps [simp]: "lookup2 (make_maps n) a s = None"
  by (simp add: lookup2_def make_maps_apply)

lemma assign2_Inr [go_simps]:
  "assign2 m a s v = Inr m' \<longleftrightarrow> (\<exists>inner. m a = Some inner \<and> m' = m(a \<mapsto> inner(s \<mapsto> v)))"
  by (auto simp: assign2_def split: option.splits)

lemma assign2_Inl [go_simps]: "assign2 m a s v = Inl e \<longleftrightarrow> a \<notin> dom m \<and> e = NilMapAssign"
  by (auto simp: assign2_def split: option.splits)

lemma assign2_lookup:
  "assign2 m a s v = Inr m' \<Longrightarrow>
   lookup2 m' a' s' = (if a' = a \<and> s' = s then Some v else lookup2 m a' s')"
  by (auto simp: go_simps lookup2_def)

lemma assign2_dom: "assign2 m a s v = Inr m' \<Longrightarrow> dom m' = dom m"
  by (auto simp: go_simps dom_def split: if_splits)

lemma assign2_ok: "a \<in> dom m \<Longrightarrow> \<exists>m'. assign2 m a s v = Inr m'"
  by (auto simp: assign2_def)

lemma lookup2_delete2 [simp]:
  "lookup2 (delete2 m a s) a' s' = (if a' = a \<and> s' = s then None else lookup2 m a' s')"
  by (auto simp: lookup2_def delete2_def split: option.splits)

lemma dom_delete2 [simp]: "dom (delete2 m a s) = dom m"
  by (auto simp: delete2_def split: option.splits)

lemma lookup2_poke2 [simp]:
  "lookup2 (poke2 m a s v) a' s' =
     (if a' = a \<and> s' = s \<and> lookup2 m a s \<noteq> None then Some v else lookup2 m a' s')"
  by (auto simp: lookup2_def poke2_def split: option.splits)

lemma dom_poke2 [simp]: "dom (poke2 m a s v) = dom m"
  by (auto simp: poke2_def split: option.splits)

lemma lookup2_dom: "lookup2 m a s = Some v \<Longrightarrow> a \<in> dom m"
  by (auto simp: lookup2_def split: option.splits)

section \<open>Counting processes\<close>

lemma set_procs: "set (procs n) = of_nat ` {..<n}"
  by (auto simp: procs_def atLeast0LessThan)

lemma length_procs [simp]: "length (procs n) = n"
  by (simp add: procs_def)

lemma card_procs_le: "card (set (procs n)) \<le> n"
  by (metis card_length length_procs)

lemma distinct_procs:
  assumes "n \<le> 2 ^ 32"
  shows "distinct (procs n)"
proof -
  have "inj_on (of_nat :: nat \<Rightarrow> int32) {0..<n}"
  proof (rule inj_onI)
    fix i j :: nat
    assume ij: "i \<in> {0..<n}" "j \<in> {0..<n}" and "(of_nat i :: int32) = of_nat j"
    then have "unat (of_nat i :: int32) = unat (of_nat j :: int32)" by simp
    moreover have "unat (of_nat k :: int32) = k" if "k < n" for k
      using that assms by (simp add: unat_of_nat take_bit_nat_eq_self)
    ultimately show "i = j" using ij by simp
  qed
  then show ?thesis by (simp add: procs_def distinct_map)
qed

lemma card_procs: "n \<le> 2 ^ 32 \<Longrightarrow> card (set (procs n)) = n"
  using distinct_card[OF distinct_procs] by fastforce

lemma card_Int_ge:
  assumes "finite P" "A \<subseteq> P" "B \<subseteq> P" "card P \<le> n"
  shows "card A + card B \<le> n + card (A \<inter> B)"
proof -
  have fin: "finite A" "finite B" using assms finite_subset by auto
  have "card (A \<union> B) \<le> n" using assms card_mono[of P "A \<union> B"] by simp
  with card_Un_Int[OF fin] show ?thesis by simp
qed

lemma card_exceeds: "finite B \<Longrightarrow> card B < card A \<Longrightarrow> \<exists>x. x \<in> A \<and> x \<notin> B"
  by (meson card_mono not_le subsetI)

end
