(* ===== verification/Messages.thy ===== *)
theory Messages
  imports Prelude
begin

text \<open>
  The messages of \<open>impl/messages\<close>: the types the generated \<open>messages.pb.go\<close> declares and the
  hand-written helpers of \<open>helpers.go\<close>. A message pointer that the wire format allows to be
  absent is an \<open>option\<close>. A proto3 enum is open: a number outside the declared ones is kept
  (constructor \<open>\<dots>_OTHER\<close>) and matches no case of a Go \<open>switch\<close>. The wire encoding itself is
  third-party code and not defined here.
\<close>

section \<open>Enums\<close>

datatype BrachaProtocolMessage_Stage =
  Bracha_INITIAL | Bracha_ECHO | Bracha_READY | Bracha_OTHER int32

datatype ConsistentProtocolMessage_Stage =
  Consistent_ECHO | Consistent_VERIFY | Consistent_OTHER int32

datatype ReliableProtocolMessage_Stage =
    Reliable_NOTIFY | Reliable_ECHO_FROM_WITNESS | Reliable_ECHO_FROM_PROCESS
  | Reliable_READY_FROM_WITNESS | Reliable_READY_FROM_PROCESS | Reliable_VALIDATE
  | Reliable_OTHER int32

datatype CommitmentProtocolMessage_Stage =
  Commitment_REVEAL | Commitment_DONE | Commitment_FAILED | Commitment_OTHER int32

datatype RecoveryProtocolMessage_Stage =
  Recovery_RECOVER | Recovery_REPLY | Recovery_ECHO | Recovery_READY | Recovery_OTHER int32

datatype ScalableProtocolMessage_Stage =
    Scalable_GOSSIP | Scalable_GOSSIP_SUBSCRIBE | Scalable_ECHO | Scalable_ECHO_SUBSCRIBE
  | Scalable_READY | Scalable_READY_SUBSCRIBE | Scalable_OTHER int32

section \<open>Messages\<close>

record Broadcast_msg =
  Value :: int32
  XHash :: int32

record Ack_msg =
  AckSender :: int32
  AckStamp :: int32

record BroadcastInstance =
  Author :: int32
  SeqNumber :: int32

lemma BroadcastInstance_cong:
  fixes b b' :: BroadcastInstance
  shows "b = b' \<longleftrightarrow> Author b = Author b' \<and> SeqNumber b = SeqNumber b'"
  by (auto intro: BroadcastInstance.equality)

record BrachaProtocolMessage =
  BrachaStage :: BrachaProtocolMessage_Stage
  BrachaValue :: int32

record ConsistentProtocolMessage =
  ConsistentStage :: ConsistentProtocolMessage_Stage
  ConsistentValue :: int32

record ReliableProtocolMessage =
  ReliableStage :: ReliableProtocolMessage_Stage
  BroadcastMessage :: "Broadcast_msg option"
  EncryptedShares :: "byte list list"

record CommitmentProtocolMessage =
  CommitmentStage :: CommitmentProtocolMessage_Stage
  DecryptedShare :: "byte list"
  X :: "int32 list"

record RecoveryProtocolMessage =
  RecoveryStage :: RecoveryProtocolMessage_Stage
  RecoveryReliableMessage :: "ReliableProtocolMessage option"

record ScalableProtocolMessage =
  ScalableStage :: ScalableProtocolMessage_Stage
  ScalableValue :: int32

text \<open>The two \<open>oneof\<close> groups. \<open>Unset\<close> is the nil interface value: no field of the group is set.\<close>

datatype BroadcastInstanceMessage_Message =
    UnsetMessage
  | BrachaMessage BrachaProtocolMessage
  | ConsistentMessage ConsistentProtocolMessage
  | ReliableMessage ReliableProtocolMessage
  | CommitmentMessage CommitmentProtocolMessage
  | RecoveryMessage RecoveryProtocolMessage
  | ScalableMessage ScalableProtocolMessage

record BroadcastInstanceMessage =
  BroadcastInstance_of :: "BroadcastInstance option"
  Message_of :: BroadcastInstanceMessage_Message

datatype Message_Content =
    UnsetContent
  | StartedContent
  | SimulateContent
  | BroadcastInstanceContent BroadcastInstanceMessage
  | AckContent Ack_msg
  | BroadcastContent Broadcast_msg

record Message =
  Sender :: int32
  Stamp :: int32
  RetransmissionStamp :: int32
  Content :: Message_Content

section \<open>Enum numbers\<close>

text \<open>
  The numbers of the two enums whose stages drive \<open>switch\<close> statements of the protocols without
  witnesses. Decoding a number and encoding it again is the identity on every \<open>int32\<close>.
\<close>

definition bracha_stage_of :: "int32 \<Rightarrow> BrachaProtocolMessage_Stage" where
  "bracha_stage_of k =
     (if k = 0 then Bracha_INITIAL else if k = 1 then Bracha_ECHO else if k = 2 then Bracha_READY
      else Bracha_OTHER k)"

fun bracha_stage_number :: "BrachaProtocolMessage_Stage \<Rightarrow> int32" where
  "bracha_stage_number Bracha_INITIAL = 0"
| "bracha_stage_number Bracha_ECHO = 1"
| "bracha_stage_number Bracha_READY = 2"
| "bracha_stage_number (Bracha_OTHER k) = k"

lemma bracha_stage_roundtrip: "bracha_stage_number (bracha_stage_of k) = k"
  by (simp add: bracha_stage_of_def)

definition scalable_stage_of :: "int32 \<Rightarrow> ScalableProtocolMessage_Stage" where
  "scalable_stage_of k =
     (if k = 0 then Scalable_GOSSIP else if k = 1 then Scalable_GOSSIP_SUBSCRIBE
      else if k = 2 then Scalable_ECHO else if k = 3 then Scalable_ECHO_SUBSCRIBE
      else if k = 4 then Scalable_READY else if k = 5 then Scalable_READY_SUBSCRIBE
      else Scalable_OTHER k)"

section \<open>Copies\<close>

text \<open>The \<open>Copy\<close> methods of \<open>helpers.go\<close>: nil stays nil, and every field is copied.\<close>

fun BroadcastInstance_Copy :: "BroadcastInstance option \<Rightarrow> BroadcastInstance option" where
  "BroadcastInstance_Copy None = None"
| "BroadcastInstance_Copy (Some b) = Some \<lparr>Author = Author b, SeqNumber = SeqNumber b\<rparr>"

fun Broadcast_Copy :: "Broadcast_msg option \<Rightarrow> Broadcast_msg option" where
  "Broadcast_Copy None = None"
| "Broadcast_Copy (Some m) = Some \<lparr>Value = Value m, XHash = XHash m\<rparr>"

fun BrachaProtocolMessage_Copy :: "BrachaProtocolMessage option \<Rightarrow> BrachaProtocolMessage option" where
  "BrachaProtocolMessage_Copy None = None"
| "BrachaProtocolMessage_Copy (Some m) =
     Some \<lparr>BrachaStage = BrachaStage m, BrachaValue = BrachaValue m\<rparr>"

fun ConsistentProtocolMessage_Copy ::
  "ConsistentProtocolMessage option \<Rightarrow> ConsistentProtocolMessage option" where
  "ConsistentProtocolMessage_Copy None = None"
| "ConsistentProtocolMessage_Copy (Some m) =
     Some \<lparr>ConsistentStage = ConsistentStage m, ConsistentValue = ConsistentValue m\<rparr>"

fun ReliableProtocolMessage_Copy ::
  "ReliableProtocolMessage option \<Rightarrow> ReliableProtocolMessage option" where
  "ReliableProtocolMessage_Copy None = None"
| "ReliableProtocolMessage_Copy (Some m) =
     Some \<lparr>ReliableStage = ReliableStage m,
           BroadcastMessage = Broadcast_Copy (BroadcastMessage m),
           EncryptedShares = take (length (EncryptedShares m)) (EncryptedShares m)\<rparr>"

fun RecoveryProtocolMessage_Copy ::
  "RecoveryProtocolMessage option \<Rightarrow> RecoveryProtocolMessage option" where
  "RecoveryProtocolMessage_Copy None = None"
| "RecoveryProtocolMessage_Copy (Some m) =
     Some \<lparr>RecoveryStage = RecoveryStage m,
           RecoveryReliableMessage = ReliableProtocolMessage_Copy (RecoveryReliableMessage m)\<rparr>"

fun ScalableProtocolMessage_Copy ::
  "ScalableProtocolMessage option \<Rightarrow> ScalableProtocolMessage option" where
  "ScalableProtocolMessage_Copy None = None"
| "ScalableProtocolMessage_Copy (Some m) =
     Some \<lparr>ScalableStage = ScalableStage m, ScalableValue = ScalableValue m\<rparr>"

lemma BroadcastInstance_Copy_id [simp]: "BroadcastInstance_Copy b = b"
  by (cases b) simp_all

lemma Broadcast_Copy_id [simp]: "Broadcast_Copy m = m"
  by (cases m) simp_all

lemma BrachaProtocolMessage_Copy_id [simp]: "BrachaProtocolMessage_Copy m = m"
  by (cases m) simp_all

lemma ConsistentProtocolMessage_Copy_id [simp]: "ConsistentProtocolMessage_Copy m = m"
  by (cases m) simp_all

lemma ReliableProtocolMessage_Copy_id [simp]: "ReliableProtocolMessage_Copy m = m"
  by (cases m) simp_all

lemma RecoveryProtocolMessage_Copy_id [simp]: "RecoveryProtocolMessage_Copy m = m"
  by (cases m) simp_all

lemma ScalableProtocolMessage_Copy_id [simp]: "ScalableProtocolMessage_Copy m = m"
  by (cases m) simp_all

section \<open>Effects of a protocol step\<close>

text \<open>
  What a protocol step does outside its own state, in the order the code does it: it hands a
  message to the context (\<open>Send\<close>), writes an event to the log (\<open>Log\<close>), or signals on the
  channel \<open>ownDeliveredTransactions\<close> (\<open>OwnDelivered\<close>). The events are the calls of
  \<open>impl/eventlogger\<close> that the protocols make.
\<close>

datatype event =
    OnTransactionInit BroadcastInstance
  | OnWitnessSetSelected string BroadcastInstance "string list"
  | OnDeliver BroadcastInstance int32 nat
  | OnAttack BroadcastInstance int32 int32
  | OnHashMismatch int32 int32

datatype effect =
    Send int32 BroadcastInstanceMessage
  | Log event
  | OwnDelivered

text \<open>The messages among the effects, with their receivers, in order.\<close>

fun sends :: "effect list \<Rightarrow> (int32 \<times> BroadcastInstanceMessage) list" where
  "sends [] = []"
| "sends (Send to m # es) = (to, m) # sends es"
| "sends (Log e # es) = sends es"
| "sends (OwnDelivered # es) = sends es"

lemma sends_append [simp]: "sends (es @ es') = sends es @ sends es'"
  by (induction es rule: sends.induct) auto

lemma sends_map_Send [simp]: "sends (map (\<lambda>x. Send (f x) (g x)) xs) = map (\<lambda>x. (f x, g x)) xs"
  by (induction xs) auto

lemma sends_mem: "(to, m) \<in> set (sends es) \<longleftrightarrow> Send to m \<in> set es"
  by (induction es rule: sends.induct) auto

text \<open>The deliveries among the effects.\<close>

fun deliveries :: "effect list \<Rightarrow> (BroadcastInstance \<times> int32) list" where
  "deliveries [] = []"
| "deliveries (Log (OnDeliver b v k) # es) = (b, v) # deliveries es"
| "deliveries (_ # es) = deliveries es"

lemma deliveries_append [simp]: "deliveries (es @ es') = deliveries es @ deliveries es'"
  by (induction es rule: deliveries.induct) auto

lemma deliveries_map_Send [simp]: "deliveries (map (\<lambda>x. Send (f x) (g x)) xs) = []"
  by (induction xs) auto

end
