(* ===== verification/Process_Interface.thy ===== *)
theory Process_Interface
  imports Messages Complex_Main
begin

text \<open>
  \<open>impl/protocols/process.go\<close> and \<open>impl/parameters/parameters.go\<close>: the parameters a protocol is
  configured with, and the interface \<open>Process\<close> between a node and its protocol. Locale
  \<open>broadcast_process\<close> is the contract a node relies on: a delivered transaction stays
  delivered with its value, and every transaction is delivered at most once. Each protocol
  theory interprets it on its own \<open>HandleMessage\<close> and \<open>Broadcast\<close>.
\<close>

section \<open>Parameters\<close>

record Parameters =
  ProcessCount :: int
  FaultyProcesses :: int
  MinOwnWitnessSetSize_param :: int
  MinPotWitnessSetSize_param :: int
  OwnWitnessSetRadius_param :: real
  PotWitnessSetRadius_param :: real
  WitnessThreshold :: int
  RecoverySwitchTimeoutNs :: int
  NodeIdSize :: int
  NumberOfBins :: int
  GossipSampleSize :: int
  EchoSampleSize :: int
  EchoThreshold :: int
  ReadySampleSize :: int
  ReadyThreshold :: int
  DeliverySampleSize :: int
  DeliveryThreshold :: int
  CleanUpTimeout :: int

text \<open>
  \<open>float64(x)\<close> of a 64-bit integer: the nearest number with 53 significant bits, ties to even; the
  identity below \<open>2^53\<close>.
\<close>

definition f64 :: "int \<Rightarrow> int" where
  "f64 x = (let k = length (filter (\<lambda>k. 2 ^ (53 + k) \<le> \<bar>x\<bar>) [0..<11]); d = 2 ^ k;
       q = \<bar>x\<bar> div d; r = \<bar>x\<bar> mod d in
     sgn x * d * (if d < 2 * r \<or> d = 2 * r \<and> odd q then q + 1 else q))"

lemma f64_id [simp]:
  assumes "\<bar>x\<bar> < 2 ^ 53"
  shows "f64 x = x"
proof -
  have "\<not> 2 ^ (53 + k) \<le> \<bar>x\<bar>" for k :: nat
    using assms power_increasing[of 53 "53 + k" "2 :: int"] by linarith
  then have "filter (\<lambda>k. 2 ^ (53 + k) \<le> \<bar>x\<bar>) [0..<11] = []" by simp
  then show ?thesis by (simp add: f64_def Let_def mult_sgn_abs)
qed

text \<open>
  \<open>int(math.Ceil(y / float64(2)))\<close> of a whole \<open>float64\<close>: halving one is exact, and so is the ceiling.
\<close>

definition ceil_half :: "int \<Rightarrow> int" where
  "ceil_half x = - ((- x) div 2)"

lemma ceil_half_ceiling: "ceil_half x = \<lceil>real_of_int x / 2\<rceil>"
  using ceiling_divide_eq_div[of x 2, where ?'a = real] by (simp add: ceil_half_def)

lemma ceil_half_bounds: "x \<le> 2 * ceil_half x \<and> 2 * ceil_half x \<le> x + 1"
  by (simp add: ceil_half_def) linarith

section \<open>What two protocols set up alike\<close>

text \<open>The map from process names to indices: with equal names the later one stays.\<close>

definition pid_map :: "string list \<Rightarrow> string \<rightharpoonup> ProcessId" where
  "pid_map pids = fold (\<lambda>(i, pid) m. m(pid \<mapsto> of_nat i)) (enumerate 0 pids) Map.empty"

text \<open>
  \<open>uint(math.Pow(2, float64(e)))\<close>: exact below \<open>2^64\<close>; a fraction truncates to zero, and a larger
  power converts to zero on the supported 64-bit platform.
\<close>

definition uint_pow2 :: "int \<Rightarrow> nat" where
  "uint_pow2 e = (if 0 \<le> e \<and> e < 64 then 2 ^ nat e else 0)"

section \<open>Deliveries over a run\<close>

text \<open>
  \<open>delivery_step D es D'\<close>: the effects \<open>es\<close> deliver pairwise different transactions, none of them
  delivered before, and the delivered values change from \<open>D\<close> to \<open>D'\<close> by exactly these.
\<close>

definition delivery_step ::
  "(BroadcastInstance \<Rightarrow> int32 option) \<Rightarrow> effect list \<Rightarrow> (BroadcastInstance \<Rightarrow> int32 option) \<Rightarrow> bool"
  where
  "delivery_step D es D' \<longleftrightarrow>
     distinct (map fst (deliveries es)) \<and>
     list_all (\<lambda>(b, v). D b = None) (deliveries es) \<and>
     D' = D ++ map_of (deliveries es)"

lemma delivery_step_none: "deliveries es = [] \<Longrightarrow> delivery_step D es D"
  by (simp add: delivery_step_def)

lemma delivery_step_one:
  "deliveries es = [(b, v)] \<Longrightarrow> D b = None \<Longrightarrow> D' = D(b \<mapsto> v) \<Longrightarrow> delivery_step D es D'"
  by (simp add: delivery_step_def)

lemma delivery_step_trans:
  assumes "delivery_step D es D'" "delivery_step D' es' D''"
  shows "delivery_step D (es @ es') D''"
proof -
  have new: "D b = None \<and> b \<notin> fst ` set (deliveries es)" if "(b, v) \<in> set (deliveries es')" for b v
  proof -
    have "(D ++ map_of (deliveries es)) b = None"
      using assms that by (auto simp: delivery_step_def list_all_iff)
    then show ?thesis by (auto simp: map_add_None map_of_eq_None_iff)
  qed
  then have disj: "fst ` set (deliveries es) \<inter> fst ` set (deliveries es') = {}" by force
  have "map_of (deliveries es') ++ map_of (deliveries es) = map_of (deliveries es) ++ map_of (deliveries es')"
    by (rule map_add_comm) (use disj in \<open>simp add: dom_map_of_conv_image_fst Int_commute\<close>)
  then show ?thesis
    using assms disj new by (auto simp: delivery_step_def list_all_iff map_add_assoc)
qed

text \<open>What \<open>delivery_step\<close> means for one transaction.\<close>

lemma delivery_step_stable: "delivery_step D es D' \<Longrightarrow> D b = Some v \<Longrightarrow> D' b = Some v"
  by (auto simp: delivery_step_def list_all_iff map_add_def split: option.splits dest: map_of_SomeD)

lemma delivery_step_value:
  "delivery_step D es D' \<Longrightarrow> (b, v) \<in> set (deliveries es) \<Longrightarrow> D' b = Some v"
  by (auto simp: delivery_step_def map_add_def)

section \<open>The interface\<close>

text \<open>What a node feeds to its protocol: a received message with its sender, or a request to broadcast.\<close>

datatype input = Received int32 BroadcastInstanceMessage | Request int32

fun run_inputs ::
  "('p \<Rightarrow> int32 \<Rightarrow> BroadcastInstanceMessage \<Rightarrow> ('p \<times> effect list) go) \<Rightarrow>
   ('p \<Rightarrow> int32 \<Rightarrow> ('p \<times> effect list) go) \<Rightarrow> 'p \<Rightarrow> input list \<Rightarrow> ('p \<times> effect list) go" where
  "run_inputs handle broadcast p [] = Inr (p, [])"
| "run_inputs handle broadcast p (i # is) =
     go_bind (case i of Received q m \<Rightarrow> handle p q m | Request v \<Rightarrow> broadcast p v) (\<lambda>(p', es).
     go_bind (run_inputs handle broadcast p' is) (\<lambda>(p'', es'). Inr (p'', es @ es')))"

locale broadcast_process =
  fixes handle :: "'p \<Rightarrow> int32 \<Rightarrow> BroadcastInstanceMessage \<Rightarrow> ('p \<times> effect list) go"
    and broadcast :: "'p \<Rightarrow> int32 \<Rightarrow> ('p \<times> effect list) go"
    and delivered_value :: "'p \<Rightarrow> BroadcastInstance \<Rightarrow> int32 option"
    and invar :: "'p \<Rightarrow> bool"
  assumes handle_ok: "invar p \<Longrightarrow> handle p q m = Inr (p', es) \<Longrightarrow>
      invar p' \<and> delivery_step (delivered_value p) es (delivered_value p')"
    and broadcast_ok: "invar p \<Longrightarrow> broadcast p v = Inr (p', es) \<Longrightarrow>
      invar p' \<and> delivery_step (delivered_value p) es (delivered_value p')"
begin

lemma run_ok:
  "invar p \<Longrightarrow> run_inputs handle broadcast p is = Inr (p', es) \<Longrightarrow>
   invar p' \<and> delivery_step (delivered_value p) es (delivered_value p')"
proof (induction "is" arbitrary: p es)
  case (Cons i "is")
  obtain p1 es1 es2 where one: "(case i of Received q m \<Rightarrow> handle p q m | Request v \<Rightarrow> broadcast p v) = Inr (p1, es1)"
    and rest: "run_inputs handle broadcast p1 is = Inr (p', es2)" and es: "es = es1 @ es2"
    using Cons.prems(2) by (auto simp: go_simps)
  have "invar p1 \<and> delivery_step (delivered_value p) es1 (delivered_value p1)"
    using one handle_ok[OF Cons.prems(1)] broadcast_ok[OF Cons.prems(1)] by (cases i) simp_all
  moreover from this have "invar p' \<and> delivery_step (delivered_value p1) es2 (delivered_value p')"
    using Cons.IH[OF _ rest] by simp
  ultimately show ?case unfolding es using delivery_step_trans by blast
qed (simp add: delivery_step_none)

text \<open>No duplication: over any run, whatever is received, a transaction is delivered at most once.\<close>

lemma run_delivers_once:
  "invar p \<Longrightarrow> run_inputs handle broadcast p is = Inr (p', es) \<Longrightarrow> distinct (map fst (deliveries es))"
  using run_ok by (auto simp: delivery_step_def)

lemma run_keeps_delivered:
  "invar p \<Longrightarrow> run_inputs handle broadcast p is = Inr (p', es) \<Longrightarrow>
   delivered_value p b = Some v \<Longrightarrow> delivered_value p' b = Some v"
  using run_ok delivery_step_stable by blast

end

end
