(* ===== verification/Votes.thy ===== *)
theory Votes
  imports Prelude
begin

text \<open>
  Counting votes. Every protocol of the program counts messages with the same pair of maps:
  a set of senders already heard (\<open>map[ProcessId]bool\<close>) and a count per value
  (\<open>map[int32]int\<close>), both updated only when the sender was not heard before. \<open>tally\<close> says
  what such a pair records: some assignment of one value to every sender heard, drawn from
  the messages that exist. Locale \<open>vote_box\<close> is the contract; the quorum locale below is
  what the thresholds promise.
\<close>

section \<open>Vote boxes\<close>

definition tally :: "(ProcessId \<Rightarrow> bool) \<Rightarrow> (int32 \<Rightarrow> nat) \<Rightarrow> (ProcessId \<times> int32) set \<Rightarrow> bool" where
  "tally heard counted S \<longleftrightarrow>
     (\<exists>g. (\<forall>x. heard x = (g x \<noteq> None)) \<and> (\<forall>v. counted v = card {x. g x = Some v}) \<and>
          (\<forall>x v. g x = Some v \<longrightarrow> (x, v) \<in> S))"

lemma tally_empty: "tally (\<lambda>_. False) (\<lambda>_. 0) S"
  by (auto simp: tally_def intro: exI[of _ "\<lambda>_. None"])

lemma tally_mono: "tally heard counted S \<Longrightarrow> S \<subseteq> S' \<Longrightarrow> tally heard counted S'"
  unfolding tally_def by (elim exE, rule_tac x = g in exI) (simp add: subset_iff)

lemma tally_vote:
  assumes t: "tally heard counted S" and new: "\<not> heard x" and sent: "(x, v) \<in> S"
  shows "tally (heard(x := True)) (counted(v := Suc (counted v))) S"
proof -
  obtain g where g: "\<And>x. heard x = (g x \<noteq> None)" "\<And>v. counted v = card {x. g x = Some v}"
    "\<And>x v. g x = Some v \<Longrightarrow> (x, v) \<in> S"
    using t unfolding tally_def by blast
  let ?g = "g(x \<mapsto> v)"
  have eq: "{y. ?g y = Some v} = insert x {y. g y = Some v}" by auto
  have other: "{y. ?g y = Some w} = {y. g y = Some w}" if "w \<noteq> v" for w
    using that new g(1)[of x] by auto
  have "x \<notin> {y. g y = Some v}" using new g(1)[of x] by auto
  then have "card {y. ?g y = Some v} = Suc (counted v)"
    unfolding eq by (simp add: g(2))
  then have c: "\<forall>w. (counted(v := Suc (counted v))) w = card {y. ?g y = Some w}"
    using other g(2) by simp
  have h: "\<forall>y. (heard(x := True)) y = (?g y \<noteq> None)" using g(1) by simp
  have s: "\<forall>y w. ?g y = Some w \<longrightarrow> (y, w) \<in> S" using g(3) sent by simp
  show ?thesis unfolding tally_def using h c s by (intro exI[of _ ?g] conjI)
qed

text \<open>A count never exceeds the number of senders that sent the value.\<close>

lemma tally_le:
  assumes "tally heard counted S"
  shows "counted v \<le> card {x. (x, v) \<in> S}"
proof -
  obtain g where "\<And>v. counted v = card {x. g x = Some v}" "\<And>x v. g x = Some v \<Longrightarrow> (x, v) \<in> S"
    using assms unfolding tally_def by blast
  then show ?thesis by (auto intro: card_mono)
qed

text \<open>A count is at least the number of senders heard that only ever sent the value.\<close>

lemma tally_ge:
  assumes t: "tally heard counted S" and A: "\<And>x. x \<in> A \<Longrightarrow> heard x"
    and only: "\<And>x w. x \<in> A \<Longrightarrow> (x, w) \<in> S \<Longrightarrow> w = v"
  shows "card A \<le> counted v"
proof -
  obtain g where g: "\<And>x. heard x = (g x \<noteq> None)" "\<And>v. counted v = card {x. g x = Some v}"
    "\<And>x v. g x = Some v \<Longrightarrow> (x, v) \<in> S"
    using t unfolding tally_def by blast
  have "A \<subseteq> {x. g x = Some v}"
  proof
    fix x assume x: "x \<in> A"
    then obtain w where "g x = Some w" using A g(1) by blast
    with x only g(3) show "x \<in> {x. g x = Some v}" by auto
  qed
  then show ?thesis by (simp add: g(2) card_mono)
qed

locale vote_box =
  fixes heard :: "'b \<Rightarrow> ProcessId \<Rightarrow> bool"
    and counted :: "'b \<Rightarrow> int32 \<Rightarrow> nat"
    and vote :: "ProcessId \<Rightarrow> int32 \<Rightarrow> 'b \<Rightarrow> 'b"
  assumes heard_vote: "\<not> heard b x \<Longrightarrow> heard (vote x v b) = (heard b)(x := True)"
    and count_vote: "\<not> heard b x \<Longrightarrow> counted (vote x v b) = (counted b)(v := Suc (counted b v))"
    and vote_again: "heard b x \<Longrightarrow> heard (vote x v b) = heard b \<and> counted (vote x v b) = counted b"
begin

definition votes :: "(ProcessId \<times> int32) list \<Rightarrow> 'b \<Rightarrow> 'b" where
  "votes ms b = fold (\<lambda>(x, v). vote x v) ms b"

lemma vote_tally:
  "tally (heard b) (counted b) S \<Longrightarrow> (x, v) \<in> S \<Longrightarrow> tally (heard (vote x v b)) (counted (vote x v b)) S"
  by (cases "heard b x") (auto simp: vote_again heard_vote count_vote tally_vote)

lemma votes_tally:
  "tally (heard b) (counted b) S \<Longrightarrow> set ms \<subseteq> S \<Longrightarrow>
   tally (heard (votes ms b)) (counted (votes ms b)) S"
  by (induction ms arbitrary: b) (auto simp: votes_def vote_tally)

text \<open>
  Whatever a faulty sender sends, and however often, an empty box that took the messages \<open>ms\<close>
  holds at most one vote per sender.
\<close>

lemma votes_count_le:
  assumes "tally (heard b) (counted b) {}"
  shows "counted (votes ms b) v \<le> card {x. (x, v) \<in> set ms}"
  by (rule tally_le) (rule votes_tally[OF tally_mono[OF assms]], auto)

end

section \<open>Quorums\<close>

text \<open>
  What the thresholds of a Byzantine protocol promise: any two echo quorums share more than
  \<open>f\<close> processes, and a ready quorum has more than \<open>f\<close>. A set of more than \<open>f\<close> processes then
  has one that is not faulty.
\<close>

locale byzantine_quorums =
  fixes echo_quorum :: "ProcessId set \<Rightarrow> bool"
    and ready_quorum :: "ProcessId set \<Rightarrow> bool"
    and f :: nat
  assumes echo_quorums_meet: "echo_quorum A \<Longrightarrow> echo_quorum B \<Longrightarrow> f < card (A \<inter> B)"
    and ready_quorum_large: "ready_quorum A \<Longrightarrow> f < card A"
begin

lemma correct_in_both:
  assumes "echo_quorum A" "echo_quorum B" "card F \<le> f"
  shows "\<exists>x. x \<in> A \<and> x \<in> B \<and> x \<notin> F"
proof -
  have "card F < card (A \<inter> B)" using echo_quorums_meet[OF assms(1,2)] assms(3) by simp
  then show ?thesis using card_exceeds[of F "A \<inter> B"] by auto
qed

lemma correct_in_echo_quorum: "echo_quorum A \<Longrightarrow> card F \<le> f \<Longrightarrow> \<exists>x. x \<in> A \<and> x \<notin> F"
  using correct_in_both[of A A F] by blast

lemma correct_in_ready_quorum: "ready_quorum A \<Longrightarrow> card F \<le> f \<Longrightarrow> \<exists>x. x \<in> A \<and> x \<notin> F"
  using ready_quorum_large[of A] card_exceeds[of F A] by auto

end

end
