(* ===== verification/Bracha.thy ===== *)
theory Bracha
  imports Process_Interface Votes
begin

text \<open>
  \<open>impl/protocols/bracha/process.go\<close>: Bracha's reliable broadcast, one process. The state of the
  process is a record with the source's fields; \<open>context\<close>, \<open>logger\<close> and the channel are the
  effects of Messages. \<open>msgState\<close> is a pointer into \<open>transactionsLog\<close>: the model works on the
  value and writes it back with \<open>poke2\<close>.
\<close>

section \<open>State\<close>

datatype br_Stage = Init | SentEcho | SentReady

record br_messageState =
  br_receivedEcho :: "ProcessId \<Rightarrow> bool"
  br_receivedReady :: "ProcessId \<Rightarrow> bool"
  br_echoCount :: "int32 \<Rightarrow> nat"
  br_readyCount :: "int32 \<Rightarrow> nat"
  br_stage :: br_Stage
  br_receivedMessagesCnt :: nat

definition br_newMessageState :: br_messageState where
  "br_newMessageState = \<lparr>br_receivedEcho = (\<lambda>_. False), br_receivedReady = (\<lambda>_. False),
     br_echoCount = (\<lambda>_. 0), br_readyCount = (\<lambda>_. 0), br_stage = Init, br_receivedMessagesCnt = 0\<rparr>"

record br_Process =
  br_processIndex :: int32
  br_transactionCounter :: int32
  br_deliveredTransactions :: "int32 map2"
  br_transactionsLog :: "br_messageState map2"
  br_n :: nat
  br_messagesForEcho :: int
  br_messagesForReady :: int
  br_messagesForDelivery :: int
  br_sendOwnDeliveredTransactions :: bool

text \<open>
  The thresholds are sums of Go's 64-bit \<open>int\<close>, which wrap, and the first goes through \<open>float64\<close>.
  \<open>FaultyProcesses\<close> is an entry of the configuration file that nothing checks.
\<close>

definition br_InitProcess :: "int32 \<Rightarrow> string list \<Rightarrow> Parameters \<Rightarrow> bool \<Rightarrow> br_Process" where
  "br_InitProcess processIndex actorPids parameters sendOwn =
     (let n = length actorPids; f = FaultyProcesses parameters in
      \<lparr>br_processIndex = processIndex, br_transactionCounter = 0,
       br_deliveredTransactions = make_maps n, br_transactionsLog = make_maps n, br_n = n,
       br_messagesForEcho = ceil_half (f64 (i64 (int n + f + 1))), br_messagesForReady = i64 (f + 1),
       br_messagesForDelivery = i64 (2 * f + 1), br_sendOwnDeliveredTransactions = sendOwn\<rparr>)"

section \<open>Operations\<close>

definition br_initMessageState :: "br_Process \<Rightarrow> BroadcastInstance \<Rightarrow> (br_Process \<times> br_messageState) go" where
  "br_initMessageState p b =
     (case lookup2 (br_transactionsLog p) (Author b) (SeqNumber b) of
        Some ms \<Rightarrow> Inr (p, ms)
      | None \<Rightarrow> go_bind (assign2 (br_transactionsLog p) (Author b) (SeqNumber b) br_newMessageState)
          (\<lambda>lg. Inr (p\<lparr>br_transactionsLog := lg\<rparr>, br_newMessageState)))"

definition br_sendProtocolMessage ::
  "ProcessId \<Rightarrow> BroadcastInstance \<Rightarrow> BrachaProtocolMessage \<Rightarrow> effect" where
  "br_sendProtocolMessage to b m =
     Send to \<lparr>BroadcastInstance_of = Some b,
       Message_of = (case BrachaProtocolMessage_Copy (Some m) of
         Some c \<Rightarrow> BrachaMessage c | None \<Rightarrow> UnsetMessage)\<rparr>"

definition br_broadcast :: "br_Process \<Rightarrow> BroadcastInstance \<Rightarrow> BrachaProtocolMessage \<Rightarrow> effect list" where
  "br_broadcast p b m = map (\<lambda>i. br_sendProtocolMessage (of_nat i) b m) [0..<br_n p]"

definition br_broadcastEcho ::
  "br_Process \<Rightarrow> BroadcastInstance \<Rightarrow> int32 \<Rightarrow> br_messageState \<Rightarrow> br_messageState \<times> effect list" where
  "br_broadcastEcho p b v ms =
     (ms\<lparr>br_stage := SentEcho\<rparr>, br_broadcast p b \<lparr>BrachaStage = Bracha_ECHO, BrachaValue = v\<rparr>)"

definition br_broadcastReady ::
  "br_Process \<Rightarrow> BroadcastInstance \<Rightarrow> int32 \<Rightarrow> br_messageState \<Rightarrow> br_messageState \<times> effect list" where
  "br_broadcastReady p b v ms =
     (ms\<lparr>br_stage := SentReady\<rparr>, br_broadcast p b \<lparr>BrachaStage = Bracha_READY, BrachaValue = v\<rparr>)"

text \<open>\<open>delivered\<close>: whether the instance is delivered, and the log entry for a conflicting value.\<close>

definition br_delivered :: "br_Process \<Rightarrow> BroadcastInstance \<Rightarrow> int32 \<Rightarrow> bool \<times> effect list" where
  "br_delivered p b v =
     (case lookup2 (br_deliveredTransactions p) (Author b) (SeqNumber b) of
        None \<Rightarrow> (False, [])
      | Some w \<Rightarrow> (True, if w \<noteq> v then [Log (OnAttack b v w)] else []))"

definition br_deliver ::
  "br_Process \<Rightarrow> BroadcastInstance \<Rightarrow> int32 \<Rightarrow> (br_Process \<times> effect list) go" where
  "br_deliver p b v =
     go_bind (assign2 (br_deliveredTransactions p) (Author b) (SeqNumber b) v) (\<lambda>dm.
     case lookup2 (br_transactionsLog p) (Author b) (SeqNumber b) of
       None \<Rightarrow> Inl NilDereference
     | Some ms \<Rightarrow>
         Inr (p\<lparr>br_deliveredTransactions := dm,
                br_transactionsLog := delete2 (br_transactionsLog p) (Author b) (SeqNumber b)\<rparr>,
              (if br_sendOwnDeliveredTransactions p \<and> Author b = br_processIndex p then [OwnDelivered] else [])
              @ [Log (OnDeliver b v (br_receivedMessagesCnt ms))]))"

text \<open>The two consecutive \<open>if\<close>s that the ECHO and the READY case share.\<close>

definition br_advance ::
  "br_Process \<Rightarrow> BroadcastInstance \<Rightarrow> int32 \<Rightarrow> br_messageState \<Rightarrow> br_messageState \<times> effect list" where
  "br_advance p b v ms =
     (let (ms1, es1) = (if br_stage ms = Init then br_broadcastEcho p b v ms else (ms, []));
          (ms2, es2) = (if br_stage ms1 = SentEcho then br_broadcastReady p b v ms1 else (ms1, []))
      in (ms2, es1 @ es2))"

text \<open>Writing back through the pointer \<open>msgState\<close>.\<close>

definition br_store :: "br_Process \<Rightarrow> BroadcastInstance \<Rightarrow> br_messageState \<Rightarrow> br_Process" where
  "br_store p b ms =
     p\<lparr>br_transactionsLog := poke2 (br_transactionsLog p) (Author b) (SeqNumber b) ms\<rparr>"

definition br_onInitial ::
  "br_Process \<Rightarrow> BroadcastInstance \<Rightarrow> int32 \<Rightarrow> br_messageState \<Rightarrow> (br_Process \<times> effect list) go" where
  "br_onInitial p b v ms =
     (let (ms', es) = (if br_stage ms = Init then br_broadcastEcho p b v ms else (ms, []))
      in Inr (br_store p b ms', es))"

definition br_onEcho ::
  "br_Process \<Rightarrow> ProcessId \<Rightarrow> BroadcastInstance \<Rightarrow> int32 \<Rightarrow> br_messageState \<Rightarrow> (br_Process \<times> effect list) go" where
  "br_onEcho p sender b v ms =
     (if br_stage ms = SentReady \<or> br_receivedEcho ms sender then Inr (br_store p b ms, [])
      else let ms1 = ms\<lparr>br_receivedEcho := (br_receivedEcho ms)(sender := True),
                       br_echoCount := (br_echoCount ms)(v := Suc (br_echoCount ms v))\<rparr>;
               (ms2, es) = (if int (br_echoCount ms1 v) \<ge> br_messagesForEcho p
                            then br_advance p b v ms1 else (ms1, []))
           in Inr (br_store p b ms2, es))"

definition br_onReady ::
  "br_Process \<Rightarrow> ProcessId \<Rightarrow> BroadcastInstance \<Rightarrow> int32 \<Rightarrow> br_messageState \<Rightarrow> (br_Process \<times> effect list) go" where
  "br_onReady p sender b v ms =
     (if br_receivedReady ms sender then Inr (br_store p b ms, [])
      else let ms1 = ms\<lparr>br_receivedReady := (br_receivedReady ms)(sender := True),
                       br_readyCount := (br_readyCount ms)(v := Suc (br_readyCount ms v))\<rparr>;
               (ms2, es) = (if int (br_readyCount ms1 v) \<ge> br_messagesForReady p
                            then br_advance p b v ms1 else (ms1, []));
               p' = br_store p b ms2
           in if int (br_readyCount ms2 v) \<ge> br_messagesForDelivery p
              then go_bind (br_deliver p' b v) (\<lambda>(p'', es'). Inr (p'', es @ es'))
              else Inr (p', es))"

definition br_processProtocolMessage ::
  "br_Process \<Rightarrow> ProcessId \<Rightarrow> BroadcastInstance \<Rightarrow> BrachaProtocolMessage \<Rightarrow> (br_Process \<times> effect list) go" where
  "br_processProtocolMessage p sender b m =
     (let v = BrachaValue m; (delivered, es) = br_delivered p b v in
      if delivered then Inr (p, es)
      else go_bind (br_initMessageState p b) (\<lambda>(p1, ms0).
        let ms = ms0\<lparr>br_receivedMessagesCnt := Suc (br_receivedMessagesCnt ms0)\<rparr> in
        case BrachaStage m of
          Bracha_INITIAL \<Rightarrow> br_onInitial p1 b v ms
        | Bracha_ECHO \<Rightarrow> br_onEcho p1 sender b v ms
        | Bracha_READY \<Rightarrow> br_onReady p1 sender b v ms
        | Bracha_OTHER _ \<Rightarrow> Inr (br_store p1 b ms, [])))"

definition br_HandleMessage ::
  "br_Process \<Rightarrow> int32 \<Rightarrow> BroadcastInstanceMessage \<Rightarrow> (br_Process \<times> effect list) go" where
  "br_HandleMessage p sender bm =
     (case Message_of bm of
        BrachaMessage m \<Rightarrow>
          (case BroadcastInstance_of bm of
             None \<Rightarrow> Inl NilDereference
           | Some b \<Rightarrow> br_processProtocolMessage p sender b m)
      | _ \<Rightarrow> Inl FatalExit)"

definition br_Broadcast :: "br_Process \<Rightarrow> int32 \<Rightarrow> (br_Process \<times> effect list) go" where
  "br_Broadcast p v =
     (let b = \<lparr>Author = br_processIndex p, SeqNumber = br_transactionCounter p\<rparr> in
      Inr (p\<lparr>br_transactionCounter := br_transactionCounter p + 1\<rparr>,
           br_broadcast p b \<lparr>BrachaStage = Bracha_INITIAL, BrachaValue = v\<rparr> @ [Log (OnTransactionInit b)]))"

section \<open>One instance as an automaton\<close>

text \<open>
  What a step does to one broadcast instance, without maps and pointers: the new message state
  and whether the step broadcasts an ECHO, broadcasts a READY, and delivers. The lemmas below
  show that the handler implements it and touches nothing else.
\<close>

definition br_react ::
  "br_Process \<Rightarrow> BrachaProtocolMessage_Stage \<Rightarrow> ProcessId \<Rightarrow> int32 \<Rightarrow> br_messageState \<Rightarrow>
   br_messageState \<times> bool \<times> bool \<times> bool" where
  "br_react p st q v ms =
     (case st of
        Bracha_INITIAL \<Rightarrow>
          if br_stage ms = Init then (ms\<lparr>br_stage := SentEcho\<rparr>, True, False, False)
          else (ms, False, False, False)
      | Bracha_ECHO \<Rightarrow>
          if br_stage ms = SentReady \<or> br_receivedEcho ms q then (ms, False, False, False)
          else let ms1 = ms\<lparr>br_receivedEcho := (br_receivedEcho ms)(q := True),
                 br_echoCount := (br_echoCount ms)(v := Suc (br_echoCount ms v))\<rparr> in
            if int (br_echoCount ms1 v) \<ge> br_messagesForEcho p
            then (ms1\<lparr>br_stage := SentReady\<rparr>, br_stage ms = Init, True, False)
            else (ms1, False, False, False)
      | Bracha_READY \<Rightarrow>
          if br_receivedReady ms q then (ms, False, False, False)
          else let ms1 = ms\<lparr>br_receivedReady := (br_receivedReady ms)(q := True),
                 br_readyCount := (br_readyCount ms)(v := Suc (br_readyCount ms v))\<rparr>;
                 enough = int (br_readyCount ms1 v) \<ge> br_messagesForReady p in
            (if enough then ms1\<lparr>br_stage := SentReady\<rparr> else ms1,
             enough \<and> br_stage ms = Init, enough \<and> br_stage ms \<noteq> SentReady,
             int (br_readyCount ms1 v) \<ge> br_messagesForDelivery p)
      | Bracha_OTHER _ \<Rightarrow> (ms, False, False, False))"

definition br_value :: "br_Process \<Rightarrow> BroadcastInstance \<Rightarrow> int32 option" where
  "br_value p b = lookup2 (br_deliveredTransactions p) (Author b) (SeqNumber b)"

definition br_state :: "br_Process \<Rightarrow> BroadcastInstance \<Rightarrow> br_messageState option" where
  "br_state p b = lookup2 (br_transactionsLog p) (Author b) (SeqNumber b)"

definition br_wf :: "br_Process \<Rightarrow> bool" where
  "br_wf p \<longleftrightarrow> dom (br_deliveredTransactions p) = set (procs (br_n p)) \<and>
     dom (br_transactionsLog p) = set (procs (br_n p))"

text \<open>The fields no step writes.\<close>

definition br_config :: "br_Process \<Rightarrow> int32 \<times> nat \<times> int \<times> int \<times> int \<times> bool" where
  "br_config p = (br_processIndex p, br_n p, br_messagesForEcho p, br_messagesForReady p,
     br_messagesForDelivery p, br_sendOwnDeliveredTransactions p)"

definition br_msg :: "BroadcastInstance \<Rightarrow> BrachaProtocolMessage_Stage \<Rightarrow> int32 \<Rightarrow> BroadcastInstanceMessage" where
  "br_msg b st v = \<lparr>BroadcastInstance_of = Some b,
     Message_of = BrachaMessage \<lparr>BrachaStage = st, BrachaValue = v\<rparr>\<rparr>"

lemma br_msg_inject [simp]: "br_msg b st v = br_msg b' st' v' \<longleftrightarrow> b = b' \<and> st = st' \<and> v = v'"
  by (auto simp: br_msg_def)

definition br_to_all :: "br_Process \<Rightarrow> BroadcastInstanceMessage \<Rightarrow> (int32 \<times> BroadcastInstanceMessage) list" where
  "br_to_all p m = map (\<lambda>x. (x, m)) (procs (br_n p))"

lemma br_broadcast_sends [simp]:
  "sends (br_broadcast p b \<lparr>BrachaStage = st, BrachaValue = v\<rparr>) = br_to_all p (br_msg b st v)"
  by (simp add: br_broadcast_def br_sendProtocolMessage_def br_to_all_def br_msg_def procs_def)

lemma br_broadcast_deliveries [simp]: "deliveries (br_broadcast p b m) = []"
  by (simp add: br_broadcast_def br_sendProtocolMessage_def)

text \<open>A delivered instance is left alone; a conflicting value is logged as an attack.\<close>

lemma br_process_delivered:
  assumes "br_value p b = Some w"
  shows "br_processProtocolMessage p q b m =
    Inr (p, if w \<noteq> BrachaValue m then [Log (OnAttack b (BrachaValue m) w)] else [])"
  using assms by (simp add: br_processProtocolMessage_def br_delivered_def br_value_def)

text \<open>An author outside the system makes the handler assign to a nil map.\<close>

lemma br_process_panic:
  assumes "br_wf p" "Author b \<notin> set (procs (br_n p))"
  shows "br_processProtocolMessage p q b m = Inl NilMapAssign"
proof -
  have "br_deliveredTransactions p (Author b) = None" "br_transactionsLog p (Author b) = None"
    using assms by (auto simp: br_wf_def)
  then show ?thesis
    by (simp add: br_processProtocolMessage_def br_delivered_def br_initMessageState_def
        lookup2_def assign2_def)
qed

text \<open>Otherwise the handler returns, and does what the automaton says.\<close>

definition br_entry :: "br_Process \<Rightarrow> BroadcastInstance \<Rightarrow> br_messageState" where
  "br_entry p b = (case br_state p b of None \<Rightarrow> br_newMessageState | Some ms \<Rightarrow> ms)"

definition br_implements ::
  "br_Process \<Rightarrow> BroadcastInstance \<Rightarrow> int32 \<Rightarrow> br_messageState \<times> bool \<times> bool \<times> bool \<Rightarrow>
   br_Process \<Rightarrow> effect list \<Rightarrow> bool" where
  "br_implements p b v r p' es \<longleftrightarrow>
     (case r of (ms, echo, ready, done) \<Rightarrow>
        br_wf p' \<and> br_config p' = br_config p \<and> br_transactionCounter p' = br_transactionCounter p \<and>
        br_value p' = (if done then (br_value p)(b \<mapsto> v) else br_value p) \<and>
        br_state p' = (br_state p)(b := if done then None else Some ms) \<and>
        sends es = (if echo then br_to_all p (br_msg b Bracha_ECHO v) else []) @
                   (if ready then br_to_all p (br_msg b Bracha_READY v) else []) \<and>
        deliveries es = (if done then [(b, v)] else []))"

lemma br_init_ok:
  assumes "br_wf p" "Author b \<in> set (procs (br_n p))"
  shows "\<exists>p1. br_initMessageState p b = Inr (p1, br_entry p b) \<and> br_wf p1 \<and>
    br_config p1 = br_config p \<and> br_transactionCounter p1 = br_transactionCounter p \<and>
    br_value p1 = br_value p \<and> br_state p1 = (br_state p)(b \<mapsto> br_entry p b)"
proof (cases "br_state p b")
  case None
  then obtain lg where lg: "assign2 (br_transactionsLog p) (Author b) (SeqNumber b) br_newMessageState = Inr lg"
    using assign2_ok[of "Author b" "br_transactionsLog p"] assms by (metis br_wf_def)
  then show ?thesis
    using None assms assign2_dom[OF lg] assign2_lookup[OF lg]
    by (auto simp: br_initMessageState_def br_state_def br_entry_def br_wf_def br_config_def br_value_def
        fun_eq_iff BroadcastInstance_cong)
next
  case (Some ms)
  then show ?thesis using assms
    by (auto simp: br_initMessageState_def br_state_def br_entry_def fun_upd_idem_iff fun_eq_iff)
qed

lemma br_store_views [simp]:
  "br_value (br_store p b ms) = br_value p"
  "br_config (br_store p b ms) = br_config p"
  "br_transactionCounter (br_store p b ms) = br_transactionCounter p"
  "br_wf (br_store p b ms) = br_wf p"
  "br_n (br_store p b ms) = br_n p"
  "br_messagesForDelivery (br_store p b ms) = br_messagesForDelivery p"
  by (simp_all add: br_store_def br_value_def br_config_def br_wf_def fun_eq_iff)

lemma br_store_state:
  "br_state p b \<noteq> None \<Longrightarrow> br_state (br_store p b ms) = (br_state p)(b \<mapsto> ms)"
  by (auto simp: br_store_def br_state_def fun_eq_iff BroadcastInstance_cong)

lemma br_deliver_ok:
  assumes "br_wf p" "Author b \<in> set (procs (br_n p))" "br_state p b = Some ms"
  shows "\<exists>p' es. br_deliver p b v = Inr (p', es) \<and> br_wf p' \<and> br_config p' = br_config p \<and>
    br_transactionCounter p' = br_transactionCounter p \<and> br_value p' = (br_value p)(b \<mapsto> v) \<and>
    br_state p' = (br_state p)(b := None) \<and> sends es = [] \<and> deliveries es = [(b, v)]"
proof -
  obtain dm where dm: "assign2 (br_deliveredTransactions p) (Author b) (SeqNumber b) v = Inr dm"
    using assign2_ok assms by (metis br_wf_def)
  show ?thesis
    using assms assign2_dom[OF dm] assign2_lookup[OF dm]
    by (simp add: br_deliver_def dm br_state_def br_wf_def br_config_def br_value_def fun_eq_iff
        BroadcastInstance_cong)
qed

lemma br_advance_eq:
  "br_advance p b v ms = (ms\<lparr>br_stage := SentReady\<rparr>,
     (if br_stage ms = Init then br_broadcast p b \<lparr>BrachaStage = Bracha_ECHO, BrachaValue = v\<rparr> else []) @
     (if br_stage ms \<noteq> SentReady then br_broadcast p b \<lparr>BrachaStage = Bracha_READY, BrachaValue = v\<rparr> else []))"
  by (cases "br_stage ms") (simp_all add: br_advance_def br_broadcastEcho_def br_broadcastReady_def)

text \<open>\<open>p1\<close> is \<open>p\<close> with the message state of \<open>b\<close> in place.\<close>

definition br_entered :: "br_Process \<Rightarrow> BroadcastInstance \<Rightarrow> br_Process \<Rightarrow> bool" where
  "br_entered p b p1 \<longleftrightarrow> br_wf p1 \<and> br_config p1 = br_config p \<and>
     br_transactionCounter p1 = br_transactionCounter p \<and> br_value p1 = br_value p \<and>
     br_state p1 = (br_state p)(b \<mapsto> br_entry p b)"

lemma br_entered_cfg:
  assumes "br_entered p b p1"
  shows "br_n p1 = br_n p" "br_messagesForEcho p1 = br_messagesForEcho p"
    "br_messagesForReady p1 = br_messagesForReady p" "br_messagesForDelivery p1 = br_messagesForDelivery p"
    "br_to_all p1 m = br_to_all p m"
  using assms by (auto simp: br_entered_def br_config_def br_to_all_def)

lemma br_entered_store:
  assumes "br_entered p b p1"
  shows "br_state (br_store p1 b ms) = (br_state p)(b \<mapsto> ms)" "br_wf p1"
    "br_config p1 = br_config p" "br_transactionCounter p1 = br_transactionCounter p"
    "br_value p1 = br_value p"
  using assms br_store_state[of p1 b ms] by (auto simp: br_entered_def)

lemmas br_entered_simps = br_entered_cfg br_entered_store

lemma br_onInitial_ok:
  assumes "br_entered p b p1"
  shows "\<exists>p' es. br_onInitial p1 b v ms = Inr (p', es) \<and>
    br_implements p b v (br_react p Bracha_INITIAL q v ms) p' es"
  using br_entered_simps[OF assms]
  by (simp add: br_onInitial_def br_broadcastEcho_def br_react_def br_implements_def)

lemma br_onEcho_ok:
  assumes "br_entered p b p1"
  shows "\<exists>p' es. br_onEcho p1 q b v ms = Inr (p', es) \<and>
    br_implements p b v (br_react p Bracha_ECHO q v ms) p' es"
  using br_entered_simps[OF assms]
  by (simp add: br_onEcho_def br_advance_eq br_react_def br_implements_def Let_def)

lemma br_onReady_ok:
  assumes e: "br_entered p b p1" and a: "Author b \<in> set (procs (br_n p))"
  shows "\<exists>p' es. br_onReady p1 q b v ms = Inr (p', es) \<and>
    br_implements p b v (br_react p Bracha_READY q v ms) p' es"
proof (cases "br_receivedReady ms q")
  case True
  then show ?thesis using br_entered_simps[OF e]
    by (simp add: br_onReady_def br_react_def br_implements_def)
next
  case False
  define ms1 where "ms1 = ms\<lparr>br_receivedReady := (br_receivedReady ms)(q := True),
    br_readyCount := (br_readyCount ms)(v := Suc (br_readyCount ms v))\<rparr>"
  define ms2 where "ms2 = (if int (br_readyCount ms1 v) \<ge> br_messagesForReady p
    then ms1\<lparr>br_stage := SentReady\<rparr> else ms1)"
  define es where "es = (if int (br_readyCount ms1 v) \<ge> br_messagesForReady p
    then snd (br_advance p1 b v ms1) else [])"
  note cfg = br_entered_simps[OF e]
  have on: "br_onReady p1 q b v ms =
    (if int (br_readyCount ms1 v) \<ge> br_messagesForDelivery p
     then go_bind (br_deliver (br_store p1 b ms2) b v) (\<lambda>(p'', es'). Inr (p'', es @ es'))
     else Inr (br_store p1 b ms2, es))"
    using False by (simp add: br_onReady_def cfg br_advance_eq ms1_def ms2_def es_def)
  have re: "br_react p Bracha_READY q v ms = (ms2,
      int (br_readyCount ms1 v) \<ge> br_messagesForReady p \<and> br_stage ms = Init,
      int (br_readyCount ms1 v) \<ge> br_messagesForReady p \<and> br_stage ms \<noteq> SentReady,
      int (br_readyCount ms1 v) \<ge> br_messagesForDelivery p)"
    using False by (simp add: br_react_def ms1_def ms2_def Let_def)
  have stage: "br_stage ms1 = br_stage ms" by (simp add: ms1_def)
  have es: "sends es =
      (if int (br_readyCount ms1 v) \<ge> br_messagesForReady p \<and> br_stage ms = Init
       then br_to_all p (br_msg b Bracha_ECHO v) else []) @
      (if int (br_readyCount ms1 v) \<ge> br_messagesForReady p \<and> br_stage ms \<noteq> SentReady
       then br_to_all p (br_msg b Bracha_READY v) else [])" "deliveries es = []"
    by (simp_all add: es_def br_advance_eq stage cfg)
  obtain p' es' where "br_deliver (br_store p1 b ms2) b v = Inr (p', es')" "br_wf p'"
    "br_config p' = br_config p" "br_transactionCounter p' = br_transactionCounter p"
    "br_value p' = (br_value p)(b \<mapsto> v)" "br_state p' = (br_state p)(b := None)"
    "sends es' = []" "deliveries es' = [(b, v)]"
    using br_deliver_ok[of "br_store p1 b ms2" b ms2 v] cfg a by auto
  then show ?thesis
    by (cases "int (br_readyCount ms1 v) \<ge> br_messagesForDelivery p")
      (simp_all add: on re br_implements_def es cfg del: of_nat_Suc)
qed

lemma br_process_ok:
  assumes wf: "br_wf p" and a: "Author b \<in> set (procs (br_n p))" and nd: "br_value p b = None"
  shows "\<exists>p' es. br_processProtocolMessage p q b \<lparr>BrachaStage = st, BrachaValue = v\<rparr> = Inr (p', es) \<and>
    br_implements p b v (br_react p st q v ((br_entry p b)
      \<lparr>br_receivedMessagesCnt := Suc (br_receivedMessagesCnt (br_entry p b))\<rparr>)) p' es"
proof -
  let ?ms = "(br_entry p b)\<lparr>br_receivedMessagesCnt := Suc (br_receivedMessagesCnt (br_entry p b))\<rparr>"
  obtain p1 where init: "br_initMessageState p b = Inr (p1, br_entry p b)" and e: "br_entered p b p1"
    using br_init_ok[OF wf a] unfolding br_entered_def by blast
  have "br_processProtocolMessage p q b \<lparr>BrachaStage = st, BrachaValue = v\<rparr> =
    (case st of Bracha_INITIAL \<Rightarrow> br_onInitial p1 b v ?ms | Bracha_ECHO \<Rightarrow> br_onEcho p1 q b v ?ms
     | Bracha_READY \<Rightarrow> br_onReady p1 q b v ?ms | Bracha_OTHER _ \<Rightarrow> Inr (br_store p1 b ?ms, []))"
    using nd init by (simp add: br_processProtocolMessage_def br_delivered_def br_value_def Let_def)
  then show ?thesis
    using br_onInitial_ok[OF e, of v ?ms q] br_onEcho_ok[OF e, of q v ?ms] br_onReady_ok[OF e a, of q v ?ms]
      br_entered_simps[OF e]
    by (cases st) (simp_all add: br_react_def br_implements_def)
qed

section \<open>The handlers\<close>

lemma br_msg_eq:
  "BroadcastInstance_of bm = Some b \<Longrightarrow> Message_of bm = BrachaMessage m \<Longrightarrow>
   bm = br_msg b (BrachaStage m) (BrachaValue m)"
  by (simp add: br_msg_def)

lemma br_HandleMessage_msg:
  "br_HandleMessage p q (br_msg b st v) =
   br_processProtocolMessage p q b \<lparr>BrachaStage = st, BrachaValue = v\<rparr>"
  by (simp add: br_HandleMessage_def br_msg_def)

lemma br_HandleMessage_only_bracha:
  assumes "br_HandleMessage p q bm = Inr r"
  shows "\<exists>b st v. bm = br_msg b st v"
proof -
  obtain m b where "Message_of bm = BrachaMessage m" "BroadcastInstance_of bm = Some b"
    using assms by (auto simp: br_HandleMessage_def split: BroadcastInstanceMessage_Message.splits option.splits)
  then show ?thesis by (metis br_msg_eq)
qed

lemma br_handle_cases:
  assumes wf: "br_wf p" and h: "br_HandleMessage p q bm = Inr (p', es)"
  obtains (delivered) b st v w where "bm = br_msg b st v" "br_value p b = Some w" "p' = p"
      "sends es = []" "deliveries es = []"
  | (react) b st v where "bm = br_msg b st v" "br_value p b = None"
      "Author b \<in> set (procs (br_n p))"
      "br_implements p b v (br_react p st q v ((br_entry p b)
        \<lparr>br_receivedMessagesCnt := Suc (br_receivedMessagesCnt (br_entry p b))\<rparr>)) p' es"
proof -
  obtain b st v where bm: "bm = br_msg b st v" using br_HandleMessage_only_bracha[OF h] by blast
  let ?m = "\<lparr>BrachaStage = st, BrachaValue = v\<rparr>"
  have pr: "br_processProtocolMessage p q b ?m = Inr (p', es)"
    using h bm by (simp add: br_HandleMessage_msg)
  show ?thesis
  proof (cases "br_value p b")
    case (Some w)
    have "p' = p \<and> sends es = [] \<and> deliveries es = []"
      using pr br_process_delivered[OF Some, of q ?m] by (auto split: if_splits)
    then show ?thesis using delivered[OF bm Some] by simp
  next
    case None
    have a: "Author b \<in> set (procs (br_n p))" using br_process_panic[OF wf, of b q ?m] pr by auto
    show ?thesis using react[OF bm None a] br_process_ok[OF wf a None, of q st v] pr by auto
  qed
qed

lemma br_implements_step:
  "br_value p b = None \<Longrightarrow> br_implements p b v r p' es \<Longrightarrow>
   br_wf p' \<and> delivery_step (br_value p) es (br_value p')"
  by (auto simp: br_implements_def delivery_step_def fun_eq_iff map_add_def split: prod.splits if_splits)

lemma br_Broadcast_eq:
  assumes "br_Broadcast p v = Inr (p', es)"
  shows "br_config p' = br_config p" "br_wf p' = br_wf p" "br_value p' = br_value p"
    "br_state p' = br_state p" "deliveries es = []"
    "sends es = br_to_all p (br_msg \<lparr>Author = br_processIndex p, SeqNumber = br_transactionCounter p\<rparr>
       Bracha_INITIAL v)"
proof -
  let ?b = "\<lparr>Author = br_processIndex p, SeqNumber = br_transactionCounter p\<rparr>"
  have "p' = p\<lparr>br_transactionCounter := br_transactionCounter p + 1\<rparr>"
    "es = br_broadcast p ?b \<lparr>BrachaStage = Bracha_INITIAL, BrachaValue = v\<rparr> @ [Log (OnTransactionInit ?b)]"
    using assms by (simp_all add: br_Broadcast_def Let_def)
  then show "br_config p' = br_config p" "br_wf p' = br_wf p" "br_value p' = br_value p"
    "br_state p' = br_state p" "deliveries es = []"
    "sends es = br_to_all p (br_msg ?b Bracha_INITIAL v)"
    by (simp_all add: br_config_def br_wf_def br_value_def br_state_def fun_eq_iff)
qed

interpretation bracha: broadcast_process br_HandleMessage br_Broadcast br_value br_wf
proof unfold_locales
  fix p p' :: br_Process and q v m es
  assume wf: "br_wf p"
  show "br_wf p' \<and> delivery_step (br_value p) es (br_value p')" if "br_HandleMessage p q m = Inr (p', es)"
    using wf that by (rule br_handle_cases) (use wf br_implements_step in \<open>auto simp: delivery_step_none\<close>)
  show "br_wf p' \<and> delivery_step (br_value p) es (br_value p')" if "br_Broadcast p v = Inr (p', es)"
    using wf br_Broadcast_eq[OF that] by (simp add: delivery_step_none)
qed

text \<open>The ECHO and the READY votes of a message state are vote boxes.\<close>

definition br_vote_echo :: "ProcessId \<Rightarrow> int32 \<Rightarrow> br_messageState \<Rightarrow> br_messageState" where
  "br_vote_echo q v ms = (if br_receivedEcho ms q then ms
     else ms\<lparr>br_receivedEcho := (br_receivedEcho ms)(q := True),
             br_echoCount := (br_echoCount ms)(v := Suc (br_echoCount ms v))\<rparr>)"

definition br_vote_ready :: "ProcessId \<Rightarrow> int32 \<Rightarrow> br_messageState \<Rightarrow> br_messageState" where
  "br_vote_ready q v ms = (if br_receivedReady ms q then ms
     else ms\<lparr>br_receivedReady := (br_receivedReady ms)(q := True),
             br_readyCount := (br_readyCount ms)(v := Suc (br_readyCount ms v))\<rparr>)"

interpretation echo_box: vote_box br_receivedEcho br_echoCount br_vote_echo
  by unfold_locales (simp_all add: br_vote_echo_def)

interpretation ready_box: vote_box br_receivedReady br_readyCount br_vote_ready
  by unfold_locales (simp_all add: br_vote_ready_def)

text \<open>What \<open>br_react\<close> does to the two boxes.\<close>

lemma br_react_boxes:
  assumes "br_react p st q v ms = (ms', e, r, d)"
  shows "br_receivedEcho ms' = br_receivedEcho (if st = Bracha_ECHO \<and> br_stage ms \<noteq> SentReady
      then br_vote_echo q v ms else ms)"
    "br_echoCount ms' = br_echoCount (if st = Bracha_ECHO \<and> br_stage ms \<noteq> SentReady
      then br_vote_echo q v ms else ms)"
    "br_receivedReady ms' = br_receivedReady (if st = Bracha_READY then br_vote_ready q v ms else ms)"
    "br_readyCount ms' = br_readyCount (if st = Bracha_READY then br_vote_ready q v ms else ms)"
  using assms
  by (auto simp: br_react_def br_vote_echo_def br_vote_ready_def Let_def
      split: BrachaProtocolMessage_Stage.splits if_splits)

text \<open>
  What it broadcasts, and why: an ECHO needs an INITIAL or a quorum of votes and moves the stage
  away from \<open>Init\<close>; a READY needs a quorum of votes and moves it to \<open>SentReady\<close>.
\<close>

lemma br_react_echo:
  assumes "br_react p st q v ms = (ms', True, r, d)"
  shows "br_stage ms = Init \<and> br_stage ms' \<noteq> Init \<and> (st = Bracha_INITIAL \<or>
      st = Bracha_ECHO \<and> br_messagesForEcho p \<le> int (br_echoCount ms' v) \<or>
      st = Bracha_READY \<and> br_messagesForReady p \<le> int (br_readyCount ms' v))"
  using assms by (auto simp: br_react_def Let_def split: BrachaProtocolMessage_Stage.splits if_splits)

lemma br_react_ready:
  assumes "br_react p st q v ms = (ms', e, True, d)"
  shows "br_stage ms \<noteq> SentReady \<and> br_stage ms' = SentReady \<and> (br_stage ms = Init \<longleftrightarrow> e) \<and>
      (st = Bracha_ECHO \<and> br_messagesForEcho p \<le> int (br_echoCount ms' v) \<or>
       st = Bracha_READY \<and> br_messagesForReady p \<le> int (br_readyCount ms' v))"
  using assms by (auto simp: br_react_def Let_def split: BrachaProtocolMessage_Stage.splits if_splits)

lemma br_react_stage:
  assumes "br_react p st q v ms = (ms', e, r, d)"
  shows "br_stage ms' = (if r then SentReady else if e then SentEcho else br_stage ms)"
  using assms by (auto simp: br_react_def Let_def split: BrachaProtocolMessage_Stage.splits if_splits)

lemma br_react_deliver:
  assumes "br_react p st q v ms = (ms', e, r, d)"
  shows "d \<longleftrightarrow> st = Bracha_READY \<and> \<not> br_receivedReady ms q \<and> br_messagesForDelivery p \<le> int (br_readyCount ms' v)"
  using assms by (auto simp: br_react_def Let_def split: BrachaProtocolMessage_Stage.splits if_splits)

text \<open>Votes that reach a threshold move the stage.\<close>

lemma br_react_threshold:
  assumes "br_react p st q v ms = (ms', e, r, d)"
  shows "st = Bracha_INITIAL \<Longrightarrow> br_stage ms' \<noteq> Init"
    "st = Bracha_ECHO \<Longrightarrow> br_stage ms' = SentReady \<or> br_receivedEcho ms' q"
    "st = Bracha_READY \<Longrightarrow> br_receivedReady ms' q"
    "(\<forall>w. br_messagesForEcho p \<le> int (br_echoCount ms w) \<longrightarrow> br_stage ms = SentReady) \<Longrightarrow>
     br_messagesForEcho p \<le> int (br_echoCount ms' w) \<Longrightarrow> br_stage ms' = SentReady"
    "(\<forall>w. br_messagesForReady p \<le> int (br_readyCount ms w) \<longrightarrow> br_stage ms = SentReady) \<Longrightarrow>
     br_messagesForReady p \<le> int (br_readyCount ms' w) \<Longrightarrow> br_stage ms' = SentReady"
    "(\<forall>w. int (br_readyCount ms w) < br_messagesForDelivery p) \<Longrightarrow> \<not> d \<Longrightarrow>
     int (br_readyCount ms' w) < br_messagesForDelivery p"
  using assms
  by (auto simp: br_react_def Let_def split: BrachaProtocolMessage_Stage.splits if_splits)

end
