(* ===== verification/Quorums.thy ===== *)
theory Quorums
  imports Process_Interface Votes
begin

text \<open>
  The thresholds the protocols configure, as quorums of \<open>n\<close> processes of which \<open>f\<close> may be faulty:
  \<open>echo_majority\<close> is the threshold \<open>ceil((n + f + 1) / 2)\<close> of Bracha's echoes and of the reliable
  protocol's READY_FROM_PROCESS messages, \<open>ready_majority\<close> the threshold \<open>f + 1\<close>.
\<close>

definition echo_majority :: "nat \<Rightarrow> nat \<Rightarrow> ProcessId set \<Rightarrow> bool" where
  "echo_majority n f A \<longleftrightarrow> A \<subseteq> set (procs n) \<and> ceil_half (int n + int f + 1) \<le> int (card A)"

definition ready_majority :: "nat \<Rightarrow> ProcessId set \<Rightarrow> bool" where
  "ready_majority f A \<longleftrightarrow> int f + 1 \<le> int (card A)"

interpretation quorums: byzantine_quorums "echo_majority n f" "ready_majority f" f for n f
proof unfold_locales
  fix A B assume "echo_majority n f A" "echo_majority n f B"
  then have A: "A \<subseteq> set (procs n)" "int n + int f + 1 \<le> 2 * int (card A)"
    and B: "B \<subseteq> set (procs n)" "int n + int f + 1 \<le> 2 * int (card B)"
    using ceil_half_bounds[of "int n + int f + 1"] by (auto simp: echo_majority_def)
  show "f < card (A \<inter> B)"
    using card_Int_ge[OF _ A(1) B(1) card_procs_le] A(2) B(2) by simp
qed (simp add: ready_majority_def)

lemma echo_majority_mono:
  "echo_majority n f A \<Longrightarrow> A \<subseteq> B \<Longrightarrow> B \<subseteq> set (procs n) \<Longrightarrow> echo_majority n f B"
  using card_mono[of B A] finite_subset[of B "set (procs n)"] by (auto simp: echo_majority_def)

end
