(* ===== verification/Bracha_Network.thy ===== *)
theory Bracha_Network
  imports Bracha Quorums
begin

text \<open>
  Bracha's protocol as a distributed system: the processes of one run, the messages they have
  handed to the network, and an adversary. A message on the wire may be received any number of
  times, in any order, or never, so loss, duplication and reordering are all included. A faulty
  process puts arbitrary messages on the wire under its own identifier (the identifier that
  \<open>MakeNewMessage\<close> stamps; the code does not authenticate it, so this is the assumption the
  protocol is built on). A correct process runs \<open>HandleMessage\<close> and \<open>Broadcast\<close>.
\<close>

section \<open>The system\<close>

type_synonym packet = "ProcessId \<times> ProcessId \<times> BroadcastInstanceMessage"

record br_net =
  br_nodes :: "ProcessId \<Rightarrow> br_Process"
  br_wire :: "packet list"
  br_recvd :: "packet list"   \<comment> \<open>what correct processes have handled so far\<close>

definition br_net_init :: "string list \<Rightarrow> Parameters \<Rightarrow> bool \<Rightarrow> br_net" where
  "br_net_init pids ps own =
     \<lparr>br_nodes = (\<lambda>x. br_InitProcess x pids ps own), br_wire = [], br_recvd = []\<rparr>"

definition br_correct :: "string list \<Rightarrow> ProcessId set \<Rightarrow> ProcessId set" where
  "br_correct pids F = set (procs (length pids)) - F"

definition br_post :: "br_net \<Rightarrow> ProcessId \<Rightarrow> br_Process \<Rightarrow> effect list \<Rightarrow> packet list \<Rightarrow> br_net" where
  "br_post s x p es rs = s\<lparr>br_nodes := (br_nodes s)(x := p),
     br_wire := br_wire s @ map (\<lambda>(y, m). (x, y, m)) (sends es), br_recvd := br_recvd s @ rs\<rparr>"

inductive br_step :: "string list \<Rightarrow> ProcessId set \<Rightarrow> br_net \<Rightarrow> br_net \<Rightarrow> bool" for pids F where
  receive: "x \<in> br_correct pids F \<Longrightarrow> (q, x, m) \<in> set (br_wire s) \<Longrightarrow>
     br_HandleMessage (br_nodes s x) q m = Inr (p', es) \<Longrightarrow>
     br_step pids F s (br_post s x p' es [(q, x, m)])"
| request: "x \<in> br_correct pids F \<Longrightarrow> br_Broadcast (br_nodes s x) v = Inr (p', es) \<Longrightarrow>
     br_step pids F s (br_post s x p' es [])"
| fault: "q \<in> F \<Longrightarrow> br_step pids F s (s\<lparr>br_wire := br_wire s @ [(q, y, m)]\<rparr>)"

inductive br_reachable :: "string list \<Rightarrow> Parameters \<Rightarrow> bool \<Rightarrow> ProcessId set \<Rightarrow> br_net \<Rightarrow> bool"
  for pids ps own F where
  start: "br_reachable pids ps own F (br_net_init pids ps own)"
| step: "br_reachable pids ps own F s \<Longrightarrow> br_step pids F s s' \<Longrightarrow> br_reachable pids ps own F s'"

text \<open>The state of instance \<open>b\<close> at process \<open>x\<close>, and what \<open>x\<close> has said about it.\<close>

abbreviation br_at :: "br_net \<Rightarrow> ProcessId \<Rightarrow> BroadcastInstance \<Rightarrow> int32 option" where
  "br_at s x b \<equiv> br_value (br_nodes s x) b"

definition br_said ::
  "packet set \<Rightarrow> ProcessId \<Rightarrow> BroadcastInstance \<Rightarrow> BrachaProtocolMessage_Stage \<Rightarrow> int32 \<Rightarrow> bool" where
  "br_said W x b st v \<longleftrightarrow> (\<exists>y. (x, y, br_msg b st v) \<in> W)"

lemma br_said_mono: "W \<subseteq> W' \<Longrightarrow> br_said W x b st v \<Longrightarrow> br_said W' x b st v"
  by (auto simp: br_said_def)

section \<open>Invariants of one instance at one process\<close>

text \<open>
  \<open>D\<close> is the delivered value, \<open>ms\<close> the message state, \<open>W\<close> the wire. What the process has said
  follows its stage, and it never says two different things.
\<close>

definition br_sent_ok ::
  "ProcessId \<Rightarrow> BroadcastInstance \<Rightarrow> int32 option \<Rightarrow> br_messageState \<Rightarrow> packet set \<Rightarrow> bool" where
  "br_sent_ok x b D ms W \<longleftrightarrow>
     (D = None \<longrightarrow> br_stage ms = Init \<longrightarrow> (\<forall>v. \<not> br_said W x b Bracha_ECHO v)) \<and>
     (D = None \<longrightarrow> br_stage ms \<noteq> SentReady \<longrightarrow> (\<forall>v. \<not> br_said W x b Bracha_READY v)) \<and>
     (\<forall>v w. br_said W x b Bracha_ECHO v \<longrightarrow> br_said W x b Bracha_ECHO w \<longrightarrow> v = w) \<and>
     (\<forall>v w. br_said W x b Bracha_READY v \<longrightarrow> br_said W x b Bracha_READY w \<longrightarrow> v = w) \<and>
     (D \<noteq> None \<or> br_stage ms \<noteq> Init \<longrightarrow> (\<exists>v. br_said W x b Bracha_ECHO v)) \<and>
     (D \<noteq> None \<or> br_stage ms = SentReady \<longrightarrow> (\<exists>v. br_said W x b Bracha_READY v))"

text \<open>The counts are tallies of messages on the wire, and thresholds that are reached have acted.\<close>

definition br_votes_ok ::
  "br_Process \<Rightarrow> ProcessId \<Rightarrow> BroadcastInstance \<Rightarrow> int32 option \<Rightarrow> br_messageState \<Rightarrow> packet set \<Rightarrow> bool" where
  "br_votes_ok p x b D ms W \<longleftrightarrow>
     tally (br_receivedEcho ms) (br_echoCount ms) {(q, v). (q, x, br_msg b Bracha_ECHO v) \<in> W} \<and>
     tally (br_receivedReady ms) (br_readyCount ms) {(q, v). (q, x, br_msg b Bracha_READY v) \<in> W} \<and>
     (D = None \<longrightarrow> (\<forall>w. br_messagesForEcho p \<le> int (br_echoCount ms w) \<longrightarrow> br_stage ms = SentReady)) \<and>
     (D = None \<longrightarrow> (\<forall>w. br_messagesForReady p \<le> int (br_readyCount ms w) \<longrightarrow> br_stage ms = SentReady)) \<and>
     (D = None \<longrightarrow> (\<forall>w. int (br_readyCount ms w) < br_messagesForDelivery p)) \<and>
     (\<forall>v. D = Some v \<longrightarrow> br_messagesForDelivery p \<le> int (card {q. (q, x, br_msg b Bracha_READY v) \<in> W}))"

text \<open>What was received (\<open>R\<close>) has been counted.\<close>

definition br_received_ok ::
  "ProcessId \<Rightarrow> BroadcastInstance \<Rightarrow> int32 option \<Rightarrow> br_messageState \<Rightarrow> packet set \<Rightarrow> bool" where
  "br_received_ok x b D ms R \<longleftrightarrow>
     (\<forall>q v. (q, x, br_msg b Bracha_INITIAL v) \<in> R \<longrightarrow> D \<noteq> None \<or> br_stage ms \<noteq> Init) \<and>
     (\<forall>q v. (q, x, br_msg b Bracha_ECHO v) \<in> R \<longrightarrow>
        D \<noteq> None \<or> br_stage ms = SentReady \<or> br_receivedEcho ms q) \<and>
     (\<forall>q v. (q, x, br_msg b Bracha_READY v) \<in> R \<longrightarrow> D \<noteq> None \<or> br_receivedReady ms q)"

lemmas br_local_defs = br_sent_ok_def br_votes_ok_def br_received_ok_def

lemma br_local_start:
  assumes "0 < br_messagesForEcho p" "0 < br_messagesForReady p" "0 < br_messagesForDelivery p"
  shows "br_sent_ok x b None br_newMessageState {}" "br_votes_ok p x b None br_newMessageState {}"
    "br_received_ok x b None br_newMessageState {}"
  using assms by (simp_all add: br_local_defs br_newMessageState_def br_said_def tally_empty)

text \<open>Frames: what others put on the wire does not matter.\<close>

lemma br_sent_ok_frame:
  "br_sent_ok x b D ms W \<Longrightarrow>
   (\<And>st v. st \<noteq> Bracha_INITIAL \<Longrightarrow> br_said W' x b st v \<longleftrightarrow> br_said W x b st v) \<Longrightarrow> br_sent_ok x b D ms W'"
  by (simp add: br_sent_ok_def)

lemma br_votes_ok_mono:
  assumes v: "br_votes_ok p x b D ms W" and W: "W \<subseteq> W'"
  shows "br_votes_ok p x b D ms W'"
proof -
  have "card {q. (q, x, br_msg b Bracha_READY v) \<in> W} \<le> card {q. (q, x, br_msg b Bracha_READY v) \<in> W'}" for v
    using W by (intro card_mono) auto
  then have D: "\<forall>v. D = Some v \<longrightarrow> br_messagesForDelivery p \<le> int (card {q. (q, x, br_msg b Bracha_READY v) \<in> W'})"
    using v by (auto simp: br_votes_ok_def intro: order_trans)
  have t: "tally (br_receivedEcho ms) (br_echoCount ms) {(q, v). (q, x, br_msg b Bracha_ECHO v) \<in> W'}"
    "tally (br_receivedReady ms) (br_readyCount ms) {(q, v). (q, x, br_msg b Bracha_READY v) \<in> W'}"
    using v W by (auto simp: br_votes_ok_def elim!: tally_mono)
  show ?thesis using v D t by (simp add: br_votes_ok_def)
qed

lemma br_received_ok_frame:
  "br_received_ok x b D ms R \<Longrightarrow>
   (\<And>q st v. (q, x, br_msg b st v) \<in> R' \<Longrightarrow> (q, x, br_msg b st v) \<in> R) \<Longrightarrow> br_received_ok x b D ms R'"
  unfolding br_received_ok_def by blast

text \<open>One step of the instance's automaton.\<close>

definition br_done :: "bool \<Rightarrow> br_messageState \<Rightarrow> br_messageState" where
  "br_done d ms = (if d then br_newMessageState else ms)"

lemma br_sent_ok_react:
  assumes r: "br_react p st q v ms = (ms', e, r, d)" and ok: "br_sent_ok x b None ms W"
    and said: "\<And>st' w. st' \<noteq> Bracha_INITIAL \<Longrightarrow> br_said W' x b st' w \<longleftrightarrow>
      br_said W x b st' w \<or> st' = Bracha_ECHO \<and> e \<and> w = v \<or> st' = Bracha_READY \<and> r \<and> w = v"
    and votes: "\<And>w. br_messagesForReady p \<le> int (br_readyCount ms' w) \<Longrightarrow> br_stage ms' = SentReady"
    and le: "br_messagesForReady p \<le> br_messagesForDelivery p"
  shows "br_sent_ok x b (if d then Some v else None) (br_done d ms') W'"
proof -
  have stage: "br_stage ms' = (if r then SentReady else if e then SentEcho else br_stage ms)"
    by (rule br_react_stage[OF r])
  have echo: "e \<Longrightarrow> br_stage ms = Init" using br_react_echo[of p st q v ms ms' r d] r by simp
  have ready: "r \<Longrightarrow> br_stage ms \<noteq> SentReady \<and> (br_stage ms = Init \<longleftrightarrow> e)"
    using br_react_ready[of p st q v ms ms' e d] r by simp
  have dlv: "d \<Longrightarrow> br_stage ms' = SentReady"
    using br_react_deliver[OF r] votes[of v] le by simp
  have s: "\<And>w. br_said W' x b Bracha_ECHO w \<longleftrightarrow> br_said W x b Bracha_ECHO w \<or> e \<and> w = v"
    "\<And>w. br_said W' x b Bracha_READY w \<longleftrightarrow> br_said W x b Bracha_READY w \<or> r \<and> w = v"
    using said by auto
  show ?thesis
    using ok stage echo ready dlv unfolding br_sent_ok_def s br_done_def
    by (cases "br_stage ms") (auto simp: br_newMessageState_def split: if_splits)
qed

lemma br_react_tallies:
  assumes r: "br_react p st q v ms = (ms', e, r, d)" and ok: "br_votes_ok p x b None ms W"
    and W: "(q, x, br_msg b st v) \<in> W"
  shows "tally (br_receivedEcho ms') (br_echoCount ms') {(q, v). (q, x, br_msg b Bracha_ECHO v) \<in> W}"
    "tally (br_receivedReady ms') (br_readyCount ms') {(q, v). (q, x, br_msg b Bracha_READY v) \<in> W}"
  using br_react_boxes[OF r] ok W
  by (auto simp: br_votes_ok_def intro: echo_box.vote_tally ready_box.vote_tally)

lemma br_react_counts:
  assumes "br_react p st q v ms = (ms', e, r, d)" "br_votes_ok p x b None ms W"
    "(q, x, br_msg b st v) \<in> W"
  shows "br_echoCount ms' w \<le> card {q. (q, x, br_msg b Bracha_ECHO w) \<in> W}"
    "br_readyCount ms' w \<le> card {q. (q, x, br_msg b Bracha_READY w) \<in> W}"
  using br_react_tallies[OF assms, THEN tally_le, of w] by simp_all

lemma br_votes_ok_react:
  assumes r: "br_react p st q v ms = (ms', e, r, d)" and ok: "br_votes_ok p x b None ms W"
    and W: "(q, x, br_msg b st v) \<in> W" "W \<subseteq> W'"
  shows "br_votes_ok p x b (if d then Some v else None) (br_done d ms') W'"
proof (rule br_votes_ok_mono[OF _ W(2)])
  show "br_votes_ok p x b (if d then Some v else None) (br_done d ms') W"
  proof (cases d)
    case True
    then have "br_messagesForDelivery p \<le> int (card {q. (q, x, br_msg b Bracha_READY v) \<in> W})"
      using br_react_deliver[OF r] br_react_counts(2)[OF r ok W(1), of v] by simp
    then show ?thesis using True by (simp add: br_votes_ok_def br_done_def br_newMessageState_def tally_empty)
  next
    case False
    then show ?thesis using br_react_tallies[OF r ok W(1)] ok br_react_threshold(4-6)[OF r]
      by (simp add: br_votes_ok_def br_done_def)
  qed
qed

lemma br_received_ok_react:
  assumes r: "br_react p st q v ms = (ms', e, r, d)" and ok: "br_received_ok x b None ms R"
  shows "br_received_ok x b (if d then Some v else None) (br_done d ms') (insert (q, x, br_msg b st v) R)"
proof -
  have stage: "br_stage ms = SentReady \<Longrightarrow> br_stage ms' = SentReady" "br_stage ms \<noteq> Init \<Longrightarrow> br_stage ms' \<noteq> Init"
    using br_react_stage[OF r] br_react_echo[of p st q v ms ms' r d] r by (auto split: if_splits)
  have heard: "br_receivedEcho ms y \<Longrightarrow> br_receivedEcho ms' y" "br_receivedReady ms y \<Longrightarrow> br_receivedReady ms' y" for y
    using br_react_boxes[OF r] by (auto simp: br_vote_echo_def br_vote_ready_def split: if_splits)
  show ?thesis
    using ok br_react_threshold(1-3)[OF r] stage heard
    by (cases d) (auto simp: br_received_ok_def br_done_def)
qed

lemma br_local_cnt [simp]:
  "br_sent_ok x b D (ms\<lparr>br_receivedMessagesCnt := k\<rparr>) W = br_sent_ok x b D ms W"
  "br_votes_ok p x b D (ms\<lparr>br_receivedMessagesCnt := k\<rparr>) W = br_votes_ok p x b D ms W"
  "br_received_ok x b D (ms\<lparr>br_receivedMessagesCnt := k\<rparr>) W = br_received_ok x b D ms W"
  by (simp_all add: br_local_defs)

section \<open>The invariant of the system\<close>

text \<open>
  At most \<open>f\<close> of the \<open>n\<close> processes are faulty, \<open>f\<close> being the configured bound, and \<open>n\<close> and \<open>f\<close> are
  small enough for the thresholds \<open>InitProcess\<close> computes not to wrap and not to be rounded.
\<close>

definition br_sizes_exact :: "nat \<Rightarrow> int \<Rightarrow> bool" where
  "br_sizes_exact n f \<longleftrightarrow> n < 2 ^ 52 \<and> f < 2 ^ 52"

definition br_faults_bounded :: "string list \<Rightarrow> Parameters \<Rightarrow> ProcessId set \<Rightarrow> bool" where
  "br_faults_bounded pids ps F \<longleftrightarrow>
     F \<subseteq> set (procs (length pids)) \<and> int (card F) \<le> FaultyProcesses ps \<and>
     br_sizes_exact (length pids) (FaultyProcesses ps)"

definition br_nodes_ok :: "string list \<Rightarrow> Parameters \<Rightarrow> bool \<Rightarrow> ProcessId set \<Rightarrow> br_net \<Rightarrow> bool" where
  "br_nodes_ok pids ps own F s \<longleftrightarrow> (\<forall>x\<in>br_correct pids F.
     br_wf (br_nodes s x) \<and> br_config (br_nodes s x) = br_config (br_InitProcess x pids ps own))"

definition br_wire_ok :: "string list \<Rightarrow> ProcessId set \<Rightarrow> packet set \<Rightarrow> packet set \<Rightarrow> bool" where
  "br_wire_ok pids F W R \<longleftrightarrow> R \<subseteq> W \<and> (\<forall>x y m. (x, y, m) \<in> W \<longrightarrow> x \<in> set (procs (length pids))) \<and>
     (\<forall>x\<in>br_correct pids F. \<forall>y m. (x, y, m) \<in> W \<longrightarrow> (\<forall>z\<in>set (procs (length pids)). (x, z, m) \<in> W))"

definition br_local_ok :: "string list \<Rightarrow> ProcessId set \<Rightarrow> br_net \<Rightarrow> bool" where
  "br_local_ok pids F s \<longleftrightarrow> (\<forall>x\<in>br_correct pids F. \<forall>b.
     br_sent_ok x b (br_at s x b) (br_entry (br_nodes s x) b) (set (br_wire s)) \<and>
     br_votes_ok (br_nodes s x) x b (br_at s x b) (br_entry (br_nodes s x) b) (set (br_wire s)) \<and>
     br_received_ok x b (br_at s x b) (br_entry (br_nodes s x) b) (set (br_recvd s)))"

text \<open>
  Every READY of a correct process is backed by an echo quorum, and every value a correct process
  echoes or readies was proposed in some INITIAL message.
\<close>

definition br_justified :: "string list \<Rightarrow> Parameters \<Rightarrow> ProcessId set \<Rightarrow> packet set \<Rightarrow> bool" where
  "br_justified pids ps F W \<longleftrightarrow> (\<forall>x\<in>br_correct pids F. \<forall>b v.
     (br_said W x b Bracha_READY v \<longrightarrow>
        echo_majority (length pids) (nat (FaultyProcesses ps)) {q. br_said W q b Bracha_ECHO v}) \<and>
     (br_said W x b Bracha_ECHO v \<or> br_said W x b Bracha_READY v \<longrightarrow> (\<exists>q. br_said W q b Bracha_INITIAL v)))"

definition br_inv :: "string list \<Rightarrow> Parameters \<Rightarrow> bool \<Rightarrow> ProcessId set \<Rightarrow> br_net \<Rightarrow> bool" where
  "br_inv pids ps own F s \<longleftrightarrow> br_nodes_ok pids ps own F s \<and>
     br_wire_ok pids F (set (br_wire s)) (set (br_recvd s)) \<and> br_local_ok pids F s \<and>
     br_justified pids ps F (set (br_wire s))"

lemma br_nodes_config:
  assumes "br_nodes_ok pids ps own F s" "x \<in> br_correct pids F"
  shows "br_wf (br_nodes s x)" "br_n (br_nodes s x) = length pids"
    "br_processIndex (br_nodes s x) = x"
  using assms by (auto simp: br_nodes_ok_def br_config_def br_InitProcess_def Let_def)

lemma br_thresholds:
  assumes "br_faults_bounded pids ps F"
  shows "br_messagesForEcho (br_InitProcess x pids ps own) = ceil_half (int (length pids) + FaultyProcesses ps + 1)"
    "br_messagesForReady (br_InitProcess x pids ps own) = FaultyProcesses ps + 1"
    "br_messagesForDelivery (br_InitProcess x pids ps own) = 2 * FaultyProcesses ps + 1"
proof -
  have "0 \<le> FaultyProcesses ps" "FaultyProcesses ps < 2 ^ 52" "int (length pids) < 2 ^ 52"
    using assms by (auto simp: br_faults_bounded_def br_sizes_exact_def)
  then show "br_messagesForEcho (br_InitProcess x pids ps own) = ceil_half (int (length pids) + FaultyProcesses ps + 1)"
    "br_messagesForReady (br_InitProcess x pids ps own) = FaultyProcesses ps + 1"
    "br_messagesForDelivery (br_InitProcess x pids ps own) = 2 * FaultyProcesses ps + 1"
    by (simp_all add: br_InitProcess_def Let_def)
qed

text \<open>Without the bound the thresholds wrap: with \<open>f = 2^62\<close> every READY message suffices for a delivery.\<close>

lemma br_threshold_wraps:
  assumes "FaultyProcesses ps = 2 ^ 62"
  shows "br_messagesForDelivery (br_InitProcess x pids ps own) = 1 - 2 ^ 63"
  using assms by (simp add: br_InitProcess_def Let_def i64_def)

lemma br_nodes_thresholds:
  assumes "br_nodes_ok pids ps own F s" "x \<in> br_correct pids F" "br_faults_bounded pids ps F"
  shows "br_messagesForEcho (br_nodes s x) = ceil_half (int (length pids) + FaultyProcesses ps + 1)"
    "br_messagesForReady (br_nodes s x) = FaultyProcesses ps + 1"
    "br_messagesForDelivery (br_nodes s x) = 2 * FaultyProcesses ps + 1"
proof -
  have "br_config (br_nodes s x) = br_config (br_InitProcess x pids ps own)"
    using assms(1,2) by (simp add: br_nodes_ok_def)
  then show "br_messagesForEcho (br_nodes s x) = ceil_half (int (length pids) + FaultyProcesses ps + 1)"
    "br_messagesForReady (br_nodes s x) = FaultyProcesses ps + 1"
    "br_messagesForDelivery (br_nodes s x) = 2 * FaultyProcesses ps + 1"
    using br_thresholds[OF assms(3), of x own] by (simp_all add: br_config_def)
qed

lemma br_bounded_nonneg: "br_faults_bounded pids ps F \<Longrightarrow> 0 \<le> FaultyProcesses ps"
  by (simp add: br_faults_bounded_def)

lemma br_bounded_card: "br_faults_bounded pids ps F \<Longrightarrow> card F \<le> nat (FaultyProcesses ps)"
  by (auto simp: br_faults_bounded_def)

lemma br_inv_init:
  assumes "br_faults_bounded pids ps F"
  shows "br_inv pids ps own F (br_net_init pids ps own)"
proof -
  have f: "0 \<le> FaultyProcesses ps" by (rule br_bounded_nonneg[OF assms])
  have v: "br_value (br_InitProcess x pids ps own) b = None"
    "br_entry (br_InitProcess x pids ps own) b = br_newMessageState" for x b
    by (simp_all add: br_InitProcess_def Let_def br_value_def br_entry_def br_state_def)
  have q: "0 < br_messagesForEcho (br_InitProcess x pids ps own)"
    "0 < br_messagesForReady (br_InitProcess x pids ps own)"
    "0 < br_messagesForDelivery (br_InitProcess x pids ps own)" for x
    using f ceil_half_bounds[of "int (length pids) + FaultyProcesses ps + 1"]
    by (simp_all add: br_thresholds[OF assms])
  have "br_nodes_ok pids ps own F (br_net_init pids ps own)"
    by (simp add: br_nodes_ok_def br_net_init_def br_wf_def br_InitProcess_def Let_def)
  moreover have "br_local_ok pids F (br_net_init pids ps own)"
    using br_local_start[OF q] by (simp add: br_local_ok_def br_net_init_def v)
  ultimately show ?thesis
    by (simp add: br_inv_def br_wire_ok_def br_justified_def br_net_init_def br_said_def)
qed

text \<open>A set of correct votes behind every quorum.\<close>

lemma br_echo_votes_correct:
  assumes f: "br_faults_bounded pids ps F" and w: "br_wire_ok pids F W R"
    and c: "ceil_half (int (length pids) + FaultyProcesses ps + 1) \<le> int (card {q. (q, x, m) \<in> W})"
  shows "\<exists>q\<in>br_correct pids F. (q, x, m) \<in> W"
    "echo_majority (length pids) (nat (FaultyProcesses ps)) {q. (q, x, m) \<in> W}"
proof -
  have sub: "{q. (q, x, m) \<in> W} \<subseteq> set (procs (length pids))"
    using w by (auto simp: br_wire_ok_def)
  show q: "echo_majority (length pids) (nat (FaultyProcesses ps)) {q. (q, x, m) \<in> W}"
    using sub c br_bounded_nonneg[OF f] by (simp add: echo_majority_def)
  show "\<exists>q\<in>br_correct pids F. (q, x, m) \<in> W"
    using quorums.correct_in_echo_quorum[OF q br_bounded_card[OF f]] sub
    by (auto simp: br_correct_def)
qed

lemma br_ready_votes_correct:
  assumes f: "br_faults_bounded pids ps F" and w: "br_wire_ok pids F W R"
    and c: "FaultyProcesses ps + 1 \<le> int (card {q. (q, x, m) \<in> W})"
  shows "\<exists>q\<in>br_correct pids F. (q, x, m) \<in> W"
proof -
  have sub: "{q. (q, x, m) \<in> W} \<subseteq> set (procs (length pids))"
    using w by (auto simp: br_wire_ok_def)
  have "ready_majority (nat (FaultyProcesses ps)) {q. (q, x, m) \<in> W}"
    using c br_bounded_nonneg[OF f] by (simp add: ready_majority_def)
  from quorums.correct_in_ready_quorum[OF this br_bounded_card[OF f]] sub
  show ?thesis by (auto simp: br_correct_def)
qed

lemma br_said_procs: "br_wire_ok pids F W R \<Longrightarrow> {q. br_said W q b st v} \<subseteq> set (procs (length pids))"
  by (auto simp: br_wire_ok_def br_said_def)

text \<open>The wire only grows: justifications stay, and only new sayings need one.\<close>

lemma br_justified_grow:
  assumes j: "br_justified pids ps F W" and W: "W \<subseteq> W'" and w: "br_wire_ok pids F W' R'"
    and new_ready: "\<And>x b v. x \<in> br_correct pids F \<Longrightarrow> br_said W' x b Bracha_READY v \<Longrightarrow>
      \<not> br_said W x b Bracha_READY v \<Longrightarrow>
      echo_majority (length pids) (nat (FaultyProcesses ps)) {q. br_said W q b Bracha_ECHO v}"
    and new_value: "\<And>x b v st. x \<in> br_correct pids F \<Longrightarrow> st = Bracha_ECHO \<or> st = Bracha_READY \<Longrightarrow>
      br_said W' x b st v \<Longrightarrow> \<not> br_said W x b st v \<Longrightarrow> \<exists>q. br_said W q b Bracha_INITIAL v"
  shows "br_justified pids ps F W'"
  unfolding br_justified_def
proof (intro ballI allI conjI impI)
  fix x b v assume x: "x \<in> br_correct pids F"
  show "echo_majority (length pids) (nat (FaultyProcesses ps)) {q. br_said W' q b Bracha_ECHO v}"
    if "br_said W' x b Bracha_READY v"
  proof -
    have "echo_majority (length pids) (nat (FaultyProcesses ps)) {q. br_said W q b Bracha_ECHO v}"
      using j new_ready[OF x that] x by (auto simp: br_justified_def)
    then show ?thesis
      by (rule echo_majority_mono) (use br_said_mono[OF W] br_said_procs[OF w] in auto)
  qed
  show "\<exists>q. br_said W' q b Bracha_INITIAL v"
    if "br_said W' x b Bracha_ECHO v \<or> br_said W' x b Bracha_READY v"
  proof -
    have "br_said W x b st v \<Longrightarrow> st = Bracha_ECHO \<or> st = Bracha_READY \<Longrightarrow> \<exists>q. br_said W q b Bracha_INITIAL v" for st
      using j x unfolding br_justified_def by blast
    then have "\<exists>q. br_said W q b Bracha_INITIAL v"
      using that new_value[OF x, of Bracha_ECHO b v] new_value[OF x, of Bracha_READY b v] by blast
    then show ?thesis using br_said_mono[OF W] by blast
  qed
qed

section \<open>A reacting step\<close>

text \<open>
  \<open>br_reaction\<close> describes the step in which process \<open>x\<close>, having received \<open>(q, x, msg b st v)\<close>,
  moves instance \<open>b\<close>; everything else about the system stays.
\<close>

definition br_reaction ::
  "string list \<Rightarrow> br_net \<Rightarrow> br_net \<Rightarrow> ProcessId \<Rightarrow> ProcessId \<Rightarrow> BroadcastInstance \<Rightarrow>
   BrachaProtocolMessage_Stage \<Rightarrow> int32 \<Rightarrow> br_messageState \<Rightarrow> bool \<Rightarrow> bool \<Rightarrow> bool \<Rightarrow> bool" where
  "br_reaction pids s s' x q b st v ms' e r d \<longleftrightarrow>
     br_at s x b = None \<and> Author b \<in> set (procs (length pids)) \<and> (q, x, br_msg b st v) \<in> set (br_wire s) \<and>
     br_react (br_nodes s x) st q v ((br_entry (br_nodes s x) b)
        \<lparr>br_receivedMessagesCnt := Suc (br_receivedMessagesCnt (br_entry (br_nodes s x) b))\<rparr>) = (ms', e, r, d) \<and>
     (\<forall>a y m. (a, y, m) \<in> set (br_wire s') \<longleftrightarrow> (a, y, m) \<in> set (br_wire s) \<or>
        a = x \<and> y \<in> set (procs (length pids)) \<and>
        (e \<and> m = br_msg b Bracha_ECHO v \<or> r \<and> m = br_msg b Bracha_READY v)) \<and>
     set (br_recvd s') = insert (q, x, br_msg b st v) (set (br_recvd s)) \<and>
     (\<forall>a c. br_at s' a c = (if a = x \<and> c = b then (if d then Some v else None) else br_at s a c)) \<and>
     (\<forall>a c. br_entry (br_nodes s' a) c =
        (if a = x \<and> c = b then br_done d ms' else br_entry (br_nodes s a) c)) \<and>
     (\<forall>a. br_wf (br_nodes s a) \<longrightarrow> br_wf (br_nodes s' a)) \<and>
     (\<forall>a. br_config (br_nodes s' a) = br_config (br_nodes s a))"

lemma br_reaction_exists:
  assumes "br_wf (br_nodes s x)" "br_n (br_nodes s x) = length pids"
    "(q, x, br_msg b st v) \<in> set (br_wire s)" "br_at s x b = None"
    "Author b \<in> set (procs (length pids))"
    "br_implements (br_nodes s x) b v (br_react (br_nodes s x) st q v ((br_entry (br_nodes s x) b)
        \<lparr>br_receivedMessagesCnt := Suc (br_receivedMessagesCnt (br_entry (br_nodes s x) b))\<rparr>)) p' es"
  shows "\<exists>ms' e r d. br_reaction pids s (br_post s x p' es [(q, x, br_msg b st v)]) x q b st v ms' e r d"
proof -
  obtain ms' e r d where r: "br_react (br_nodes s x) st q v ((br_entry (br_nodes s x) b)
        \<lparr>br_receivedMessagesCnt := Suc (br_receivedMessagesCnt (br_entry (br_nodes s x) b))\<rparr>) = (ms', e, r, d)"
    by (metis prod_cases4)
  from assms(6) have i: "br_wf p'" "br_config p' = br_config (br_nodes s x)"
    "br_value p' = (if d then (br_at s x)(b \<mapsto> v) else br_at s x)"
    "br_state p' = (br_state (br_nodes s x))(b := if d then None else Some ms')"
    "sends es = (if e then br_to_all (br_nodes s x) (br_msg b Bracha_ECHO v) else []) @
                (if r then br_to_all (br_nodes s x) (br_msg b Bracha_READY v) else [])"
    by (simp_all add: br_implements_def r)
  have entry: "br_entry p' c = (if c = b then br_done d ms' else br_entry (br_nodes s x) c)" for c
    using i(4) by (simp add: br_entry_def br_done_def)
  have at: "br_value p' c = (if c = b then (if d then Some v else None) else br_at s x c)" for c
    using i(3) assms(4) by simp
  have wire: "(a, y, m) \<in> set (br_wire (br_post s x p' es [(q, x, br_msg b st v)])) \<longleftrightarrow>
      (a, y, m) \<in> set (br_wire s) \<or> a = x \<and> y \<in> set (procs (length pids)) \<and>
        (e \<and> m = br_msg b Bracha_ECHO v \<or> r \<and> m = br_msg b Bracha_READY v)" for a y m
    using assms(2) by (auto simp: br_post_def i(5) br_to_all_def)
  show ?thesis unfolding br_reaction_def wire
    using assms(3-5) r i(1,2) entry at by (intro exI[of _ ms'] exI[of _ e] exI[of _ r] exI[of _ d])
      (auto simp: br_post_def)
qed

lemma br_reaction_said:
  assumes "br_reaction pids s s' x q b st v ms' e r d"
  shows "br_said (set (br_wire s')) a c st' w \<longleftrightarrow> br_said (set (br_wire s)) a c st' w \<or>
    a = x \<and> c = b \<and> w = v \<and> (e \<and> st' = Bracha_ECHO \<or> r \<and> st' = Bracha_READY)"
proof -
  have "\<exists>y. y \<in> set (procs (length pids))" using assms by (auto simp: br_reaction_def)
  then show ?thesis using assms by (auto simp: br_reaction_def br_said_def)
qed

lemma br_reaction_wire: "br_reaction pids s s' x q b st v ms' e r d \<Longrightarrow> set (br_wire s) \<subseteq> set (br_wire s')"
  by (auto simp: br_reaction_def)

lemma br_reaction_wire_ok:
  assumes "br_reaction pids s s' x q b st v ms' e r d" "x \<in> br_correct pids F"
    "br_wire_ok pids F (set (br_wire s)) (set (br_recvd s))"
  shows "br_wire_ok pids F (set (br_wire s')) (set (br_recvd s'))"
proof -
  have w: "(a, y, m) \<in> set (br_wire s') \<longleftrightarrow> (a, y, m) \<in> set (br_wire s) \<or>
        a = x \<and> y \<in> set (procs (length pids)) \<and>
        (e \<and> m = br_msg b Bracha_ECHO v \<or> r \<and> m = br_msg b Bracha_READY v)" for a y m
    using assms(1) by (simp add: br_reaction_def)
  have R: "set (br_recvd s') = insert (q, x, br_msg b st v) (set (br_recvd s))"
    and m: "(q, x, br_msg b st v) \<in> set (br_wire s)"
    using assms(1) by (auto simp: br_reaction_def)
  show ?thesis
    using assms(2,3) m unfolding br_wire_ok_def R w by (auto simp: br_correct_def w)
qed

end
