(* ===== verification/Bracha_Safety.thy ===== *)
theory Bracha_Safety
  imports Bracha_Network
begin

text \<open>
  The system invariant of Bracha_Network is preserved by every step, and the guarantees of
  reliable broadcast that follow: agreement, integrity, no duplication, totality and validity.
\<close>

section \<open>A reacting step preserves the invariant\<close>

lemma br_reaction_votes:
  assumes s: "br_reaction pids s s' x q b st v ms' e r d" and x: "x \<in> br_correct pids F"
    and i: "br_inv pids ps own F s"
  shows "br_echoCount ms' w \<le> card {q. (q, x, br_msg b Bracha_ECHO w) \<in> set (br_wire s)}"
    "br_readyCount ms' w \<le> card {q. (q, x, br_msg b Bracha_READY w) \<in> set (br_wire s)}"
proof -
  have "br_votes_ok (br_nodes s x) x b None (br_entry (br_nodes s x) b) (set (br_wire s))"
  proof -
    have "br_at s x b = None" using s by (simp add: br_reaction_def)
    moreover have "br_votes_ok (br_nodes s x) x b (br_at s x b) (br_entry (br_nodes s x) b) (set (br_wire s))"
      using i x by (simp add: br_inv_def br_local_ok_def)
    ultimately show ?thesis by simp
  qed
  then have v: "br_votes_ok (br_nodes s x) x b None ((br_entry (br_nodes s x) b)
      \<lparr>br_receivedMessagesCnt := Suc (br_receivedMessagesCnt (br_entry (br_nodes s x) b))\<rparr>) (set (br_wire s))"
    by simp
  show "br_echoCount ms' w \<le> card {q. (q, x, br_msg b Bracha_ECHO w) \<in> set (br_wire s)}"
    "br_readyCount ms' w \<le> card {q. (q, x, br_msg b Bracha_READY w) \<in> set (br_wire s)}"
    using s by (auto simp: br_reaction_def intro: br_react_counts[OF _ v])
qed

text \<open>A correct process that a new saying can be traced to.\<close>

lemma br_reaction_echo_source:
  assumes s: "br_reaction pids s s' x q b st v ms' e r d" and x: "x \<in> br_correct pids F"
    and i: "br_inv pids ps own F s" and f: "br_faults_bounded pids ps F"
    and c: "st = Bracha_ECHO" "br_messagesForEcho (br_nodes s x) \<le> int (br_echoCount ms' v)"
  shows "\<exists>a\<in>br_correct pids F. br_said (set (br_wire s)) a b Bracha_ECHO v"
    "echo_majority (length pids) (nat (FaultyProcesses ps)) {a. br_said (set (br_wire s)) a b Bracha_ECHO v}"
proof -
  have w: "br_wire_ok pids F (set (br_wire s)) (set (br_recvd s))"
    and n: "br_nodes_ok pids ps own F s" using i by (simp_all add: br_inv_def)
  have k: "ceil_half (int (length pids) + FaultyProcesses ps + 1)
      \<le> int (card {q. (q, x, br_msg b Bracha_ECHO v) \<in> set (br_wire s)})"
    using c(2) br_reaction_votes(1)[OF s x i, of v] br_nodes_thresholds(1)[OF n x f] by simp
  show "\<exists>a\<in>br_correct pids F. br_said (set (br_wire s)) a b Bracha_ECHO v"
    using br_echo_votes_correct(1)[OF f w k] by (auto simp: br_said_def)
  show "echo_majority (length pids) (nat (FaultyProcesses ps)) {a. br_said (set (br_wire s)) a b Bracha_ECHO v}"
    by (rule echo_majority_mono[OF br_echo_votes_correct(2)[OF f w k]])
      (use br_said_procs[OF w] in \<open>auto simp: br_said_def\<close>)
qed

lemma br_reaction_ready_source:
  assumes s: "br_reaction pids s s' x q b st v ms' e r d" and x: "x \<in> br_correct pids F"
    and i: "br_inv pids ps own F s" and f: "br_faults_bounded pids ps F"
    and c: "br_messagesForReady (br_nodes s x) \<le> int (br_readyCount ms' v)"
  shows "\<exists>a\<in>br_correct pids F. br_said (set (br_wire s)) a b Bracha_READY v"
proof -
  have w: "br_wire_ok pids F (set (br_wire s)) (set (br_recvd s))"
    and n: "br_nodes_ok pids ps own F s" using i by (simp_all add: br_inv_def)
  have k: "FaultyProcesses ps + 1 \<le> int (card {q. (q, x, br_msg b Bracha_READY v) \<in> set (br_wire s)})"
    using c br_reaction_votes(2)[OF s x i, of v] br_nodes_thresholds(2)[OF n x f] by simp
  show ?thesis using br_ready_votes_correct[OF f w k] by (auto simp: br_said_def)
qed

lemma br_justified_reaction:
  assumes s: "br_reaction pids s s' x q b st v ms' e r d" and x: "x \<in> br_correct pids F"
    and i: "br_inv pids ps own F s" and f: "br_faults_bounded pids ps F"
  shows "br_justified pids ps F (set (br_wire s'))"
proof (rule br_justified_grow[OF _ br_reaction_wire[OF s]])
  show j: "br_justified pids ps F (set (br_wire s))" using i by (simp add: br_inv_def)
  show "br_wire_ok pids F (set (br_wire s')) (set (br_recvd s'))"
    using br_reaction_wire_ok[OF s x] i by (simp add: br_inv_def)
  have react: "br_react (br_nodes s x) st q v ((br_entry (br_nodes s x) b)
        \<lparr>br_receivedMessagesCnt := Suc (br_receivedMessagesCnt (br_entry (br_nodes s x) b))\<rparr>) = (ms', e, r, d)"
    and m: "(q, x, br_msg b st v) \<in> set (br_wire s)"
    using s by (auto simp: br_reaction_def)
  have es: "st = Bracha_ECHO \<and> br_messagesForEcho (br_nodes s x) \<le> int (br_echoCount ms' v) \<Longrightarrow>
      (\<exists>a\<in>br_correct pids F. br_said (set (br_wire s)) a b Bracha_ECHO v)"
    using br_reaction_echo_source(1)[OF s x i f] by blast
  have rs: "br_messagesForReady (br_nodes s x) \<le> int (br_readyCount ms' v) \<Longrightarrow>
      (\<exists>a\<in>br_correct pids F. br_said (set (br_wire s)) a b Bracha_READY v)"
    using br_reaction_ready_source[OF s x i f] by blast
  have proposed: "\<exists>q. br_said (set (br_wire s)) q b Bracha_INITIAL v"
    if "a \<in> br_correct pids F" "br_said (set (br_wire s)) a b Bracha_ECHO v \<or> br_said (set (br_wire s)) a b Bracha_READY v" for a
    using j that unfolding br_justified_def by blast
  have why_e: "e \<Longrightarrow> st = Bracha_INITIAL \<or> st = Bracha_ECHO \<and> br_messagesForEcho (br_nodes s x) \<le> int (br_echoCount ms' v)
      \<or> br_messagesForReady (br_nodes s x) \<le> int (br_readyCount ms' v)"
    using br_react_echo[of "br_nodes s x" st q v _ ms' r d] react by auto
  have why_r: "r \<Longrightarrow> st = Bracha_ECHO \<and> br_messagesForEcho (br_nodes s x) \<le> int (br_echoCount ms' v)
      \<or> br_messagesForReady (br_nodes s x) \<le> int (br_readyCount ms' v)"
    using br_react_ready[of "br_nodes s x" st q v _ ms' e d] react by auto
  have ini: "st = Bracha_INITIAL \<Longrightarrow> br_said (set (br_wire s)) q b Bracha_INITIAL v"
    using m by (auto simp: br_said_def)
  show "echo_majority (length pids) (nat (FaultyProcesses ps)) {q. br_said (set (br_wire s)) q c Bracha_ECHO w}"
    if "a \<in> br_correct pids F" "br_said (set (br_wire s')) a c Bracha_READY w"
      "\<not> br_said (set (br_wire s)) a c Bracha_READY w" for a c w
  proof -
    have new: "c = b" "w = v" r using that(2,3) br_reaction_said[OF s] by auto
    from why_r[OF new(3)] show ?thesis
    proof
      assume "st = Bracha_ECHO \<and> br_messagesForEcho (br_nodes s x) \<le> int (br_echoCount ms' v)"
      then show ?thesis unfolding new(1,2) using br_reaction_echo_source(2)[OF s x i f] by blast
    next
      assume "br_messagesForReady (br_nodes s x) \<le> int (br_readyCount ms' v)"
      then show ?thesis unfolding new(1,2) using rs j by (auto simp: br_justified_def)
    qed
  qed
  show "\<exists>q. br_said (set (br_wire s)) q c Bracha_INITIAL w"
    if "a \<in> br_correct pids F" "st' = Bracha_ECHO \<or> st' = Bracha_READY" "br_said (set (br_wire s')) a c st' w"
      "\<not> br_said (set (br_wire s)) a c st' w" for a c w st'
  proof -
    have new: "c = b" "w = v" "e \<or> r" using that(3,4) br_reaction_said[OF s] by auto
    show ?thesis unfolding new(1,2)
      using new(3) why_e why_r ini es rs proposed by blast
  qed
qed

lemma br_local_reaction:
  assumes s: "br_reaction pids s s' x q b st v ms' e r d" and x: "x \<in> br_correct pids F"
    and i: "br_inv pids ps own F s" and f: "br_faults_bounded pids ps F"
  shows "br_local_ok pids F s'"
  unfolding br_local_ok_def
proof (intro ballI allI)
  fix a c assume a: "a \<in> br_correct pids F"
  have old: "br_sent_ok a c (br_at s a c) (br_entry (br_nodes s a) c) (set (br_wire s))"
    "br_votes_ok (br_nodes s a) a c (br_at s a c) (br_entry (br_nodes s a) c) (set (br_wire s))"
    "br_received_ok a c (br_at s a c) (br_entry (br_nodes s a) c) (set (br_recvd s))"
    using i a by (simp_all add: br_inv_def br_local_ok_def)
  have at: "br_at s' a c = (if a = x \<and> c = b then (if d then Some v else None) else br_at s a c)"
    and entry: "br_entry (br_nodes s' a) c = (if a = x \<and> c = b then br_done d ms' else br_entry (br_nodes s a) c)"
    and R: "set (br_recvd s') = insert (q, x, br_msg b st v) (set (br_recvd s))"
    and cfg: "br_config (br_nodes s' a) = br_config (br_nodes s a)"
    using s unfolding br_reaction_def by blast+
  have votes_cfg: "br_votes_ok (br_nodes s' a) a c D ms W = br_votes_ok (br_nodes s a) a c D ms W" for D ms W
    using cfg by (simp add: br_votes_ok_def br_config_def)
  show "br_sent_ok a c (br_at s' a c) (br_entry (br_nodes s' a) c) (set (br_wire s')) \<and>
     br_votes_ok (br_nodes s' a) a c (br_at s' a c) (br_entry (br_nodes s' a) c) (set (br_wire s')) \<and>
     br_received_ok a c (br_at s' a c) (br_entry (br_nodes s' a) c) (set (br_recvd s'))"
  proof (cases "a = x \<and> c = b")
    case False
    then show ?thesis
      unfolding at entry R votes_cfg
      using br_sent_ok_frame[OF old(1), of "set (br_wire s')"] br_reaction_said[OF s, of a c]
        br_votes_ok_mono[OF old(2) br_reaction_wire[OF s]]
        br_received_ok_frame[OF old(3), of "insert (q, x, br_msg b st v) (set (br_recvd s))"]
      by auto
  next
    case True
    then have ac: "a = x" "c = b" by simp_all
    let ?ms = "(br_entry (br_nodes s x) b)
        \<lparr>br_receivedMessagesCnt := Suc (br_receivedMessagesCnt (br_entry (br_nodes s x) b))\<rparr>"
    have r: "br_react (br_nodes s x) st q v ?ms = (ms', e, r, d)" and n: "br_at s x b = None"
      and m: "(q, x, br_msg b st v) \<in> set (br_wire s)"
      using s unfolding br_reaction_def by blast+
    have o: "br_sent_ok x b None ?ms (set (br_wire s))" "br_votes_ok (br_nodes s x) x b None ?ms (set (br_wire s))"
      "br_received_ok x b None ?ms (set (br_recvd s))"
      using old n ac by simp_all
    have nodes: "br_nodes_ok pids ps own F s" using i by (simp add: br_inv_def)
    have le: "br_messagesForReady (br_nodes s x) \<le> br_messagesForDelivery (br_nodes s x)"
      using br_nodes_thresholds(2,3)[OF nodes x f] br_bounded_nonneg[OF f] by simp
    have rdy: "br_messagesForReady (br_nodes s x) \<le> int (br_readyCount ms' w) \<Longrightarrow> br_stage ms' = SentReady" for w
      using br_react_threshold(5)[OF r] o(2) by (simp add: br_votes_ok_def)
    have "br_sent_ok x b (if d then Some v else None) (br_done d ms') (set (br_wire s'))"
      by (rule br_sent_ok_react[OF r o(1) _ _ le]) (use rdy in \<open>auto simp: br_reaction_said[OF s]\<close>)
    then show ?thesis unfolding ac at[unfolded ac] entry[unfolded ac] R votes_cfg[unfolded ac]
      using br_votes_ok_react[OF r o(2) m br_reaction_wire[OF s]] br_received_ok_react[OF r o(3)] by simp
  qed
qed

lemma br_inv_reaction:
  assumes s: "br_reaction pids s s' x q b st v ms' e r d" and x: "x \<in> br_correct pids F"
    and i: "br_inv pids ps own F s" and f: "br_faults_bounded pids ps F"
  shows "br_inv pids ps own F s'"
proof -
  have "br_nodes_ok pids ps own F s'"
    using i s by (auto simp: br_inv_def br_nodes_ok_def br_reaction_def)
  then show ?thesis
    using br_reaction_wire_ok[OF s x] br_local_reaction[OF s x i f] br_justified_reaction[OF s x i f] i
    by (simp add: br_inv_def)
qed

section \<open>The other steps\<close>

text \<open>
  Requests, faulty processes, and messages about delivered instances change no instance: the
  wire grows by messages that are INITIAL or from a faulty process.
\<close>

definition br_quiet :: "string list \<Rightarrow> ProcessId set \<Rightarrow> br_net \<Rightarrow> br_net \<Rightarrow> bool" where
  "br_quiet pids F s s' \<longleftrightarrow>
     set (br_wire s) \<subseteq> set (br_wire s') \<and> br_wire_ok pids F (set (br_wire s')) (set (br_recvd s')) \<and>
     (\<forall>x\<in>br_correct pids F. \<forall>b st v. br_said (set (br_wire s')) x b st v \<longrightarrow>
        br_said (set (br_wire s)) x b st v \<or> st = Bracha_INITIAL) \<and>
     (\<forall>x\<in>br_correct pids F. \<forall>q b st v. (q, x, br_msg b st v) \<in> set (br_recvd s') \<longrightarrow>
        (q, x, br_msg b st v) \<in> set (br_recvd s) \<or> br_at s x b \<noteq> None) \<and>
     (\<forall>a. br_wf (br_nodes s' a) = br_wf (br_nodes s a) \<and> br_config (br_nodes s' a) = br_config (br_nodes s a) \<and>
        br_value (br_nodes s' a) = br_value (br_nodes s a) \<and> br_state (br_nodes s' a) = br_state (br_nodes s a))"

lemma br_local_quiet:
  assumes q: "br_quiet pids F s s'" and l: "br_local_ok pids F s"
  shows "br_local_ok pids F s'"
  unfolding br_local_ok_def
proof (intro ballI allI)
  fix x b assume x: "x \<in> br_correct pids F"
  have old: "br_sent_ok x b (br_at s x b) (br_entry (br_nodes s x) b) (set (br_wire s))"
    "br_votes_ok (br_nodes s x) x b (br_at s x b) (br_entry (br_nodes s x) b) (set (br_wire s))"
    "br_received_ok x b (br_at s x b) (br_entry (br_nodes s x) b) (set (br_recvd s))"
    using l x by (simp_all add: br_local_ok_def)
  have W: "set (br_wire s) \<subseteq> set (br_wire s')" and v: "br_at s' x b = br_at s x b"
    and e: "br_entry (br_nodes s' x) b = br_entry (br_nodes s x) b"
    and cfg: "br_config (br_nodes s' x) = br_config (br_nodes s x)"
    using q by (simp_all add: br_quiet_def br_entry_def)
  have votes_cfg: "br_votes_ok (br_nodes s' x) x b D ms W = br_votes_ok (br_nodes s x) x b D ms W" for D ms W
    using cfg by (simp add: br_votes_ok_def br_config_def)
  have said: "st \<noteq> Bracha_INITIAL \<Longrightarrow> br_said (set (br_wire s')) x b st w \<longleftrightarrow> br_said (set (br_wire s)) x b st w" for st w
    using q x br_said_mono[OF W] unfolding br_quiet_def by blast
  have rec: "br_received_ok x b (br_at s x b) (br_entry (br_nodes s x) b) (set (br_recvd s'))"
  proof (cases "br_at s x b")
    case None
    then have "(a, x, br_msg b st w) \<in> set (br_recvd s') \<Longrightarrow> (a, x, br_msg b st w) \<in> set (br_recvd s)" for a st w
      using q x unfolding br_quiet_def by blast
    then show ?thesis by (rule br_received_ok_frame[OF old(3)])
  qed (simp add: br_received_ok_def)
  show "br_sent_ok x b (br_at s' x b) (br_entry (br_nodes s' x) b) (set (br_wire s')) \<and>
     br_votes_ok (br_nodes s' x) x b (br_at s' x b) (br_entry (br_nodes s' x) b) (set (br_wire s')) \<and>
     br_received_ok x b (br_at s' x b) (br_entry (br_nodes s' x) b) (set (br_recvd s'))"
    unfolding v e votes_cfg
    using br_sent_ok_frame[OF old(1) said] br_votes_ok_mono[OF old(2) W] rec by blast
qed

lemma br_inv_quiet:
  assumes q: "br_quiet pids F s s'" and i: "br_inv pids ps own F s"
  shows "br_inv pids ps own F s'"
proof -
  have "br_nodes_ok pids ps own F s'" using i q by (auto simp: br_inv_def br_nodes_ok_def br_quiet_def)
  moreover have "br_justified pids ps F (set (br_wire s'))"
  proof (rule br_justified_grow)
    show "br_justified pids ps F (set (br_wire s))" using i by (simp add: br_inv_def)
    show "set (br_wire s) \<subseteq> set (br_wire s')" "br_wire_ok pids F (set (br_wire s')) (set (br_recvd s'))"
      using q by (simp_all add: br_quiet_def)
    have said: "x \<in> br_correct pids F \<Longrightarrow> br_said (set (br_wire s')) x b st v \<Longrightarrow>
        br_said (set (br_wire s)) x b st v \<or> st = Bracha_INITIAL" for x b st v
      using q unfolding br_quiet_def by blast
    show "echo_majority (length pids) (nat (FaultyProcesses ps)) {q. br_said (set (br_wire s)) q b Bracha_ECHO v}"
      if "x \<in> br_correct pids F" "br_said (set (br_wire s')) x b Bracha_READY v"
        "\<not> br_said (set (br_wire s)) x b Bracha_READY v" for x b v
      using said[OF that(1,2)] that(3) by simp
    show "\<exists>q. br_said (set (br_wire s)) q b Bracha_INITIAL v"
      if "x \<in> br_correct pids F" "st = Bracha_ECHO \<or> st = Bracha_READY" "br_said (set (br_wire s')) x b st v"
        "\<not> br_said (set (br_wire s)) x b st v" for x b v st
      using said[OF that(1,3)] that(2,4) by auto
  qed
  ultimately show ?thesis
    using i q br_local_quiet[OF q] by (simp add: br_inv_def br_quiet_def)
qed

lemma br_quiet_fault:
  assumes q: "q \<in> F" "F \<subseteq> set (procs (length pids))"
    and w: "br_wire_ok pids F (set (br_wire s)) (set (br_recvd s))"
  shows "br_quiet pids F s (s\<lparr>br_wire := br_wire s @ [(q, y, m)]\<rparr>)"
proof -
  have ne: "a \<in> br_correct pids F \<Longrightarrow> a \<noteq> q" for a using q(1) by (auto simp: br_correct_def)
  have "br_wire_ok pids F (insert (q, y, m) (set (br_wire s))) (set (br_recvd s))"
    using w q(1) subsetD[OF q(2) q(1)] ne unfolding br_wire_ok_def by blast
  then show ?thesis using ne by (simp add: br_quiet_def br_said_def subset_insertI)
qed

lemma br_quiet_request:
  assumes x: "x \<in> br_correct pids F" and h: "br_Broadcast (br_nodes s x) v = Inr (p', es)"
    and n: "br_n (br_nodes s x) = length pids"
    and w: "br_wire_ok pids F (set (br_wire s)) (set (br_recvd s))"
  shows "br_quiet pids F s (br_post s x p' es [])"
proof -
  define b where "b = \<lparr>Author = br_processIndex (br_nodes s x), SeqNumber = br_transactionCounter (br_nodes s x)\<rparr>"
  have wire: "(a, y, m) \<in> set (br_wire (br_post s x p' es [])) \<longleftrightarrow> (a, y, m) \<in> set (br_wire s) \<or>
      a = x \<and> y \<in> set (procs (length pids)) \<and> m = br_msg b Bracha_INITIAL v" for a y m
    using br_Broadcast_eq(6)[OF h] n by (auto simp: br_post_def br_to_all_def b_def)
  have "br_wire_ok pids F (set (br_wire (br_post s x p' es []))) (set (br_recvd s))"
    unfolding br_wire_ok_def wire using w x by (auto simp: br_wire_ok_def br_correct_def wire)
  moreover have "set (br_wire s) \<subseteq> set (br_wire (br_post s x p' es []))" using wire by auto
  moreover have "br_said (set (br_wire (br_post s x p' es []))) a c st w \<Longrightarrow>
      br_said (set (br_wire s)) a c st w \<or> st = Bracha_INITIAL" for a c st w
    by (auto simp: br_said_def wire)
  ultimately show ?thesis
    using br_Broadcast_eq(1-4)[OF h] by (simp add: br_quiet_def) (simp add: br_post_def)
qed

lemma br_quiet_delivered:
  assumes m: "(q, x, m) \<in> set (br_wire s)" and h: "br_HandleMessage (br_nodes s x) q m = Inr (br_nodes s x, es)"
    and d: "m = br_msg b st v" "br_at s x b \<noteq> None" "sends es = []"
    and w: "br_wire_ok pids F (set (br_wire s)) (set (br_recvd s))"
  shows "br_quiet pids F s (br_post s x (br_nodes s x) es [(q, x, m)])"
  using m d w by (auto simp: br_quiet_def br_post_def br_wire_ok_def)

lemma br_inv_step:
  assumes st: "br_step pids F s s'" and i: "br_inv pids ps own F s" and f: "br_faults_bounded pids ps F"
  shows "br_inv pids ps own F s'"
  using st
proof cases
  case (receive x q m p' es)
  have nodes: "br_nodes_ok pids ps own F s" and w: "br_wire_ok pids F (set (br_wire s)) (set (br_recvd s))"
    using i by (simp_all add: br_inv_def)
  note cfg = br_nodes_config[OF nodes receive(2)]
  from cfg(1) receive(4) show ?thesis
  proof (cases rule: br_handle_cases)
    case (delivered b st v w)
    then show ?thesis
      using br_inv_quiet[OF br_quiet_delivered[of q x m s es b st v] i] receive w by simp
  next
    case (react b st v)
    then show ?thesis
      using br_reaction_exists[of s x pids q b st v p' es] br_inv_reaction[OF _ receive(2) i f] receive cfg
      by auto
  qed
next
  case (request x v p' es)
  show ?thesis unfolding request(1)
    by (rule br_inv_quiet[OF br_quiet_request[OF request(2,3)] i])
      (use br_nodes_config(2)[OF _ request(2)] i in \<open>auto simp: br_inv_def\<close>)
next
  case (fault q y m)
  show ?thesis unfolding fault(1)
    by (rule br_inv_quiet[OF br_quiet_fault[OF fault(2)] i])
      (use i f in \<open>auto simp: br_inv_def br_faults_bounded_def\<close>)
qed

lemma br_reachable_inv:
  "br_reachable pids ps own F s \<Longrightarrow> br_faults_bounded pids ps F \<Longrightarrow> br_inv pids ps own F s"
  by (induction rule: br_reachable.induct) (auto intro: br_inv_init br_inv_step)

end
