(* ===== verification/Bracha_Theorems.thy ===== *)
theory Bracha_Theorems
  imports Bracha_Safety
begin

text \<open>
  What Bracha's protocol guarantees, for every reachable state of the system with at most \<open>f\<close>
  faulty processes: agreement, integrity, no duplication, and, once the messages between correct
  processes have been received, totality and validity. A scheduler that replays a list of
  actions shows that the hypotheses are met by real runs of four processes, one of them faulty.
\<close>

section \<open>Consequences of the invariant\<close>

lemma br_inv_parts:
  assumes "br_inv pids ps own F s" "x \<in> br_correct pids F"
  shows "br_sent_ok x b (br_at s x b) (br_entry (br_nodes s x) b) (set (br_wire s))"
    "br_votes_ok (br_nodes s x) x b (br_at s x b) (br_entry (br_nodes s x) b) (set (br_wire s))"
    "br_received_ok x b (br_at s x b) (br_entry (br_nodes s x) b) (set (br_recvd s))"
  using assms by (simp_all add: br_inv_def br_local_ok_def)

lemma br_ready_unique:
  assumes i: "br_inv pids ps own F s" and f: "br_faults_bounded pids ps F"
    and x: "x \<in> br_correct pids F" "br_said (set (br_wire s)) x b Bracha_READY v"
    and y: "y \<in> br_correct pids F" "br_said (set (br_wire s)) y b Bracha_READY w"
  shows "v = w"
proof -
  let ?Q = "\<lambda>v. {q. br_said (set (br_wire s)) q b Bracha_ECHO v}"
  have j: "br_justified pids ps F (set (br_wire s))" using i by (simp add: br_inv_def)
  have q: "echo_majority (length pids) (nat (FaultyProcesses ps)) (?Q v)"
    "echo_majority (length pids) (nat (FaultyProcesses ps)) (?Q w)"
    using j x y unfolding br_justified_def by blast+
  obtain z where z: "z \<in> ?Q v" "z \<in> ?Q w" "z \<notin> F"
    using quorums.correct_in_both[OF q br_bounded_card[OF f]] by blast
  have "z \<in> br_correct pids F" using z q(1) by (auto simp: br_correct_def echo_majority_def)
  then show ?thesis using br_inv_parts(1)[OF i] z unfolding br_sent_ok_def by blast
qed

lemma br_delivered_ready:
  assumes i: "br_inv pids ps own F s" and f: "br_faults_bounded pids ps F"
    and x: "x \<in> br_correct pids F" "br_at s x b = Some v"
  shows "2 * FaultyProcesses ps + 1 \<le> int (card {q. (q, x, br_msg b Bracha_READY v) \<in> set (br_wire s)})"
    "\<exists>q\<in>br_correct pids F. br_said (set (br_wire s)) q b Bracha_READY v"
proof -
  have nodes: "br_nodes_ok pids ps own F s" and w: "br_wire_ok pids F (set (br_wire s)) (set (br_recvd s))"
    using i by (simp_all add: br_inv_def)
  show c: "2 * FaultyProcesses ps + 1 \<le> int (card {q. (q, x, br_msg b Bracha_READY v) \<in> set (br_wire s)})"
    using br_inv_parts(2)[OF i x(1), of b] x(2) br_nodes_thresholds(3)[OF nodes x(1) f] by (simp add: br_votes_ok_def)
  show "\<exists>q\<in>br_correct pids F. br_said (set (br_wire s)) q b Bracha_READY v"
    using br_ready_votes_correct[OF f w, of x "br_msg b Bracha_READY v"] c br_bounded_nonneg[OF f]
    by (auto simp: br_said_def)
qed

lemma br_delivered_unique:
  assumes i: "br_inv pids ps own F s" and f: "br_faults_bounded pids ps F"
    and "x \<in> br_correct pids F" "br_at s x b = Some v" "y \<in> br_correct pids F" "br_at s y b = Some w"
  shows "v = w"
proof -
  obtain a c where "a \<in> br_correct pids F" "br_said (set (br_wire s)) a b Bracha_READY v"
    "c \<in> br_correct pids F" "br_said (set (br_wire s)) c b Bracha_READY w"
    using br_delivered_ready(2)[OF i f] assms(3-6) by metis
  then show ?thesis by (rule br_ready_unique[OF i f])
qed

section \<open>Quiescence\<close>

text \<open>Every message from a correct process to a correct process has been received.\<close>

definition br_settled :: "string list \<Rightarrow> ProcessId set \<Rightarrow> br_net \<Rightarrow> bool" where
  "br_settled pids F s \<longleftrightarrow>
     list_all (\<lambda>(x, y, m). x \<in> br_correct pids F \<longrightarrow> y \<in> br_correct pids F \<longrightarrow> (x, y, m) \<in> set (br_recvd s))
       (br_wire s)"

text \<open>Enough processes for the fault bound, and few enough for \<open>int32\<close> identifiers to be distinct.\<close>

definition br_enough :: "string list \<Rightarrow> Parameters \<Rightarrow> bool" where
  "br_enough pids ps \<longleftrightarrow> 3 * FaultyProcesses ps + 1 \<le> int (length pids) \<and> length pids \<le> 2 ^ 32"

lemma br_card_correct:
  assumes "br_faults_bounded pids ps F" "br_enough pids ps"
  shows "int (length pids) - FaultyProcesses ps \<le> int (card (br_correct pids F))"
proof -
  have F: "F \<subseteq> set (procs (length pids))" "int (card F) \<le> FaultyProcesses ps"
    using assms(1) by (auto simp: br_faults_bounded_def)
  have "card (br_correct pids F) = length pids - card F"
    using card_Diff_subset[OF finite_subset[OF F(1)] F(1)] card_procs assms(2)
    by (simp add: br_correct_def br_enough_def)
  then show ?thesis using F(2) by linarith
qed

text \<open>A correct process has received, from every correct process, what that process said.\<close>

lemma br_settled_received:
  assumes i: "br_inv pids ps own F s" and st: "br_settled pids F s"
    and x: "x \<in> br_correct pids F" "y \<in> br_correct pids F" "br_said (set (br_wire s)) y b st v"
  shows "(y, x, br_msg b st v) \<in> set (br_recvd s)"
proof -
  have "x \<in> set (procs (length pids))" using x by (simp add: br_correct_def)
  then have "(y, x, br_msg b st v) \<in> set (br_wire s)"
    using i x(2,3) unfolding br_inv_def br_wire_ok_def br_said_def by blast
  then show ?thesis using st x(1,2) by (auto simp: br_settled_def list_all_iff)
qed

lemma br_heard_count:
  assumes i: "br_inv pids ps own F s" and st: "br_settled pids F s"
    and x: "x \<in> br_correct pids F" "br_at s x b = None"
    and A: "A \<subseteq> br_correct pids F" "\<And>y. y \<in> A \<Longrightarrow> br_said (set (br_wire s)) y b stage v"
  shows "stage = Bracha_READY \<Longrightarrow> card A \<le> br_readyCount (br_entry (br_nodes s x) b) v"
    "stage = Bracha_ECHO \<Longrightarrow> br_stage (br_entry (br_nodes s x) b) \<noteq> SentReady \<Longrightarrow>
       card A \<le> br_echoCount (br_entry (br_nodes s x) b) v"
proof -
  have rec: "y \<in> A \<Longrightarrow> (y, x, br_msg b stage v) \<in> set (br_recvd s)" for y
    using br_settled_received[OF i st x(1)] A by blast
  have only: "y \<in> A \<Longrightarrow> (y, x, br_msg b stage w) \<in> set (br_wire s) \<Longrightarrow>
      stage = Bracha_READY \<or> stage = Bracha_ECHO \<Longrightarrow> w = v" for y w
    using A(1) A(2)[of y] br_inv_parts(1)[OF i, of y b] unfolding br_sent_ok_def br_said_def by blast
  note v = br_inv_parts(2)[OF i x(1), of b] and r = br_inv_parts(3)[OF i x(1), of b]
  have heard: "y \<in> A \<Longrightarrow> stage = Bracha_READY \<Longrightarrow> br_receivedReady (br_entry (br_nodes s x) b) y"
    "y \<in> A \<Longrightarrow> stage = Bracha_ECHO \<Longrightarrow> br_stage (br_entry (br_nodes s x) b) \<noteq> SentReady \<Longrightarrow>
       br_receivedEcho (br_entry (br_nodes s x) b) y" for y
    using r rec[of y] x(2) unfolding br_received_ok_def by blast+
  have t: "tally (br_receivedEcho (br_entry (br_nodes s x) b)) (br_echoCount (br_entry (br_nodes s x) b))
      {(q, v). (q, x, br_msg b Bracha_ECHO v) \<in> set (br_wire s)}"
    "tally (br_receivedReady (br_entry (br_nodes s x) b)) (br_readyCount (br_entry (br_nodes s x) b))
      {(q, v). (q, x, br_msg b Bracha_READY v) \<in> set (br_wire s)}"
    using v by (simp_all add: br_votes_ok_def)
  show "card A \<le> br_readyCount (br_entry (br_nodes s x) b) v" if "stage = Bracha_READY"
    by (rule tally_ge[OF t(2)]) (use heard only that in auto)
  show "card A \<le> br_echoCount (br_entry (br_nodes s x) b) v"
    if "stage = Bracha_ECHO" "br_stage (br_entry (br_nodes s x) b) \<noteq> SentReady"
    by (rule tally_ge[OF t(1)]) (use heard only that in auto)
qed

text \<open>Once every correct process is ready for \<open>v\<close>, every correct process has delivered it.\<close>

lemma br_all_ready_delivered:
  assumes i: "br_inv pids ps own F s" and f: "br_faults_bounded pids ps F" and e: "br_enough pids ps"
    and st: "br_settled pids F s" and y: "y \<in> br_correct pids F"
    and all: "\<And>z. z \<in> br_correct pids F \<Longrightarrow> br_said (set (br_wire s)) z b Bracha_READY v"
  shows "br_at s y b = Some v"
proof (cases "br_at s y b")
  case None
  have nodes: "br_nodes_ok pids ps own F s" using i by (simp add: br_inv_def)
  have "card (br_correct pids F) \<le> br_readyCount (br_entry (br_nodes s y) b) v"
    using br_heard_count(1)[OF i st y None subset_refl all] by simp
  moreover have "int (br_readyCount (br_entry (br_nodes s y) b) v) < 2 * FaultyProcesses ps + 1"
    using br_inv_parts(2)[OF i y, of b] None br_nodes_thresholds(3)[OF nodes y f] by (simp add: br_votes_ok_def)
  ultimately show ?thesis using br_card_correct[OF f e] e unfolding br_enough_def by linarith
next
  case (Some w)
  obtain a where "a \<in> br_correct pids F" "br_said (set (br_wire s)) a b Bracha_READY w"
    using br_delivered_ready(2)[OF i f y Some] by blast
  then have "w = v" using br_ready_unique[OF i f] all[OF y] y by blast
  then show ?thesis using Some by simp
qed

lemma br_moved_ready:
  assumes i: "br_inv pids ps own F s" and y: "y \<in> br_correct pids F"
    and "br_at s y b \<noteq> None \<or> br_stage (br_entry (br_nodes s y) b) = SentReady"
  shows "\<exists>w. br_said (set (br_wire s)) y b Bracha_READY w"
  using br_inv_parts(1)[OF i y, of b] assms(3) unfolding br_sent_ok_def by blast

lemma br_totality_inv:
  assumes i: "br_inv pids ps own F s" and f: "br_faults_bounded pids ps F" and e: "br_enough pids ps"
    and st: "br_settled pids F s" and x: "x \<in> br_correct pids F" "br_at s x b = Some v"
    and y: "y \<in> br_correct pids F"
  shows "br_at s y b = Some v"
proof (rule br_all_ready_delivered[OF i f e st y])
  fix z assume z: "z \<in> br_correct pids F"
  let ?R = "{q. (q, x, br_msg b Bracha_READY v) \<in> set (br_wire s)}"
  let ?A = "?R - F"
  have nodes: "br_nodes_ok pids ps own F s" and w: "br_wire_ok pids F (set (br_wire s)) (set (br_recvd s))"
    using i by (simp_all add: br_inv_def)
  have R: "?R \<subseteq> set (procs (length pids))" using w by (auto simp: br_wire_ok_def)
  have A: "?A \<subseteq> br_correct pids F" "\<And>q. q \<in> ?A \<Longrightarrow> br_said (set (br_wire s)) q b Bracha_READY v"
    using R by (auto simp: br_correct_def br_said_def)
  have fin: "finite F" using f finite_subset[of F "set (procs (length pids))"] by (simp add: br_faults_bounded_def)
  have "card ?R - card F \<le> card ?A" by (rule diff_card_le_card_Diff[OF fin])
  then have cA: "FaultyProcesses ps + 1 \<le> int (card ?A)"
    using br_delivered_ready(1)[OF i f x] f unfolding br_faults_bounded_def by linarith
  have "br_at s z b \<noteq> None \<or> br_stage (br_entry (br_nodes s z) b) = SentReady"
  proof (cases "br_at s z b")
    case None
    have "card ?A \<le> br_readyCount (br_entry (br_nodes s z) b) v"
      using br_heard_count(1)[OF i st z None A] by simp
    then have "br_messagesForReady (br_nodes s z) \<le> int (br_readyCount (br_entry (br_nodes s z) b) v)"
      using cA br_nodes_thresholds(2)[OF nodes z f] by linarith
    then show ?thesis using br_inv_parts(2)[OF i z, of b] None by (auto simp: br_votes_ok_def)
  qed simp
  then obtain u where u: "br_said (set (br_wire s)) z b Bracha_READY u" using br_moved_ready[OF i z] by blast
  obtain a where "a \<in> br_correct pids F" "br_said (set (br_wire s)) a b Bracha_READY v"
    using br_delivered_ready(2)[OF i f x] by blast
  then have "u = v" using br_ready_unique[OF i f z u] by blast
  then show "br_said (set (br_wire s)) z b Bracha_READY v" using u by simp
qed

lemma br_validity_inv:
  assumes i: "br_inv pids ps own F s" and f: "br_faults_bounded pids ps F" and e: "br_enough pids ps"
    and st: "br_settled pids F s" and z: "z \<in> br_correct pids F" "br_said (set (br_wire s)) z b Bracha_INITIAL v"
    and only: "\<And>q w. br_said (set (br_wire s)) q b Bracha_INITIAL w \<Longrightarrow> w = v"
    and y: "y \<in> br_correct pids F"
  shows "br_at s y b = Some v"
proof (rule br_all_ready_delivered[OF i f e st y])
  have nodes: "br_nodes_ok pids ps own F s" and j: "br_justified pids ps F (set (br_wire s))"
    using i by (simp_all add: br_inv_def)
  have val: "u = v" if "a \<in> br_correct pids F"
    "br_said (set (br_wire s)) a b Bracha_ECHO u \<or> br_said (set (br_wire s)) a b Bracha_READY u" for a u
    using j that only unfolding br_justified_def by blast
  have echo: "br_said (set (br_wire s)) a b Bracha_ECHO v" if a: "a \<in> br_correct pids F" for a
  proof -
    have "br_at s a b \<noteq> None \<or> br_stage (br_entry (br_nodes s a) b) \<noteq> Init"
      using br_inv_parts(3)[OF i a, of b] br_settled_received[OF i st a z] unfolding br_received_ok_def by blast
    then obtain u where "br_said (set (br_wire s)) a b Bracha_ECHO u"
      using br_inv_parts(1)[OF i a, of b] unfolding br_sent_ok_def by blast
    then show ?thesis using val[OF a] by blast
  qed
  fix a assume a: "a \<in> br_correct pids F"
  have "br_at s a b \<noteq> None \<or> br_stage (br_entry (br_nodes s a) b) = SentReady"
  proof (rule ccontr)
    assume n: "\<not> ?thesis"
    then have "card (br_correct pids F) \<le> br_echoCount (br_entry (br_nodes s a) b) v"
      using br_heard_count(2)[OF i st a _ subset_refl echo] by simp
    moreover have "br_messagesForEcho (br_nodes s a) \<le> int (length pids) - FaultyProcesses ps"
      using br_nodes_thresholds(1)[OF nodes a f] e by (simp add: br_enough_def ceil_half_def) linarith
    ultimately have "br_messagesForEcho (br_nodes s a) \<le> int (br_echoCount (br_entry (br_nodes s a) b) v)"
      using br_card_correct[OF f e] by linarith
    then show False using br_inv_parts(2)[OF i a, of b] n by (auto simp: br_votes_ok_def)
  qed
  then obtain u where "br_said (set (br_wire s)) a b Bracha_READY u" using br_moved_ready[OF i a] by blast
  then show "br_said (set (br_wire s)) a b Bracha_READY v" using val[OF a] by blast
qed

section \<open>Runs\<close>

text \<open>
  A deterministic scheduler: hand the \<open>k\<close>-th message of the wire to its receiver, let a correct
  process broadcast, or let a faulty one send. Actions that are not possible do nothing.
\<close>

datatype br_action =
    Handle nat
  | Ask ProcessId int32
  | Inject ProcessId ProcessId BroadcastInstanceMessage

definition br_act :: "string list \<Rightarrow> ProcessId set \<Rightarrow> br_action \<Rightarrow> br_net \<Rightarrow> br_net" where
  "br_act pids F a s = (case a of
     Handle k \<Rightarrow>
       if k < length (br_wire s) then
         (case br_wire s ! k of (q, x, m) \<Rightarrow>
            if x \<in> br_correct pids F then
              (case br_HandleMessage (br_nodes s x) q m of
                 Inl e \<Rightarrow> s
               | Inr (p', es) \<Rightarrow> br_post s x p' es [(q, x, m)])
            else s)
       else s
   | Ask x v \<Rightarrow>
       if x \<in> br_correct pids F then
         (case br_Broadcast (br_nodes s x) v of
            Inl e \<Rightarrow> s
          | Inr (p', es) \<Rightarrow> br_post s x p' es [])
       else s
   | Inject q y m \<Rightarrow> if q \<in> F then s\<lparr>br_wire := br_wire s @ [(q, y, m)]\<rparr> else s)"

definition br_exec :: "string list \<Rightarrow> ProcessId set \<Rightarrow> br_action list \<Rightarrow> br_net \<Rightarrow> br_net" where
  "br_exec pids F acts s = fold (br_act pids F) acts s"

lemma br_act_step: "br_act pids F a s = s \<or> br_step pids F s (br_act pids F a s)"
proof (cases a)
  case (Handle k)
  obtain q x m where w: "br_wire s ! k = (q, x, m)" by (metis prod_cases3)
  show ?thesis
  proof (cases "k < length (br_wire s) \<and> x \<in> br_correct pids F")
    case True
    then have "(q, x, m) \<in> set (br_wire s)" using w nth_mem by metis
    then show ?thesis using Handle True w br_step.receive[of x pids F q m s]
      by (auto simp: br_act_def split: sum.splits)
  qed (use Handle w in \<open>auto simp: br_act_def\<close>)
qed (auto simp: br_act_def split: sum.splits intro: br_step.intros)

lemma br_exec_reachable:
  "br_reachable pids ps own F s \<Longrightarrow> br_reachable pids ps own F (br_exec pids F acts s)"
proof (induction acts arbitrary: s)
  case (Cons a acts)
  have "br_reachable pids ps own F (br_act pids F a s)"
    using br_act_step[of pids F a s] Cons.prems br_reachable.step by metis
  then show ?case using Cons.IH by (simp add: br_exec_def)
qed (simp add: br_exec_def)

text \<open>
  Four processes, process 3 faulty. In \<open>honest_run\<close> process 0 broadcasts 7, process 3 tells
  process 1 something else, and every message is handled in the order sent.
\<close>

definition four :: "string list" where
  "four = [''p0'', ''p1'', ''p2'', ''p3'']"

definition one_fault :: Parameters where
  "one_fault = \<lparr>ProcessCount = 4, FaultyProcesses = 1, MinOwnWitnessSetSize_param = 0,
     MinPotWitnessSetSize_param = 0, OwnWitnessSetRadius_param = 0, PotWitnessSetRadius_param = 0,
     WitnessThreshold = 0, RecoverySwitchTimeoutNs = 0, NodeIdSize = 0, NumberOfBins = 0,
     GossipSampleSize = 0, EchoSampleSize = 0, EchoThreshold = 0, ReadySampleSize = 0,
     ReadyThreshold = 0, DeliverySampleSize = 0, DeliveryThreshold = 0, CleanUpTimeout = 0\<rparr>"

definition first_tx :: BroadcastInstance where
  "first_tx = \<lparr>Author = 0, SeqNumber = 0\<rparr>"

definition honest_run :: br_net where
  "honest_run = br_exec four {3}
     (Ask 0 7 # Inject 3 1 (br_msg first_tx Bracha_ECHO 8) # map Handle [0..<29]) (br_net_init four one_fault False)"

text \<open>
  In \<open>forged_run\<close> no correct process broadcasts: process 3 sends INITIAL messages that name
  process 0 as the author.
\<close>

definition forged_run :: br_net where
  "forged_run = br_exec four {3}
     (map (\<lambda>y. Inject 3 y (br_msg first_tx Bracha_INITIAL 9)) [0, 1, 2] @ map Handle [0..<27])
     (br_net_init four one_fault False)"

lemma runs_reachable:
  "br_reachable four one_fault False {3} honest_run" "br_reachable four one_fault False {3} forged_run"
  by (simp_all add: honest_run_def forged_run_def br_exec_reachable br_reachable.start)

lemma one_fault_bounds: "br_faults_bounded four one_fault {3}" "br_enough four one_fault"
proof -
  have "(3 :: ProcessId) \<in> set (procs (length four))" by code_simp
  then show "br_faults_bounded four one_fault {3}" "br_enough four one_fault"
    by (simp_all add: br_faults_bounded_def br_sizes_exact_def br_enough_def)
      (simp_all add: four_def one_fault_def)
qed

lemma four_correct:
  "0 \<in> br_correct four {3}" "1 \<in> br_correct four {3}" "2 \<in> br_correct four {3}"
  by (code_simp, code_simp, code_simp)

text \<open>What a run shows of one instance: the proposals on the wire, the delivered values, and quiescence.\<close>

definition br_proposal :: "BroadcastInstanceMessage \<Rightarrow> (BroadcastInstance \<times> int32) list" where
  "br_proposal m = (case (BroadcastInstance_of m, Message_of m) of
     (Some b, BrachaMessage bm) \<Rightarrow> if BrachaStage bm = Bracha_INITIAL then [(b, BrachaValue bm)] else []
   | _ \<Rightarrow> [])"

definition br_proposals :: "packet list \<Rightarrow> (BroadcastInstance \<times> int32) list" where
  "br_proposals W = concat (map (\<lambda>(q, y, m). br_proposal m) W)"

lemma br_proposals_said: "br_said (set W) q b Bracha_INITIAL v \<Longrightarrow> (b, v) \<in> set (br_proposals W)"
  by (force simp: br_said_def br_proposals_def br_proposal_def br_msg_def)

definition br_summary ::
  "string list \<Rightarrow> ProcessId set \<Rightarrow> ProcessId list \<Rightarrow> BroadcastInstance \<Rightarrow> br_net \<Rightarrow>
   (BroadcastInstance \<times> int32) list \<times> int32 option list \<times> int32 list \<times> bool" where
  "br_summary pids F xs b s = (br_proposals (br_wire s), map (\<lambda>x. br_at s x b) xs,
     map (\<lambda>x. br_transactionCounter (br_nodes s x)) xs, br_settled pids F s)"

lemma honest_run_summary:
  "br_summary four {3} [0, 1, 2] first_tx honest_run =
     (replicate 4 (first_tx, 7), [Some 7, Some 7, Some 7], [1, 0, 0], True)"
  by code_simp

lemma forged_run_summary:
  "br_summary four {3} [0, 1, 2] first_tx forged_run =
     (replicate 3 (first_tx, 9), [Some 9, Some 9, Some 9], [0, 0, 0], True)"
  by code_simp

lemma honest_run_values:
  "br_at honest_run 0 first_tx = Some 7" "br_at honest_run 1 first_tx = Some 7" "br_settled four {3} honest_run"
  "br_said (set (br_wire honest_run)) q first_tx Bracha_INITIAL v \<Longrightarrow> v = 7"
  using honest_run_summary br_proposals_said[of "br_wire honest_run" q first_tx v]
  by (simp_all add: br_summary_def)

lemma honest_run_initial: "br_said (set (br_wire honest_run)) 0 first_tx Bracha_INITIAL 7"
proof -
  have "(0, 0, br_msg first_tx Bracha_INITIAL 7) \<in> set (br_wire honest_run)" by code_simp
  then show ?thesis by (auto simp: br_said_def)
qed

section \<open>The guarantees\<close>

text \<open>
  C1: Agreement. In every reachable state with at most \<open>f\<close> faulty processes, \<open>f\<close> and the number of
  processes below \<open>2^52\<close> (so that the thresholds do not wrap), two correct processes that have delivered
  the same broadcast instance have delivered the same value.
\<close>

theorem br_agreement:
  assumes "br_reachable pids ps own F s" "br_faults_bounded pids ps F"
    and "x \<in> br_correct pids F" "br_at s x b = Some v"
    and "y \<in> br_correct pids F" "br_at s y b = Some w"
  shows "v = w"
  by (rule br_delivered_unique[OF br_reachable_inv[OF assms(1,2)] assms(2-6)])

theorem br_agreement_witness:
  "\<exists>v w. br_at honest_run 0 first_tx = Some v \<and> br_at honest_run 1 first_tx = Some w \<and> v = w"
proof -
  have at: "br_at honest_run 0 first_tx = Some 7" "br_at honest_run 1 first_tx = Some 7"
    using honest_run_values by simp_all
  have "(7 :: int32) = 7"
    by (rule br_agreement[OF runs_reachable(1) one_fault_bounds(1) four_correct(1) at(1) four_correct(2) at(2)])
  then show ?thesis using at by blast
qed

text \<open>
  C5: Totality. When every message between correct processes has been received, \<open>n \<ge> 3f + 1\<close>,
  and one correct process has delivered a value, every correct process has delivered it. (As \<open>br_enough\<close>
  also says \<open>n \<le> 2^32\<close>, it implies the bound on the sizes in \<open>br_faults_bounded\<close>.)
\<close>

theorem br_totality:
  assumes "br_reachable pids ps own F s" "br_faults_bounded pids ps F" "br_enough pids ps"
    and "br_settled pids F s" "x \<in> br_correct pids F" "br_at s x b = Some v" "y \<in> br_correct pids F"
  shows "br_at s y b = Some v"
  by (rule br_totality_inv[OF br_reachable_inv[OF assms(1,2)] assms(2-7)])

theorem br_totality_witness:
  "br_settled four {3} honest_run \<and> br_at honest_run 0 first_tx = Some 7 \<and> br_at honest_run 2 first_tx = Some 7"
proof -
  have st: "br_settled four {3} honest_run" and at: "br_at honest_run 0 first_tx = Some 7"
    using honest_run_values by simp_all
  show ?thesis
    using br_totality[OF runs_reachable(1) one_fault_bounds st four_correct(1) at four_correct(3)] st at by simp
qed

text \<open>
  C6: Validity. When every message between correct processes has been received, a correct process
  has broadcast the INITIAL of \<open>v\<close>, and no process has sent an INITIAL of another value for that
  instance, every correct process has delivered \<open>v\<close>, whatever ECHOs and READYs the faulty ones send.
\<close>

theorem br_validity:
  assumes "br_reachable pids ps own F s" "br_faults_bounded pids ps F" "br_enough pids ps"
    and "br_settled pids F s" "z \<in> br_correct pids F" "br_said (set (br_wire s)) z b Bracha_INITIAL v"
    and "\<And>q w. br_said (set (br_wire s)) q b Bracha_INITIAL w \<Longrightarrow> w = v" and "y \<in> br_correct pids F"
  shows "br_at s y b = Some v"
  by (rule br_validity_inv[OF br_reachable_inv[OF assms(1,2)] assms(2-6) _ assms(8)]) (use assms(7) in blast)

theorem br_validity_witness:
  "br_said (set (br_wire honest_run)) 0 first_tx Bracha_INITIAL 7 \<and> br_at honest_run 2 first_tx = Some 7"
  using br_validity[OF runs_reachable(1) one_fault_bounds honest_run_values(3) four_correct(1)
      honest_run_initial honest_run_values(4) four_correct(3)] honest_run_initial
  by simp

text \<open>
  C9: Integrity. With at most \<open>f\<close> faulty processes, \<open>f\<close> and the number of processes below \<open>2^52\<close>, a
  value that a correct process has delivered was proposed: some process sent it in an INITIAL message
  of that instance.
\<close>

theorem br_integrity:
  assumes "br_reachable pids ps own F s" "br_faults_bounded pids ps F"
    and "x \<in> br_correct pids F" "br_at s x b = Some v"
  shows "\<exists>q. br_said (set (br_wire s)) q b Bracha_INITIAL v"
proof -
  have i: "br_inv pids ps own F s" by (rule br_reachable_inv[OF assms(1,2)])
  then show ?thesis
    using br_delivered_ready(2)[OF i assms(2-4)] unfolding br_inv_def br_justified_def by blast
qed

theorem br_integrity_witness: "\<exists>q. br_said (set (br_wire honest_run)) q first_tx Bracha_INITIAL 7"
  by (rule br_integrity[OF runs_reachable(1) one_fault_bounds(1) four_correct(1)])
    (use honest_run_values in simp)


text \<open>
  No duplication. Over any run of one process, whatever it receives from whomever, every
  broadcast instance is delivered at most once, and what is recorded as delivered is exactly
  what the log events report.
\<close>

theorem br_no_duplication:
  assumes "run_inputs br_HandleMessage br_Broadcast (br_InitProcess i pids ps own) is = Inr (p', es)"
  shows "distinct (map fst (deliveries es)) \<and> br_value p' = map_of (deliveries es)"
proof -
  have wf: "br_wf (br_InitProcess i pids ps own)"
    and v: "br_value (br_InitProcess i pids ps own) = Map.empty"
    by (simp_all add: br_InitProcess_def Let_def br_wf_def br_value_def fun_eq_iff)
  show ?thesis using bracha.run_ok[OF wf assms] unfolding v by (simp add: delivery_step_def)
qed

definition br_solo_inputs :: "input list" where
  "br_solo_inputs = [Request 5, Received 0 (br_msg first_tx Bracha_INITIAL 5),
     Received 0 (br_msg first_tx Bracha_ECHO 5), Received 0 (br_msg first_tx Bracha_READY 5),
     Received 0 (br_msg first_tx Bracha_READY 6)]"

theorem br_no_duplication_witness:
  "\<exists>p' es. run_inputs br_HandleMessage br_Broadcast (br_InitProcess 0 [''p0''] (one_fault\<lparr>FaultyProcesses := 0\<rparr>) True)
      br_solo_inputs = Inr (p', es) \<and> deliveries es = [(first_tx, 5)] \<and>
      distinct (map fst (deliveries es)) \<and> br_value p' = map_of (deliveries es)"
proof -
  let ?r = "run_inputs br_HandleMessage br_Broadcast (br_InitProcess 0 [''p0''] (one_fault\<lparr>FaultyProcesses := 0\<rparr>) True)
    br_solo_inputs"
  have "map_sum id (\<lambda>(p, es). deliveries es) ?r = Inr [(first_tx, 5)]" by code_simp
  then obtain p' es where "?r = Inr (p', es)" "deliveries es = [(first_tx, 5)]"
    by (cases ?r) auto
  then show ?thesis using br_no_duplication by metis
qed

section \<open>The handler on every input\<close>

text \<open>
  C13: Every outcome of \<open>HandleMessage\<close> from a well-formed state. A message of another protocol
  stops the program, one without instance or with an author outside the system panics, a
  delivered instance is left alone, and otherwise the handler returns and implements the
  one-instance automaton \<open>br_react\<close>.
\<close>

theorem br_HandleMessage_outcome:
  assumes "br_wf p"
  shows "case Message_of bm of
      BrachaMessage m \<Rightarrow> (case BroadcastInstance_of bm of
          None \<Rightarrow> br_HandleMessage p q bm = Inl NilDereference
        | Some b \<Rightarrow> (case br_value p b of
              Some w \<Rightarrow> br_HandleMessage p q bm =
                Inr (p, if w \<noteq> BrachaValue m then [Log (OnAttack b (BrachaValue m) w)] else [])
            | None \<Rightarrow> if Author b \<notin> set (procs (br_n p)) then br_HandleMessage p q bm = Inl NilMapAssign
                else \<exists>p' es. br_HandleMessage p q bm = Inr (p', es) \<and>
                  br_implements p b (BrachaValue m) (br_react p (BrachaStage m) q (BrachaValue m) ((br_entry p b)
                    \<lparr>br_receivedMessagesCnt := Suc (br_receivedMessagesCnt (br_entry p b))\<rparr>)) p' es))
    | _ \<Rightarrow> br_HandleMessage p q bm = Inl FatalExit"
proof (cases "\<exists>m b. Message_of bm = BrachaMessage m \<and> BroadcastInstance_of bm = Some b")
  case True
  then obtain m b where m: "Message_of bm = BrachaMessage m" "BroadcastInstance_of bm = Some b" by blast
  have h: "br_HandleMessage p q bm = br_processProtocolMessage p q b m"
    using m by (simp add: br_HandleMessage_def)
  have eq: "\<lparr>BrachaStage = BrachaStage m, BrachaValue = BrachaValue m\<rparr> = m" by simp
  show ?thesis
  proof (cases "br_value p b")
    case None
    then show ?thesis
      using br_process_panic[OF assms, of b q m] br_process_ok[OF assms, of b q "BrachaStage m" "BrachaValue m"]
      unfolding eq by (simp add: m h)
  next
    case (Some w)
    then show ?thesis using br_process_delivered[OF Some, of q m] by (simp add: m h)
  qed
next
  case False
  then show ?thesis
    by (auto simp: br_HandleMessage_def split: BroadcastInstanceMessage_Message.split option.split)
qed

theorem br_HandleMessage_outcome_witness:
  "br_HandleMessage (br_InitProcess 0 four one_fault False) 3
     (br_msg \<lparr>Author = 4, SeqNumber = 0\<rparr> Bracha_ECHO 1) = Inl NilMapAssign"
proof -
  have wf: "br_wf (br_InitProcess 0 four one_fault False)"
    by (simp add: br_InitProcess_def Let_def br_wf_def)
  have "br_value (br_InitProcess 0 four one_fault False) \<lparr>Author = 4, SeqNumber = 0\<rparr> = None"
    "4 \<notin> set (procs (br_n (br_InitProcess 0 four one_fault False)))"
    by (simp add: br_InitProcess_def Let_def br_value_def, code_simp)
  then show ?thesis
    using br_HandleMessage_outcome[OF wf, of 3 "br_msg \<lparr>Author = 4, SeqNumber = 0\<rparr> Bracha_ECHO 1"]
    by (simp add: br_msg_def)
qed

section \<open>Authors are not authenticated\<close>

text \<open>
  C26: The handler never compares the author named in an INITIAL message with its sender. With
  one faulty process there is a reachable state in which process 0 is correct and has broadcast
  nothing, yet the correct processes have delivered a transaction with author 0.
\<close>

theorem br_author_not_authenticated:
  "br_reachable four one_fault False {3} forged_run \<and> Author first_tx = 0 \<and> 0 \<in> br_correct four {3} \<and>
   br_transactionCounter (br_nodes forged_run 0) = 0 \<and> br_at forged_run 0 first_tx = Some 9 \<and>
   br_at forged_run 1 first_tx = Some 9"
  using runs_reachable(2) four_correct(1) forged_run_summary
  by (simp add: br_summary_def first_tx_def)

end
