(* ===== verification/Byte_Utils.thy ===== *)
theory Byte_Utils
  imports Prelude
begin

text \<open>
  \<open>impl/utils/hashing.go\<close>: little-endian conversions between integers and byte slices, the
  byte form of a transaction, and slice comparison.
\<close>

unbundle bit_operations_syntax

section \<open>Little-endian words (\<open>encoding/binary\<close>)\<close>

fun le_bytes :: "nat \<Rightarrow> nat \<Rightarrow> byte list" where
  "le_bytes 0 x = []"
| "le_bytes (Suc k) x = of_nat (x mod 256) # le_bytes k (x div 256)"

fun le_value :: "byte list \<Rightarrow> nat" where
  "le_value [] = 0"
| "le_value (b # bs) = unat b + 256 * le_value bs"

lemma length_le_bytes [simp]: "length (le_bytes k x) = k"
  by (induction k arbitrary: x) auto

lemma le_value_le_bytes: "le_value (le_bytes k x) = x mod 256 ^ k"
proof (induction k arbitrary: x)
  case (Suc k)
  have "unat (of_nat (x mod 256) :: byte) = x mod 256"
    by (simp add: unat_of_nat take_bit_nat_eq_self)
  then show ?case by (simp add: Suc mod_mult2_eq)
qed simp

lemma le_bytes_le_value: "le_bytes (length bs) (le_value bs) = bs"
proof (induction bs)
  case (Cons b bs)
  have "unat b < 256" using unat_bound[of b] by simp
  then show ?case using Cons by (simp add: div_mult_self4)
qed simp

lemma le_value_bound: "le_value bs < 256 ^ length bs"
proof (induction bs)
  case (Cons b bs)
  have "unat b < 256" using unat_bound[of b] by simp
  with Cons show ?case by simp
qed simp

lemma le_bytes_inject: "le_bytes k x = le_bytes k y \<longleftrightarrow> x mod 256 ^ k = y mod 256 ^ k"
proof
  assume "le_bytes k x = le_bytes k y"
  then have "le_value (le_bytes k x) = le_value (le_bytes k y)" by simp
  then show "x mod 256 ^ k = y mod 256 ^ k" by (simp only: le_value_le_bytes)
next
  assume "x mod 256 ^ k = y mod 256 ^ k"
  then have "le_bytes (length (le_bytes k x)) (le_value (le_bytes k x)) =
    le_bytes (length (le_bytes k y)) (le_value (le_bytes k y))"
    by (simp add: le_value_le_bytes)
  then show "le_bytes k x = le_bytes k y" by (simp only: le_bytes_le_value)
qed

section \<open>Conversions\<close>

text \<open>
  \<open>ToUint64\<close> reads at most eight bytes and pads with zeros; \<open>ToInt32\<close> hands its slice to
  \<open>binary.LittleEndian.Uint32\<close>, which panics on fewer than four bytes.
\<close>

definition ToUint64 :: "byte list \<Rightarrow> uint64" where
  "ToUint64 bytes =
     (let size = min (length bytes) 8; data = take size bytes @ replicate (8 - size) 0
      in of_nat (le_value data))"

definition ToInt32 :: "byte list \<Rightarrow> int32 go" where
  "ToInt32 bytes = (if length bytes < 4 then Inl IndexOutOfRange
     else Inr (of_nat (le_value (take 4 bytes))))"

definition ToBytes :: "uint64 \<Rightarrow> byte list" where
  "ToBytes value = le_bytes 8 (unat value)"

definition Int32ToBytes :: "int32 \<Rightarrow> byte list" where
  "Int32ToBytes value = le_bytes 4 (unat value)"

text \<open>
  \<open>addBytes\<close> adds the shorter slice to the longer one, byte by byte, each byte modulo 256.
\<close>

definition addBytes :: "byte list \<Rightarrow> byte list \<Rightarrow> byte list" where
  "addBytes a b =
     (let (long, short) = (if length b > length a then (b, a) else (a, b))
      in map2 (+) (take (length short) long) short @ drop (length short) long)"

text \<open>
  \<open>[]byte(author)\<close> are the string's bytes; \<open>uint64(seqNumber)\<close> of an \<open>int64\<close> keeps its bits, and
  the callers pass a sign-extended \<open>int32\<close>.
\<close>

definition string_bytes :: "string \<Rightarrow> byte list" where
  "string_bytes s = map (\<lambda>c. of_nat (of_char c)) s"

definition TransactionToBytes :: "string \<Rightarrow> 64 word \<Rightarrow> byte list" where
  "TransactionToBytes author seqNumber = addBytes (string_bytes author) (ToBytes seqNumber)"

text \<open>The comparison loop of \<open>AreEqual\<close>: equal lengths, then the first difference decides.\<close>

fun equal_from :: "byte list \<Rightarrow> byte list \<Rightarrow> bool" where
  "equal_from (x # xs) (y # ys) = (if x \<noteq> y then False else equal_from xs ys)"
| "equal_from _ _ = True"

definition AreEqual :: "byte list \<Rightarrow> byte list \<Rightarrow> bool" where
  "AreEqual a b = (if length a \<noteq> length b then False else equal_from a b)"

section \<open>Facts\<close>

lemma le_value_append_zeros: "le_value (bs @ replicate k 0) = le_value bs"
  by (induction bs) (induction k, auto)

lemma length_ToBytes [simp]: "length (ToBytes w) = 8"
  by (simp add: ToBytes_def)

lemma length_Int32ToBytes [simp]: "length (Int32ToBytes w) = 4"
  by (simp add: Int32ToBytes_def)

lemma ToUint64_take: "ToUint64 bs = of_nat (le_value (take 8 bs))"
  by (auto simp: ToUint64_def Let_def le_value_append_zeros min_def)

lemma ToUint64_roundtrip: "ToUint64 (ToBytes w) = w"
proof -
  have "unat w mod 256 ^ 8 = unat w" using unat_bound[of w] by simp
  then show ?thesis by (simp add: ToUint64_take ToBytes_def le_value_le_bytes)
qed

lemma Int32ToBytes_roundtrip: "ToInt32 (Int32ToBytes w) = Inr w"
proof -
  have "unat w mod 256 ^ 4 = unat w" using unat_bound[of w] by simp
  then show ?thesis by (simp add: ToInt32_def Int32ToBytes_def le_value_le_bytes)
qed

lemma Int32ToBytes_inject: "Int32ToBytes x = Int32ToBytes y \<longleftrightarrow> x = y"
  by (metis Int32ToBytes_roundtrip sum.inject(2))

lemma equal_from_eq: "length xs = length ys \<Longrightarrow> equal_from xs ys \<longleftrightarrow> xs = ys"
  by (induction xs ys rule: list_induct2) auto

lemma AreEqual_eq: "AreEqual xs ys \<longleftrightarrow> xs = ys"
  by (auto simp: AreEqual_def equal_from_eq)

lemma length_addBytes [simp]: "length (addBytes a b) = max (length a) (length b)"
  by (simp add: addBytes_def Let_def max_def min_def)

lemma addBytes_nth:
  "i < max (length a) (length b) \<Longrightarrow>
   addBytes a b ! i = (if i < length a then a ! i else 0) + (if i < length b then b ! i else 0)"
  by (auto simp: addBytes_def nth_append add.commute)

lemma addBytes_commute: "addBytes a b = addBytes b a"
  by (rule nth_equalityI) (auto simp: addBytes_nth max.commute)

lemma addBytes_cancel:
  assumes len: "length b = length c" and eq: "addBytes a b = addBytes a c"
  shows "b = c"
proof (rule nth_equalityI[OF len])
  fix i assume i: "i < length b"
  have "addBytes a b ! i = addBytes a c ! i" by (simp add: eq)
  with i len show "b ! i = c ! i" by (simp add: addBytes_nth)
qed

lemma ToBytes_inject: "ToBytes x = ToBytes y \<longleftrightarrow> x = y"
  by (metis ToUint64_roundtrip)

lemma TransactionToBytes_seq: "TransactionToBytes a s = TransactionToBytes a t \<longleftrightarrow> s = t"
  by (auto simp: TransactionToBytes_def ToBytes_inject dest: addBytes_cancel[rotated])

lemma length_TransactionToBytes: "length (TransactionToBytes a s) = max (length a) 8"
  by (simp add: TransactionToBytes_def string_bytes_def)

end
