(* ===== verification/Multi_Ring.thy ===== *)
theory Multi_Ring
  imports Byte_Utils Complex_Main
begin

text \<open>
  \<open>impl/hashing/multi_rings.go\<close>: vectors of integers modulo \<open>modulo\<close> and their L1 distance
  around the ring. \<open>float64\<close> values are modelled by the reals; the distances are sums of
  integers, exact in \<open>float64\<close> below \<open>2^53\<close>, and \<open>ring_dist_bound\<close> bounds them.
\<close>

section \<open>Operations\<close>

record MultiRing =
  modulo :: nat
  dimension :: nat
  vector :: "int list"

definition NewMultiRing :: "nat \<Rightarrow> nat \<Rightarrow> MultiRing" where
  "NewMultiRing m dm = \<lparr>modulo = m, dimension = dm, vector = replicate dm 0\<rparr>"

text \<open>\<open>int(r.modulo)\<close>: the conversion of a \<open>uint\<close> keeps the bits.\<close>

definition int_modulo :: "MultiRing \<Rightarrow> int" where
  "int_modulo r = i64 (int (modulo r))"

definition ring_copy :: "MultiRing \<Rightarrow> MultiRing go" where
  "ring_copy r = go_bind (go_map (\<lambda>i. go_index (vector r) (int i)) [0..<dimension r])
     (\<lambda>v. Inr ((NewMultiRing (modulo r) (dimension r))\<lparr>vector := v\<rparr>))"

definition ring_set :: "MultiRing \<Rightarrow> nat \<Rightarrow> int \<Rightarrow> MultiRing go" where
  "ring_set r i value =
     (let m = int_modulo r in
      if m = 0 then Inl DivideByZero
      else if i < length (vector r)
        then Inr (r\<lparr>vector := (vector r)[i := go_rem (i64 (go_rem value m + m)) m]\<rparr>)
        else Inl IndexOutOfRange)"

definition ring_add :: "MultiRing \<Rightarrow> nat \<Rightarrow> int \<Rightarrow> MultiRing go" where
  "ring_add r i value =
     go_bind (go_index (vector r) (int i)) (\<lambda>x. ring_set r i (i64 (x + value)))"

definition ring_merge :: "MultiRing \<Rightarrow> MultiRing \<Rightarrow> MultiRing go" where
  "ring_merge r rx =
     go_fold (\<lambda>r i. go_bind (go_index (vector rx) (int i)) (ring_add r i)) r [0..<dimension r]"

definition ring_subtract :: "MultiRing \<Rightarrow> int \<Rightarrow> int \<Rightarrow> real go" where
  "ring_subtract r x y =
     (let m = int_modulo r in
      if m = 0 then Inl DivideByZero
      else Inr (real_of_int (go_rem (i64 (i64 (m + x) - y)) m)))"

text \<open>\<open>None\<close> is the error of rings that differ in modulo or dimension.\<close>

definition multiRingDistance :: "MultiRing \<Rightarrow> MultiRing \<Rightarrow> real option go" where
  "multiRingDistance r1 r2 =
     (if modulo r1 \<noteq> modulo r2 \<or> dimension r1 \<noteq> dimension r2 then Inr None
      else go_bind (go_map (\<lambda>i.
          go_bind (go_index (vector r1) (int i)) (\<lambda>x.
          go_bind (go_index (vector r2) (int i)) (\<lambda>y.
          go_bind (ring_subtract r1 x y) (\<lambda>a.
          go_bind (ring_subtract r1 y x) (\<lambda>b. Inr (min a b)))))) [0..<dimension r1])
        (\<lambda>ds. Inr (Some (sum_list ds))))"

text \<open>
  \<open>multiRingFromBytes\<close>. The buffer \<open>value\<close> is reused between dimensions; its first
  \<open>bytesPerDimension\<close> bytes are overwritten each time and the others stay zero.
\<close>

definition multiRingFromBytes :: "nat \<Rightarrow> nat \<Rightarrow> byte list \<Rightarrow> MultiRing go" where
  "multiRingFromBytes m dm bytes =
     (if dm = 0 then Inl DivideByZero
      else let per = min (length bytes div dm) 8 in
        go_fold (\<lambda>mr i.
          go_bind (go_map (\<lambda>j. go_index bytes (int (i * per + j))) [0..<per]) (\<lambda>bs.
            ring_set mr i (i64 (int (unat (ToUint64 (bs @ replicate (8 - per) 0)))))))
          (NewMultiRing m dm) [0..<dm])"

section \<open>Well-formed rings\<close>

text \<open>
  \<open>modulo \<le> 2^62\<close> keeps the sums inside \<open>set\<close> and \<open>subtract\<close> below \<open>2^63\<close>.
\<close>

definition ring_wf :: "MultiRing \<Rightarrow> bool" where
  "ring_wf r \<longleftrightarrow> 0 < modulo r \<and> modulo r \<le> 2 ^ 62 \<and> length (vector r) = dimension r \<and>
     list_all (\<lambda>x. 0 \<le> x \<and> x < int (modulo r)) (vector r)"

lemma ring_wf_nth:
  "ring_wf r \<Longrightarrow> i < dimension r \<Longrightarrow> 0 \<le> vector r ! i \<and> vector r ! i < int (modulo r)"
  by (auto simp: ring_wf_def list_all_length)

lemma int_modulo_wf: "ring_wf r \<Longrightarrow> int_modulo r = int (modulo r)"
  by (simp add: int_modulo_def ring_wf_def)

lemma NewMultiRing_wf: "0 < m \<Longrightarrow> m \<le> 2 ^ 62 \<Longrightarrow> ring_wf (NewMultiRing m dm)"
  by (simp add: ring_wf_def NewMultiRing_def list_all_length)

text \<open>\<open>set\<close> stores the value reduced into \<open>[0, modulo)\<close>, for every \<open>int\<close>.\<close>

lemma set_formula:
  fixes m v :: int
  assumes "0 < m" "m \<le> 2 ^ 62"
  shows "go_rem (i64 (go_rem v m + m)) m = v mod m"
proof -
  have b: "- m < go_rem v m" "go_rem v m < m" using go_rem_bounds[OF assms(1)] by auto
  then have "i64 (go_rem v m + m) = go_rem v m + m" using assms by (intro i64_id) simp_all
  then have "go_rem (i64 (go_rem v m + m)) m = (go_rem v m + m) mod m"
    using b assms by simp
  also have "\<dots> = v mod m" using go_rem_cong[OF assms(1)] by simp
  finally show ?thesis .
qed

lemma ring_set_wf:
  assumes "ring_wf r" "i < dimension r"
  shows "ring_set r i v = Inr (r\<lparr>vector := (vector r)[i := v mod int (modulo r)]\<rparr>)"
  using assms set_formula[of "int (modulo r)" v]
  by (simp add: ring_set_def int_modulo_wf) (simp add: ring_wf_def)

lemma ring_update_wf:
  assumes "ring_wf r"
  shows "ring_wf (r\<lparr>vector := (vector r)[i := v mod int (modulo r)]\<rparr>)"
  using assms by (cases "i < length (vector r)")
    (auto simp: ring_wf_def list_all_length nth_list_update list_update_beyond)

text \<open>Small steps do not overflow.\<close>

lemma ring_add_wf:
  assumes "ring_wf r" "i < dimension r" "\<bar>v\<bar> \<le> 2 ^ 62"
  shows "ring_add r i v =
    Inr (r\<lparr>vector := (vector r)[i := (vector r ! i + v) mod int (modulo r)]\<rparr>)"
proof -
  have "0 \<le> vector r ! i" "vector r ! i < 2 ^ 62"
    using ring_wf_nth[OF assms(1,2)] assms(1) by (auto simp: ring_wf_def)
  then have "i64 (vector r ! i + v) = vector r ! i + v"
    using assms(3) by (intro i64_id) simp_all
  moreover have "i < length (vector r)" using assms by (simp add: ring_wf_def)
  ultimately show ?thesis using assms by (simp add: ring_add_def go_index_nat ring_set_wf)
qed

lemma ring_copy_wf: "ring_wf r \<Longrightarrow> ring_copy r = Inr r"
proof -
  assume wf: "ring_wf r"
  then have len: "length (vector r) = dimension r" by (simp add: ring_wf_def)
  have "go_map (\<lambda>i. go_index (vector r) (int i)) [0..<dimension r] =
    Inr (map (\<lambda>i. vector r ! i) [0..<dimension r])"
    by (rule go_map_Inr_I) (simp add: go_index_nat len)
  then show ?thesis by (simp add: ring_copy_def NewMultiRing_def map_nth flip: len)
qed

section \<open>The distance around a ring\<close>

definition circ :: "int \<Rightarrow> int \<Rightarrow> int" where
  "circ m x = min (x mod m) ((- x) mod m)"

lemma neg_mod: "0 < (m::int) \<Longrightarrow> (- x) mod m = (if x mod m = 0 then 0 else m - x mod m)"
  by (simp add: zmod_zminus1_eq_if)

lemma circ_cases: "0 < m \<Longrightarrow> circ m x = min (x mod m) (m - x mod m)"
  by (auto simp: circ_def neg_mod min_def)

lemma circ_bounds:
  assumes "0 < m"
  shows "0 \<le> circ m x \<and> 2 * circ m x \<le> m"
proof -
  have "0 \<le> x mod m" "x mod m < m" using assms by simp_all
  moreover have "2 * min a (m - a) \<le> m" for a :: int by (simp add: min_def)
  ultimately show ?thesis by (simp add: circ_cases[OF assms])
qed

lemma circ_minus: "circ m (- x) = circ m x"
  by (simp add: circ_def min.commute)

lemma circ_zero_iff:
  assumes "0 < m"
  shows "circ m x = 0 \<longleftrightarrow> x mod m = 0"
proof -
  have "(min a (m - a) = 0) = (a = 0)" if "0 \<le> a" "a < m" for a
    using that by auto
  then show ?thesis using assms by (simp add: circ_cases)
qed

lemma circ_triangle:
  assumes "0 < m"
  shows "circ m (x + y) \<le> circ m x + circ m y"
proof -
  have r: "0 \<le> x mod m" "x mod m < m" "0 \<le> y mod m" "y mod m < m" using assms by simp_all
  have "(x + y) mod m = (if x mod m + y mod m < m then x mod m + y mod m else x mod m + y mod m - m)"
  proof (cases "x mod m + y mod m < m")
    case True
    then have "(x mod m + y mod m) mod m = x mod m + y mod m" using r by simp
    then show ?thesis using True by (simp add: mod_add_eq)
  next
    case False
    then have "(x mod m + y mod m - m) mod m = x mod m + y mod m - m"
      using r by (intro mod_pos_pos_trivial) linarith+
    then have "(x mod m + y mod m) mod m = x mod m + y mod m - m"
      by (simp only: minus_mod_self2)
    then show ?thesis using False by (simp only: mod_add_eq if_False)
  qed
  moreover have "min c (m - c) \<le> min a (m - a) + min b (m - b)"
    if "0 \<le> a" "a < m" "0 \<le> b" "b < m" "c = (if a + b < m then a + b else a + b - m)"
    for a b c :: int
    using that by (auto simp: min_def split: if_splits)
  ultimately show ?thesis unfolding circ_cases[OF assms] using r by blast
qed

lemma circ_small: "0 < m \<Longrightarrow> circ m x \<le> \<bar>x\<bar>"
proof (cases "0 \<le> x")
  case True
  assume "0 < m"
  have "x mod m \<le> x" using True \<open>0 < m\<close> by (simp add: zmod_le_nonneg_dividend)
  then show ?thesis using True by (simp add: circ_def)
next
  case False
  assume "0 < m"
  have "(- x) mod m \<le> - x" using False by (intro zmod_le_nonneg_dividend) simp
  then show ?thesis using False by (simp add: circ_def)
qed

text \<open>What \<open>multiRingDistance\<close> computes on two rings of the same shape.\<close>

definition ring_dist :: "MultiRing \<Rightarrow> MultiRing \<Rightarrow> int" where
  "ring_dist r1 r2 =
     (\<Sum>i<dimension r1. circ (int (modulo r1)) (vector r1 ! i - vector r2 ! i))"

definition same_shape :: "MultiRing \<Rightarrow> MultiRing \<Rightarrow> bool" where
  "same_shape r1 r2 \<longleftrightarrow> modulo r1 = modulo r2 \<and> dimension r1 = dimension r2"

lemma ring_subtract_wf:
  assumes "ring_wf r" "0 \<le> x" "x < int (modulo r)" "0 \<le> y" "y < int (modulo r)"
  shows "ring_subtract r x y = Inr (real_of_int ((x - y) mod int (modulo r)))"
proof -
  let ?m = "int (modulo r)"
  have m: "0 < ?m" "?m \<le> 2 ^ 62" using assms(1) by (auto simp: ring_wf_def)
  have "i64 (?m + x) = ?m + x" using assms m by (intro i64_id) simp_all
  moreover have "i64 (?m + x - y) = ?m + x - y" using assms m by (intro i64_id) simp_all
  moreover have "(?m + x - y) mod ?m = (x - y) mod ?m"
    by (metis add_diff_eq mod_add_self1)
  ultimately show ?thesis using assms m by (simp add: ring_subtract_def int_modulo_wf)
qed

lemma multiRingDistance_wf:
  assumes "ring_wf r1" "ring_wf r2" "same_shape r1 r2"
  shows "multiRingDistance r1 r2 = Inr (Some (real_of_int (ring_dist r1 r2)))"
proof -
  let ?m = "int (modulo r1)" and ?c = "\<lambda>i. real_of_int (circ (int (modulo r1)) (vector r1 ! i - vector r2 ! i))"
  have len: "length (vector r1) = dimension r1" "length (vector r2) = dimension r1"
    using assms by (auto simp: ring_wf_def same_shape_def)
  have body: "go_bind (go_index (vector r1) (int i)) (\<lambda>x.
          go_bind (go_index (vector r2) (int i)) (\<lambda>y.
          go_bind (ring_subtract r1 x y) (\<lambda>a.
          go_bind (ring_subtract r1 y x) (\<lambda>b. Inr (min a b))))) = Inr (?c i)"
    if "i < dimension r1" for i
  proof -
    have "0 \<le> vector r1 ! i \<and> vector r1 ! i < ?m" "0 \<le> vector r2 ! i \<and> vector r2 ! i < ?m"
      using ring_wf_nth[of r1 i] ring_wf_nth[of r2 i] that assms by (auto simp: same_shape_def)
    then show ?thesis using that assms(1)
      by (simp add: go_index_nat len ring_subtract_wf circ_def of_int_min)
  qed
  then have "go_map (\<lambda>i. go_bind (go_index (vector r1) (int i)) (\<lambda>x.
          go_bind (go_index (vector r2) (int i)) (\<lambda>y.
          go_bind (ring_subtract r1 x y) (\<lambda>a.
          go_bind (ring_subtract r1 y x) (\<lambda>b. Inr (min a b)))))) [0..<dimension r1] =
        Inr (map ?c [0..<dimension r1])"
    by (intro go_map_Inr_I) simp
  then show ?thesis using assms(3)
    by (simp add: multiRingDistance_def same_shape_def ring_dist_def
        interv_sum_list_conv_sum_set_nat atLeast0LessThan)
qed

section \<open>The distance as a metric\<close>

text \<open>
  What witness selection may rely on: on the rings of one shape the distance is a metric.
\<close>

locale ring_metric =
  fixes dom_ok :: "'r \<Rightarrow> bool" and d :: "'r \<Rightarrow> 'r \<Rightarrow> int"
  assumes d_self: "dom_ok x \<Longrightarrow> d x x = 0"
    and d_zero: "dom_ok x \<Longrightarrow> dom_ok y \<Longrightarrow> d x y = 0 \<Longrightarrow> x = y"
    and d_sym: "dom_ok x \<Longrightarrow> dom_ok y \<Longrightarrow> d x y = d y x"
    and d_triangle: "dom_ok x \<Longrightarrow> dom_ok y \<Longrightarrow> dom_ok z \<Longrightarrow> d x z \<le> d x y + d y z"
begin

lemma d_nonneg: "dom_ok x \<Longrightarrow> dom_ok y \<Longrightarrow> 0 \<le> d x y"
  using d_triangle[of x y x] d_sym[of x y] d_self[of x] by simp

text \<open>Moving a point by at most \<open>k\<close> changes its distance to any other by at most \<open>k\<close>.\<close>

lemma d_lipschitz:
  assumes "dom_ok x" "dom_ok y" "dom_ok z" "d y z \<le> k"
  shows "\<bar>d x z - d x y\<bar> \<le> k"
  using d_triangle[of x y z] d_triangle[of x z y] d_sym[of y z] assms by simp

end

definition ring_of_shape :: "nat \<Rightarrow> nat \<Rightarrow> MultiRing \<Rightarrow> bool" where
  "ring_of_shape m dm r \<longleftrightarrow> ring_wf r \<and> modulo r = m \<and> dimension r = dm"

interpretation ring: ring_metric "ring_of_shape m dm" ring_dist for m dm
proof unfold_locales
  fix x y z :: MultiRing
  assume x: "ring_of_shape m dm x"
  then have m: "0 < int m" by (auto simp: ring_of_shape_def ring_wf_def)
  show "ring_dist x x = 0" by (simp add: ring_dist_def circ_def)
  assume y: "ring_of_shape m dm y"
  have "vector x ! i - vector y ! i = - (vector y ! i - vector x ! i)" for i by simp
  then show "ring_dist x y = ring_dist y x"
    using x y by (simp add: ring_dist_def ring_of_shape_def circ_minus)
      (metis circ_minus minus_diff_eq)
  show "x = y" if "ring_dist x y = 0"
  proof -
    have nn: "\<And>i. 0 \<le> circ (int m) (vector x ! i - vector y ! i)" using circ_bounds[OF m] by blast
    have "vector x ! i = vector y ! i" if i: "i < dm" for i
    proof -
      have "circ (int m) (vector x ! i - vector y ! i) = 0"
        using that \<open>ring_dist x y = 0\<close> x nn
        by (simp add: ring_dist_def ring_of_shape_def sum_nonneg_eq_0_iff)
      then have "vector x ! i mod int m = vector y ! i mod int m"
        using m by (simp add: circ_zero_iff mod_eq_dvd_iff mod_0_imp_dvd)
      then show ?thesis
        using ring_wf_nth[of x i] ring_wf_nth[of y i] x y i by (auto simp: ring_of_shape_def)
    qed
    then have "vector x = vector y"
      using x y by (intro nth_equalityI) (auto simp: ring_of_shape_def ring_wf_def)
    then show "x = y" using x y by (simp add: ring_of_shape_def)
  qed
  assume z: "ring_of_shape m dm z"
  have "circ (int m) (vector x ! i - vector z ! i) \<le>
    circ (int m) (vector x ! i - vector y ! i) + circ (int m) (vector y ! i - vector z ! i)" for i
    using circ_triangle[OF m, of "vector x ! i - vector y ! i" "vector y ! i - vector z ! i"] by simp
  then show "ring_dist x z \<le> ring_dist x y + ring_dist y z"
    using x y z by (simp add: ring_dist_def ring_of_shape_def sum_mono flip: sum.distrib)
qed

lemma ring_dist_bound:
  assumes "ring_of_shape m dm x"
  shows "2 * ring_dist x y \<le> int dm * int m"
proof -
  have m: "0 < int m" using assms by (auto simp: ring_of_shape_def ring_wf_def)
  have "2 * ring_dist x y = (\<Sum>i<dm. 2 * circ (int m) (vector x ! i - vector y ! i))"
    using assms by (simp add: ring_dist_def ring_of_shape_def sum_distrib_left)
  also have "\<dots> \<le> (\<Sum>i<dm. int m)" using circ_bounds[OF m] by (intro sum_mono) simp
  finally show ?thesis by simp
qed

text \<open>One step of \<open>add\<close> moves a ring by at most the size of the step.\<close>

lemma ring_dist_update:
  assumes "ring_of_shape m dm r" "i < dm"
  shows "ring_dist r (r\<lparr>vector := (vector r)[i := (vector r ! i + v) mod int m]\<rparr>) \<le> \<bar>v\<bar>"
proof -
  have m: "0 < int m" using assms by (auto simp: ring_of_shape_def ring_wf_def)
  have len: "length (vector r) = dm" using assms by (auto simp: ring_of_shape_def ring_wf_def)
  let ?w = "(vector r)[i := (vector r ! i + v) mod int m]"
  have "circ (int m) (vector r ! j - ?w ! j) = (if j = i then circ (int m) v else 0)"
    if "j < dm" for j
  proof (cases "j = i")
    case True
    have eq: "(vector r ! i - (vector r ! i + v) mod int m) mod int m = (- v) mod int m"
      by (metis diff_add_cancel diff_diff_eq2 diff_self minus_diff_eq mod_diff_right_eq uminus_add_conv_diff add.commute diff_add_eq_diff_diff_swap)
    then have "circ (int m) (vector r ! i - (vector r ! i + v) mod int m) = circ (int m) (- v)"
      using m by (simp add: circ_cases)
    then show ?thesis using True assms(2) len by (simp add: circ_minus)
  qed (simp add: circ_def)
  then have "ring_dist r (r\<lparr>vector := ?w\<rparr>) = (\<Sum>j<dm. if j = i then circ (int m) v else 0)"
    using assms by (auto simp: ring_dist_def ring_of_shape_def intro: sum.cong)
  also have "\<dots> = circ (int m) v" using assms(2) by simp
  also have "\<dots> \<le> \<bar>v\<bar>" by (rule circ_small[OF m])
  finally show ?thesis .
qed

end
