(* ===== verification/History_Hash.thy ===== *)
theory History_Hash
  imports Multi_Ring "HOL-Library.Multiset"
begin

text \<open>
  \<open>impl/hashing/history_hashing.go\<close>: a multi-ring that absorbs one hashed item at a time. The
  interface \<open>Hasher\<close> of \<open>hashes.go\<close> is a function from bytes to bytes; the two hash functions
  themselves belong to Go's \<open>crypto\<close> packages and stay parameters. Locale \<open>accumulator\<close> is
  what the protocols need from a history: it never fails and forgets the order of insertion.
\<close>

unbundle bit_operations_syntax

section \<open>The interface\<close>

locale accumulator =
  fixes invar :: "'h \<Rightarrow> bool"
    and insert_item :: "'h \<Rightarrow> 'a \<Rightarrow> 'h go"
  assumes insert_ok: "invar h \<Longrightarrow> \<exists>h'. insert_item h a = Inr h' \<and> invar h'"
    and insert_commute: "invar h \<Longrightarrow>
      go_bind (insert_item h a) (\<lambda>h'. insert_item h' b) =
      go_bind (insert_item h b) (\<lambda>h'. insert_item h' a)"
begin

lemma inserts_ok: "invar h \<Longrightarrow> \<exists>h'. go_fold insert_item h xs = Inr h' \<and> invar h'"
  by (rule go_fold_total) (auto intro: insert_ok)

lemma insert_to_front:
  "invar h \<Longrightarrow> a \<in> set xs \<Longrightarrow> go_fold insert_item h xs = go_fold insert_item h (a # remove1 a xs)"
proof (induction xs arbitrary: h)
  case (Cons b xs)
  show ?case
  proof (cases "a = b")
    case False
    obtain h1 h2 where h1: "insert_item h b = Inr h1" "invar h1"
      and h2: "insert_item h a = Inr h2" "invar h2"
      using insert_ok[OF Cons.prems(1)] by metis
    have "go_fold insert_item h1 xs = go_fold insert_item h1 (a # remove1 a xs)"
      using Cons.IH[OF h1(2)] Cons.prems(2) False by simp
    then show ?thesis using insert_commute[OF Cons.prems(1), of b a] h1 h2 False by simp
  qed simp
qed simp

lemma inserts_permute:
  "invar h \<Longrightarrow> mset xs = mset ys \<Longrightarrow> go_fold insert_item h xs = go_fold insert_item h ys"
proof (induction xs arbitrary: ys h)
  case (Cons a xs)
  then have a: "a \<in> set ys" and rest: "mset xs = mset (remove1 a ys)"
    by (metis list.set_intros(1) set_mset_mset) (use Cons.prems(2) in \<open>simp flip: Cons.prems(2)\<close>)
  obtain h' where h': "insert_item h a = Inr h'" "invar h'" using insert_ok Cons.prems(1) by blast
  have "go_fold insert_item h' xs = go_fold insert_item h' (remove1 a ys)"
    by (rule Cons.IH[OF h'(2) rest])
  then show ?case using insert_to_front[OF Cons.prems(1) a] h' by simp
qed simp

end

section \<open>The history hash\<close>

record HistoryHash =
  binNum :: nat
  binCapacity :: nat
  hasher :: "byte list \<Rightarrow> byte list"
  bins :: MultiRing
  seed :: "byte list"

definition NewHistoryHash :: "nat \<Rightarrow> nat \<Rightarrow> (byte list \<Rightarrow> byte list) \<Rightarrow> int32 \<Rightarrow> HistoryHash" where
  "NewHistoryHash num capacity hash sd =
     \<lparr>binNum = num, binCapacity = capacity, hasher = hash, bins = NewMultiRing capacity num,
      seed = Int32ToBytes sd\<rparr>"

definition hh_hash :: "HistoryHash \<Rightarrow> byte list \<Rightarrow> uint64" where
  "hh_hash hh bytes = ToUint64 (hasher hh (bytes @ seed hh))"

definition hh_direction :: "HistoryHash \<Rightarrow> uint64 \<Rightarrow> int" where
  "hh_direction hh h = (if h AND of_nat (binNum hh) = 0 then - 1 else 1)"

definition hh_Insert :: "HistoryHash \<Rightarrow> byte list \<Rightarrow> HistoryHash go" where
  "hh_Insert hh bytes =
     (let h = hh_hash hh bytes; num = (of_nat (binNum hh) :: uint64) in
      if num = 0 then Inl DivideByZero
      else go_bind (ring_add (bins hh) (unat (h mod num)) (hh_direction hh h))
        (\<lambda>r. Inr (hh\<lparr>bins := r\<rparr>)))"

definition hh_wf :: "HistoryHash \<Rightarrow> bool" where
  "hh_wf hh \<longleftrightarrow> ring_wf (bins hh) \<and> dimension (bins hh) = binNum hh \<and>
     modulo (bins hh) = binCapacity hh \<and> 0 < binNum hh \<and> binNum hh < 2 ^ 64"

lemma NewHistoryHash_wf:
  "0 < num \<Longrightarrow> num < 2 ^ 64 \<Longrightarrow> 0 < cap \<Longrightarrow> cap \<le> 2 ^ 62 \<Longrightarrow> hh_wf (NewHistoryHash num cap hash sd)"
  using NewMultiRing_wf[of cap num] by (simp add: hh_wf_def NewHistoryHash_def) (simp add: NewMultiRing_def)

text \<open>The bin an item falls into, and where the insertion moves it.\<close>

definition hh_bin :: "HistoryHash \<Rightarrow> byte list \<Rightarrow> nat" where
  "hh_bin hh bytes = unat (hh_hash hh bytes) mod binNum hh"

definition hh_step :: "HistoryHash \<Rightarrow> byte list \<Rightarrow> int" where
  "hh_step hh bytes = hh_direction hh (hh_hash hh bytes)"

lemma hh_bin_bound: "hh_wf hh \<Longrightarrow> hh_bin hh bytes < binNum hh"
  by (simp add: hh_bin_def hh_wf_def)

lemma abs_hh_step: "\<bar>hh_step hh bytes\<bar> = 1"
  by (simp add: hh_step_def hh_direction_def)

lemma hh_Insert_wf:
  assumes "hh_wf hh"
  shows "hh_Insert hh bytes = Inr (hh\<lparr>bins := (bins hh)\<lparr>vector := (vector (bins hh))
     [hh_bin hh bytes := (vector (bins hh) ! hh_bin hh bytes + hh_step hh bytes) mod int (binCapacity hh)]\<rparr>\<rparr>)"
proof -
  have num: "unat (of_nat (binNum hh) :: uint64) = binNum hh"
    using assms by (simp add: hh_wf_def unat_of_nat take_bit_nat_eq_self)
  then have nz: "(of_nat (binNum hh) :: uint64) \<noteq> 0"
    using assms by (metis hh_wf_def less_numeral_extra(3) unat_0)
  have "unat (hh_hash hh bytes mod of_nat (binNum hh)) = hh_bin hh bytes"
    by (simp add: unat_mod_distrib num hh_bin_def)
  then show ?thesis
    using assms nz hh_bin_bound[OF assms, of bytes] ring_add_wf[of "bins hh" "hh_bin hh bytes" "hh_step hh bytes"]
    by (simp add: hh_Insert_def Let_def abs_hh_step hh_wf_def flip: hh_step_def)
qed

lemma hh_wf_update:
  assumes "hh_wf hh"
  shows "hh_wf (hh\<lparr>bins := (bins hh)\<lparr>vector := (vector (bins hh))[i := v mod int (binCapacity hh)]\<rparr>\<rparr>)"
  using assms ring_update_wf[of "bins hh" i v] by (simp add: hh_wf_def)

lemma hh_Insert_frame:
  assumes "hh_wf hh" "hh_Insert hh a = Inr hh'"
  shows "hh_wf hh'" "hasher hh' = hasher hh" "seed hh' = seed hh" "binNum hh' = binNum hh"
    "binCapacity hh' = binCapacity hh"
  using assms hh_wf_update[OF assms(1)] by (auto simp: hh_Insert_wf)

text \<open>Two additions into a vector modulo \<open>m\<close> commute, also into the same cell.\<close>

lemma add_cells_commute:
  fixes m :: int
  shows "(xs[i := (xs ! i + u) mod m])[j := ((xs[i := (xs ! i + u) mod m]) ! j + w) mod m] =
    (xs[j := (xs ! j + w) mod m])[i := ((xs[j := (xs ! j + w) mod m]) ! i + u) mod m]"
proof (cases "i = j")
  case True
  then show ?thesis
    by (cases "i < length xs") (simp_all add: mod_add_left_eq add.assoc add.commute[of u] list_update_beyond)
next
  case False
  then show ?thesis by (simp add: list_update_swap)
qed

lemma hh_hash_bins [simp]: "hh_hash (hh\<lparr>bins := r\<rparr>) b = hh_hash hh b"
  by (simp add: hh_hash_def)

lemma hh_bin_bins [simp]: "hh_bin (hh\<lparr>bins := r\<rparr>) b = hh_bin hh b"
  by (simp add: hh_bin_def)

lemma hh_step_bins [simp]: "hh_step (hh\<lparr>bins := r\<rparr>) b = hh_step hh b"
  by (simp add: hh_step_def hh_direction_def)

interpretation history: accumulator hh_wf hh_Insert
proof unfold_locales
  fix h :: HistoryHash and a b :: "byte list"
  assume wf: "hh_wf h"
  show "\<exists>h'. hh_Insert h a = Inr h' \<and> hh_wf h'"
    using hh_Insert_wf[OF wf, of a] hh_wf_update[OF wf] by auto
  show "go_bind (hh_Insert h a) (\<lambda>h'. hh_Insert h' b) = go_bind (hh_Insert h b) (\<lambda>h'. hh_Insert h' a)"
    using add_cells_commute[of "vector (bins h)" "hh_bin h a" "hh_step h a" "int (binCapacity h)"
        "hh_bin h b" "hh_step h b"]
    by (simp add: hh_Insert_wf[OF wf] hh_Insert_wf[OF hh_wf_update[OF wf]])
qed

text \<open>One insertion moves the history by exactly one cell step, so by distance at most one.\<close>

lemma hh_Insert_distance:
  assumes "hh_wf hh" "hh_Insert hh bytes = Inr hh'"
  shows "ring_dist (bins hh) (bins hh') \<le> 1"
proof -
  have "ring_of_shape (binCapacity hh) (binNum hh) (bins hh)"
    using assms(1) by (simp add: hh_wf_def ring_of_shape_def)
  from ring_dist_update[OF this hh_bin_bound[OF assms(1)], of bytes "hh_step hh bytes"]
  show ?thesis using assms(2) by (auto simp: hh_Insert_wf[OF assms(1)] abs_hh_step)
qed

end
