(* ===== verification/Witness_Selection.thy ===== *)
theory Witness_Selection
  imports History_Hash
begin

text \<open>
  \<open>impl/hashing/witnesses_selection.go\<close>: which processes are witnesses of a transaction. Each
  process has a history hash; the processes are sorted by their histories' distance from the
  zero ring and the closest ones are chosen. \<open>sort.Sort\<close> promises a sorted permutation but no
  order among equal distances, so the sort is a parameter that satisfies locale \<open>dist_sort\<close>.
\<close>

section \<open>Sorting by distance\<close>

record dist =
  ind :: nat
  dist_d :: real

locale dist_sort =
  fixes sort_dists :: "dist list \<Rightarrow> dist list"
  assumes sort_mset: "mset (sort_dists ds) = mset ds"
    and sort_sorted: "sorted (map dist_d (sort_dists ds))"

text \<open>The stable sort is one of them.\<close>

definition stable_sort :: "dist list \<Rightarrow> dist list" where
  "stable_sort ds = sort_key dist_d ds"

interpretation stable: dist_sort stable_sort
  by unfold_locales (simp_all add: stable_sort_def)

section \<open>Selection\<close>

record WitnessesSelector =
  MinPotWitnessSetSize :: int
  MinOwnWitnessSetSize :: int
  PotWitnessSetRadius :: real
  OwnWitnessSetRadius :: real

text \<open>The first loop: one distance per node, or \<open>None\<close> when a history has another shape.\<close>

definition ws_distance :: "HistoryHash list \<Rightarrow> nat \<Rightarrow> real option go" where
  "ws_distance hs i =
     go_bind (go_index hs 0) (\<lambda>h0.
     go_bind (go_index hs (int i)) (\<lambda>h.
       multiRingDistance (NewMultiRing (binCapacity h0) (binNum h0)) (bins h)))"

fun ws_distances :: "HistoryHash list \<Rightarrow> nat list \<Rightarrow> dist list option go" where
  "ws_distances hs [] = Inr (Some [])"
| "ws_distances hs (i # is) =
     go_bind (ws_distance hs i) (\<lambda>r. case r of
       None \<Rightarrow> Inr None
     | Some d \<Rightarrow> go_bind (ws_distances hs is) (\<lambda>rest.
         Inr (map_option (\<lambda>ds. \<lparr>ind = i, dist_d = d\<rparr> # ds) rest)))"

text \<open>The second loop, over the sorted distances, stops at the first one not selected.\<close>

definition in_pot :: "WitnessesSelector \<Rightarrow> nat \<Rightarrow> real \<Rightarrow> bool" where
  "in_pot ws i d \<longleftrightarrow> int i < MinPotWitnessSetSize ws \<or> d < PotWitnessSetRadius ws"

definition in_own :: "WitnessesSelector \<Rightarrow> nat \<Rightarrow> real \<Rightarrow> bool" where
  "in_own ws i d \<longleftrightarrow> int i < MinOwnWitnessSetSize ws \<or> d < OwnWitnessSetRadius ws"

fun select_witnesses ::
  "WitnessesSelector \<Rightarrow> string list \<Rightarrow> nat \<Rightarrow> dist list \<Rightarrow> string set \<Rightarrow> string set \<Rightarrow> string set \<times> string set"
  where
  "select_witnesses ws nodeIds i [] own pot = (own, pot)"
| "select_witnesses ws nodeIds i (d # ds) own pot =
     (if in_pot ws i (dist_d d)
      then let id = nodeIds ! ind d in
        select_witnesses ws nodeIds (Suc i) ds
          (if in_own ws i (dist_d d) then insert id own else own) (insert id pot)
      else (own, pot))"

text \<open>
  \<open>GetWitnessSet\<close> returns the own set and the pot set, or \<open>None\<close> for the two nil maps of the
  error path. \<open>nodeIds ! ind d\<close> is in range: the indices come from the first loop.
\<close>

definition GetWitnessSet ::
  "(dist list \<Rightarrow> dist list) \<Rightarrow> WitnessesSelector \<Rightarrow> string list \<Rightarrow> HistoryHash list \<Rightarrow>
   (string set \<times> string set) option go" where
  "GetWitnessSet sort_dists ws nodeIds hs =
     go_bind (ws_distances hs [0..<length nodeIds]) (\<lambda>r. Inr (map_option (\<lambda>distances.
       select_witnesses ws nodeIds 0 (sort_dists distances) {} {}) r))"

section \<open>What the selection returns\<close>

text \<open>The loop takes the prefix of the list on which \<open>in_pot\<close> holds.\<close>

definition pot_indices :: "WitnessesSelector \<Rightarrow> nat \<Rightarrow> dist list \<Rightarrow> nat set" where
  "pot_indices ws k ds = {i. i < length ds \<and> (\<forall>j\<le>i. in_pot ws (k + j) (dist_d (ds ! j)))}"

definition own_indices :: "WitnessesSelector \<Rightarrow> nat \<Rightarrow> dist list \<Rightarrow> nat set" where
  "own_indices ws k ds = {i \<in> pot_indices ws k ds. in_own ws (k + i) (dist_d (ds ! i))}"

lemma set_split_0: "{i. P i} = (if P 0 then {0} else {}) \<union> Suc ` {i. P (Suc i)}"
proof (rule set_eqI)
  fix i show "i \<in> {i. P i} \<longleftrightarrow> i \<in> (if P 0 then {0} else {}) \<union> Suc ` {i. P (Suc i)}"
    by (cases i) auto
qed

lemma all_le_Suc: "(\<forall>j\<le>Suc i. Q j) \<longleftrightarrow> Q 0 \<and> (\<forall>j\<le>i. Q (Suc j))"
  by (metis Suc_le_mono le0 not0_implies_Suc)

lemma pot_indices_Cons:
  "pot_indices ws k (d # ds) =
     (if in_pot ws k (dist_d d) then insert 0 (Suc ` pot_indices ws (Suc k) ds) else {})"
  unfolding pot_indices_def by (subst set_split_0) (simp add: all_le_Suc)

lemma own_indices_Cons:
  "own_indices ws k (d # ds) =
     (if in_pot ws k (dist_d d)
      then (if in_own ws k (dist_d d) then {0} else {}) \<union> Suc ` own_indices ws (Suc k) ds else {})"
  unfolding own_indices_def pot_indices_Cons by (subst set_split_0) auto

lemma select_witnesses_eq:
  "select_witnesses ws nodeIds k ds own pot =
     (own \<union> (\<lambda>i. nodeIds ! ind (ds ! i)) ` own_indices ws k ds,
      pot \<union> (\<lambda>i. nodeIds ! ind (ds ! i)) ` pot_indices ws k ds)"
proof (induction ds arbitrary: k own pot)
  case Nil
  show ?case by (simp add: own_indices_def pot_indices_def)
next
  case (Cons d ds)
  then show ?case
    by (simp add: own_indices_Cons pot_indices_Cons image_image image_Un Let_def)
qed

lemma GetWitnessSet_finite:
  assumes "GetWitnessSet srt ws nodeIds hs = Inr (Some (own, pot))"
  shows "finite own" "finite pot"
proof -
  have "finite (pot_indices ws k ds)" "finite (own_indices ws k ds)" for k ds
    by (simp_all add: pot_indices_def own_indices_def)
  then show "finite own" "finite pot"
    using assms by (auto simp: GetWitnessSet_def go_simps select_witnesses_eq)
qed

lemma ws_distances_wf:
  assumes wf: "\<And>i. i \<in> set is \<Longrightarrow> i < length hs \<and> hh_wf (hs ! i) \<and>
      binCapacity (hs ! i) = cap \<and> binNum (hs ! i) = num"
    and h0: "hs \<noteq> []" "binCapacity (hs ! 0) = cap" "binNum (hs ! 0) = num"
  shows "ws_distances hs is =
    Inr (Some (map (\<lambda>i. \<lparr>ind = i, dist_d = real_of_int (ring_dist (NewMultiRing cap num) (bins (hs ! i)))\<rparr>) is))"
  using wf
proof (induction "is")
  case (Cons i "is")
  have i: "i < length hs" "hh_wf (hs ! i)" "binCapacity (hs ! i) = cap" "binNum (hs ! i) = num"
    using Cons.prems by auto
  have "ring_wf (NewMultiRing cap num)"
    using i by (intro NewMultiRing_wf) (auto simp: hh_wf_def ring_wf_def)
  moreover have "same_shape (NewMultiRing cap num) (bins (hs ! i))"
    using i by (simp add: same_shape_def hh_wf_def NewMultiRing_def)
  ultimately have "ws_distance hs i =
      Inr (Some (real_of_int (ring_dist (NewMultiRing cap num) (bins (hs ! i)))))"
    using i h0 by (simp add: ws_distance_def go_index_def hh_wf_def multiRingDistance_wf)
  then show ?case using Cons by simp
qed simp

text \<open>All histories well-formed and of one shape: what the protocol keeps.\<close>

definition histories_ok :: "nat \<Rightarrow> nat \<Rightarrow> HistoryHash list \<Rightarrow> bool" where
  "histories_ok cap num hs \<longleftrightarrow> list_all (\<lambda>h. hh_wf h \<and> binCapacity h = cap \<and> binNum h = num) hs"

definition node_distance :: "HistoryHash list \<Rightarrow> nat \<Rightarrow> int" where
  "node_distance hs i = ring_dist (NewMultiRing (binCapacity (hs ! 0)) (binNum (hs ! 0))) (bins (hs ! i))"

definition node_dists :: "HistoryHash list \<Rightarrow> nat \<Rightarrow> dist list" where
  "node_dists hs n = map (\<lambda>i. \<lparr>ind = i, dist_d = real_of_int (node_distance hs i)\<rparr>) [0..<n]"

lemma GetWitnessSet_wf:
  assumes "histories_ok cap num hs" "length nodeIds \<le> length hs"
  shows "GetWitnessSet srt ws nodeIds hs =
    Inr (Some (select_witnesses ws nodeIds 0 (srt (node_dists hs (length nodeIds))) {} {}))"
proof (cases "nodeIds = []")
  case False
  then have ne: "hs \<noteq> []" using assms(2) by auto
  have each: "i < length hs \<Longrightarrow> hh_wf (hs ! i) \<and> binCapacity (hs ! i) = cap \<and> binNum (hs ! i) = num" for i
    using assms(1) by (auto simp: histories_ok_def list_all_length)
  have "ws_distances hs [0..<length nodeIds] = Inr (Some (node_dists hs (length nodeIds)))"
    using each ne assms(2) each[of 0]
    by (subst ws_distances_wf[of _ _ cap num]) (auto simp: node_dists_def node_distance_def)
  then show ?thesis by (simp add: GetWitnessSet_def)
qed (simp add: GetWitnessSet_def node_dists_def)

text \<open>Too few histories: the loop reads past the end of the slice.\<close>

lemma GetWitnessSet_short:
  assumes "histories_ok cap num hs" "hs \<noteq> []" "length hs < length nodeIds"
  shows "GetWitnessSet srt ws nodeIds hs = Inl IndexOutOfRange"
proof -
  have each: "i < length hs \<Longrightarrow> hh_wf (hs ! i) \<and> binCapacity (hs ! i) = cap \<and> binNum (hs ! i) = num" for i
    using assms(1) by (auto simp: histories_ok_def list_all_length)
  have app: "ws_distances hs (is @ js) = go_bind (ws_distances hs is) (\<lambda>r. case r of None \<Rightarrow> Inr None
      | Some ds \<Rightarrow> go_bind (ws_distances hs js) (\<lambda>r2. Inr (map_option (\<lambda>es. ds @ es) r2)))" for "is" js
  proof (induction "is")
    case Nil
    have "map_option ((@) []) r = r" for r :: "dist list option" by (cases r) simp_all
    then show ?case by (cases "ws_distances hs js") simp_all
  next
    case (Cons i "is")
    have eta: "map_option (\<lambda>x. a # xs @ x) r = map_option ((@) (a # xs)) r"
      for a :: dist and xs r by (cases r) simp_all
    show ?case
    proof (cases "ws_distance hs i")
      case (Inr r)
      show ?thesis
      proof (cases r)
        case (Some d)
        show ?thesis
          by (cases "ws_distances hs is"; cases "ws_distances hs js")
            (auto simp: Inr Some Cons option.map_comp comp_def eta split: option.splits)
      qed (simp add: Inr)
    qed simp
  qed
  have split: "[0..<length nodeIds] = [0..<length hs] @ length hs # [Suc (length hs)..<length nodeIds]"
    using assms(3) by (metis less_imp_le_nat upt_add_eq_append le_add_diff_inverse upt_conv_Cons zero_le)
  have pre: "ws_distances hs [0..<length hs] = Inr (Some (node_dists hs (length hs)))"
    using each assms(2) each[of 0]
    by (subst ws_distances_wf[of _ _ cap num]) (auto simp: node_dists_def node_distance_def)
  have "ws_distance hs (length hs) = Inl IndexOutOfRange"
    using assms(2) by (simp add: ws_distance_def go_index_def)
  then show ?thesis by (simp add: GetWitnessSet_def split app pre del: upt_Suc)
qed

section \<open>Closest first\<close>

lemma in_pot_antimono: "j \<le> i \<Longrightarrow> d' \<le> d \<Longrightarrow> in_pot ws i d \<Longrightarrow> in_pot ws j d'"
  by (auto simp: in_pot_def)

lemma pot_indices_sorted:
  assumes "sorted (map dist_d ds)"
  shows "pot_indices ws 0 ds = {i. i < length ds \<and> in_pot ws i (dist_d (ds ! i))}"
proof -
  have "in_pot ws j (dist_d (ds ! j))"
    if "i < length ds" "j \<le> i" "in_pot ws i (dist_d (ds ! i))" for i j
    using that sorted_nth_mono[OF assms that(2)] by (auto intro: in_pot_antimono)
  then show ?thesis by (auto simp: pot_indices_def)
qed

text \<open>
  How many nodes the selector is configured to take: the minimum or, when that is more, the nodes
  inside the radius; for the own set no more than the pot set has.
\<close>

definition nodes_within :: "HistoryHash list \<Rightarrow> nat \<Rightarrow> real \<Rightarrow> nat" where
  "nodes_within hs n r = card {i. i < n \<and> real_of_int (node_distance hs i) < r}"

definition pot_count :: "WitnessesSelector \<Rightarrow> HistoryHash list \<Rightarrow> nat \<Rightarrow> nat" where
  "pot_count ws hs n = max (min (nat (MinPotWitnessSetSize ws)) n) (nodes_within hs n (PotWitnessSetRadius ws))"

definition own_count :: "WitnessesSelector \<Rightarrow> HistoryHash list \<Rightarrow> nat \<Rightarrow> nat" where
  "own_count ws hs n = min (pot_count ws hs n)
     (max (min (nat (MinOwnWitnessSetSize ws)) n) (nodes_within hs n (OwnWitnessSetRadius ws)))"

lemma nodes_within_le: "nodes_within hs n r \<le> n"
  using card_mono[of "{..<n}" "{i. i < n \<and> real_of_int (node_distance hs i) < r}"]
  by (auto simp: nodes_within_def)

lemma counts_le: "pot_count ws hs n \<le> n" "own_count ws hs n \<le> pot_count ws hs n"
  using nodes_within_le by (simp_all add: pot_count_def own_count_def)

lemma initial_segment:
  fixes A :: "nat set"
  assumes "finite A" "\<And>j k. j \<le> k \<Longrightarrow> k \<in> A \<Longrightarrow> j \<in> A"
  shows "A = {..<card A}"
proof (cases "A = {}")
  case False
  have "A = {..Max A}" using assms(2)[OF _ Max_in[OF assms(1) False]] Max_ge[OF assms(1)] by auto
  then have "card A = Suc (Max A)" by (metis card_atMost)
  then show ?thesis using \<open>A = {..Max A}\<close> by (simp add: lessThan_Suc_atMost)
qed simp

context dist_sort
begin

abbreviation sorted_nodes :: "HistoryHash list \<Rightarrow> nat \<Rightarrow> dist list" where
  "sorted_nodes hs n \<equiv> sort_dists (node_dists hs n)"

lemma length_sorted_nodes: "length (sorted_nodes hs n) = n"
  by (metis sort_mset size_mset length_map length_upt node_dists_def diff_zero)

lemma set_sorted_nodes: "set (sorted_nodes hs n) = set (node_dists hs n)"
  by (metis sort_mset set_mset_mset)

lemma sorted_nodes_ind:
  assumes "k < n"
  shows "ind (sorted_nodes hs n ! k) < n \<and>
    dist_d (sorted_nodes hs n ! k) = real_of_int (node_distance hs (ind (sorted_nodes hs n ! k)))"
proof -
  have "sorted_nodes hs n ! k \<in> set (node_dists hs n)"
    using assms by (metis length_sorted_nodes nth_mem set_sorted_nodes)
  then show ?thesis by (auto simp: node_dists_def)
qed

lemma sorted_nodes_position:
  assumes "i < n"
  shows "\<exists>k<n. ind (sorted_nodes hs n ! k) = i"
proof -
  have "\<lparr>ind = i, dist_d = real_of_int (node_distance hs i)\<rparr> \<in> set (sorted_nodes hs n)"
    using assms unfolding set_sorted_nodes by (auto simp: node_dists_def)
  then show ?thesis by (metis in_set_conv_nth length_sorted_nodes dist.select_convs(1))
qed

lemma distinct_sorted_inds: "distinct (map ind (sorted_nodes hs n))"
proof -
  have "mset (map ind (sorted_nodes hs n)) = mset (map ind (node_dists hs n))"
    by (simp add: sort_mset)
  moreover have "map ind (node_dists hs n) = [0..<n]"
    by (simp add: node_dists_def comp_def)
  ultimately show ?thesis by (metis distinct_upt mset_eq_imp_distinct_iff)
qed

lemma inj_sorted_ids:
  assumes "distinct ids" "n = length ids"
  shows "inj_on (\<lambda>k. ids ! ind (sorted_nodes hs n ! k)) {..<n}"
proof (rule inj_onI)
  fix j k
  assume jk: "j \<in> {..<n}" "k \<in> {..<n}"
    and "ids ! ind (sorted_nodes hs n ! j) = ids ! ind (sorted_nodes hs n ! k)"
  then have "ind (sorted_nodes hs n ! j) = ind (sorted_nodes hs n ! k)"
    using assms sorted_nodes_ind by (metis lessThan_iff nth_eq_iff_index_eq)
  then show "j = k"
    using jk distinct_sorted_inds[of hs n] length_sorted_nodes[of hs n]
    by (simp add: distinct_conv_nth) (metis)
qed

lemma pot_indices_nodes:
  "pot_indices ws 0 (sorted_nodes hs n) =
     {k. k < n \<and> in_pot ws k (real_of_int (node_distance hs (ind (sorted_nodes hs n ! k))))}"
  using sorted_nodes_ind[of _ n hs]
  by (auto simp: pot_indices_sorted[OF sort_sorted] length_sorted_nodes)

text \<open>The sorted nodes inside a radius are the first ones, as many as the histories have there.\<close>

lemma sorted_within:
  "{k. k < n \<and> real_of_int (node_distance hs (ind (sorted_nodes hs n ! k))) < r} = {..<nodes_within hs n r}"
proof -
  let ?s = "sorted_nodes hs n"
  let ?K = "{k. k < n \<and> real_of_int (node_distance hs (ind (?s ! k))) < r}"
  have down: "j \<in> ?K" if "j \<le> k" "k \<in> ?K" for j k
    using that sorted_nth_mono[OF sort_sorted, of j k "node_dists hs n"] sorted_nodes_ind[of _ n hs]
    by (force simp: length_sorted_nodes)
  have inj: "inj_on (\<lambda>k. ind (?s ! k)) ?K"
    using distinct_sorted_inds[of hs n] by (auto simp: inj_on_def distinct_conv_nth length_sorted_nodes)
  have "(\<lambda>k. ind (?s ! k)) ` ?K = {i. i < n \<and> real_of_int (node_distance hs i) < r}"
    using sorted_nodes_ind[of _ n hs] sorted_nodes_position[of _ n hs] by (auto simp: image_iff)
  then have "card ?K = nodes_within hs n r" using card_image[OF inj] by (simp add: nodes_within_def)
  moreover have "?K = {..<card ?K}" by (rule initial_segment[OF _ down]) auto
  ultimately show ?thesis by simp
qed

lemma sorted_within_iff:
  assumes "k < n"
  shows "real_of_int (node_distance hs (ind (sorted_nodes hs n ! k))) < r \<longleftrightarrow> k < nodes_within hs n r"
proof -
  have "k \<in> {k. k < n \<and> real_of_int (node_distance hs (ind (sorted_nodes hs n ! k))) < r} \<longleftrightarrow>
      k \<in> {..<nodes_within hs n r}" unfolding sorted_within ..
  then show ?thesis using assms by simp
qed

text \<open>So both sets are initial segments of the sorted nodes, of a length the configuration determines.\<close>

lemma pot_indices_segment:
  "pot_indices ws 0 (sorted_nodes hs n) = {..<pot_count ws hs n}"
proof (rule set_eqI)
  fix k show "k \<in> pot_indices ws 0 (sorted_nodes hs n) \<longleftrightarrow> k \<in> {..<pot_count ws hs n}"
    using sorted_within_iff[of k n hs "PotWitnessSetRadius ws"] nodes_within_le[of hs n "PotWitnessSetRadius ws"]
    by (cases "k < n") (auto simp: pot_indices_nodes in_pot_def pot_count_def)
qed

lemma own_indices_segment:
  "own_indices ws 0 (sorted_nodes hs n) = {..<own_count ws hs n}"
proof (rule set_eqI)
  fix k show "k \<in> own_indices ws 0 (sorted_nodes hs n) \<longleftrightarrow> k \<in> {..<own_count ws hs n}"
    using sorted_within_iff[of k n hs "OwnWitnessSetRadius ws"] sorted_nodes_ind[of k n hs] counts_le(1)[of ws hs n]
    by (cases "k < n") (auto simp: own_indices_def pot_indices_segment in_own_def own_count_def)
qed

abbreviation closest :: "string list \<Rightarrow> HistoryHash list \<Rightarrow> nat \<Rightarrow> string set" where
  "closest ids hs m \<equiv> (\<lambda>k. ids ! ind (sorted_nodes hs (length ids) ! k)) ` {..<m}"

lemma closest_card:
  assumes "distinct ids" "m \<le> length ids"
  shows "card (closest ids hs m) = m"
  using assms by (subst card_image[OF inj_on_subset[OF inj_sorted_ids[OF assms(1) refl]]]) auto

lemma closest_member:
  assumes "distinct ids" "i < length ids" "m \<le> length ids" "ids ! i \<in> closest ids hs m"
  obtains k where "k < m" "ind (sorted_nodes hs (length ids) ! k) = i"
proof -
  obtain k where k: "k < m" "ids ! i = ids ! ind (sorted_nodes hs (length ids) ! k)" using assms(4) by blast
  moreover have "ind (sorted_nodes hs (length ids) ! k) < length ids"
    using k(1) assms(3) sorted_nodes_ind by simp
  ultimately show thesis using that[of k] assms(1,2) by (simp add: nth_eq_iff_index_eq)
qed

lemma closest_closer:
  assumes ids: "distinct ids" and m: "m \<le> length ids" and i: "i < length ids" and j: "j < length ids"
    and sel: "ids ! j \<in> closest ids hs m" and closer: "node_distance hs i < node_distance hs j"
  shows "ids ! i \<in> closest ids hs m"
proof -
  let ?s = "sorted_nodes hs (length ids)"
  obtain kj where kj: "kj < m" "ind (?s ! kj) = j" by (rule closest_member[OF ids j m sel])
  obtain ki where ki: "ki < length ids" "ind (?s ! ki) = i" using sorted_nodes_position[OF i] by blast
  have "ki \<le> kj"
  proof (rule ccontr)
    assume "\<not> ki \<le> kj"
    then have "dist_d (?s ! kj) \<le> dist_d (?s ! ki)"
      using sorted_nth_mono[OF sort_sorted, of kj ki "node_dists hs (length ids)"] ki(1)
      by (simp add: length_sorted_nodes)
    then show False
      using sorted_nodes_ind[of kj "length ids" hs] sorted_nodes_ind[OF ki(1), of hs] kj ki(2) m closer by simp
  qed
  then show ?thesis using ki kj by (intro image_eqI[of _ _ ki]) auto
qed

lemma closest_radius:
  assumes ids: "distinct ids" and i: "i < length ids" and r: "real_of_int (node_distance hs i) < r"
    and m: "nodes_within hs (length ids) r \<le> m"
  shows "ids ! i \<in> closest ids hs m"
proof -
  obtain k where k: "k < length ids" "ind (sorted_nodes hs (length ids) ! k) = i"
    using sorted_nodes_position[OF i] by blast
  then have "k \<in> {..<nodes_within hs (length ids) r}"
    using r unfolding sorted_within[symmetric] by simp
  then show ?thesis using k m by (intro image_eqI[of _ _ k]) auto
qed

lemma closest_inside:
  assumes ids: "distinct ids" and i: "i < length ids" and m: "m \<le> length ids"
    and r: "real_of_int (node_distance hs i) < r" and sel: "ids ! i \<in> closest ids hs m"
  shows "ids ! i \<in> closest ids hs (min m (max a (nodes_within hs (length ids) r)))"
proof -
  obtain k where k: "k < m" "ind (sorted_nodes hs (length ids) ! k) = i" by (rule closest_member[OF ids i m sel])
  then have "k \<in> {..<nodes_within hs (length ids) r}"
    using r m unfolding sorted_within[symmetric] by simp
  then show ?thesis using k by (intro image_eqI[of _ _ k]) auto
qed

lemma closest_range: "m \<le> length ids \<Longrightarrow> closest ids hs m \<subseteq> set ids"
  using sorted_nodes_ind[of _ "length ids" hs] by auto

end

section \<open>Properties\<close>

text \<open>
  C31: \<open>GetWitnessSet\<close> on well-formed histories, one per node, always returns two sets of nodes, the
  own set inside the pot set, and both are exactly the closest nodes, as many as configured. The pot
  set has the configured minimum of nodes (or all nodes, when there are fewer), or the number of nodes
  inside the pot radius when that is more; the own set likewise with its own minimum and radius, but
  never more than the pot set. With a node, each set holds every strictly closer one; the pot set holds
  every node inside its radius, and the own set every pot node inside its own. This holds for whatever
  order \<open>sort.Sort\<close> leaves equal distances in.
\<close>

theorem GetWitnessSet_correct:
  assumes srt: "dist_sort srt" and hs: "histories_ok cap num hs"
    and ids: "distinct nodeIds" "length nodeIds \<le> length hs"
  shows "\<exists>own pot. GetWitnessSet srt ws nodeIds hs = Inr (Some (own, pot)) \<and>
    own \<subseteq> pot \<and> pot \<subseteq> set nodeIds \<and>
    card pot = max (min (nat (MinPotWitnessSetSize ws)) (length nodeIds))
      (card {i. i < length nodeIds \<and> real_of_int (node_distance hs i) < PotWitnessSetRadius ws}) \<and>
    card own = min (card pot) (max (min (nat (MinOwnWitnessSetSize ws)) (length nodeIds))
      (card {i. i < length nodeIds \<and> real_of_int (node_distance hs i) < OwnWitnessSetRadius ws})) \<and>
    (\<forall>i<length nodeIds. real_of_int (node_distance hs i) < PotWitnessSetRadius ws \<longrightarrow> nodeIds ! i \<in> pot) \<and>
    (\<forall>i<length nodeIds. real_of_int (node_distance hs i) < OwnWitnessSetRadius ws \<longrightarrow>
       nodeIds ! i \<in> pot \<longrightarrow> nodeIds ! i \<in> own) \<and>
    (\<forall>i<length nodeIds. \<forall>j<length nodeIds. node_distance hs i < node_distance hs j \<longrightarrow>
       (nodeIds ! j \<in> pot \<longrightarrow> nodeIds ! i \<in> pot) \<and> (nodeIds ! j \<in> own \<longrightarrow> nodeIds ! i \<in> own))"
proof -
  let ?n = "length nodeIds"
  define pot own where "pot = dist_sort.closest srt nodeIds hs (pot_count ws hs ?n)"
    and "own = dist_sort.closest srt nodeIds hs (own_count ws hs ?n)"
  note le = counts_le(1)[of ws hs ?n] order_trans[OF counts_le(2) counts_le(1), of ws hs ?n]
  have res: "GetWitnessSet srt ws nodeIds hs = Inr (Some (own, pot))"
    using GetWitnessSet_wf[OF hs ids(2)] unfolding pot_def own_def
    by (simp add: select_witnesses_eq dist_sort.pot_indices_segment[OF srt] dist_sort.own_indices_segment[OF srt])
  have sub: "own \<subseteq> pot" "pot \<subseteq> set nodeIds"
    using counts_le(2)[of ws hs ?n] dist_sort.closest_range[OF srt le(1)] by (auto simp: pot_def own_def)
  have "card pot = pot_count ws hs ?n" "card own = own_count ws hs ?n"
    using dist_sort.closest_card[OF srt ids(1)] le unfolding pot_def own_def by blast+
  from this[unfolded own_count_def pot_count_def nodes_within_def] this(1)
  have card: "card pot = max (min (nat (MinPotWitnessSetSize ws)) ?n)
      (card {i. i < ?n \<and> real_of_int (node_distance hs i) < PotWitnessSetRadius ws})"
    "card own = min (card pot) (max (min (nat (MinOwnWitnessSetSize ws)) ?n)
      (card {i. i < ?n \<and> real_of_int (node_distance hs i) < OwnWitnessSetRadius ws}))"
    unfolding pot_count_def nodes_within_def by argo+
  have pot_r: "nodeIds ! i \<in> pot" if "i < ?n" "real_of_int (node_distance hs i) < PotWitnessSetRadius ws" for i
    unfolding pot_def by (rule dist_sort.closest_radius[OF srt ids(1) that]) (simp add: pot_count_def)
  have own_r: "nodeIds ! i \<in> own"
    if "i < ?n" "real_of_int (node_distance hs i) < OwnWitnessSetRadius ws" "nodeIds ! i \<in> pot" for i
    using dist_sort.closest_inside[OF srt ids(1) that(1) le(1) that(2) that(3)[unfolded pot_def]]
    unfolding own_def own_count_def .
  have closer: "nodeIds ! j \<in> pot \<Longrightarrow> nodeIds ! i \<in> pot" "nodeIds ! j \<in> own \<Longrightarrow> nodeIds ! i \<in> own"
    if "i < ?n" "j < ?n" "node_distance hs i < node_distance hs j" for i j
    using dist_sort.closest_closer[OF srt ids(1) le(1) that(1,2) _ that(3)]
      dist_sort.closest_closer[OF srt ids(1) le(2) that(1,2) _ that(3)] unfolding pot_def own_def by simp_all
  have pot_all: "\<forall>i<?n. real_of_int (node_distance hs i) < PotWitnessSetRadius ws \<longrightarrow> nodeIds ! i \<in> pot"
    and own_all: "\<forall>i<?n. real_of_int (node_distance hs i) < OwnWitnessSetRadius ws \<longrightarrow>
      nodeIds ! i \<in> pot \<longrightarrow> nodeIds ! i \<in> own"
    using pot_r own_r by simp_all
  moreover have "\<forall>i<?n. \<forall>j<?n. node_distance hs i < node_distance hs j \<longrightarrow>
      (nodeIds ! j \<in> pot \<longrightarrow> nodeIds ! i \<in> pot) \<and> (nodeIds ! j \<in> own \<longrightarrow> nodeIds ! i \<in> own)"
    using closer by simp
  ultimately show ?thesis using res sub card by (intro exI[of _ own] exI[of _ pot] conjI)
qed

text \<open>A closed example: three fresh histories, one of them moved.\<close>

theorem GetWitnessSet_correct_witness:
  "\<exists>own pot. GetWitnessSet stable_sort
      \<lparr>MinPotWitnessSetSize = 2, MinOwnWitnessSetSize = 1, PotWitnessSetRadius = 0, OwnWitnessSetRadius = 0\<rparr>
      [''a'', ''b'', ''c''] (replicate 3 (NewHistoryHash 4 16 (\<lambda>b. b) 0)) = Inr (Some (own, pot)) \<and>
    own \<subseteq> pot \<and> pot \<subseteq> {''a'', ''b'', ''c''} \<and> card pot = 2 \<and> card own = 1"
proof -
  let ?hs = "replicate 3 (NewHistoryHash 4 16 (\<lambda>b. b) 0)" and ?ids = "[''a'', ''b'', ''c'']"
  let ?ws = "\<lparr>MinPotWitnessSetSize = 2, MinOwnWitnessSetSize = 1, PotWitnessSetRadius = 0, OwnWitnessSetRadius = 0\<rparr>"
  have ok: "histories_ok 16 4 ?hs"
    using NewHistoryHash_wf[of 4 16 "\<lambda>b. b" 0]
    by (simp add: histories_ok_def list_all_length) (simp add: NewHistoryHash_def)
  have ids: "distinct ?ids" "length ?ids \<le> length ?hs" by simp_all
  have "\<forall>i\<in>set [0..<length ?ids]. \<not> node_distance ?hs i < 0" by code_simp
  then have none: "{i. i < length ?ids \<and> real_of_int (node_distance ?hs i) < 0} = {}" unfolding set_upt by fastforce
  obtain own pot where "GetWitnessSet stable_sort ?ws ?ids ?hs = Inr (Some (own, pot))" "own \<subseteq> pot" "pot \<subseteq> set ?ids"
    and card: "card pot = max (min (nat (MinPotWitnessSetSize ?ws)) (length ?ids))
      (card {i. i < length ?ids \<and> real_of_int (node_distance ?hs i) < PotWitnessSetRadius ?ws})"
    "card own = min (card pot) (max (min (nat (MinOwnWitnessSetSize ?ws)) (length ?ids))
      (card {i. i < length ?ids \<and> real_of_int (node_distance ?hs i) < OwnWitnessSetRadius ?ws}))"
    using GetWitnessSet_correct[OF stable.dist_sort_axioms ok ids, of ?ws] by (elim exE conjE)
  moreover have "card pot = 2" "card own = 1"
    using card unfolding WitnessesSelector.select_convs none by simp_all
  ultimately show ?thesis by (intro exI[of _ own] exI[of _ pot]) simp
qed

end
