(* ===== verification/Hashing_Theorems.thy ===== *)
theory Hashing_Theorems
  imports Witness_Selection
begin

text \<open>
  The guarantees of \<open>impl/hashing\<close> and \<open>impl/utils/hashing.go\<close>: the ring operations compute what
  their comments promise, the ring distance is a metric, a history hash is a fingerprint of the
  multiset of inserted transactions, and close multisets have close fingerprints.
\<close>

section \<open>Whole-vector operations\<close>

text \<open>A loop that overwrites cell \<open>i\<close> with \<open>g i\<close> of its old content, for \<open>i\<close> from \<open>0\<close>.\<close>

lemma go_fold_cells:
  assumes step: "\<And>r i. P r \<Longrightarrow> i < k \<Longrightarrow>
      f r i = Inr (r\<lparr>vector := (vector r)[i := g i (vector r ! i)]\<rparr>) \<and>
      P (r\<lparr>vector := (vector r)[i := g i (vector r ! i)]\<rparr>)"
    and "P r" "length (vector r) = n" "k \<le> n"
  shows "go_fold f r [0..<k] =
      Inr (r\<lparr>vector := map (\<lambda>i. g i (vector r ! i)) [0..<k] @ drop k (vector r)\<rparr>) \<and>
    P (r\<lparr>vector := map (\<lambda>i. g i (vector r ! i)) [0..<k] @ drop k (vector r)\<rparr>)"
  using step assms(4)
proof (induction k)
  case 0
  then show ?case using assms(2) by simp
next
  case (Suc k)
  let ?r = "r\<lparr>vector := map (\<lambda>i. g i (vector r ! i)) [0..<k] @ drop k (vector r)\<rparr>"
  have ih: "go_fold f r [0..<k] = Inr ?r" "P ?r" using Suc by simp_all
  have nth: "vector ?r ! k = vector r ! k" using Suc.prems(2) assms(3) by (simp add: nth_append)
  have upd: "(vector ?r)[k := x] = map (\<lambda>i. g i (vector r ! i)) [0..<k] @ x # drop (Suc k) (vector r)" for x
    using Suc.prems(2) assms(3) by (simp add: list_update_append flip: Cons_nth_drop_Suc)
  show ?case using Suc.prems(1)[OF ih(2), of k] ih unfolding nth upd
    by (simp add: go_fold_append)
qed

lemma ring_merge_wf:
  assumes r: "ring_of_shape m dm r" and rx: "ring_of_shape m dm rx"
  shows "ring_merge r rx = Inr (r\<lparr>vector := map (\<lambda>i. (vector r ! i + vector rx ! i) mod int m) [0..<dm]\<rparr>) \<and>
    ring_of_shape m dm (r\<lparr>vector := map (\<lambda>i. (vector r ! i + vector rx ! i) mod int m) [0..<dm]\<rparr>)"
proof -
  have len: "length (vector r) = dm" "length (vector rx) = dm" "dimension r = dm"
    using r rx by (auto simp: ring_of_shape_def ring_wf_def)
  have step: "go_bind (go_index (vector rx) (int i)) (ring_add q i) =
      Inr (q\<lparr>vector := (vector q)[i := (vector q ! i + vector rx ! i) mod int m]\<rparr>) \<and>
      ring_of_shape m dm (q\<lparr>vector := (vector q)[i := (vector q ! i + vector rx ! i) mod int m]\<rparr>)"
    if q: "ring_of_shape m dm q" and i: "i < dm" for q i
  proof -
    have "0 \<le> vector rx ! i \<and> vector rx ! i < int m" "m \<le> 2 ^ 62"
      using ring_wf_nth[of rx i] rx i by (auto simp: ring_of_shape_def ring_wf_def)
    then have "\<bar>vector rx ! i\<bar> \<le> 2 ^ 62" by simp
    then show ?thesis
      using q i len ring_add_wf[of q i "vector rx ! i"] ring_update_wf[of q i "vector q ! i + vector rx ! i"]
      by (simp add: ring_of_shape_def go_index_nat)
  qed
  show ?thesis
    using go_fold_cells[of "ring_of_shape m dm" dm _ "\<lambda>i x. (x + vector rx ! i) mod int m", OF step r len(1)]
    by (simp add: ring_merge_def len)
qed

lemma multiRingFromBytes_wf:
  fixes bytes :: "byte list"
  assumes m: "0 < m" "m \<le> 2 ^ 62" and dm: "0 < dm"
  defines "per \<equiv> min (length bytes div dm) 8"
  shows "multiRingFromBytes m dm bytes = Inr \<lparr>modulo = m, dimension = dm,
      vector = map (\<lambda>i. i64 (int (le_value (take per (drop (i * per) bytes)))) mod int m) [0..<dm]\<rparr>"
proof -
  let ?v = "\<lambda>i. i64 (int (le_value (take per (drop (i * per) bytes)))) mod int m"
  have fits: "i * per + per \<le> length bytes" if "i < dm" for i
  proof -
    have "i * per + per \<le> dm * per" using that mult_le_mono1[of "Suc i" dm per] by simp
    also have "\<dots> \<le> dm * (length bytes div dm)" by (simp add: per_def)
    finally show ?thesis using times_div_less_eq_dividend[of dm "length bytes"] by (rule le_trans)
  qed
  have read: "go_map (\<lambda>j. go_index bytes (int (i * per + j))) [0..<per] = Inr (take per (drop (i * per) bytes))"
    if "i < dm" for i
  proof -
    have "go_map (\<lambda>j. go_index bytes (int (i * per + j))) [0..<per] =
        Inr (map (\<lambda>j. bytes ! (i * per + j)) [0..<per])"
      using fits[OF that] by (intro go_map_Inr_I) (simp add: go_index_nat del: of_nat_add)
    moreover have "map (\<lambda>j. bytes ! (i * per + j)) [0..<per] = take per (drop (i * per) bytes)"
      using fits[OF that] by (intro nth_equalityI) simp_all
    ultimately show ?thesis by simp
  qed
  have val: "unat (ToUint64 (bs @ replicate (8 - per) 0)) = le_value bs" if "length bs = per" for bs
  proof -
    have "per \<le> 8" by (simp add: per_def)
    then have len: "length bs \<le> 8" using that by simp
    then have "le_value bs < 256 ^ 8"
      using le_value_bound[of bs] power_increasing[of "length bs" 8 "256::nat"] by linarith
    then have "unat (of_nat (le_value bs) :: uint64) = le_value bs"
      by (simp add: unat_of_nat take_bit_nat_eq_self)
    then show ?thesis using len by (simp add: ToUint64_take le_value_append_zeros)
  qed
  have step: "(\<lambda>mr i. go_bind (go_map (\<lambda>j. go_index bytes (int (i * per + j))) [0..<per]) (\<lambda>bs.
            ring_set mr i (i64 (int (unat (ToUint64 (bs @ replicate (8 - per) 0))))))) q i =
      Inr (q\<lparr>vector := (vector q)[i := ?v i]\<rparr>) \<and> ring_of_shape m dm (q\<lparr>vector := (vector q)[i := ?v i]\<rparr>)"
    if q: "ring_of_shape m dm q" and i: "i < dm" for q i
  proof -
    have "length (take per (drop (i * per) bytes)) = per" using fits[OF i] by simp
    then have "(\<lambda>mr i. go_bind (go_map (\<lambda>j. go_index bytes (int (i * per + j))) [0..<per]) (\<lambda>bs.
            ring_set mr i (i64 (int (unat (ToUint64 (bs @ replicate (8 - per) 0))))))) q i =
        ring_set q i (i64 (int (le_value (take per (drop (i * per) bytes)))))"
      by (simp only: read[OF i] go_bind.simps val)
    moreover have "ring_set q i v = Inr (q\<lparr>vector := (vector q)[i := v mod int m]\<rparr>)"
      "ring_of_shape m dm (q\<lparr>vector := (vector q)[i := v mod int m]\<rparr>)" for v
      using q i ring_set_wf[of q i v] ring_update_wf[of q i v] by (simp_all add: ring_of_shape_def)
    ultimately show ?thesis by simp
  qed
  have new: "ring_of_shape m dm (NewMultiRing m dm)"
    using NewMultiRing_wf[OF m] by (simp add: ring_of_shape_def) (simp add: NewMultiRing_def)
  show ?thesis
    using go_fold_cells[of "ring_of_shape m dm" dm _ "\<lambda>i x. ?v i", OF step new _ order_refl] dm
    by (simp add: multiRingFromBytes_def Let_def NewMultiRing_def flip: per_def)
qed

section \<open>Histories of two processes\<close>

text \<open>Histories that hash alike: same shape, same hash function, same seed.\<close>

definition hh_alike :: "HistoryHash \<Rightarrow> HistoryHash \<Rightarrow> bool" where
  "hh_alike h h' \<longleftrightarrow> hh_wf h \<and> hh_wf h' \<and> binNum h' = binNum h \<and> binCapacity h' = binCapacity h"

definition hh_inserts :: "HistoryHash \<Rightarrow> byte list list \<Rightarrow> HistoryHash go" where
  "hh_inserts h items = go_fold hh_Insert h items"

lemma hh_shape: "hh_wf h \<Longrightarrow> ring_of_shape (binCapacity h) (binNum h) (bins h)"
  by (simp add: hh_wf_def ring_of_shape_def)

lemma hh_inserts_near:
  assumes "hh_wf h"
  shows "\<exists>h'. hh_inserts h items = Inr h' \<and> hh_alike h h' \<and> ring_dist (bins h) (bins h') \<le> int (length items)"
  using assms
proof (induction items arbitrary: h)
  case Nil
  then show ?case using ring.d_self[OF hh_shape] by (simp add: hh_inserts_def hh_alike_def)
next
  case (Cons a items)
  obtain h1 where h1: "hh_Insert h a = Inr h1" "hh_wf h1" using history.insert_ok[OF Cons.prems] by blast
  obtain h' where h': "hh_inserts h1 items = Inr h'" "hh_alike h1 h'"
    "ring_dist (bins h1) (bins h') \<le> int (length items)" using Cons.IH[OF h1(2)] by blast
  note frame = hh_Insert_frame[OF Cons.prems h1(1)]
  have "ring_dist (bins h) (bins h') \<le> ring_dist (bins h) (bins h1) + ring_dist (bins h1) (bins h')"
    using hh_shape[OF Cons.prems] hh_shape[OF h1(2)] hh_shape[of h'] h'(2) frame
    by (intro ring.d_triangle[of "binCapacity h" "binNum h"]) (simp_all add: hh_alike_def)
  then show ?case
    using h' h1 hh_Insert_distance[OF Cons.prems h1(1)] Cons.prems frame
    by (simp add: hh_inserts_def hh_alike_def)
qed

lemma hh_inserts_append: "hh_inserts h (xs @ ys) = go_bind (hh_inserts h xs) (\<lambda>h'. hh_inserts h' ys)"
  by (simp add: hh_inserts_def go_fold_append)

section \<open>Properties\<close>

text \<open>
  C32: The history hash depends on the set of transactions, not on their order. Two processes
  that started from the same history and inserted \<open>xs\<close> and \<open>ys\<close>, in any order, never fail, and
  when \<open>xs\<close> and \<open>ys\<close> agree up to \<open>as\<close> and \<open>bs\<close> their rings are at distance at most
  \<open>length as + length bs\<close>; with \<open>as = bs = []\<close> the histories are equal.
\<close>

theorem history_distance:
  assumes wf: "hh_wf h" and xs: "mset xs = mset cs + mset as" and ys: "mset ys = mset cs + mset bs"
  shows "\<exists>h1 h2. hh_inserts h xs = Inr h1 \<and> hh_inserts h ys = Inr h2 \<and>
    ring_dist (bins h1) (bins h2) \<le> int (length as + length bs) \<and> (mset as = mset bs \<longrightarrow> h1 = h2)"
proof -
  obtain hc where hc: "hh_inserts h cs = Inr hc" "hh_alike h hc" using hh_inserts_near[OF wf] by blast
  then have wfc: "hh_wf hc" by (simp add: hh_alike_def)
  obtain h1 where h1: "hh_inserts hc as = Inr h1" "hh_alike hc h1" "ring_dist (bins hc) (bins h1) \<le> int (length as)"
    using hh_inserts_near[OF wfc] by blast
  obtain h2 where h2: "hh_inserts hc bs = Inr h2" "hh_alike hc h2" "ring_dist (bins hc) (bins h2) \<le> int (length bs)"
    using hh_inserts_near[OF wfc] by blast
  have "hh_inserts h xs = Inr h1"
    using history.inserts_permute[OF wf, of xs "cs @ as"] xs hc h1 hh_inserts_append[of h cs as]
    by (simp add: hh_inserts_def)
  moreover have "hh_inserts h ys = Inr h2"
    using history.inserts_permute[OF wf, of ys "cs @ bs"] ys hc h2 hh_inserts_append[of h cs bs]
    by (simp add: hh_inserts_def)
  moreover have "ring_dist (bins h1) (bins h2) \<le> int (length as + length bs)"
  proof -
    have s: "ring_of_shape (binCapacity hc) (binNum hc) (bins hc)"
      "ring_of_shape (binCapacity hc) (binNum hc) (bins h1)" "ring_of_shape (binCapacity hc) (binNum hc) (bins h2)"
      using h1(2) h2(2) hh_shape[of hc] hh_shape[of h1] hh_shape[of h2] by (simp_all add: hh_alike_def)
    show ?thesis using ring.d_triangle[OF s(2) s(1) s(3)] ring.d_sym[OF s(1,2)] h1(3) h2(3) by simp
  qed
  moreover have "mset as = mset bs \<longrightarrow> h1 = h2"
    using history.inserts_permute[OF wfc, of as bs] h1(1) h2(1) by (auto simp: hh_inserts_def)
  ultimately show ?thesis by blast
qed

text \<open>A hash for closed examples: the item itself, padded to eight bytes.\<close>

definition sample_history :: HistoryHash where
  "sample_history = NewHistoryHash 4 16 (\<lambda>b. b) 0"

lemma sample_history_wf: "hh_wf sample_history"
  by (simp add: sample_history_def NewHistoryHash_wf)

theorem history_distance_witness:
  "\<exists>h1 h2. hh_inserts sample_history [[1], [2], [3]] = Inr h1 \<and> hh_inserts sample_history [[3], [1]] = Inr h2 \<and>
    ring_dist (bins h1) (bins h2) \<le> 1"
  using history_distance[OF sample_history_wf, of "[[1], [2], [3]]" "[[1], [3]]" "[[2]]" "[[3], [1]]" "[]"]
  by (simp add: add_mset_commute)

text \<open>
  On two rings of one shape \<open>multiRingDistance\<close> returns, without error, a metric: it is
  symmetric, zero only for equal rings, obeys the triangle inequality, and is at most half of
  \<open>dimension * modulo\<close>.
\<close>

theorem multiRingDistance_metric:
  assumes "ring_of_shape m dm x" "ring_of_shape m dm y" "ring_of_shape m dm z"
  shows "\<exists>xy yz xz. multiRingDistance x y = Inr (Some xy) \<and> multiRingDistance y x = Inr (Some xy) \<and>
    multiRingDistance y z = Inr (Some yz) \<and> multiRingDistance x z = Inr (Some xz) \<and>
    (xy = 0 \<longleftrightarrow> x = y) \<and> xz \<le> xy + yz \<and> 2 * xy \<le> real dm * real m"
proof -
  have d: "multiRingDistance a b = Inr (Some (real_of_int (ring_dist a b)))"
    if "ring_of_shape m dm a" "ring_of_shape m dm b" for a b
    using that by (intro multiRingDistance_wf) (auto simp: ring_of_shape_def same_shape_def)
  have "2 * real_of_int (ring_dist x y) = real_of_int (2 * ring_dist x y)" by simp
  also have "\<dots> \<le> real_of_int (int dm * int m)"
    using ring_dist_bound[OF assms(1), of y] by (intro of_int_le_iff[THEN iffD2])
  finally have "2 * real_of_int (ring_dist x y) \<le> real dm * real m" by simp
  moreover have "real_of_int (ring_dist x z) \<le> real_of_int (ring_dist x y) + real_of_int (ring_dist y z)"
    using ring.d_triangle[OF assms] by linarith
  ultimately show ?thesis
    using d[OF assms(1,2)] d[OF assms(2,1)] d[OF assms(2,3)] d[OF assms(1,3)]
      ring.d_sym[OF assms(1,2)] ring.d_zero[OF assms(1,2)] ring.d_self[OF assms(1)]
    by auto
qed

theorem multiRingDistance_metric_witness:
  "\<exists>d. multiRingDistance \<lparr>modulo = 10, dimension = 2, vector = [1, 9]\<rparr>
      \<lparr>modulo = 10, dimension = 2, vector = [9, 1]\<rparr> = Inr (Some d) \<and> 2 * d \<le> 20"
proof -
  have "ring_of_shape 10 2 \<lparr>modulo = 10, dimension = 2, vector = [1, 9]\<rparr>"
    "ring_of_shape 10 2 \<lparr>modulo = 10, dimension = 2, vector = [9, 1]\<rparr>"
    by (simp_all add: ring_of_shape_def ring_wf_def)
  from multiRingDistance_metric[OF this this(1)] show ?thesis by auto
qed

text \<open>
  \<open>merge\<close> adds two rings of one shape cell by cell modulo \<open>modulo\<close>, and
  \<open>multiRingFromBytes\<close> cuts the bytes into one little-endian number per dimension (of at most
  eight bytes), read as an \<open>int\<close> and reduced modulo \<open>modulo\<close>. Neither fails.
\<close>

theorem ring_merge_fromBytes:
  fixes bytes :: "byte list"
  assumes r: "ring_of_shape m dm r" and rx: "ring_of_shape m dm rx" and dm: "0 < dm"
  shows "ring_merge r rx =
      Inr \<lparr>modulo = m, dimension = dm, vector = map (\<lambda>i. (vector r ! i + vector rx ! i) mod int m) [0..<dm]\<rparr> \<and>
    multiRingFromBytes m dm bytes = Inr \<lparr>modulo = m, dimension = dm,
      vector = map (\<lambda>i. i64 (int (le_value (take (min (length bytes div dm) 8)
        (drop (i * min (length bytes div dm) 8) bytes)))) mod int m) [0..<dm]\<rparr>"
proof -
  have m: "0 < m" "m \<le> 2 ^ 62" using r by (auto simp: ring_of_shape_def ring_wf_def)
  have "ring_merge r rx = Inr (r\<lparr>vector := map (\<lambda>i. (vector r ! i + vector rx ! i) mod int m) [0..<dm]\<rparr>)"
    using ring_merge_wf[OF r rx] by simp
  moreover have "r\<lparr>vector := v\<rparr> = \<lparr>modulo = m, dimension = dm, vector = v\<rparr>" for v
    using r by (simp add: ring_of_shape_def)
  ultimately show ?thesis using multiRingFromBytes_wf[OF m dm, of bytes] by simp
qed

theorem ring_merge_fromBytes_witness:
  "ring_merge \<lparr>modulo = 10, dimension = 2, vector = [1, 9]\<rparr> \<lparr>modulo = 10, dimension = 2, vector = [9, 3]\<rparr> =
     Inr \<lparr>modulo = 10, dimension = 2, vector = [0, 2]\<rparr>"
proof -
  have "ring_of_shape 10 2 \<lparr>modulo = 10, dimension = 2, vector = [1, 9]\<rparr>"
    "ring_of_shape 10 2 \<lparr>modulo = 10, dimension = 2, vector = [9, 3]\<rparr>" "(0::nat) < 2"
    by (simp_all add: ring_of_shape_def ring_wf_def)
  from ring_merge_fromBytes[OF this, of "[]"] show ?thesis by (simp add: upt_rec numeral_2_eq_2)
qed

text \<open>
  The byte encodings are faithful: a \<open>uint64\<close> and an \<open>int32\<close> survive the round trip,
  \<open>AreEqual\<close> is equality, and for one author different sequence numbers give different
  transaction bytes. For different authors they may coincide: swapping what the author and the
  sequence number contribute to a byte gives the same sum.
\<close>

theorem byte_encodings:
  "ToUint64 (ToBytes w) = w \<and> ToInt32 (Int32ToBytes k) = Inr k \<and> AreEqual xs ys = (xs = ys) \<and>
   (TransactionToBytes a s = TransactionToBytes a t) = (s = t) \<and>
   TransactionToBytes ''b'' 1 = TransactionToBytes ''a'' 2"
proof -
  have "TransactionToBytes ''b'' 1 = TransactionToBytes ''a'' 2" by code_simp
  then show ?thesis by (simp add: ToUint64_roundtrip Int32ToBytes_roundtrip AreEqual_eq TransactionToBytes_seq)
qed

end
