(* ===== verification/Consistent.thy ===== *)
theory Consistent
  imports Process_Interface Votes Witness_Selection
begin

text \<open>
  \<open>impl/protocols/accountability/consistent/process.go\<close>: consistent broadcast with witnesses, one
  process. Ranging over a Go map visits its keys in an unspecified order; \<open>order\<close> is the order the
  runtime picks, a parameter. \<open>srt\<close> is \<open>sort.Sort\<close> as in Witness_Selection, and \<open>sha256\<close>,
  \<open>sha512\<close> are the two hash functions of \<open>hashes.go\<close>.
\<close>

section \<open>State\<close>

record co_messageState =
  co_receivedEcho :: "ProcessId \<Rightarrow> bool"
  co_echoCount :: "int32 \<Rightarrow> nat"
  co_witnessSet :: "string set"
  co_receivedMessagesCnt :: nat

definition co_newMessageState :: co_messageState where
  "co_newMessageState = \<lparr>co_receivedEcho = (\<lambda>_. False), co_echoCount = (\<lambda>_. 0), co_witnessSet = {},
     co_receivedMessagesCnt = 0\<rparr>"

record co_Process =
  co_processIndex :: int32
  co_actorPids :: "string \<rightharpoonup> ProcessId"
  co_pids :: "string list"
  co_transactionCounter :: int32
  co_deliveredMessages :: "int32 map2"
  co_messagesLog :: "co_messageState map2"
  co_witnessThreshold :: int
  co_wSelector :: WitnessesSelector
  co_historyHash :: HistoryHash
  co_sendOwnDeliveredTransactions :: bool

definition co_InitProcess ::
  "(byte list \<Rightarrow> byte list) \<Rightarrow> (byte list \<Rightarrow> byte list) \<Rightarrow> int32 \<Rightarrow> string list \<Rightarrow> Parameters \<Rightarrow> bool \<Rightarrow>
   co_Process go" where
  "co_InitProcess sha256 sha512 processIndex actorPids parameters sendOwn =
     (let n = length actorPids;
          hash = (if NodeIdSize parameters = 256 then sha256 else sha512) in
      if NumberOfBins parameters = 0 then Inl DivideByZero
      else if NumberOfBins parameters < 0 then Inl LengthOutOfRange
      else Inr \<lparr>co_processIndex = processIndex, co_actorPids = pid_map actorPids, co_pids = actorPids,
        co_transactionCounter = 0, co_deliveredMessages = make_maps n, co_messagesLog = make_maps n,
        co_witnessThreshold = WitnessThreshold parameters,
        co_wSelector = \<lparr>MinPotWitnessSetSize = MinPotWitnessSetSize_param parameters,
          MinOwnWitnessSetSize = MinOwnWitnessSetSize_param parameters,
          PotWitnessSetRadius = PotWitnessSetRadius_param parameters,
          OwnWitnessSetRadius = OwnWitnessSetRadius_param parameters\<rparr>,
        co_historyHash = NewHistoryHash (nat (NumberOfBins parameters))
          (uint_pow2 (go_quot (NodeIdSize parameters) (NumberOfBins parameters))) hash 0,
        co_sendOwnDeliveredTransactions = sendOwn\<rparr>)"

section \<open>Operations\<close>

type_synonym co_order = "string set \<Rightarrow> string list"

definition co_initMessageState ::
  "(dist list \<Rightarrow> dist list) \<Rightarrow> co_order \<Rightarrow> co_Process \<Rightarrow> BroadcastInstance \<Rightarrow>
   (co_Process \<times> co_messageState \<times> effect list) go" where
  "co_initMessageState srt order p b =
     go_bind (assign2 (co_messagesLog p) (Author b) (SeqNumber b) co_newMessageState) (\<lambda>lg.
     go_bind (GetWitnessSet srt (co_wSelector p) (co_pids p) [co_historyHash p]) (\<lambda>r.
       let ws = (case r of None \<Rightarrow> {} | Some (own, pot) \<Rightarrow> own);
           ms = co_newMessageState\<lparr>co_witnessSet := ws\<rparr>
       in Inr (p\<lparr>co_messagesLog := poke2 lg (Author b) (SeqNumber b) ms\<rparr>, ms,
            [Log (OnWitnessSetSelected ''own'' b (order ws))])))"

definition co_sendMessage :: "ProcessId \<Rightarrow> BroadcastInstance \<Rightarrow> ConsistentProtocolMessage \<Rightarrow> effect" where
  "co_sendMessage to b m =
     Send to \<lparr>BroadcastInstance_of = Some b,
       Message_of = (case ConsistentProtocolMessage_Copy (Some m) of
         Some c \<Rightarrow> ConsistentMessage c | None \<Rightarrow> UnsetMessage)\<rparr>"

text \<open>\<open>p.actorPids[pid]\<close> reads as zero when the name is not in the map.\<close>

definition co_index :: "co_Process \<Rightarrow> string \<Rightarrow> ProcessId" where
  "co_index p pid = (case co_actorPids p pid of None \<Rightarrow> 0 | Some i \<Rightarrow> i)"

text \<open>The keys of \<open>actorPids\<close> are the names in \<open>pids\<close>.\<close>

definition co_broadcast ::
  "co_order \<Rightarrow> co_Process \<Rightarrow> BroadcastInstance \<Rightarrow> ConsistentProtocolMessage \<Rightarrow> effect list" where
  "co_broadcast order p b m = map (\<lambda>pid. co_sendMessage (co_index p pid) b m) (order (set (co_pids p)))"

definition co_deliver :: "co_Process \<Rightarrow> BroadcastInstance \<Rightarrow> int32 \<Rightarrow> (co_Process \<times> effect list) go" where
  "co_deliver p b v =
     go_bind (assign2 (co_deliveredMessages p) (Author b) (SeqNumber b) v) (\<lambda>dm.
     go_bind (go_index (co_pids p) (sint (Author b))) (\<lambda>author.
     go_bind (hh_Insert (co_historyHash p) (TransactionToBytes author (scast (SeqNumber b)))) (\<lambda>hh.
     case lookup2 (co_messagesLog p) (Author b) (SeqNumber b) of
       None \<Rightarrow> Inl NilDereference
     | Some ms \<Rightarrow>
         Inr (p\<lparr>co_deliveredMessages := dm, co_historyHash := hh,
                co_messagesLog := delete2 (co_messagesLog p) (Author b) (SeqNumber b)\<rparr>,
              (if co_sendOwnDeliveredTransactions p \<and> Author b = co_processIndex p then [OwnDelivered] else [])
              @ [Log (OnDeliver b v (co_receivedMessagesCnt ms))]))))"

definition co_store :: "co_Process \<Rightarrow> BroadcastInstance \<Rightarrow> co_messageState \<Rightarrow> co_Process" where
  "co_store p b ms = p\<lparr>co_messagesLog := poke2 (co_messagesLog p) (Author b) (SeqNumber b) ms\<rparr>"

text \<open>The branch of \<open>verify\<close> for an instance that is known and not delivered.\<close>

definition co_verifyKnown ::
  "co_Process \<Rightarrow> ProcessId \<Rightarrow> BroadcastInstance \<Rightarrow> int32 \<Rightarrow> co_messageState \<Rightarrow> (co_Process \<times> effect list) go" where
  "co_verifyKnown p sender b v ms0 =
     (let ms = ms0\<lparr>co_receivedMessagesCnt := Suc (co_receivedMessagesCnt ms0)\<rparr> in
      go_bind (go_index (co_pids p) (sint sender)) (\<lambda>pid.
        if pid \<in> co_witnessSet ms \<and> \<not> co_receivedEcho ms sender then
          let ms1 = ms\<lparr>co_receivedEcho := (co_receivedEcho ms)(sender := True),
                       co_echoCount := (co_echoCount ms)(v := Suc (co_echoCount ms v))\<rparr>;
              p1 = co_store p b ms1
          in if int (co_echoCount ms1 v) \<ge> co_witnessThreshold p then co_deliver p1 b v else Inr (p1, [])
        else Inr (co_store p b ms, [])))"

text \<open>The branch for an unknown instance: its witnesses are chosen and asked.\<close>

definition co_verifyNew ::
  "(dist list \<Rightarrow> dist list) \<Rightarrow> co_order \<Rightarrow> co_Process \<Rightarrow> BroadcastInstance \<Rightarrow> int32 \<Rightarrow>
   (co_Process \<times> effect list) go" where
  "co_verifyNew srt order p b v =
     go_bind (co_initMessageState srt order p b) (\<lambda>(p1, ms0, es).
       let ms = ms0\<lparr>co_receivedMessagesCnt := Suc (co_receivedMessagesCnt ms0)\<rparr>;
           m = \<lparr>ConsistentStage = Consistent_VERIFY, ConsistentValue = v\<rparr>
       in Inr (co_store p1 b ms,
            es @ map (\<lambda>pid. co_sendMessage (co_index p1 pid) b m) (order (co_witnessSet ms))))"

definition co_verify ::
  "(dist list \<Rightarrow> dist list) \<Rightarrow> co_order \<Rightarrow> co_Process \<Rightarrow> ProcessId \<Rightarrow> BroadcastInstance \<Rightarrow> int32 \<Rightarrow>
   (co_Process \<times> effect list \<times> bool) go" where
  "co_verify srt order p sender b v =
     (case lookup2 (co_deliveredMessages p) (Author b) (SeqNumber b) of
        Some w \<Rightarrow> if w \<noteq> v then Inr (p, [Log (OnAttack b v w)], False) else Inr (p, [], True)
      | None \<Rightarrow> go_bind (case lookup2 (co_messagesLog p) (Author b) (SeqNumber b) of
            Some ms \<Rightarrow> co_verifyKnown p sender b v ms
          | None \<Rightarrow> co_verifyNew srt order p b v)
          (\<lambda>(p', es). Inr (p', es, True)))"

definition co_HandleMessage ::
  "(dist list \<Rightarrow> dist list) \<Rightarrow> co_order \<Rightarrow> co_Process \<Rightarrow> int32 \<Rightarrow> BroadcastInstanceMessage \<Rightarrow>
   (co_Process \<times> effect list) go" where
  "co_HandleMessage srt order p sender bm =
     (case Message_of bm of
        ConsistentMessage m \<Rightarrow>
          (case BroadcastInstance_of bm of
             None \<Rightarrow> Inl NilDereference
           | Some b \<Rightarrow> go_bind (co_verify srt order p sender b (ConsistentValue m)) (\<lambda>(p', es, doBroadcast).
               Inr (p', es @ (if ConsistentStage m = Consistent_VERIFY \<and> doBroadcast
                 then co_broadcast order p' b
                   \<lparr>ConsistentStage = Consistent_ECHO, ConsistentValue = ConsistentValue m\<rparr>
                 else []))))
      | _ \<Rightarrow> Inl FatalExit)"

definition co_Broadcast ::
  "(dist list \<Rightarrow> dist list) \<Rightarrow> co_order \<Rightarrow> co_Process \<Rightarrow> int32 \<Rightarrow> (co_Process \<times> effect list) go" where
  "co_Broadcast srt order p v =
     (let b = \<lparr>Author = co_processIndex p, SeqNumber = co_transactionCounter p\<rparr> in
      go_bind (co_verify srt order p (co_processIndex p) b v) (\<lambda>(p', es, _).
        Inr (p'\<lparr>co_transactionCounter := co_transactionCounter p' + 1\<rparr>, es @ [Log (OnTransactionInit b)])))"

section \<open>Views\<close>

definition co_value :: "co_Process \<Rightarrow> BroadcastInstance \<Rightarrow> int32 option" where
  "co_value p b = lookup2 (co_deliveredMessages p) (Author b) (SeqNumber b)"

definition co_state :: "co_Process \<Rightarrow> BroadcastInstance \<Rightarrow> co_messageState option" where
  "co_state p b = lookup2 (co_messagesLog p) (Author b) (SeqNumber b)"

definition co_wf :: "co_Process \<Rightarrow> bool" where
  "co_wf p \<longleftrightarrow> dom (co_deliveredMessages p) = set (procs (length (co_pids p))) \<and>
     dom (co_messagesLog p) = set (procs (length (co_pids p))) \<and>
     length (co_pids p) < 2 ^ 31 \<and> hh_wf (co_historyHash p)"

text \<open>The fields no step writes.\<close>

definition co_config ::
  "co_Process \<Rightarrow> int32 \<times> (string \<rightharpoonup> ProcessId) \<times> string list \<times> int \<times> WitnessesSelector \<times> bool" where
  "co_config p = (co_processIndex p, co_actorPids p, co_pids p, co_witnessThreshold p, co_wSelector p,
     co_sendOwnDeliveredTransactions p)"

definition co_msg :: "BroadcastInstance \<Rightarrow> ConsistentProtocolMessage_Stage \<Rightarrow> int32 \<Rightarrow> BroadcastInstanceMessage" where
  "co_msg b st v = \<lparr>BroadcastInstance_of = Some b,
     Message_of = ConsistentMessage \<lparr>ConsistentStage = st, ConsistentValue = v\<rparr>\<rparr>"

text \<open>One vote for a value by a witness.\<close>

definition co_vote :: "ProcessId \<Rightarrow> int32 \<Rightarrow> co_messageState \<Rightarrow> co_messageState" where
  "co_vote q v ms = (if co_receivedEcho ms q then ms
     else ms\<lparr>co_receivedEcho := (co_receivedEcho ms)(q := True),
             co_echoCount := (co_echoCount ms)(v := Suc (co_echoCount ms v))\<rparr>)"

interpretation co_box: vote_box co_receivedEcho co_echoCount co_vote
  by unfold_locales (simp_all add: co_vote_def)

section \<open>One instance\<close>

text \<open>
  \<open>co_moves p b ms d v p' es\<close>: the step leaves instance \<open>b\<close> in message state \<open>ms\<close> or, when \<open>d\<close>
  holds, delivers \<open>v\<close>; it sends nothing and touches no other instance.
\<close>

definition co_moves ::
  "co_Process \<Rightarrow> BroadcastInstance \<Rightarrow> co_messageState \<Rightarrow> bool \<Rightarrow> int32 \<Rightarrow> co_Process \<Rightarrow> effect list \<Rightarrow> bool" where
  "co_moves p b ms d v p' es \<longleftrightarrow>
     co_wf p' \<and> co_config p' = co_config p \<and> co_transactionCounter p' = co_transactionCounter p \<and>
     co_value p' = (if d then (co_value p)(b \<mapsto> v) else co_value p) \<and>
     co_state p' = (co_state p)(b := if d then None else Some ms) \<and>
     sends es = [] \<and> deliveries es = (if d then [(b, v)] else [])"

text \<open>What a vote of \<open>q\<close> does to a message state, and whether it completes the threshold.\<close>

definition co_react ::
  "co_Process \<Rightarrow> ProcessId \<Rightarrow> int32 \<Rightarrow> co_messageState \<Rightarrow> co_messageState \<times> bool" where
  "co_react p q v ms0 =
     (let ms = ms0\<lparr>co_receivedMessagesCnt := Suc (co_receivedMessagesCnt ms0)\<rparr>;
          counts = (co_pids p ! nat (sint q) \<in> co_witnessSet ms \<and> \<not> co_receivedEcho ms q);
          ms1 = (if counts then co_vote q v ms else ms)
      in (ms1, counts \<and> co_witnessThreshold p \<le> int (co_echoCount ms1 v)))"

lemma co_store_views:
  assumes "co_state p b \<noteq> None"
  shows "co_wf (co_store p b ms) = co_wf p" "co_config (co_store p b ms) = co_config p"
    "co_transactionCounter (co_store p b ms) = co_transactionCounter p"
    "co_value (co_store p b ms) = co_value p" "co_state (co_store p b ms) = (co_state p)(b \<mapsto> ms)"
    "co_pids (co_store p b ms) = co_pids p" "co_historyHash (co_store p b ms) = co_historyHash p"
  using assms
  by (auto simp: co_store_def co_wf_def co_config_def co_value_def co_state_def fun_eq_iff BroadcastInstance_cong)

lemma procs_sint:
  assumes "a \<in> set (procs n)" "n < 2 ^ 31"
  shows "0 \<le> sint a \<and> sint a < int n"
proof -
  obtain i where i: "i < n" "a = of_nat i" using assms(1) by (auto simp: set_procs)
  then have "int i < 2 ^ 31" using assms(2) by simp
  then have "sint a = int i" unfolding i(2)
    by (simp add: signed_of_nat signed_take_bit_int_eq_self)
  then show ?thesis using i(1) by simp
qed

lemma co_deliver_ok:
  assumes wf: "co_wf p" and st: "co_state p b = Some ms"
  shows "\<exists>p' es. co_deliver p b v = Inr (p', es) \<and> co_moves p b ms True v p' es"
proof -
  have a: "Author b \<in> set (procs (length (co_pids p)))"
    using wf lookup2_dom[of "co_messagesLog p"] st by (auto simp: co_wf_def co_state_def)
  obtain dm where dm: "assign2 (co_deliveredMessages p) (Author b) (SeqNumber b) v = Inr dm"
    using assign2_ok a wf by (metis co_wf_def)
  have idx: "go_index (co_pids p) (sint (Author b)) = Inr (co_pids p ! nat (sint (Author b)))"
    using procs_sint[OF a] wf by (simp add: go_index_def co_wf_def)
  obtain hh where hh: "hh_Insert (co_historyHash p)
      (TransactionToBytes (co_pids p ! nat (sint (Author b))) (scast (SeqNumber b))) = Inr hh" "hh_wf hh"
    using history.insert_ok wf by (metis co_wf_def)
  show ?thesis
    using wf st assign2_dom[OF dm] assign2_lookup[OF dm] hh(2)
    by (simp add: co_deliver_def dm idx hh(1) co_moves_def co_state_def co_wf_def co_config_def co_value_def
        fun_eq_iff BroadcastInstance_cong)
qed

lemma co_verifyKnown_ok:
  assumes wf: "co_wf p" and st: "co_state p b = Some ms0"
    and q: "0 \<le> sint q" "sint q < int (length (co_pids p))" and r: "co_react p q v ms0 = (ms, d)"
  shows "\<exists>p' es. co_verifyKnown p q b v ms0 = Inr (p', es) \<and> co_moves p b ms d v p' es"
proof -
  let ?ms = "ms0\<lparr>co_receivedMessagesCnt := Suc (co_receivedMessagesCnt ms0)\<rparr>"
  have idx: "go_index (co_pids p) (sint q) = Inr (co_pids p ! nat (sint q))" using q by (simp add: go_index_def)
  have some: "co_state p b \<noteq> None" using st by simp
  note store = co_store_views[OF some]
  show ?thesis
  proof (cases "co_pids p ! nat (sint q) \<in> co_witnessSet ?ms \<and> \<not> co_receivedEcho ?ms q")
    case False
    then have "ms = ?ms" "\<not> d" "co_verifyKnown p q b v ms0 = Inr (co_store p b ?ms, [])"
      using r by (auto simp: co_react_def co_verifyKnown_def idx Let_def)
    then show ?thesis using store wf by (simp add: co_moves_def)
  next
    case True
    then have ms: "ms = co_vote q v ?ms" and d: "d \<longleftrightarrow> co_witnessThreshold p \<le> int (co_echoCount ms v)"
      using r by (auto simp: co_react_def Let_def)
    have run: "co_verifyKnown p q b v ms0 =
        (if co_witnessThreshold p \<le> int (co_echoCount ms v) then co_deliver (co_store p b ms) b v
         else Inr (co_store p b ms, []))"
      using True by (simp add: co_verifyKnown_def idx Let_def ms co_vote_def)
    have "co_wf (co_store p b ms)" "co_state (co_store p b ms) b = Some ms" using store wf by simp_all
    from co_deliver_ok[OF this, of v] obtain p' es where "co_deliver (co_store p b ms) b v = Inr (p', es)"
      "co_moves (co_store p b ms) b ms True v p' es" by blast
    then show ?thesis using store wf by (cases d) (auto simp: run co_moves_def d[symmetric] simp del: d)
  qed
qed

text \<open>A message of an unknown process is read past the end of the slice.\<close>

lemma co_verifyKnown_range:
  "\<not> (0 \<le> sint q \<and> sint q < int (length (co_pids p))) \<Longrightarrow> co_verifyKnown p q b v ms = Inl IndexOutOfRange"
  by (auto simp: co_verifyKnown_def go_index_def)

text \<open>
  A new instance in a system of two or more processes: one history is passed for all of them, and
  \<open>GetWitnessSet\<close> reads the second one.
\<close>

lemma co_selection_panics:
  assumes wf: "co_wf p" and n: "2 \<le> length (co_pids p)"
  shows "GetWitnessSet srt (co_wSelector p) (co_pids p) [co_historyHash p] = Inl IndexOutOfRange"
  using wf n by (intro GetWitnessSet_short[of "binCapacity (co_historyHash p)" "binNum (co_historyHash p)"])
    (simp_all add: histories_ok_def co_wf_def)

lemma co_verifyNew_panics:
  assumes wf: "co_wf p" and n: "2 \<le> length (co_pids p)"
  shows "co_verifyNew srt order p b v = Inl (if Author b \<in> set (procs (length (co_pids p)))
    then IndexOutOfRange else NilMapAssign)"
proof (cases "assign2 (co_messagesLog p) (Author b) (SeqNumber b) co_newMessageState")
  case (Inl e)
  then show ?thesis using wf by (auto simp: co_verifyNew_def co_initMessageState_def go_simps co_wf_def)
next
  case (Inr lg)
  then have "Author b \<in> set (procs (length (co_pids p)))" using wf by (auto simp: go_simps co_wf_def)
  then show ?thesis using Inr co_selection_panics[OF assms] by (simp add: co_verifyNew_def co_initMessageState_def)
qed

lemma co_verifyNew_ok:
  assumes wf: "co_wf p" and new: "co_verifyNew srt order p b v = Inr (p', es)"
  shows "co_wf p' \<and> co_config p' = co_config p \<and> co_value p' = co_value p \<and> deliveries es = [] \<and>
    (\<exists>ms. co_state p' = (co_state p)(b \<mapsto> ms) \<and> co_receivedEcho ms = (\<lambda>_. False) \<and> co_echoCount ms = (\<lambda>_. 0) \<and>
       Log (OnWitnessSetSelected ''own'' b (order (co_witnessSet ms))) \<in> set es)"
proof -
  obtain lg r where lg: "assign2 (co_messagesLog p) (Author b) (SeqNumber b) co_newMessageState = Inr lg"
    and r: "GetWitnessSet srt (co_wSelector p) (co_pids p) [co_historyHash p] = Inr r"
    using new by (auto simp: co_verifyNew_def co_initMessageState_def go_simps)
  define ms where "ms = co_newMessageState\<lparr>co_witnessSet := (case r of None \<Rightarrow> {} | Some (own, pot) \<Rightarrow> own)\<rparr>"
  have ws: "co_witnessSet ms = (case r of None \<Rightarrow> {} | Some (own, pot) \<Rightarrow> own)" by (simp add: ms_def)
  define p1 where "p1 = p\<lparr>co_messagesLog := poke2 lg (Author b) (SeqNumber b) ms\<rparr>"
  have p1: "co_wf p1" "co_config p1 = co_config p" "co_value p1 = co_value p" "co_state p1 = (co_state p)(b \<mapsto> ms)"
    using wf assign2_dom[OF lg] assign2_lookup[OF lg]
    by (auto simp: p1_def co_wf_def co_config_def co_value_def co_state_def fun_eq_iff BroadcastInstance_cong)
  have "co_state p1 b \<noteq> None" using p1(4) by simp
  note store = co_store_views[OF this]
  have "p' = co_store p1 b (ms\<lparr>co_receivedMessagesCnt := Suc (co_receivedMessagesCnt ms)\<rparr>)"
    "deliveries es = []"
    using new by (auto simp: co_verifyNew_def co_initMessageState_def lg r Let_def co_sendMessage_def
        ms_def[symmetric] p1_def[symmetric])
  moreover have "Log (OnWitnessSetSelected ''own'' b (order (co_witnessSet ms))) \<in> set es"
    unfolding ws using new by (auto simp: co_verifyNew_def co_initMessageState_def lg r Let_def)
  ultimately show ?thesis using p1 store by (auto simp: ms_def co_newMessageState_def)
qed

section \<open>The handlers\<close>

text \<open>
  The outcomes of a successful \<open>verify\<close>: the instance was delivered before, a known instance
  reacted, or a new one was set up.
\<close>

lemma co_verify_cases:
  assumes wf: "co_wf p" and h: "co_verify srt order p q b v = Inr (p', es, go_on)"
  obtains (delivered) w where "co_value p b = Some w" "p' = p" "sends es = []" "deliveries es = []" "go_on \<longleftrightarrow> w = v"
  | (known) ms0 ms d where "co_value p b = None" "co_state p b = Some ms0" "co_react p q v ms0 = (ms, d)"
      "co_moves p b ms d v p' es" go_on "0 \<le> sint q" "sint q < int (length (co_pids p))"
  | (new) "co_value p b = None" "co_state p b = None" "co_verifyNew srt order p b v = Inr (p', es)" go_on
proof (cases "co_value p b")
  case (Some w)
  then show ?thesis using h delivered[of w] by (auto simp: co_verify_def co_value_def split: if_splits)
next
  case None
  show ?thesis
  proof (cases "co_state p b")
    case st: None
    have "co_verifyNew srt order p b v = Inr (p', es)" "go_on"
      using h None st by (auto simp: co_verify_def co_value_def co_state_def go_simps)
    then show ?thesis using new None st by blast
  next
    case (Some ms0)
    have k: "co_verifyKnown p q b v ms0 = Inr (p', es)" "go_on"
      using h None Some by (auto simp: co_verify_def co_value_def co_state_def go_simps)
    then have q: "0 \<le> sint q \<and> sint q < int (length (co_pids p))"
      using co_verifyKnown_range[of q p b v ms0] by fastforce
    obtain ms d where r: "co_react p q v ms0 = (ms, d)" by (metis surj_pair)
    have "co_moves p b ms d v p' es" using co_verifyKnown_ok[OF wf Some _ _ r] q k by auto
    then show ?thesis using known None Some r k q by blast
  qed
qed

lemma co_verify_step:
  assumes wf: "co_wf p" and h: "co_verify srt order p q b v = Inr (p', es, go_on)"
  shows "co_wf p' \<and> co_config p' = co_config p \<and> delivery_step (co_value p) es (co_value p')"
  using wf h
proof (cases rule: co_verify_cases)
  case (known ms0 ms d)
  then show ?thesis
    by (cases d) (auto simp: co_moves_def intro: delivery_step_none delivery_step_one)
qed (use wf co_verifyNew_ok[OF wf] delivery_step_none in auto)

lemma co_broadcast_views [simp]: "deliveries (co_broadcast order p b m) = []"
  by (simp add: co_broadcast_def co_sendMessage_def)

lemma co_HandleMessage_msg:
  "co_HandleMessage srt order p q (co_msg b st v) =
   go_bind (co_verify srt order p q b v) (\<lambda>(p', es, go_on). Inr (p', es @
     (if st = Consistent_VERIFY \<and> go_on
      then co_broadcast order p' b \<lparr>ConsistentStage = Consistent_ECHO, ConsistentValue = v\<rparr> else [])))"
  by (cases "co_verify srt order p q b v") (auto simp: co_HandleMessage_def co_msg_def)

lemma co_HandleMessage_only_consistent:
  assumes "co_HandleMessage srt order p q bm = Inr r"
  shows "\<exists>b st v. bm = co_msg b st v"
proof -
  obtain m b where "Message_of bm = ConsistentMessage m" "BroadcastInstance_of bm = Some b"
    using assms by (auto simp: co_HandleMessage_def split: BroadcastInstanceMessage_Message.splits option.splits)
  then have "bm = co_msg b (ConsistentStage m) (ConsistentValue m)" by (simp add: co_msg_def)
  then show ?thesis by blast
qed

lemma delivery_step_quiet: "delivery_step D es D' \<Longrightarrow> deliveries es' = [] \<Longrightarrow> delivery_step D (es @ es') D'"
  by (simp add: delivery_step_def)

lemma co_handle_eq:
  assumes "co_HandleMessage srt order p q bm = Inr (p', es)"
  obtains b st v es1 go_on es2 where "bm = co_msg b st v" "co_verify srt order p q b v = Inr (p', es1, go_on)"
    "es = es1 @ es2" "deliveries es2 = []"
proof -
  obtain b st v where bm: "bm = co_msg b st v" using co_HandleMessage_only_consistent[OF assms] by blast
  show ?thesis using assms that[OF bm] unfolding bm co_HandleMessage_msg
    by (auto simp: go_simps)
qed

lemma co_request_eq:
  assumes "co_Broadcast srt order p v = Inr (p', es)"
  obtains b p1 es1 go_on es2 where "co_verify srt order p (co_processIndex p) b v = Inr (p1, es1, go_on)"
    "p' = p1\<lparr>co_transactionCounter := co_transactionCounter p1 + 1\<rparr>" "es = es1 @ es2" "deliveries es2 = []"
proof -
  define b where "b = \<lparr>Author = co_processIndex p, SeqNumber = co_transactionCounter p\<rparr>"
  show ?thesis using assms that[of b] unfolding co_Broadcast_def Let_def b_def[symmetric]
    by (auto simp: go_simps)
qed

lemma co_counter_views [simp]:
  "co_wf (p\<lparr>co_transactionCounter := k\<rparr>) = co_wf p"
  "co_value (p\<lparr>co_transactionCounter := k\<rparr>) = co_value p"
  "co_state (p\<lparr>co_transactionCounter := k\<rparr>) = co_state p"
  "co_config (p\<lparr>co_transactionCounter := k\<rparr>) = co_config p"
  by (simp_all add: co_wf_def co_value_def co_state_def co_config_def fun_eq_iff)

interpretation consistent: broadcast_process "co_HandleMessage srt order" "co_Broadcast srt order" co_value co_wf
  for srt order
proof unfold_locales
  fix p p' :: co_Process and q v m es
  assume wf: "co_wf p"
  show "co_wf p' \<and> delivery_step (co_value p) es (co_value p')"
    if "co_HandleMessage srt order p q m = Inr (p', es)"
    using that by (rule co_handle_eq) (use co_verify_step[OF wf] delivery_step_quiet in blast)
  show "co_wf p' \<and> delivery_step (co_value p) es (co_value p')"
    if "co_Broadcast srt order p v = Inr (p', es)"
    using that by (rule co_request_eq) (use co_verify_step[OF wf] delivery_step_quiet in fastforce)
qed

section \<open>What a delivery rests on\<close>

text \<open>
  \<open>S\<close> is a set of votes: who said which value about which instance. A vote counts when the sender is
  a process whose name is in the witness set of the instance; \<open>D\<close> holds the witness sets in use.
\<close>

type_synonym co_votes = "(ProcessId \<times> BroadcastInstance \<times> int32) set"

definition co_witness :: "string list \<Rightarrow> string set \<Rightarrow> ProcessId \<Rightarrow> bool" where
  "co_witness pids W q \<longleftrightarrow> 0 \<le> sint q \<and> sint q < int (length pids) \<and> pids ! nat (sint q) \<in> W"

definition co_tallied :: "co_Process \<Rightarrow> co_votes \<Rightarrow> bool" where
  "co_tallied p S \<longleftrightarrow> (\<forall>b ms. co_state p b = Some ms \<longrightarrow>
     tally (co_receivedEcho ms) (co_echoCount ms) {(q, v). (q, b, v) \<in> S \<and> co_witness (co_pids p) (co_witnessSet ms) q})"

definition co_drawn :: "co_Process \<Rightarrow> (BroadcastInstance \<times> string set) set" where
  "co_drawn p = {(b, W). \<exists>ms. co_state p b = Some ms \<and> co_witnessSet ms = W}"

definition co_logged :: "co_order \<Rightarrow> effect list \<Rightarrow> (BroadcastInstance \<times> string set) set" where
  "co_logged order es = {(b, W). Log (OnWitnessSetSelected ''own'' b (order W)) \<in> set es}"

definition co_backed :: "co_Process \<Rightarrow> (BroadcastInstance \<times> string set) set \<Rightarrow> co_votes \<Rightarrow> effect list \<Rightarrow> bool" where
  "co_backed p D S es \<longleftrightarrow> list_all (\<lambda>(b, v). \<exists>W. (b, W) \<in> D \<and>
     co_witnessThreshold p \<le> int (card {q. (q, b, v) \<in> S \<and> co_witness (co_pids p) W q})) (deliveries es)"

lemma co_react_tally:
  assumes r: "co_react p q v ms0 = (ms, d)" and t: "tally (co_receivedEcho ms0) (co_echoCount ms0) T"
    and T: "co_pids p ! nat (sint q) \<in> co_witnessSet ms0 \<Longrightarrow> (q, v) \<in> T"
  shows "tally (co_receivedEcho ms) (co_echoCount ms) T"
    "d \<Longrightarrow> co_witnessThreshold p \<le> int (card {x. (x, v) \<in> T})" "co_witnessSet ms = co_witnessSet ms0"
proof -
  let ?ms = "ms0\<lparr>co_receivedMessagesCnt := Suc (co_receivedMessagesCnt ms0)\<rparr>"
  have t0: "tally (co_receivedEcho ?ms) (co_echoCount ?ms) T" using t by simp
  show t': "tally (co_receivedEcho ms) (co_echoCount ms) T"
    using r t0 co_box.vote_tally[OF t0 T] by (auto simp: co_react_def Let_def split: if_splits)
  show "co_witnessThreshold p \<le> int (card {x. (x, v) \<in> T})" if d
    using r that tally_le[OF t', of v] by (auto simp: co_react_def Let_def split: if_splits)
  show "co_witnessSet ms = co_witnessSet ms0"
    using r by (auto simp: co_react_def co_vote_def Let_def split: if_splits)
qed

lemma co_verify_backed:
  assumes wf: "co_wf p" and h: "co_verify srt order p q b v = Inr (p', es, go_on)"
    and t: "co_tallied p S" and S: "(q, b, v) \<in> S" and D: "co_drawn p \<subseteq> D" "co_logged order es \<subseteq> D"
  shows "co_tallied p' S \<and> co_drawn p' \<subseteq> D \<and> co_backed p D S es"
proof -
  have old: "(a, co_witnessSet m) \<in> D" if "co_state p a = Some m" for a m using D(1) that by (auto simp: co_drawn_def)
  from wf h show ?thesis
  proof (cases rule: co_verify_cases)
    case (delivered w)
    then show ?thesis using t D by (simp add: co_backed_def)
  next
    case (known ms0 ms d)
    have pids: "co_pids p' = co_pids p" using known(4) by (simp add: co_moves_def co_config_def)
    have t0: "tally (co_receivedEcho ms0) (co_echoCount ms0)
        {(q, v). (q, b, v) \<in> S \<and> co_witness (co_pids p) (co_witnessSet ms0) q}"
      using t known(2) by (simp add: co_tallied_def)
    have "co_pids p ! nat (sint q) \<in> co_witnessSet ms0 \<Longrightarrow>
        (q, v) \<in> {(q, v). (q, b, v) \<in> S \<and> co_witness (co_pids p) (co_witnessSet ms0) q}"
      using S known(6,7) by (simp add: co_witness_def)
    note tallied = co_react_tally[OF known(3) t0 this]
    have drawn: "(b, co_witnessSet ms0) \<in> D" by (rule old[OF known(2)])
    then have "co_backed p D S es" using tallied(2) known(4) by (auto simp: co_moves_def co_backed_def)
    moreover have "co_tallied p' S"
      using t known(4) tallied(1,3) by (auto simp: co_moves_def co_tallied_def pids)
    moreover have "co_drawn p' \<subseteq> D"
      using known(4) tallied(3) drawn old by (cases d) (auto simp: co_moves_def co_drawn_def split: if_splits)
    ultimately show ?thesis by blast
  next
    case new
    obtain ms where ms: "co_state p' = (co_state p)(b \<mapsto> ms)" "co_receivedEcho ms = (\<lambda>_. False)"
      "co_echoCount ms = (\<lambda>_. 0)" "deliveries es = []"
      "Log (OnWitnessSetSelected ''own'' b (order (co_witnessSet ms))) \<in> set es" and "co_config p' = co_config p"
      using co_verifyNew_ok[OF wf new(3)] by blast
    then have "(b, co_witnessSet ms) \<in> D" "co_pids p' = co_pids p" using D(2) by (auto simp: co_logged_def co_config_def)
    then show ?thesis using t ms tally_empty old
      by (auto simp: co_tallied_def co_backed_def co_drawn_def split: if_splits)
  qed
qed

text \<open>The votes an input casts at process \<open>i\<close>: a request counts for the process itself.\<close>

definition co_cast :: "int32 \<Rightarrow> input list \<Rightarrow> co_votes" where
  "co_cast i is = {(q, b, v). (\<exists>st. Received q (co_msg b st v) \<in> set is) \<or> q = i \<and> Request v \<in> set is}"

lemma co_config_eq:
  "co_config p' = co_config p \<Longrightarrow> co_processIndex p' = co_processIndex p \<and> co_witnessThreshold p' = co_witnessThreshold p \<and>
     co_pids p' = co_pids p"
  by (simp add: co_config_def)

lemma co_logged_append: "co_logged order (es @ es') = co_logged order es \<union> co_logged order es'"
  by (auto simp: co_logged_def)

lemma co_run_backed:
  assumes "run_inputs (co_HandleMessage srt order) (co_Broadcast srt order) p is = Inr (p', es)"
    and "co_wf p" "co_tallied p S" "co_cast (co_processIndex p) is \<subseteq> S" "co_drawn p \<subseteq> D" "co_logged order es \<subseteq> D"
  shows "co_backed p D S es"
  using assms
proof (induction "is" arbitrary: p es)
  case Nil
  then show ?case by (simp add: co_backed_def)
next
  case (Cons i "is")
  obtain p1 es1 es2 where one: "(case i of Received q m \<Rightarrow> co_HandleMessage srt order p q m
      | Request v \<Rightarrow> co_Broadcast srt order p v) = Inr (p1, es1)"
    and rest: "run_inputs (co_HandleMessage srt order) (co_Broadcast srt order) p1 is = Inr (p', es2)"
    and es: "es = es1 @ es2" using Cons.prems(1) by (auto simp: go_simps)
  have D: "co_logged order es1 \<subseteq> D" "co_logged order es2 \<subseteq> D" using Cons.prems(6) by (simp_all add: es co_logged_append)
  have *: "co_wf p1 \<and> co_config p1 = co_config p \<and> co_tallied p1 S \<and> co_drawn p1 \<subseteq> D \<and> co_backed p D S es1"
  proof (cases i)
    case (Received q m)
    then obtain b st v e1 go_on e2 where m: "m = co_msg b st v"
      "co_verify srt order p q b v = Inr (p1, e1, go_on)" "es1 = e1 @ e2" "deliveries e2 = []"
      using one by (auto elim: co_handle_eq)
    have "(q, b, v) \<in> S" using Cons.prems(4) Received m by (auto simp: co_cast_def)
    moreover have "co_logged order e1 \<subseteq> D" using D(1) m(3) by (simp add: co_logged_append)
    ultimately show ?thesis
      using co_verify_step[OF Cons.prems(2) m(2)] co_verify_backed[OF Cons.prems(2) m(2) Cons.prems(3) _ Cons.prems(5)] m(3,4)
      by (simp add: co_backed_def)
  next
    case (Request v)
    then obtain b p2 e1 go_on e2 where m: "co_verify srt order p (co_processIndex p) b v = Inr (p2, e1, go_on)"
      "p1 = p2\<lparr>co_transactionCounter := co_transactionCounter p2 + 1\<rparr>" "es1 = e1 @ e2" "deliveries e2 = []"
      using one by (auto elim: co_request_eq)
    have "(co_processIndex p, b, v) \<in> S" using Cons.prems(4) Request by (auto simp: co_cast_def)
    moreover have "co_logged order e1 \<subseteq> D" using D(1) m(3) by (simp add: co_logged_append)
    ultimately show ?thesis
      using co_verify_step[OF Cons.prems(2) m(1)] co_verify_backed[OF Cons.prems(2) m(1) Cons.prems(3) _ Cons.prems(5)] m(2-4)
      by (simp add: co_backed_def co_tallied_def co_drawn_def)
  qed
  then have "co_cast (co_processIndex p1) is \<subseteq> S"
    using Cons.prems(4) co_config_eq[of p1 p] by (auto simp: co_cast_def)
  then have "co_backed p1 D S es2" using Cons.IH[OF rest] * D(2) by simp
  then show ?case using * co_config_eq[of p1 p] by (simp add: es co_backed_def)
qed

end
