(* ===== verification/Consistent_Theorems.thy ===== *)
theory Consistent_Theorems
  imports Consistent
begin

text \<open>
  The guarantees of the consistent protocol's process: every outcome of its handler, deliveries
  backed by a threshold of distinct senders, no duplication, and the failure of every run of two
  or more processes, for which \<open>GetWitnessSet\<close> is given too few histories.
\<close>

section \<open>New instances\<close>

lemma procs_nonempty: "a \<in> set (procs n) \<Longrightarrow> 1 \<le> n"
  by (auto simp: procs_def)

lemma co_verifyNew_outside:
  assumes "co_wf p" "Author b \<notin> set (procs (length (co_pids p)))"
  shows "co_verifyNew srt order p b v = Inl NilMapAssign"
proof -
  have "co_messagesLog p (Author b) = None" using assms by (auto simp: co_wf_def)
  then show ?thesis by (simp add: co_verifyNew_def co_initMessageState_def assign2_def)
qed

text \<open>In a system of one process the selection succeeds.\<close>

lemma co_verifyNew_single:
  assumes wf: "co_wf p" and a: "Author b \<in> set (procs (length (co_pids p)))" and n: "length (co_pids p) = 1"
  shows "\<exists>p' es. co_verifyNew srt order p b v = Inr (p', es)"
proof -
  obtain lg where lg: "assign2 (co_messagesLog p) (Author b) (SeqNumber b) co_newMessageState = Inr lg"
    using assign2_ok wf a by (metis co_wf_def)
  have "\<exists>r. GetWitnessSet srt (co_wSelector p) (co_pids p) [co_historyHash p] = Inr r"
    using wf n GetWitnessSet_wf[of "binCapacity (co_historyHash p)" "binNum (co_historyHash p)" "[co_historyHash p]" "co_pids p"]
    by (simp add: histories_ok_def co_wf_def)
  then show ?thesis using lg by (auto simp: co_verifyNew_def co_initMessageState_def Let_def)
qed

section \<open>Properties\<close>

text \<open>The answer to a request for verification.\<close>

definition co_echo ::
  "co_order \<Rightarrow> ConsistentProtocolMessage_Stage \<Rightarrow> BroadcastInstance \<Rightarrow> int32 \<Rightarrow> co_Process \<Rightarrow> effect list" where
  "co_echo order st b v p = (if st = Consistent_VERIFY
     then co_broadcast order p b \<lparr>ConsistentStage = Consistent_ECHO, ConsistentValue = v\<rparr> else [])"

text \<open>
  C14: Every outcome of \<open>HandleMessage\<close> on a message of the consistent protocol from a
  well-formed state: a delivered instance only logs a conflicting value and, asked to verify
  the delivered one, echoes it; a known instance takes at most one vote per witness and is
  delivered exactly when the vote completes the threshold; an unknown sender index, an author
  outside the system and, with two or more processes, every new instance end in a panic.
\<close>

theorem co_HandleMessage_outcome:
  assumes wf: "co_wf p"
  shows "case co_value p b of
      Some w \<Rightarrow> co_HandleMessage srt order p q (co_msg b st v) =
        Inr (p, if w = v then co_echo order st b v p else [Log (OnAttack b v w)])
    | None \<Rightarrow> (case co_state p b of
        Some ms0 \<Rightarrow>
          if 0 \<le> sint q \<and> sint q < int (length (co_pids p))
          then \<exists>p' es. co_HandleMessage srt order p q (co_msg b st v) = Inr (p', es @ co_echo order st b v p') \<and>
            co_moves p b (fst (co_react p q v ms0)) (snd (co_react p q v ms0)) v p' es
          else co_HandleMessage srt order p q (co_msg b st v) = Inl IndexOutOfRange
      | None \<Rightarrow>
          if Author b \<notin> set (procs (length (co_pids p)))
          then co_HandleMessage srt order p q (co_msg b st v) = Inl NilMapAssign
          else if 2 \<le> length (co_pids p)
          then co_HandleMessage srt order p q (co_msg b st v) = Inl IndexOutOfRange
          else \<exists>p' es. co_HandleMessage srt order p q (co_msg b st v) = Inr (p', es @ co_echo order st b v p') \<and>
            co_wf p' \<and> co_value p' = co_value p \<and> deliveries es = [] \<and> co_state p' b \<noteq> None)"
proof (cases "co_value p b")
  case (Some w)
  then show ?thesis by (simp add: co_HandleMessage_msg co_verify_def co_value_def co_echo_def)
next
  case None
  show ?thesis
  proof (cases "co_state p b")
    case (Some ms0)
    have v: "co_verify srt order p q b v = go_bind (co_verifyKnown p q b v ms0) (\<lambda>(p', es). Inr (p', es, True))"
      using None Some by (simp add: co_verify_def co_value_def co_state_def)
    show ?thesis
    proof (cases "0 \<le> sint q \<and> sint q < int (length (co_pids p))")
      case True
      obtain p' es where k: "co_verifyKnown p q b v ms0 = Inr (p', es)"
        "co_moves p b (fst (co_react p q v ms0)) (snd (co_react p q v ms0)) v p' es"
        using co_verifyKnown_ok[OF wf Some _ _ prod.collapse[symmetric]] True by blast
      have "co_HandleMessage srt order p q (co_msg b st v) = Inr (p', es @ co_echo order st b v p')"
        by (simp add: co_HandleMessage_msg v k(1) co_echo_def)
      then show ?thesis using None Some True k(2) by auto
    next
      case False
      then show ?thesis using None Some co_verifyKnown_range[OF False]
        by (simp add: co_HandleMessage_msg v)
    qed
  next
    case st: None
    have v: "co_verify srt order p q b v = go_bind (co_verifyNew srt order p b v) (\<lambda>(p', es). Inr (p', es, True))"
      using None st by (simp add: co_verify_def co_value_def co_state_def)
    consider "Author b \<notin> set (procs (length (co_pids p)))"
      | "Author b \<in> set (procs (length (co_pids p)))" "2 \<le> length (co_pids p)"
      | "Author b \<in> set (procs (length (co_pids p)))" "length (co_pids p) = 1"
      using procs_nonempty[of "Author b" "length (co_pids p)"] by linarith
    then show ?thesis
    proof cases
      case 3
      obtain p' es where k: "co_verifyNew srt order p b v = Inr (p', es)"
        using co_verifyNew_single[OF wf 3] by blast
      have "co_HandleMessage srt order p q (co_msg b st v) = Inr (p', es @ co_echo order st b v p')"
        by (simp add: co_HandleMessage_msg v k co_echo_def)
      then show ?thesis using None st 3 co_verifyNew_ok[OF wf k] by auto
    qed (use None st v co_verifyNew_outside[OF wf] co_verifyNew_panics[OF wf] in \<open>simp_all add: co_HandleMessage_msg\<close>)
  qed
qed

text \<open>A process of a system of two, with one instance started by hand.\<close>

definition co_sample :: co_Process where
  "co_sample = \<lparr>co_processIndex = 0, co_actorPids = pid_map [''p0'', ''p1''], co_pids = [''p0'', ''p1''],
     co_transactionCounter = 1, co_deliveredMessages = make_maps 2,
     co_messagesLog = (make_maps 2)(0 \<mapsto> [0 \<mapsto> co_newMessageState\<lparr>co_witnessSet := {''p0'', ''p1''}\<rparr>]),
     co_witnessThreshold = 2,
     co_wSelector = \<lparr>MinPotWitnessSetSize = 2, MinOwnWitnessSetSize = 2, PotWitnessSetRadius = 0,
       OwnWitnessSetRadius = 0\<rparr>,
     co_historyHash = NewHistoryHash 4 16 (\<lambda>b. [1]) 0, co_sendOwnDeliveredTransactions = False\<rparr>"

definition co_tx :: BroadcastInstance where
  "co_tx = \<lparr>Author = 0, SeqNumber = 0\<rparr>"

lemma co_sample_wf: "co_wf co_sample"
proof -
  have "(0 :: int32) \<in> set (procs 2)" by code_simp
  then have "dom (co_messagesLog co_sample) = set (procs 2)" by (simp add: co_sample_def insert_absorb)
  moreover have "dom (co_deliveredMessages co_sample) = set (procs 2)" by (simp add: co_sample_def)
  moreover have "length (co_pids co_sample) = 2" by (simp add: co_sample_def)
  moreover have "hh_wf (co_historyHash co_sample)" by (simp add: co_sample_def NewHistoryHash_wf)
  ultimately show ?thesis by (simp add: co_wf_def)
qed

theorem co_HandleMessage_outcome_witness:
  "\<exists>p' es. co_HandleMessage stable_sort (\<lambda>A. [''p0'', ''p1'']) co_sample 1 (co_msg co_tx Consistent_ECHO 5) = Inr (p', es) \<and>
    deliveries es = [] \<and> co_value p' co_tx = None"
proof -
  have "co_value co_sample co_tx = None" by code_simp
  moreover have "co_state co_sample co_tx = Some (co_newMessageState\<lparr>co_witnessSet := {''p0'', ''p1''}\<rparr>)"
    by (simp add: co_state_def co_sample_def co_tx_def lookup2_def)
  moreover have "\<not> snd (co_react co_sample 1 5 (co_newMessageState\<lparr>co_witnessSet := {''p0'', ''p1''}\<rparr>))"
    by code_simp
  moreover have "length (co_pids co_sample) = 2" by (simp add: co_sample_def)
  ultimately show ?thesis
    using co_HandleMessage_outcome[OF co_sample_wf, where b = co_tx and st = Consistent_ECHO and v = 5 and q = 1
        and srt = stable_sort and order = "\<lambda>A. [''p0'', ''p1'']"]
    by (auto simp: co_moves_def co_echo_def)
qed

text \<open>
  C11: Over any run that starts without votes, every delivery is backed by at least
  \<open>witnessThreshold\<close> different witnesses: processes of the witness set of that instance which sent the
  delivered value for it (the process itself counting when it was asked to broadcast the value). The
  witness set is the one the instance had at the start of the run or the one that was drawn, and
  logged, when the run met the instance. Repeated messages of one sender never count twice, and
  messages of processes outside the witness set never count.
  The start may be any well-formed state without votes: from the state of \<open>InitProcess\<close>, and with two or
  more processes, C28 says that drawing a witness set panics, so there the only deliveries are those of
  instances that already have their witnesses.
\<close>

theorem co_delivery_backed:
  assumes "co_wf p" "co_tallied p {}"
    and "run_inputs (co_HandleMessage srt order) (co_Broadcast srt order) p is = Inr (p', es)"
    and "(b, v) \<in> set (deliveries es)"
  shows "\<exists>W. ((\<exists>ms. co_state p b = Some ms \<and> co_witnessSet ms = W) \<or>
      Log (OnWitnessSetSelected ''own'' b (order W)) \<in> set es) \<and>
    co_witnessThreshold p \<le> int (card {q. 0 \<le> sint q \<and> sint q < int (length (co_pids p)) \<and> co_pids p ! nat (sint q) \<in> W \<and>
      ((\<exists>st. Received q (co_msg b st v) \<in> set is) \<or> q = co_processIndex p \<and> Request v \<in> set is)})"
proof -
  have "co_tallied p (co_cast (co_processIndex p) is)"
    using assms(2) tally_mono[OF _ empty_subsetI] by (auto simp: co_tallied_def)
  from co_run_backed[OF assms(3,1) this subset_refl, of "co_drawn p \<union> co_logged order es"]
  have "co_backed p (co_drawn p \<union> co_logged order es) (co_cast (co_processIndex p) is) es" by simp
  from bspec[OF this[unfolded co_backed_def list_all_iff] assms(4)]
  obtain W where W: "(b, W) \<in> co_drawn p \<union> co_logged order es"
    "co_witnessThreshold p \<le> int (card {q. (q, b, v) \<in> co_cast (co_processIndex p) is \<and> co_witness (co_pids p) W q})"
    by auto
  moreover have "{q. (q, b, v) \<in> co_cast (co_processIndex p) is \<and> co_witness (co_pids p) W q} =
      {q. 0 \<le> sint q \<and> sint q < int (length (co_pids p)) \<and> co_pids p ! nat (sint q) \<in> W \<and>
        ((\<exists>st. Received q (co_msg b st v) \<in> set is) \<or> q = co_processIndex p \<and> Request v \<in> set is)}"
    by (auto simp: co_cast_def co_witness_def)
  ultimately show ?thesis by (intro exI[of _ W]) (auto simp: co_drawn_def co_logged_def)
qed

text \<open>
  A run of a process that \<open>InitProcess\<close> has set up, in a system of one: it draws itself as the witness,
  asks itself, and delivers with its own answer.
\<close>

definition co_solo_params :: Parameters where
  "co_solo_params = \<lparr>ProcessCount = 1, FaultyProcesses = 0, MinOwnWitnessSetSize_param = 1,
     MinPotWitnessSetSize_param = 1, OwnWitnessSetRadius_param = 0, PotWitnessSetRadius_param = 0,
     WitnessThreshold = 1, RecoverySwitchTimeoutNs = 0, NodeIdSize = 16, NumberOfBins = 4,
     GossipSampleSize = 0, EchoSampleSize = 0, EchoThreshold = 0, ReadySampleSize = 0,
     ReadyThreshold = 0, DeliverySampleSize = 0, DeliveryThreshold = 0, CleanUpTimeout = 0\<rparr>"

definition co_solo_order :: co_order where
  "co_solo_order A = (if ''p0'' \<in> A then [''p0''] else [])"

definition co_solo_run :: "(co_Process \<times> co_Process \<times> effect list) go" where
  "co_solo_run = go_bind (co_InitProcess (\<lambda>_. [1]) (\<lambda>_. [1]) 0 [''p0''] co_solo_params False) (\<lambda>p.
     go_bind (run_inputs (co_HandleMessage stable_sort co_solo_order) (co_Broadcast stable_sort co_solo_order) p
       [Request 5, Received 0 (co_msg \<lparr>Author = 0, SeqNumber = 0\<rparr> Consistent_VERIFY 5)]) (\<lambda>(p', es). Inr (p, p', es)))"

theorem co_delivery_backed_witness:
  "\<exists>p p' es W. co_InitProcess (\<lambda>_. [1]) (\<lambda>_. [1]) 0 [''p0''] co_solo_params False = Inr p \<and>
    run_inputs (co_HandleMessage stable_sort co_solo_order) (co_Broadcast stable_sort co_solo_order) p
      [Request 5, Received 0 (co_msg co_tx Consistent_VERIFY 5)] = Inr (p', es) \<and> deliveries es = [(co_tx, 5)] \<and>
    Log (OnWitnessSetSelected ''own'' co_tx (co_solo_order W)) \<in> set es \<and>
    1 \<le> int (card {q. 0 \<le> sint q \<and> sint q < int (length (co_pids p)) \<and> co_pids p ! nat (sint q) \<in> W \<and>
      ((\<exists>st. Received q (co_msg co_tx st 5) \<in> set [Request 5, Received 0 (co_msg co_tx Consistent_VERIFY 5)]) \<or>
       q = co_processIndex p \<and> Request 5 \<in> set [Request 5, Received 0 (co_msg co_tx Consistent_VERIFY 5)])})"
proof -
  have d: "map_sum id (\<lambda>(p, p', es). (deliveries es, co_witnessThreshold p)) co_solo_run =
      Inr ([(\<lparr>Author = 0, SeqNumber = 0\<rparr>, 5)], 1)" by code_simp
  obtain p p' es where p: "co_solo_run = Inr (p, p', es)" "deliveries es = [(co_tx, 5)]" "co_witnessThreshold p = 1"
  proof (cases co_solo_run)
    case (Inl e)
    show ?thesis using d unfolding Inl by simp
  next
    case (Inr r)
    show ?thesis using d that[of "fst r" "fst (snd r)" "snd (snd r)"] Inr unfolding Inr co_tx_def by (simp add: case_prod_beta)
  qed
  then have init: "co_InitProcess (\<lambda>_. [1]) (\<lambda>_. [1]) 0 [''p0''] co_solo_params False = Inr p"
    and run: "run_inputs (co_HandleMessage stable_sort co_solo_order) (co_Broadcast stable_sort co_solo_order) p
      [Request 5, Received 0 (co_msg co_tx Consistent_VERIFY 5)] = Inr (p', es)"
    unfolding co_solo_run_def co_tx_def[symmetric] by (auto simp: go_simps simp del: run_inputs.simps)
  have new: "co_state p b = None" for b
    using init by (auto simp: co_InitProcess_def Let_def co_state_def split: if_splits)
  then have tallied: "co_tallied p {}" by (simp add: co_tallied_def)
  have "co_pids p = [''p0'']" "co_deliveredMessages p = make_maps 1" "co_messagesLog p = make_maps 1"
    "co_historyHash p = NewHistoryHash 4 16 (\<lambda>_. [1]) 0"
    using init by (auto simp: co_InitProcess_def co_solo_params_def Let_def uint_pow2_def)
  then have "co_wf p" using NewHistoryHash_wf[of 4 16] by (simp add: co_wf_def)
  from co_delivery_backed[OF this tallied run, of co_tx 5] obtain W where
    "Log (OnWitnessSetSelected ''own'' co_tx (co_solo_order W)) \<in> set es"
    "1 \<le> int (card {q. 0 \<le> sint q \<and> sint q < int (length (co_pids p)) \<and> co_pids p ! nat (sint q) \<in> W \<and>
      ((\<exists>st. Received q (co_msg co_tx st 5) \<in> set [Request 5, Received 0 (co_msg co_tx Consistent_VERIFY 5)]) \<or>
       q = co_processIndex p \<and> Request 5 \<in> set [Request 5, Received 0 (co_msg co_tx Consistent_VERIFY 5)])})"
    using new[of co_tx] unfolding p(2,3) by (elim meta_impE exE conjE) simp_all
  then show ?thesis using init run p(2) by blast
qed

definition co_two_echoes :: "input list" where
  "co_two_echoes = [Received 1 (co_msg co_tx Consistent_ECHO 5), Received 1 (co_msg co_tx Consistent_ECHO 5),
     Received 0 (co_msg co_tx Consistent_ECHO 5)]"

lemma co_two_echoes_run:
  "\<exists>p' es. run_inputs (co_HandleMessage stable_sort (\<lambda>A. [''p0'', ''p1''])) (co_Broadcast stable_sort (\<lambda>A. [''p0'', ''p1'']))
     co_sample co_two_echoes = Inr (p', es) \<and> deliveries es = [(co_tx, 5)]"
proof -
  let ?r = "run_inputs (co_HandleMessage stable_sort (\<lambda>A. [''p0'', ''p1''])) (co_Broadcast stable_sort (\<lambda>A. [''p0'', ''p1'']))
     co_sample co_two_echoes"
  have "map_sum id (\<lambda>(p, es). deliveries es) ?r = Inr [(co_tx, 5)]" by code_simp
  then show ?thesis by (cases ?r) auto
qed

text \<open>
  No duplication, over any run: every instance is delivered at most once, and a value
  that is delivered stays.
\<close>

theorem co_no_duplication:
  assumes "co_wf p" "run_inputs (co_HandleMessage srt order) (co_Broadcast srt order) p is = Inr (p', es)"
  shows "distinct (map fst (deliveries es)) \<and> co_value p' = co_value p ++ map_of (deliveries es) \<and>
    (co_value p b = Some v \<longrightarrow> co_value p' b = Some v)"
  using consistent.run_ok[OF assms] consistent.run_keeps_delivered[OF assms]
  by (auto simp: delivery_step_def)

theorem co_no_duplication_witness:
  "\<exists>p' es. run_inputs (co_HandleMessage stable_sort (\<lambda>A. [''p0'', ''p1''])) (co_Broadcast stable_sort (\<lambda>A. [''p0'', ''p1'']))
     co_sample co_two_echoes = Inr (p', es) \<and> deliveries es \<noteq> [] \<and> distinct (map fst (deliveries es))"
proof -
  obtain p' es where r: "run_inputs (co_HandleMessage stable_sort (\<lambda>A. [''p0'', ''p1'']))
      (co_Broadcast stable_sort (\<lambda>A. [''p0'', ''p1''])) co_sample co_two_echoes = Inr (p', es)"
    "deliveries es = [(co_tx, 5)]"
    using co_two_echoes_run by blast
  have "distinct (map fst (deliveries es))" using co_no_duplication[OF co_sample_wf r(1)] by blast
  then show ?thesis using r by auto
qed

text \<open>
  In a system of two or more processes no run gets past its first input: whatever a
  freshly initialised process receives first, and any request to broadcast, ends in a panic or a
  fatal exit, because \<open>initMessageState\<close> passes one history hash to a selection that reads one
  per process.
\<close>

theorem co_two_processes_fail:
  assumes init: "co_InitProcess sha256 sha512 i pids ps own = Inr p"
    and n: "2 \<le> length pids" "length pids < 2 ^ 31"
    and bins: "0 \<le> NodeIdSize ps" "NumberOfBins ps < 2 ^ 63" "NodeIdSize ps div NumberOfBins ps \<le> 62"
  shows "run_inputs (co_HandleMessage srt order) (co_Broadcast srt order) p (x # xs) \<noteq> Inr r"
proof -
  have pos: "0 < NumberOfBins ps"
    using init by (auto simp: co_InitProcess_def Let_def not_less split: if_splits)
  define cap where "cap = uint_pow2 (NodeIdSize ps div NumberOfBins ps)"
  have q: "0 \<le> NodeIdSize ps div NumberOfBins ps" using bins pos by (simp add: pos_imp_zdiv_nonneg_iff)
  have "(2::nat) ^ nat (NodeIdSize ps div NumberOfBins ps) \<le> 2 ^ 62"
    using bins(3) q by (intro power_increasing) simp_all
  then have cap: "0 < cap" "cap \<le> 2 ^ 62" using bins(3) q by (simp_all add: cap_def uint_pow2_def)
  have hh: "co_historyHash p = NewHistoryHash (nat (NumberOfBins ps)) cap
      (if NodeIdSize ps = 256 then sha256 else sha512) 0"
    and pids: "co_pids p = pids" and maps: "co_deliveredMessages p = make_maps (length pids)"
      "co_messagesLog p = make_maps (length pids)"
    using init pos bins(1) by (auto simp: co_InitProcess_def Let_def cap_def)
  have wf: "co_wf p"
    using NewHistoryHash_wf[of "nat (NumberOfBins ps)" cap] pos bins(2) cap n
    by (simp add: co_wf_def hh pids maps)
  have none: "co_value p b = None" "co_state p b = None" for b
    by (simp_all add: co_value_def co_state_def maps)
  have v: "\<exists>e. co_verify srt order p q b w = Inl e" for q b w
    using none[of b] co_verifyNew_panics[OF wf, of srt order b w] n pids
    by (auto simp: co_verify_def co_value_def co_state_def)
  then have no: "co_verify srt order p q b w \<noteq> Inr y" for q b w y by (metis sum.distinct(1))
  have "co_Broadcast srt order p w \<noteq> Inr (p', es)" for w p' es
    by (rule notI, erule co_request_eq) (use no in blast)
  moreover have "co_HandleMessage srt order p q m \<noteq> Inr (p', es)" for q m p' es
    by (rule notI, erule co_handle_eq) (use no in blast)
  ultimately show ?thesis by (cases x) (auto simp: go_simps)
qed

definition co_parameters :: Parameters where
  "co_parameters = \<lparr>ProcessCount = 4, FaultyProcesses = 1, MinOwnWitnessSetSize_param = 2,
     MinPotWitnessSetSize_param = 3, OwnWitnessSetRadius_param = 0, PotWitnessSetRadius_param = 0,
     WitnessThreshold = 2, RecoverySwitchTimeoutNs = 0, NodeIdSize = 256, NumberOfBins = 32,
     GossipSampleSize = 0, EchoSampleSize = 0, EchoThreshold = 0, ReadySampleSize = 0,
     ReadyThreshold = 0, DeliverySampleSize = 0, DeliveryThreshold = 0, CleanUpTimeout = 0\<rparr>"

theorem co_two_processes_fail_witness:
  "\<exists>p. co_InitProcess (\<lambda>b. b) (\<lambda>b. b) 0 [''p0'', ''p1''] co_parameters False = Inr p \<and>
    (\<forall>r. run_inputs (co_HandleMessage stable_sort (\<lambda>A. [''p0'', ''p1''])) (co_Broadcast stable_sort (\<lambda>A. [''p0'', ''p1'']))
      p [Request 5] \<noteq> Inr r)"
proof -
  obtain p where p: "co_InitProcess (\<lambda>b. b) (\<lambda>b. b) 0 [''p0'', ''p1''] co_parameters False = Inr p"
    by (simp add: co_InitProcess_def co_parameters_def Let_def)
  have "0 \<le> NodeIdSize co_parameters" "NumberOfBins co_parameters < 2 ^ 63"
    "NodeIdSize co_parameters div NumberOfBins co_parameters \<le> 62"
    by (simp_all add: co_parameters_def)
  from co_two_processes_fail[OF p _ _ this, of stable_sort "\<lambda>A. [''p0'', ''p1'']" "Request 5" "[]"]
  have "\<forall>r. run_inputs (co_HandleMessage stable_sort (\<lambda>A. [''p0'', ''p1'']))
      (co_Broadcast stable_sort (\<lambda>A. [''p0'', ''p1''])) p [Request 5] \<noteq> Inr r" by (simp del: run_inputs.simps)
  then show ?thesis using p by blast
qed

end
