(* ===== verification/Scalable.thy ===== *)
theory Scalable
  imports Process_Interface Votes "HOL-Library.AList"
begin

text \<open>
  \<open>impl/protocols/scalable/process.go\<close>: scalable Byzantine reliable broadcast, one process. A Go
  map from processes to counts is an association list with distinct keys; ranging over it visits
  the keys in an order the runtime picks (parameter \<open>order\<close>). Random numbers come from sources
  seeded with the time: \<open>rnd k\<close> is what the \<open>k\<close>-th call of \<open>initMessageState\<close> draws, the Poisson
  value (third-party code) and four sequences of non-negative integers. Handlers run under the
  author's mutex, so each is one step; the goroutine that \<open>deliver\<close> starts is the step \<open>sc_cleanUp\<close>.
\<close>

section \<open>Counting maps\<close>

type_synonym sc_sample = "(ProcessId \<times> nat) list"

definition sc_count :: "sc_sample \<Rightarrow> ProcessId \<Rightarrow> nat" where
  "sc_count sample q = (case map_of sample q of None \<Rightarrow> 0 | Some c \<Rightarrow> c)"

definition sc_inc :: "ProcessId \<Rightarrow> sc_sample \<Rightarrow> sc_sample" where
  "sc_inc q sample = AList.update q (Suc (sc_count sample q)) sample"

definition sc_keys :: "sc_sample \<Rightarrow> ProcessId list" where
  "sc_keys sample = map fst sample"

section \<open>State\<close>

record sc_messageState =
  sc_receivedEcho :: "ProcessId \<Rightarrow> bool"
  sc_receivedReady :: "bool map2"
  sc_echoMessagesStat :: "int32 \<Rightarrow> nat"
  sc_readySampleStat :: "int32 \<Rightarrow> nat"
  sc_deliverySampleStat :: "int32 \<Rightarrow> nat"
  sc_sentReadyMessages :: "int32 list"
  sc_gossipSample :: sc_sample
  sc_echoSample :: sc_sample
  sc_readySample :: sc_sample
  sc_deliverySample :: sc_sample
  sc_echoSubscriptionSet :: sc_sample
  sc_readySubscriptionSet :: sc_sample
  sc_gossipMessage :: "ScalableProtocolMessage option"
  sc_echoMessage :: "ScalableProtocolMessage option"
  sc_sentReadyFromSieve :: bool
  sc_receivedMessagesCnt :: nat

definition sc_newMessageState :: sc_messageState where
  "sc_newMessageState = \<lparr>sc_receivedEcho = (\<lambda>_. False), sc_receivedReady = Map.empty,
     sc_echoMessagesStat = (\<lambda>_. 0), sc_readySampleStat = (\<lambda>_. 0), sc_deliverySampleStat = (\<lambda>_. 0),
     sc_sentReadyMessages = [], sc_gossipSample = [], sc_echoSample = [], sc_readySample = [],
     sc_deliverySample = [], sc_echoSubscriptionSet = [], sc_readySubscriptionSet = [],
     sc_gossipMessage = None, sc_echoMessage = None, sc_sentReadyFromSieve = False,
     sc_receivedMessagesCnt = 0\<rparr>"

text \<open>
  \<open>sc_inits\<close> counts the calls of \<open>initMessageState\<close>, and \<open>sc_cleanUps\<close> lists the instances whose
  clean-up goroutine is asleep; neither is a field of the source's struct.
\<close>

record sc_Process =
  sc_processIndex :: int32
  sc_n :: nat
  sc_transactionCounter :: int32
  sc_deliveredMessages :: "int32 map2"
  sc_messagesLog :: "sc_messageState map2"
  sc_gossipSampleSize :: int
  sc_echoSampleSize :: int
  sc_echoThreshold :: int
  sc_readySampleSize :: int
  sc_readyThreshold :: int
  sc_deliverySampleSize :: int
  sc_deliveryThreshold :: int
  sc_cleanUpTimeout :: int
  sc_sendOwnDeliveredTransactions :: bool
  sc_inits :: nat
  sc_cleanUps :: "BroadcastInstance list"

definition sc_InitProcess :: "int32 \<Rightarrow> string list \<Rightarrow> Parameters \<Rightarrow> bool \<Rightarrow> sc_Process" where
  "sc_InitProcess processIndex actorPids parameters sendOwn =
     (let n = length actorPids in
      \<lparr>sc_processIndex = processIndex, sc_n = n, sc_transactionCounter = 0,
       sc_deliveredMessages = make_maps n, sc_messagesLog = make_maps n,
       sc_gossipSampleSize = GossipSampleSize parameters, sc_echoSampleSize = EchoSampleSize parameters,
       sc_echoThreshold = EchoThreshold parameters, sc_readySampleSize = ReadySampleSize parameters,
       sc_readyThreshold = ReadyThreshold parameters, sc_deliverySampleSize = DeliverySampleSize parameters,
       sc_deliveryThreshold = DeliveryThreshold parameters, sc_cleanUpTimeout = CleanUpTimeout parameters,
       sc_sendOwnDeliveredTransactions = sendOwn, sc_inits = 0, sc_cleanUps = []\<rparr>)"

section \<open>Sampling\<close>

record sc_randomness =
  sc_poisson :: int
  sc_gossipDraws :: "nat \<Rightarrow> nat"
  sc_echoDraws :: "nat \<Rightarrow> nat"
  sc_readyDraws :: "nat \<Rightarrow> nat"
  sc_deliveryDraws :: "nat \<Rightarrow> nat"

definition sc_getRandomPid :: "nat \<Rightarrow> nat \<Rightarrow> ProcessId" where
  "sc_getRandomPid n draw = of_nat (draw mod n)"

text \<open>
  The loop of \<open>generateGossipSample\<close> draws until it has enough different processes; it may
  never end, which is the value \<open>None\<close>.
\<close>

partial_function (option) sc_gossipLoop ::
  "nat \<Rightarrow> int \<Rightarrow> (nat \<Rightarrow> nat) \<Rightarrow> nat \<Rightarrow> sc_sample \<Rightarrow> sc_sample option" where
  "sc_gossipLoop n gSize draws i sample =
     (if int (length sample) < gSize
      then sc_gossipLoop n gSize draws (Suc i) (sc_inc (sc_getRandomPid n (draws i)) sample)
      else Some sample)"

declare sc_gossipLoop.simps [code]

definition sc_generateGossipSample :: "nat \<Rightarrow> sc_randomness \<Rightarrow> sc_sample go" where
  "sc_generateGossipSample n r =
     (let gSize = (if sc_poisson r > int n then int n else sc_poisson r) in
      case sc_gossipLoop n gSize (sc_gossipDraws r) 0 [] of
        None \<Rightarrow> Inl Diverges
      | Some sample \<Rightarrow> Inr sample)"

text \<open>The loop of \<open>sample\<close>.\<close>

definition sc_draw :: "nat \<Rightarrow> int \<Rightarrow> (nat \<Rightarrow> nat) \<Rightarrow> sc_sample" where
  "sc_draw n samples draws = fold (\<lambda>i. sc_inc (sc_getRandomPid n (draws i))) [0..<nat samples] []"

section \<open>Sending\<close>

type_synonym sc_order = "ProcessId list \<Rightarrow> ProcessId list"

definition sc_sendMessage :: "ProcessId \<Rightarrow> BroadcastInstance \<Rightarrow> ScalableProtocolMessage \<Rightarrow> effect" where
  "sc_sendMessage to b m =
     Send to \<lparr>BroadcastInstance_of = Some b,
       Message_of = (case ScalableProtocolMessage_Copy (Some m) of
         Some c \<Rightarrow> ScalableMessage c | None \<Rightarrow> UnsetMessage)\<rparr>"

definition sc_broadcastToSet ::
  "sc_order \<Rightarrow> sc_sample \<Rightarrow> BroadcastInstance \<Rightarrow> ScalableProtocolMessage \<Rightarrow> effect list" where
  "sc_broadcastToSet order sample b m = map (\<lambda>q. sc_sendMessage q b m) (order (sc_keys sample))"

definition sc_subscribe ::
  "sc_order \<Rightarrow> ScalableProtocolMessage_Stage \<Rightarrow> BroadcastInstance \<Rightarrow> int32 \<Rightarrow> sc_sample \<Rightarrow> effect list" where
  "sc_subscribe order stage b v sample =
     sc_broadcastToSet order sample b \<lparr>ScalableStage = stage, ScalableValue = v\<rparr>"

definition sc_initMessageState ::
  "sc_order \<Rightarrow> (nat \<Rightarrow> sc_randomness) \<Rightarrow> sc_Process \<Rightarrow> BroadcastInstance \<Rightarrow> int32 \<Rightarrow>
   (sc_Process \<times> sc_messageState \<times> effect list) go" where
  "sc_initMessageState order rnd p b v =
     (let r = rnd (sc_inits p); n = sc_n p;
          ms0 = sc_newMessageState\<lparr>sc_receivedReady := make_maps n\<rparr> in
      go_bind (sc_generateGossipSample n r) (\<lambda>gossip.
        let echo = sc_draw n (sc_echoSampleSize p) (sc_echoDraws r);
            ready = sc_draw n (sc_readySampleSize p) (sc_readyDraws r);
            delivery = sc_draw n (sc_deliverySampleSize p) (sc_deliveryDraws r);
            ms = ms0\<lparr>sc_gossipSample := gossip, sc_echoSample := echo, sc_readySample := ready,
                    sc_deliverySample := delivery\<rparr>
        in go_bind (assign2 (sc_messagesLog p) (Author b) (SeqNumber b) ms) (\<lambda>lg.
           Inr (p\<lparr>sc_messagesLog := lg, sc_inits := Suc (sc_inits p)\<rparr>, ms,
             sc_subscribe order Scalable_GOSSIP_SUBSCRIBE b v gossip @
             sc_subscribe order Scalable_ECHO_SUBSCRIBE b v echo @
             sc_subscribe order Scalable_READY_SUBSCRIBE b v ready @
             sc_subscribe order Scalable_READY_SUBSCRIBE b v delivery))))"

definition sc_broadcastGossip ::
  "sc_order \<Rightarrow> sc_messageState \<Rightarrow> BroadcastInstance \<Rightarrow> int32 \<Rightarrow> sc_messageState \<times> effect list" where
  "sc_broadcastGossip order ms b v =
     (let m = \<lparr>ScalableStage = Scalable_GOSSIP, ScalableValue = v\<rparr> in
      (ms\<lparr>sc_gossipMessage := Some m\<rparr>, sc_broadcastToSet order (sc_gossipSample ms) b m))"

definition sc_broadcastReady ::
  "sc_order \<Rightarrow> sc_messageState \<Rightarrow> BroadcastInstance \<Rightarrow> int32 \<Rightarrow> sc_messageState \<times> effect list" where
  "sc_broadcastReady order ms b v =
     (ms\<lparr>sc_sentReadyMessages := (if v \<in> set (sc_sentReadyMessages ms) then sc_sentReadyMessages ms
         else sc_sentReadyMessages ms @ [v])\<rparr>,
      sc_broadcastToSet order (sc_readySubscriptionSet ms) b \<lparr>ScalableStage = Scalable_READY, ScalableValue = v\<rparr>)"

definition sc_delivered :: "sc_Process \<Rightarrow> BroadcastInstance \<Rightarrow> int32 \<Rightarrow> bool \<times> effect list" where
  "sc_delivered p b v =
     (case lookup2 (sc_deliveredMessages p) (Author b) (SeqNumber b) of
        None \<Rightarrow> (False, [])
      | Some w \<Rightarrow> (True, if w \<noteq> v then [Log (OnAttack b v w)] else []))"

text \<open>\<open>deliver\<close> leaves the message state to the goroutine that cleans it up after a timeout.\<close>

definition sc_deliver :: "sc_Process \<Rightarrow> BroadcastInstance \<Rightarrow> int32 \<Rightarrow> (sc_Process \<times> effect list) go" where
  "sc_deliver p b v =
     go_bind (assign2 (sc_deliveredMessages p) (Author b) (SeqNumber b) v) (\<lambda>dm.
     case lookup2 (sc_messagesLog p) (Author b) (SeqNumber b) of
       None \<Rightarrow> Inl NilDereference
     | Some ms \<Rightarrow>
         Inr (p\<lparr>sc_deliveredMessages := dm, sc_cleanUps := sc_cleanUps p @ [b]\<rparr>,
              [Log (OnDeliver b v (sc_receivedMessagesCnt ms))] @
              (if sc_sendOwnDeliveredTransactions p \<and> Author b = sc_processIndex p then [OwnDelivered] else [])))"

definition sc_cleanUp :: "sc_Process \<Rightarrow> BroadcastInstance \<Rightarrow> sc_Process" where
  "sc_cleanUp p b =
     (if b \<in> set (sc_cleanUps p)
      then p\<lparr>sc_messagesLog := delete2 (sc_messagesLog p) (Author b) (SeqNumber b),
             sc_cleanUps := remove1 b (sc_cleanUps p)\<rparr>
      else p)"

definition sc_maybeSendReadyFromSieve ::
  "sc_order \<Rightarrow> sc_Process \<Rightarrow> sc_messageState \<Rightarrow> BroadcastInstance \<Rightarrow> sc_messageState \<times> effect list" where
  "sc_maybeSendReadyFromSieve order p ms b =
     (if sc_sentReadyFromSieve ms then (ms, [])
      else case sc_echoMessage ms of
        None \<Rightarrow> (ms, [])
      | Some em \<Rightarrow>
          if int (sc_echoMessagesStat ms (ScalableValue em)) \<ge> sc_echoThreshold p
          then let (ms', es) = sc_broadcastReady order ms b (ScalableValue em)
               in (ms'\<lparr>sc_sentReadyFromSieve := True\<rparr>, es)
          else (ms, []))"

section \<open>The stages\<close>

definition sc_onGossipSubscribe ::
  "sc_messageState \<Rightarrow> ProcessId \<Rightarrow> BroadcastInstance \<Rightarrow> sc_messageState \<times> effect list" where
  "sc_onGossipSubscribe ms q b =
     (ms\<lparr>sc_gossipSample := AList.update q 1 (sc_gossipSample ms)\<rparr>,
      case sc_gossipMessage ms of None \<Rightarrow> [] | Some m \<Rightarrow> [sc_sendMessage q b m])"

definition sc_onGossip ::
  "sc_order \<Rightarrow> sc_Process \<Rightarrow> sc_messageState \<Rightarrow> BroadcastInstance \<Rightarrow> int32 \<Rightarrow> sc_messageState \<times> effect list" where
  "sc_onGossip order p ms b v =
     (let (ms1, es1) = (if sc_gossipMessage ms = None then sc_broadcastGossip order ms b v else (ms, [])) in
      if sc_echoMessage ms1 = None then
        let m = \<lparr>ScalableStage = Scalable_ECHO, ScalableValue = v\<rparr>;
            ms2 = ms1\<lparr>sc_echoMessage := Some m\<rparr>;
            es2 = sc_broadcastToSet order (sc_echoSubscriptionSet ms2) b m;
            (ms3, es3) = sc_maybeSendReadyFromSieve order p ms2 b
        in (ms3, es1 @ es2 @ es3)
      else (ms1, es1))"

definition sc_onEchoSubscribe ::
  "sc_messageState \<Rightarrow> ProcessId \<Rightarrow> BroadcastInstance \<Rightarrow> sc_messageState \<times> effect list" where
  "sc_onEchoSubscribe ms q b =
     (if sc_count (sc_echoSubscriptionSet ms) q > 0 then (ms, [])
      else (ms\<lparr>sc_echoSubscriptionSet := AList.update q 1 (sc_echoSubscriptionSet ms)\<rparr>,
            case sc_echoMessage ms of None \<Rightarrow> [] | Some m \<Rightarrow> [sc_sendMessage q b m]))"

definition sc_onEcho ::
  "sc_order \<Rightarrow> sc_Process \<Rightarrow> sc_messageState \<Rightarrow> ProcessId \<Rightarrow> BroadcastInstance \<Rightarrow> int32 \<Rightarrow>
   sc_messageState \<times> effect list" where
  "sc_onEcho order p ms q b v =
     (if sc_count (sc_echoSample ms) q = 0 \<or> sc_receivedEcho ms q then (ms, [])
      else sc_maybeSendReadyFromSieve order p
        (ms\<lparr>sc_receivedEcho := (sc_receivedEcho ms)(q := True),
            sc_echoMessagesStat := (sc_echoMessagesStat ms)(v := sc_echoMessagesStat ms v + sc_count (sc_echoSample ms) q)\<rparr>) b)"

definition sc_onReadySubscribe ::
  "sc_order \<Rightarrow> sc_messageState \<Rightarrow> ProcessId \<Rightarrow> BroadcastInstance \<Rightarrow> sc_messageState \<times> effect list" where
  "sc_onReadySubscribe order ms q b =
     (if sc_count (sc_readySubscriptionSet ms) q > 0 then (ms, [])
      else (ms\<lparr>sc_readySubscriptionSet := AList.update q 1 (sc_readySubscriptionSet ms)\<rparr>,
            map (\<lambda>val. sc_sendMessage q b \<lparr>ScalableStage = Scalable_READY, ScalableValue = val\<rparr>)
              (order (sc_sentReadyMessages ms))))"

text \<open>The READY case; the last component says whether it delivers.\<close>

definition sc_onReady ::
  "sc_order \<Rightarrow> sc_Process \<Rightarrow> bool \<Rightarrow> sc_messageState \<Rightarrow> ProcessId \<Rightarrow> BroadcastInstance \<Rightarrow> int32 \<Rightarrow>
   sc_messageState \<times> effect list \<times> bool" where
  "sc_onReady order p delivered ms q b v =
     (let (ms1, es1) =
        (if sc_count (sc_readySample ms) q > 0 then
           let ms' = ms\<lparr>sc_readySampleStat := (sc_readySampleStat ms)
                 (v := sc_readySampleStat ms v + sc_count (sc_readySample ms) q)\<rparr>
           in if v \<notin> set (sc_sentReadyMessages ms') \<and> int (sc_readySampleStat ms' v) \<ge> sc_readyThreshold p
              then sc_broadcastReady order ms' b v else (ms', [])
         else (ms, []))
      in if sc_count (sc_deliverySample ms1) q > 0 then
           let ms2 = ms1\<lparr>sc_deliverySampleStat := (sc_deliverySampleStat ms1)
                 (v := sc_deliverySampleStat ms1 v + sc_count (sc_deliverySample ms1) q)\<rparr>
           in (ms2, es1, \<not> delivered \<and> int (sc_deliverySampleStat ms2 v) \<ge> sc_deliveryThreshold p)
         else (ms1, es1, False))"

definition sc_stage ::
  "sc_order \<Rightarrow> sc_Process \<Rightarrow> bool \<Rightarrow> sc_messageState \<Rightarrow> ProcessId \<Rightarrow> BroadcastInstance \<Rightarrow> ScalableProtocolMessage \<Rightarrow>
   sc_messageState \<times> effect list \<times> bool" where
  "sc_stage order p delivered ms q b m =
     (let v = ScalableValue m; no_delivery = (\<lambda>(ms, es). (ms, es, False)) in
      case ScalableStage m of
        Scalable_GOSSIP_SUBSCRIBE \<Rightarrow> no_delivery (sc_onGossipSubscribe ms q b)
      | Scalable_GOSSIP \<Rightarrow> no_delivery (sc_onGossip order p ms b v)
      | Scalable_ECHO_SUBSCRIBE \<Rightarrow> no_delivery (sc_onEchoSubscribe ms q b)
      | Scalable_ECHO \<Rightarrow> no_delivery (sc_onEcho order p ms q b v)
      | Scalable_READY_SUBSCRIBE \<Rightarrow> no_delivery (sc_onReadySubscribe order ms q b)
      | Scalable_READY \<Rightarrow> sc_onReady order p delivered ms q b v
      | Scalable_OTHER _ \<Rightarrow> (ms, [], False))"

section \<open>The handlers\<close>

definition sc_store :: "sc_Process \<Rightarrow> BroadcastInstance \<Rightarrow> sc_messageState \<Rightarrow> sc_Process" where
  "sc_store p b ms = p\<lparr>sc_messagesLog := poke2 (sc_messagesLog p) (Author b) (SeqNumber b) ms\<rparr>"

text \<open>The part of \<open>processProtocolMessage\<close> after the message state is found.\<close>

definition sc_dispatch ::
  "sc_order \<Rightarrow> sc_Process \<Rightarrow> bool \<Rightarrow> sc_messageState \<Rightarrow> ProcessId \<Rightarrow> BroadcastInstance \<Rightarrow> ScalableProtocolMessage \<Rightarrow>
   (sc_Process \<times> effect list) go" where
  "sc_dispatch order p delivered ms0 q b m =
     (let ms = (if delivered then ms0
          else ms0\<lparr>sc_receivedMessagesCnt := Suc (sc_receivedMessagesCnt ms0)\<rparr>);
          (ms', es, deliver) = sc_stage order p delivered ms q b m;
          p' = sc_store p b ms'
      in if deliver then go_bind (sc_deliver p' b (ScalableValue m)) (\<lambda>(p'', es'). Inr (p'', es @ es'))
         else Inr (p', es))"

text \<open>
  Locking the mutex of an author outside the system dereferences a nil pointer: \<open>logMutex\<close> has
  the keys \<open>0, \<dots>, n - 1\<close>.
\<close>

definition sc_processProtocolMessage ::
  "sc_order \<Rightarrow> (nat \<Rightarrow> sc_randomness) \<Rightarrow> sc_Process \<Rightarrow> ProcessId \<Rightarrow> BroadcastInstance \<Rightarrow>
   ScalableProtocolMessage \<Rightarrow> (sc_Process \<times> effect list) go" where
  "sc_processProtocolMessage order rnd p q b m =
     (if Author b \<notin> set (procs (sc_n p)) then Inl NilDereference
      else let (delivered, es0) = sc_delivered p b (ScalableValue m) in
        case lookup2 (sc_messagesLog p) (Author b) (SeqNumber b) of
          Some ms \<Rightarrow> go_bind (sc_dispatch order p delivered ms q b m) (\<lambda>(p', es). Inr (p', es0 @ es))
        | None \<Rightarrow>
            if delivered then Inr (p, es0)
            else go_bind (sc_initMessageState order rnd p b (ScalableValue m)) (\<lambda>(p1, ms, es1).
              go_bind (sc_dispatch order p1 delivered ms q b m) (\<lambda>(p', es). Inr (p', es0 @ es1 @ es))))"

definition sc_HandleMessage ::
  "sc_order \<Rightarrow> (nat \<Rightarrow> sc_randomness) \<Rightarrow> sc_Process \<Rightarrow> int32 \<Rightarrow> BroadcastInstanceMessage \<Rightarrow>
   (sc_Process \<times> effect list) go" where
  "sc_HandleMessage order rnd p sender bm =
     (case Message_of bm of
        ScalableMessage m \<Rightarrow>
          (case BroadcastInstance_of bm of
             None \<Rightarrow> Inl NilDereference
           | Some b \<Rightarrow> sc_processProtocolMessage order rnd p sender b m)
      | _ \<Rightarrow> Inl FatalExit)"

definition sc_Broadcast ::
  "sc_order \<Rightarrow> (nat \<Rightarrow> sc_randomness) \<Rightarrow> sc_Process \<Rightarrow> int32 \<Rightarrow> (sc_Process \<times> effect list) go" where
  "sc_Broadcast order rnd p v =
     (if sc_processIndex p \<notin> set (procs (sc_n p)) then Inl NilDereference
      else let b = \<lparr>Author = sc_processIndex p, SeqNumber = sc_transactionCounter p\<rparr> in
        go_bind (sc_initMessageState order rnd p b v) (\<lambda>(p1, ms0, es1).
          let (ms, es2) = sc_broadcastGossip order ms0 b v
          in Inr ((sc_store p1 b ms)\<lparr>sc_transactionCounter := sc_transactionCounter p1 + 1\<rparr>,
               es1 @ es2 @ [Log (OnTransactionInit b)])))"

section \<open>Views\<close>

definition sc_value :: "sc_Process \<Rightarrow> BroadcastInstance \<Rightarrow> int32 option" where
  "sc_value p b = lookup2 (sc_deliveredMessages p) (Author b) (SeqNumber b)"

definition sc_state :: "sc_Process \<Rightarrow> BroadcastInstance \<Rightarrow> sc_messageState option" where
  "sc_state p b = lookup2 (sc_messagesLog p) (Author b) (SeqNumber b)"

definition sc_wf :: "sc_Process \<Rightarrow> bool" where
  "sc_wf p \<longleftrightarrow> dom (sc_deliveredMessages p) = set (procs (sc_n p)) \<and>
     dom (sc_messagesLog p) = set (procs (sc_n p))"

text \<open>The fields no step writes.\<close>

definition sc_config :: "sc_Process \<Rightarrow> int32 \<times> nat \<times> (int \<times> int \<times> int \<times> int \<times> int \<times> int \<times> int) \<times> bool" where
  "sc_config p = (sc_processIndex p, sc_n p, (sc_gossipSampleSize p, sc_echoSampleSize p, sc_echoThreshold p,
     sc_readySampleSize p, sc_readyThreshold p, sc_deliverySampleSize p, sc_deliveryThreshold p),
     sc_sendOwnDeliveredTransactions p)"

definition sc_msg :: "BroadcastInstance \<Rightarrow> ScalableProtocolMessage_Stage \<Rightarrow> int32 \<Rightarrow> BroadcastInstanceMessage" where
  "sc_msg b st v = \<lparr>BroadcastInstance_of = Some b,
     Message_of = ScalableMessage \<lparr>ScalableStage = st, ScalableValue = v\<rparr>\<rparr>"

section \<open>Sampling facts\<close>

lemma sc_count_inc [simp]: "sc_count (sc_inc q s) x = (if x = q then Suc (sc_count s q) else sc_count s x)"
  by (simp add: sc_count_def sc_inc_def AList.update_conv')

lemma sc_keys_inc: "set (sc_keys (sc_inc q s)) = insert q (set (sc_keys s))"
  by (simp add: sc_keys_def sc_inc_def AList.dom_update)

lemma sc_distinct_inc: "distinct (sc_keys s) \<Longrightarrow> distinct (sc_keys (sc_inc q s))"
  by (simp add: sc_keys_def sc_inc_def AList.distinct_update)

lemma sc_length_keys: "distinct (sc_keys s) \<Longrightarrow> length s = card (set (sc_keys s))"
  by (metis distinct_card length_map sc_keys_def)

lemma sc_length_inc:
  "distinct (sc_keys s) \<Longrightarrow> length (sc_inc q s) = (if q \<in> set (sc_keys s) then length s else Suc (length s))"
  by (simp add: sc_length_keys sc_distinct_inc sc_keys_inc card_insert_if)

lemma sc_getRandomPid_procs: "0 < n \<Longrightarrow> sc_getRandomPid n d \<in> set (procs n)"
  by (auto simp: sc_getRandomPid_def set_procs)

text \<open>The total weight of a sample: how many draws it holds.\<close>

definition sc_total :: "sc_sample \<Rightarrow> nat" where
  "sc_total s = sum (sc_count s) (set (sc_keys s))"

lemma sc_count_absent: "q \<notin> set (sc_keys s) \<Longrightarrow> sc_count s q = 0"
  using map_of_eq_None_iff[of s q] by (simp add: sc_count_def sc_keys_def)

lemma sc_total_inc: "sc_total (sc_inc q s) = Suc (sc_total s)"
proof -
  have "sum (sc_count (sc_inc q s)) (set (sc_keys (sc_inc q s))) =
      (\<Sum>x\<in>insert q (set (sc_keys s)). (if x = q then 1 else 0) + sc_count s x)"
    unfolding sc_keys_inc by (rule sum.cong) auto
  also have "\<dots> = 1 + (\<Sum>x\<in>insert q (set (sc_keys s)). sc_count s x)"
    by (simp add: sum.distrib)
  also have "(\<Sum>x\<in>insert q (set (sc_keys s)). sc_count s x) = sc_total s"
    by (cases "q \<in> set (sc_keys s)") (simp_all add: sc_total_def insert_absorb sc_count_absent)
  finally show ?thesis by (simp add: sc_total_def)
qed

lemma sc_draw_facts:
  assumes "0 < n"
  shows "distinct (sc_keys (sc_draw n k draws)) \<and> set (sc_keys (sc_draw n k draws)) \<subseteq> set (procs n) \<and>
    sc_total (sc_draw n k draws) = nat k"
proof -
  have "distinct (sc_keys (fold f [0..<m] [])) \<and> set (sc_keys (fold f [0..<m] [])) \<subseteq> set (procs n) \<and>
      sc_total (fold f [0..<m] []) = m"
    if "f = (\<lambda>i. sc_inc (sc_getRandomPid n (draws i)))" for f m
  proof (induction m)
    case 0
    then show ?case by (simp add: sc_keys_def sc_total_def)
  next
    case (Suc m)
    then show ?case
      by (simp add: that sc_distinct_inc sc_keys_inc sc_total_inc sc_getRandomPid_procs[OF assms])
  qed
  then show ?thesis by (simp add: sc_draw_def)
qed

text \<open>
  The gossip loop ends with exactly the wanted number of processes once the draws have named
  every process.
\<close>

lemma sc_gossipLoop_ends:
  assumes n: "0 < n" "n \<le> 2 ^ 32" and g: "gSize \<le> int n" and K: "\<And>x. x < n \<Longrightarrow> \<exists>i<K. draws i mod n = x"
  shows "i \<le> K \<Longrightarrow> distinct (sc_keys s) \<Longrightarrow> set (sc_keys s) = (\<lambda>j. sc_getRandomPid n (draws j)) ` {..<i} \<Longrightarrow>
    int (length s) \<le> max 0 gSize \<Longrightarrow>
    \<exists>s'. sc_gossipLoop n gSize draws i s = Some s' \<and> distinct (sc_keys s') \<and>
      set (sc_keys s') \<subseteq> set (procs n) \<and> int (length s') = max 0 gSize"
proof (induction "K - i" arbitrary: i s)
  case 0
  have "set (procs n) \<subseteq> set (sc_keys s)"
  proof
    fix a assume "a \<in> set (procs n)"
    then obtain x where x: "x < n" "a = of_nat x" by (auto simp: set_procs)
    obtain j where "j < K" "draws j mod n = x" using K[OF x(1)] by blast
    then show "a \<in> set (sc_keys s)" using 0 x by (auto simp: sc_getRandomPid_def)
  qed
  then have "n \<le> card (set (sc_keys s))"
    using card_mono[of "set (sc_keys s)" "set (procs n)"] card_procs[OF n(2)] by simp
  then have len: "int n \<le> int (length s)" by (simp add: sc_length_keys[OF 0(3)])
  have "set (sc_keys s) \<subseteq> set (procs n)" unfolding 0(4) using sc_getRandomPid_procs[OF n(1)] by auto
  then show ?case using len g 0(3,5) by (subst sc_gossipLoop.simps) simp
next
  case (Suc k)
  have sub: "set (sc_keys s) \<subseteq> set (procs n)" unfolding Suc(5) using sc_getRandomPid_procs[OF n(1)] by auto
  let ?s = "sc_inc (sc_getRandomPid n (draws i)) s"
  show ?case
  proof (cases "int (length s) < gSize")
    case True
    have "\<exists>s'. sc_gossipLoop n gSize draws (Suc i) ?s = Some s' \<and> distinct (sc_keys s') \<and>
        set (sc_keys s') \<subseteq> set (procs n) \<and> int (length s') = max 0 gSize"
      using Suc(2) True by (intro Suc(1))
        (simp_all add: sc_distinct_inc[OF Suc(4)] sc_keys_inc Suc(5) lessThan_Suc sc_length_inc[OF Suc(4)])
    then show ?thesis using True by (subst sc_gossipLoop.simps) simp
  next
    case False
    then show ?thesis using Suc(4,6) sub by (subst sc_gossipLoop.simps) simp
  qed
qed

lemma sc_gossip_ok:
  assumes n: "0 < n" "n \<le> 2 ^ 32" and K: "\<And>x. x < n \<Longrightarrow> \<exists>i. sc_gossipDraws r i mod n = x"
  shows "\<exists>s. sc_generateGossipSample n r = Inr s \<and> distinct (sc_keys s) \<and> set (sc_keys s) \<subseteq> set (procs n) \<and>
    int (length s) = max 0 (min (sc_poisson r) (int n))"
proof -
  obtain f where f: "\<And>x. x < n \<Longrightarrow> sc_gossipDraws r (f x) mod n = x" using K by metis
  define K where "K = Suc (Max (f ` {..<n}))"
  have "f x < K" if "x < n" for x
    using that Max_ge[of "f ` {..<n}" "f x"] by (simp add: K_def less_Suc_eq_le)
  then have k: "\<And>x. x < n \<Longrightarrow> \<exists>i<K. sc_gossipDraws r i mod n = x" using f by blast
  let ?g = "if sc_poisson r > int n then int n else sc_poisson r"
  have g: "?g \<le> int n" by simp
  obtain s' where "sc_gossipLoop n ?g (sc_gossipDraws r) 0 [] = Some s'" "distinct (sc_keys s')"
    "set (sc_keys s') \<subseteq> set (procs n)" "int (length s') = max 0 ?g"
    using sc_gossipLoop_ends[OF n g k, of 0 "[]"] by (auto simp: sc_keys_def)
  then show ?thesis by (simp add: sc_generateGossipSample_def Let_def)
qed

text \<open>Draws that repeat the processes in turn name all of them.\<close>

definition sc_rnd_fair :: "nat \<Rightarrow> (nat \<Rightarrow> sc_randomness) \<Rightarrow> bool" where
  "sc_rnd_fair n rnd \<longleftrightarrow> (\<forall>k. \<forall>x<n. \<exists>i. sc_gossipDraws (rnd k) i mod n = x)"

end
