(* ===== verification/Scalable_Steps.thy ===== *)
theory Scalable_Steps
  imports Scalable
begin

text \<open>
  What a step of the scalable protocol's process does to the instance it is about: every step
  leaves the other instances alone, delivers at most once, and keeps the votes of the echo sample
  weighed. The clean-up goroutine is a step of its own in a run.
\<close>

section \<open>Views of the updates\<close>

lemma sc_store_views:
  assumes "sc_state p b \<noteq> None"
  shows "sc_wf (sc_store p b ms) = sc_wf p" "sc_config (sc_store p b ms) = sc_config p"
    "sc_value (sc_store p b ms) = sc_value p" "sc_state (sc_store p b ms) = (sc_state p)(b \<mapsto> ms)"
    "sc_n (sc_store p b ms) = sc_n p"
  using assms
  by (auto simp: sc_store_def sc_wf_def sc_config_def sc_value_def sc_state_def fun_eq_iff BroadcastInstance_cong)

lemma sc_field_views [simp]:
  "sc_value (p\<lparr>sc_transactionCounter := k\<rparr>) = sc_value p"
  "sc_state (p\<lparr>sc_transactionCounter := k\<rparr>) = sc_state p"
  "sc_wf (p\<lparr>sc_transactionCounter := k\<rparr>) = sc_wf p"
  "sc_config (p\<lparr>sc_transactionCounter := k\<rparr>) = sc_config p"
  by (simp_all add: sc_wf_def sc_value_def sc_state_def sc_config_def fun_eq_iff)

lemma sc_deliver_ok:
  assumes wf: "sc_wf p" and st: "sc_state p b = Some ms"
  shows "\<exists>p' es. sc_deliver p b v = Inr (p', es) \<and> sc_wf p' \<and> sc_config p' = sc_config p \<and>
    sc_value p' = (sc_value p)(b \<mapsto> v) \<and> sc_state p' = sc_state p \<and> sends es = [] \<and> deliveries es = [(b, v)]"
proof -
  have "Author b \<in> dom (sc_deliveredMessages p)"
    using wf lookup2_dom[of "sc_messagesLog p"] st by (auto simp: sc_wf_def sc_state_def)
  then obtain dm where dm: "assign2 (sc_deliveredMessages p) (Author b) (SeqNumber b) v = Inr dm"
    using assign2_ok by metis
  show ?thesis
    using wf st assign2_dom[OF dm] assign2_lookup[OF dm]
    by (simp add: sc_deliver_def dm sc_wf_def sc_state_def sc_value_def sc_config_def fun_eq_iff BroadcastInstance_cong)
qed

text \<open>
  \<open>sc_moves p b ms d v p' es\<close>: the step leaves message state \<open>ms\<close> at instance \<open>b\<close>, delivers \<open>v\<close>
  there when \<open>d\<close> holds, and touches no other instance.
\<close>

definition sc_moves ::
  "sc_Process \<Rightarrow> BroadcastInstance \<Rightarrow> sc_messageState \<Rightarrow> bool \<Rightarrow> int32 \<Rightarrow> sc_Process \<Rightarrow> effect list \<Rightarrow> bool" where
  "sc_moves p b ms d v p' es \<longleftrightarrow> sc_wf p' \<and> sc_config p' = sc_config p \<and>
     sc_value p' = (if d then (sc_value p)(b \<mapsto> v) else sc_value p) \<and>
     sc_state p' = (sc_state p)(b \<mapsto> ms) \<and> deliveries es = (if d then [(b, v)] else [])"

lemma sc_broadcastToSet_deliveries [simp]: "deliveries (sc_broadcastToSet order s b m) = []"
  by (simp add: sc_broadcastToSet_def sc_sendMessage_def)

lemma sc_subscribe_deliveries [simp]: "deliveries (sc_subscribe order st b v s) = []"
  by (simp add: sc_subscribe_def)

lemma sc_send_deliveries [simp]: "deliveries [sc_sendMessage q b m] = []"
  "deliveries (map (\<lambda>x. sc_sendMessage (f x) b (g x)) xs) = []"
  by (simp_all add: sc_sendMessage_def)

lemma sc_stage_deliveries: "sc_stage order p delivered ms q b m = (ms', es, d) \<Longrightarrow> deliveries es = []"
  by (auto simp: sc_stage_def sc_onGossipSubscribe_def sc_onGossip_def sc_onEchoSubscribe_def sc_onEcho_def
      sc_onReadySubscribe_def sc_onReady_def sc_broadcastGossip_def sc_broadcastReady_def
      sc_maybeSendReadyFromSieve_def Let_def
      split: ScalableProtocolMessage_Stage.splits if_splits option.splits)

lemma sc_stage_delivers: "sc_stage order p delivered ms q b m = (ms', es, True) \<Longrightarrow> \<not> delivered"
  by (auto simp: sc_stage_def sc_onReady_def Let_def
      split: ScalableProtocolMessage_Stage.splits if_splits prod.splits)

lemma sc_dispatch_ok:
  assumes wf: "sc_wf p" and st: "sc_state p b \<noteq> None"
    and s: "sc_stage order p delivered (if delivered then ms0
      else ms0\<lparr>sc_receivedMessagesCnt := Suc (sc_receivedMessagesCnt ms0)\<rparr>) q b m = (ms, es0, d)"
  shows "\<exists>p' es. sc_dispatch order p delivered ms0 q b m = Inr (p', es) \<and>
    sc_moves p b ms d (ScalableValue m) p' es \<and> sends es = sends es0"
proof (cases d)
  case False
  then have "sc_dispatch order p delivered ms0 q b m = Inr (sc_store p b ms, es0)"
    using s by (auto simp: sc_dispatch_def Let_def split: if_splits)
  then show ?thesis using False sc_store_views[OF st] wf sc_stage_deliveries[OF s] by (simp add: sc_moves_def)
next
  case True
  have "sc_wf (sc_store p b ms)" "sc_state (sc_store p b ms) b = Some ms" using sc_store_views[OF st] wf by simp_all
  from sc_deliver_ok[OF this, of "ScalableValue m"] obtain p' es where
    "sc_deliver (sc_store p b ms) b (ScalableValue m) = Inr (p', es)" "sc_wf p'" "sc_config p' = sc_config p"
    "sc_value p' = (sc_value p)(b \<mapsto> ScalableValue m)" "sc_state p' = (sc_state p)(b \<mapsto> ms)" "sends es = []"
    "deliveries es = [(b, ScalableValue m)]"
    using sc_store_views[OF st] by auto
  then show ?thesis using True s sc_stage_deliveries[OF s]
    by (auto simp: sc_dispatch_def Let_def sc_moves_def split: if_splits)
qed

section \<open>New message states\<close>

text \<open>What \<open>initMessageState\<close> leaves behind: empty counters and fresh samples.\<close>

definition sc_fresh :: "sc_Process \<Rightarrow> sc_randomness \<Rightarrow> sc_messageState \<Rightarrow> bool" where
  "sc_fresh p r ms \<longleftrightarrow> (\<exists>gossip. sc_generateGossipSample (sc_n p) r = Inr gossip \<and>
     ms = sc_newMessageState\<lparr>sc_receivedReady := make_maps (sc_n p), sc_gossipSample := gossip,
       sc_echoSample := sc_draw (sc_n p) (sc_echoSampleSize p) (sc_echoDraws r),
       sc_readySample := sc_draw (sc_n p) (sc_readySampleSize p) (sc_readyDraws r),
       sc_deliverySample := sc_draw (sc_n p) (sc_deliverySampleSize p) (sc_deliveryDraws r)\<rparr>)"

lemma sc_init_ok:
  assumes wf: "sc_wf p" and h: "sc_initMessageState order rnd p b v = Inr (p1, ms, es)"
  shows "sc_wf p1 \<and> sc_config p1 = sc_config p \<and> sc_value p1 = sc_value p \<and>
    sc_state p1 = (sc_state p)(b \<mapsto> ms) \<and> deliveries es = [] \<and> sc_fresh p (rnd (sc_inits p)) ms"
proof -
  obtain gossip lg where g: "sc_generateGossipSample (sc_n p) (rnd (sc_inits p)) = Inr gossip"
    and lg: "assign2 (sc_messagesLog p) (Author b) (SeqNumber b) ms = Inr lg"
    and p1: "p1 = p\<lparr>sc_messagesLog := lg, sc_inits := Suc (sc_inits p)\<rparr>" "deliveries es = []"
    and ms: "sc_fresh p (rnd (sc_inits p)) ms"
    using h by (auto simp: sc_initMessageState_def sc_fresh_def Let_def go_simps)
  show ?thesis unfolding p1(1)
    using wf p1(2) ms assign2_dom[OF lg] assign2_lookup[OF lg]
    by (auto simp: sc_wf_def sc_value_def sc_state_def sc_config_def fun_eq_iff BroadcastInstance_cong)
qed

lemma sc_init_returns:
  assumes wf: "sc_wf p" and a: "Author b \<in> set (procs (sc_n p))"
    and g: "sc_generateGossipSample (sc_n p) (rnd (sc_inits p)) = Inr gossip"
  shows "\<exists>p1 ms es. sc_initMessageState order rnd p b v = Inr (p1, ms, es)"
proof -
  have "\<And>ms. \<exists>lg. assign2 (sc_messagesLog p) (Author b) (SeqNumber b) ms = Inr lg"
    using assign2_ok wf a by (metis sc_wf_def)
  then show ?thesis by (simp add: sc_initMessageState_def Let_def g) (metis go_bind.simps(2))
qed

section \<open>The handlers\<close>

lemma sc_HandleMessage_msg:
  "sc_HandleMessage order rnd p q (sc_msg b st v) =
   sc_processProtocolMessage order rnd p q b \<lparr>ScalableStage = st, ScalableValue = v\<rparr>"
  by (simp add: sc_HandleMessage_def sc_msg_def)

lemma sc_HandleMessage_only_scalable:
  assumes "sc_HandleMessage order rnd p q bm = Inr r"
  shows "\<exists>b st v. bm = sc_msg b st v"
proof -
  obtain m b where "Message_of bm = ScalableMessage m" "BroadcastInstance_of bm = Some b"
    using assms by (auto simp: sc_HandleMessage_def split: BroadcastInstanceMessage_Message.splits option.splits)
  then have "bm = sc_msg b (ScalableStage m) (ScalableValue m)" by (simp add: sc_msg_def)
  then show ?thesis by blast
qed

text \<open>The message state a handler works on: the stored one, or a fresh one.\<close>

definition sc_entry :: "sc_Process \<Rightarrow> sc_randomness \<Rightarrow> BroadcastInstance \<Rightarrow> sc_messageState \<Rightarrow> bool" where
  "sc_entry p r b ms \<longleftrightarrow> (case sc_state p b of Some ms' \<Rightarrow> ms = ms' | None \<Rightarrow> sc_fresh p r ms)"

lemma sc_process_cases:
  assumes wf: "sc_wf p" and h: "sc_processProtocolMessage order rnd p q b m = Inr (p', es)"
  obtains (idle) "sc_value p b \<noteq> None" "sc_state p b = None" "p' = p" "deliveries es = []"
  | (react) ms0 ms es0 d p1 where "sc_entry p (rnd (sc_inits p)) b ms0" "sc_config p1 = sc_config p"
      "sc_stage order p1 (sc_value p b \<noteq> None) (if sc_value p b \<noteq> None then ms0
        else ms0\<lparr>sc_receivedMessagesCnt := Suc (sc_receivedMessagesCnt ms0)\<rparr>) q b m = (ms, es0, d)"
      "sc_moves p b ms d (ScalableValue m) p' es"
proof -
  have a: "Author b \<in> set (procs (sc_n p))"
    using h by (auto simp: sc_processProtocolMessage_def split: if_splits)
  define D where "D = (sc_value p b \<noteq> None)"
  obtain es0 where dl: "sc_delivered p b (ScalableValue m) = (D, es0)" "deliveries es0 = []"
    by (cases "sc_value p b") (auto simp: sc_delivered_def D_def sc_value_def)
  note unf = sc_processProtocolMessage_def dl(1) Let_def
  show ?thesis
  proof (cases "sc_state p b")
    case None
    show ?thesis
    proof (cases D)
      case True
      then have "p' = p \<and> deliveries es = []"
        using h None a dl(2) by (auto simp: unf sc_state_def)
      then show ?thesis using idle None True by (simp add: D_def)
    next
      case False
      obtain p1 ms0 es1 es2 where init: "sc_initMessageState order rnd p b (ScalableValue m) = Inr (p1, ms0, es1)"
        and ds: "sc_dispatch order p1 False ms0 q b m = Inr (p', es2)" and es: "es = es0 @ es1 @ es2"
        using h None a False by (auto simp: unf sc_state_def go_simps)
      note i = sc_init_ok[OF wf init]
      obtain ms e d where s: "sc_stage order p1 False
          (ms0\<lparr>sc_receivedMessagesCnt := Suc (sc_receivedMessagesCnt ms0)\<rparr>) q b m = (ms, e, d)"
        by (metis prod_cases3)
      have st: "sc_state p1 b \<noteq> None" using i by simp
      have "sc_moves p1 b ms d (ScalableValue m) p' es2"
        using sc_dispatch_ok[OF _ st, of order False ms0 q m ms e d] i s ds by auto
      then have "sc_moves p b ms d (ScalableValue m) p' es"
        using i es dl(2) by (auto simp: sc_moves_def)
      then show ?thesis
        using react[of ms0 p1 ms e d] None i s False by (auto simp: sc_entry_def D_def)
    qed
  next
    case (Some ms0)
    obtain es2 where ds: "sc_dispatch order p D ms0 q b m = Inr (p', es2)" and es: "es = es0 @ es2"
      using h Some a by (auto simp: unf sc_state_def go_simps)
    obtain ms e d where s: "sc_stage order p D (if D then ms0
        else ms0\<lparr>sc_receivedMessagesCnt := Suc (sc_receivedMessagesCnt ms0)\<rparr>) q b m = (ms, e, d)"
      by (metis prod_cases3)
    have "sc_moves p b ms d (ScalableValue m) p' es2"
      using sc_dispatch_ok[OF wf _ s] Some ds by auto
    then have "sc_moves p b ms d (ScalableValue m) p' es" using es dl(2) by (simp add: sc_moves_def)
    then show ?thesis using react[of ms0 p ms e d] Some s by (simp add: sc_entry_def D_def)
  qed
qed

lemma sc_process_step:
  assumes wf: "sc_wf p" and h: "sc_processProtocolMessage order rnd p q b m = Inr (p', es)"
  shows "sc_wf p' \<and> sc_config p' = sc_config p \<and> delivery_step (sc_value p) es (sc_value p')"
  using wf h
proof (cases rule: sc_process_cases)
  case (react ms0 ms es0 d p1)
  have "d \<Longrightarrow> sc_value p b = None" using react(3) sc_stage_delivers by fastforce
  then show ?thesis using react(4)
    by (cases d) (auto simp: sc_moves_def intro: delivery_step_none delivery_step_one)
qed (use wf in \<open>simp add: delivery_step_none\<close>)

lemma sc_request_cases:
  assumes wf: "sc_wf p" and h: "sc_Broadcast order rnd p v = Inr (p', es)"
  obtains b ms0 where "sc_wf p'" "sc_config p' = sc_config p" "sc_value p' = sc_value p" "deliveries es = []"
    "sc_fresh p (rnd (sc_inits p)) ms0"
    "sc_state p' = (sc_state p)(b \<mapsto> fst (sc_broadcastGossip order ms0 b v))"
proof -
  define b where "b = \<lparr>Author = sc_processIndex p, SeqNumber = sc_transactionCounter p\<rparr>"
  obtain p1 ms0 es1 where init: "sc_initMessageState order rnd p b v = Inr (p1, ms0, es1)"
    and p': "p' = (sc_store p1 b (fst (sc_broadcastGossip order ms0 b v)))
      \<lparr>sc_transactionCounter := sc_transactionCounter p1 + 1\<rparr>"
    and es: "es = es1 @ snd (sc_broadcastGossip order ms0 b v) @ [Log (OnTransactionInit b)]"
    using h unfolding sc_Broadcast_def Let_def b_def[symmetric]
    by (auto simp: go_simps case_prod_beta split: if_splits)
  note i = sc_init_ok[OF wf init]
  have "sc_state p1 b \<noteq> None" using i by simp
  note store = sc_store_views[OF this]
  show ?thesis
  proof (rule that[of ms0 b])
    show "deliveries es = []" using i es by (simp add: sc_broadcastGossip_def Let_def)
  qed (use i p' store in simp_all)
qed

interpretation scalable: broadcast_process "sc_HandleMessage order rnd" "sc_Broadcast order rnd" sc_value sc_wf
  for order rnd
proof unfold_locales
  fix p p' :: sc_Process and q v m es
  assume wf: "sc_wf p"
  show "sc_wf p' \<and> delivery_step (sc_value p) es (sc_value p')"
    if h: "sc_HandleMessage order rnd p q m = Inr (p', es)"
  proof -
    obtain b st v where "m = sc_msg b st v" using sc_HandleMessage_only_scalable[OF h] by blast
    then show ?thesis using sc_process_step[OF wf] h by (simp add: sc_HandleMessage_msg)
  qed
  show "sc_wf p' \<and> delivery_step (sc_value p) es (sc_value p')"
    if "sc_Broadcast order rnd p v = Inr (p', es)"
    using wf that by (rule sc_request_cases) (simp add: delivery_step_none)
qed

end
