(* ===== verification/Scalable_Theorems.thy ===== *)
theory Scalable_Theorems
  imports Scalable_Steps
begin

text \<open>
  The guarantees of the scalable protocol's process: no duplication with clean-ups interleaved,
  samples of the configured sizes, a READY from the sieve backed by echo votes of total weight at
  least the threshold with every sender counted once, every outcome of the handler, and the
  weakness of the READY case, which counts a repeated message of one sender again.
\<close>

section \<open>Runs with clean-ups\<close>

datatype sc_event = Input input | WakeUp BroadcastInstance

fun sc_run ::
  "sc_order \<Rightarrow> (nat \<Rightarrow> sc_randomness) \<Rightarrow> sc_Process \<Rightarrow> sc_event list \<Rightarrow> (sc_Process \<times> effect list) go" where
  "sc_run order rnd p [] = Inr (p, [])"
| "sc_run order rnd p (WakeUp b # evs) = sc_run order rnd (sc_cleanUp p b) evs"
| "sc_run order rnd p (Input i # evs) =
     go_bind (case i of Received q m \<Rightarrow> sc_HandleMessage order rnd p q m
       | Request v \<Rightarrow> sc_Broadcast order rnd p v) (\<lambda>(p', es).
     go_bind (sc_run order rnd p' evs) (\<lambda>(p'', es'). Inr (p'', es @ es')))"

lemma sc_cleanUp_views:
  "sc_wf (sc_cleanUp p b) = sc_wf p" "sc_config (sc_cleanUp p b) = sc_config p"
  "sc_value (sc_cleanUp p b) = sc_value p"
  "sc_state (sc_cleanUp p b) c = (if c = b \<and> b \<in> set (sc_cleanUps p) then None else sc_state p c)"
  by (auto simp: sc_cleanUp_def sc_wf_def sc_config_def sc_value_def sc_state_def fun_eq_iff BroadcastInstance_cong)

text \<open>A property of processes that every step keeps is kept by runs, with the deliveries.\<close>

lemma sc_run_induct:
  assumes "sc_run order rnd p evs = Inr (p', es)" "sc_wf p" "I p"
    and handle: "\<And>p q m p' es. sc_wf p \<Longrightarrow> I p \<Longrightarrow> Input (Received q m) \<in> set evs \<Longrightarrow>
      sc_HandleMessage order rnd p q m = Inr (p', es) \<Longrightarrow> I p'"
    and request: "\<And>p v p' es. sc_wf p \<Longrightarrow> I p \<Longrightarrow> sc_Broadcast order rnd p v = Inr (p', es) \<Longrightarrow> I p'"
    and wake: "\<And>p b. sc_wf p \<Longrightarrow> I p \<Longrightarrow> I (sc_cleanUp p b)"
  shows "sc_wf p' \<and> I p' \<and> delivery_step (sc_value p) es (sc_value p')"
  using assms(1-3) handle
proof (induction evs arbitrary: p es)
  case Nil
  then show ?case by (simp add: delivery_step_none)
next
  case (Cons e evs)
  have rest: "\<And>p es. sc_run order rnd p evs = Inr (p', es) \<Longrightarrow> sc_wf p \<Longrightarrow> I p \<Longrightarrow>
      sc_wf p' \<and> I p' \<and> delivery_step (sc_value p) es (sc_value p')"
    using Cons.IH Cons.prems(4) by (metis list.set_intros(2))
  show ?case
  proof (cases e)
    case (WakeUp b)
    then show ?thesis
      using rest[of "sc_cleanUp p b" es] Cons.prems(1-3) wake by (simp add: sc_cleanUp_views)
  next
    case (Input i)
    obtain p1 es1 es2 where one: "(case i of Received q m \<Rightarrow> sc_HandleMessage order rnd p q m
        | Request v \<Rightarrow> sc_Broadcast order rnd p v) = Inr (p1, es1)"
      and run: "sc_run order rnd p1 evs = Inr (p', es2)" and es: "es = es1 @ es2"
      using Cons.prems(1) Input by (auto simp: go_simps)
    have "sc_wf p1 \<and> delivery_step (sc_value p) es1 (sc_value p1)"
      using one scalable.handle_ok[OF Cons.prems(2)] scalable.broadcast_ok[OF Cons.prems(2)]
      by (cases i) auto
    moreover have "I p1"
      using one Cons.prems(4)[OF Cons.prems(2,3)] request[OF Cons.prems(2,3)] Input by (cases i) auto
    ultimately show ?thesis using rest[OF run] delivery_step_trans unfolding es by blast
  qed
qed

section \<open>The sieve\<close>

text \<open>
  The ECHO votes of an instance: every sender heard is assigned the one value it was counted for,
  and the count of a value is the total weight of its senders in the echo sample.
\<close>

definition sc_weighed :: "sc_messageState \<Rightarrow> (ProcessId \<times> int32) set \<Rightarrow> bool" where
  "sc_weighed ms S \<longleftrightarrow> (\<exists>g. (\<forall>x. sc_receivedEcho ms x = (g x \<noteq> None)) \<and> finite (dom g) \<and>
     (\<forall>v. sc_echoMessagesStat ms v = (\<Sum>x | g x = Some v. sc_count (sc_echoSample ms) x)) \<and>
     (\<forall>x v. g x = Some v \<longrightarrow> (x, v) \<in> S))"

lemma sc_weighed_vote:
  assumes w: "sc_weighed ms S" and new: "\<not> sc_receivedEcho ms q" and S: "(q, v) \<in> S"
  shows "sc_weighed (ms\<lparr>sc_receivedEcho := (sc_receivedEcho ms)(q := True),
      sc_echoMessagesStat := (sc_echoMessagesStat ms)(v := sc_echoMessagesStat ms v + sc_count (sc_echoSample ms) q)\<rparr>) S"
proof -
  obtain g where g: "\<And>x. sc_receivedEcho ms x = (g x \<noteq> None)" "finite (dom g)"
    "\<And>v. sc_echoMessagesStat ms v = (\<Sum>x | g x = Some v. sc_count (sc_echoSample ms) x)"
    "\<And>x v. g x = Some v \<Longrightarrow> (x, v) \<in> S" using w unfolding sc_weighed_def by blast
  have none: "g q = None" using new g(1)[of q] by simp
  have fin: "finite {x. g x = Some v}" by (rule finite_subset[OF _ g(2)]) auto
  have eq: "{x. (g(q \<mapsto> v)) x = Some u} = (if u = v then insert q {x. g x = Some v} else {x. g x = Some u})" for u
    using none by auto
  have stat: "(sc_echoMessagesStat ms)(v := sc_echoMessagesStat ms v + sc_count (sc_echoSample ms) q) =
      (\<lambda>u. \<Sum>x\<in>{x. (g(q \<mapsto> v)) x = Some u}. sc_count (sc_echoSample ms) x)"
    unfolding eq using fin none by (auto simp: g(3) fun_eq_iff)
  show ?thesis unfolding sc_weighed_def
  proof (intro exI[of _ "g(q \<mapsto> v)"] conjI allI impI)
    fix x u
    show "finite (dom (g(q \<mapsto> v)))" using g(2) by simp
    show "(g(q \<mapsto> v)) x = Some u \<Longrightarrow> (x, u) \<in> S" using g(4) S by (auto split: if_splits)
  qed (use g(1) in \<open>simp_all add: stat del: fun_upd_apply\<close>, simp)
qed

lemma sc_weighed_sum:
  assumes "sc_weighed ms S"
  shows "\<exists>A. finite A \<and> (\<forall>q\<in>A. (q, v) \<in> S) \<and> sc_echoMessagesStat ms v = (\<Sum>q\<in>A. sc_count (sc_echoSample ms) q)"
proof -
  obtain g where g: "finite (dom g)" "\<And>v. sc_echoMessagesStat ms v = (\<Sum>x | g x = Some v. sc_count (sc_echoSample ms) x)"
    "\<And>x v. g x = Some v \<Longrightarrow> (x, v) \<in> S" using assms unfolding sc_weighed_def by blast
  have "finite {x. g x = Some v}" by (rule finite_subset[OF _ g(1)]) auto
  then show ?thesis using g by (intro exI[of _ "{x. g x = Some v}"]) auto
qed

text \<open>A READY sent by the sieve has reached the threshold for the value it echoed.\<close>

definition sc_sieved :: "sc_Process \<Rightarrow> sc_messageState \<Rightarrow> bool" where
  "sc_sieved p ms \<longleftrightarrow> (sc_sentReadyFromSieve ms \<longrightarrow> (\<exists>em. sc_echoMessage ms = Some em \<and>
     sc_echoThreshold p \<le> int (sc_echoMessagesStat ms (ScalableValue em)) \<and>
     ScalableValue em \<in> set (sc_sentReadyMessages ms)))"

lemma sc_sieve_step:
  assumes "sc_maybeSendReadyFromSieve order p ms b = (ms', es)" "sc_weighed ms S" "sc_sieved p ms"
  shows "sc_weighed ms' S \<and> sc_sieved p ms'"
  using assms
  by (auto simp: sc_maybeSendReadyFromSieve_def sc_broadcastReady_def sc_weighed_def sc_sieved_def Let_def
      split: if_splits option.splits)

lemma sc_stage_sieve:
  assumes s: "sc_stage order p delivered ms q b m = (ms', es, d)"
    and w: "sc_weighed ms S" and v: "sc_sieved p ms"
    and S: "ScalableStage m = Scalable_ECHO \<Longrightarrow> (q, ScalableValue m) \<in> S"
  shows "sc_weighed ms' S \<and> sc_sieved p ms'"
proof (cases "ScalableStage m")
  case Scalable_GOSSIP
  then have g: "sc_onGossip order p ms b (ScalableValue m) = (ms', es)"
    using s by (auto simp: sc_stage_def Let_def split: prod.splits)
  define ms1 where "ms1 = (if sc_gossipMessage ms = None then fst (sc_broadcastGossip order ms b (ScalableValue m)) else ms)"
  have w1: "sc_weighed ms1 S" "sc_sieved p ms1"
    using w v by (auto simp: ms1_def sc_broadcastGossip_def sc_weighed_def sc_sieved_def Let_def)
  show ?thesis
  proof (cases "sc_echoMessage ms1")
    case None
    let ?ms2 = "ms1\<lparr>sc_echoMessage := Some \<lparr>ScalableStage = Scalable_ECHO, ScalableValue = ScalableValue m\<rparr>\<rparr>"
    have "sc_weighed ?ms2 S" "sc_sieved p ?ms2"
      using w1 None by (auto simp: sc_weighed_def sc_sieved_def)
    moreover have "fst (sc_maybeSendReadyFromSieve order p ?ms2 b) = ms'"
      using g None by (auto simp: sc_onGossip_def Let_def ms1_def case_prod_beta split: if_splits)
    then have "sc_maybeSendReadyFromSieve order p ?ms2 b = (ms', snd (sc_maybeSendReadyFromSieve order p ?ms2 b))"
      by (simp add: prod_eq_iff)
    ultimately show ?thesis using sc_sieve_step by blast
  next
    case (Some em)
    then have "ms' = ms1" using g by (auto simp: sc_onGossip_def Let_def ms1_def case_prod_beta split: if_splits)
    then show ?thesis using w1 by simp
  qed
next
  case Scalable_ECHO
  then have e: "sc_onEcho order p ms q b (ScalableValue m) = (ms', es)"
    using s by (auto simp: sc_stage_def Let_def split: prod.splits)
  show ?thesis
  proof (cases "sc_count (sc_echoSample ms) q = 0 \<or> sc_receivedEcho ms q")
    case True
    then show ?thesis using e w v by (simp add: sc_onEcho_def)
  next
    case False
    let ?ms1 = "ms\<lparr>sc_receivedEcho := (sc_receivedEcho ms)(q := True), sc_echoMessagesStat := (sc_echoMessagesStat ms)
      (ScalableValue m := sc_echoMessagesStat ms (ScalableValue m) + sc_count (sc_echoSample ms) q)\<rparr>"
    have "sc_weighed ?ms1 S" using False by (intro sc_weighed_vote[OF w] S Scalable_ECHO) simp_all
    moreover have "sc_sieved p ?ms1" using v by (auto simp: sc_sieved_def)
    ultimately show ?thesis using e False sc_sieve_step by (auto simp: sc_onEcho_def)
  qed
next
  case Scalable_READY
  then have r: "sc_onReady order p delivered ms q b (ScalableValue m) = (ms', es, d)"
    using s by (simp add: sc_stage_def Let_def)
  have "sc_receivedEcho ms' = sc_receivedEcho ms" "sc_echoMessagesStat ms' = sc_echoMessagesStat ms"
    "sc_echoSample ms' = sc_echoSample ms" "sc_echoMessage ms' = sc_echoMessage ms"
    "sc_sentReadyFromSieve ms' = sc_sentReadyFromSieve ms" "set (sc_sentReadyMessages ms) \<subseteq> set (sc_sentReadyMessages ms')"
    using r by (auto simp: sc_onReady_def sc_broadcastReady_def Let_def split: if_splits)
  then show ?thesis using w v by (auto simp: sc_weighed_def sc_sieved_def)
qed (use s w v in \<open>auto simp: sc_stage_def sc_onGossipSubscribe_def sc_onEchoSubscribe_def sc_onReadySubscribe_def
       sc_weighed_def sc_sieved_def Let_def split: if_splits\<close>)

lemma sc_fresh_sieve: "sc_fresh p r ms \<Longrightarrow> sc_weighed ms S \<and> sc_sieved p' ms"
  by (auto simp: sc_fresh_def sc_newMessageState_def sc_weighed_def sc_sieved_def intro: exI[of _ Map.empty])

definition sc_sieve_inv :: "int \<Rightarrow> (ProcessId \<times> BroadcastInstance \<times> int32) set \<Rightarrow> sc_Process \<Rightarrow> bool" where
  "sc_sieve_inv threshold S p \<longleftrightarrow> sc_echoThreshold p = threshold \<and> (\<forall>b ms. sc_state p b = Some ms \<longrightarrow>
     sc_weighed ms {(q, v). (q, b, v) \<in> S} \<and> sc_sieved p ms)"

lemma sc_sieved_config: "sc_config p = sc_config p' \<Longrightarrow> sc_sieved p ms = sc_sieved p' ms"
  by (simp add: sc_sieved_def sc_config_def)

lemma sc_sieve_handle:
  assumes wf: "sc_wf p" and i: "sc_sieve_inv t S p" and h: "sc_HandleMessage order rnd p q m = Inr (p', es)"
    and S: "\<And>b v. m = sc_msg b Scalable_ECHO v \<Longrightarrow> (q, b, v) \<in> S"
  shows "sc_sieve_inv t S p'"
proof -
  obtain b st v where m: "m = sc_msg b st v" using sc_HandleMessage_only_scalable[OF h] by blast
  have pr: "sc_processProtocolMessage order rnd p q b \<lparr>ScalableStage = st, ScalableValue = v\<rparr> = Inr (p', es)"
    using h by (simp add: m sc_HandleMessage_msg)
  show ?thesis using wf pr
  proof (cases rule: sc_process_cases)
    case idle
    then show ?thesis using i by simp
  next
    case (react ms0 ms es0 d p1)
    have "sc_weighed ms0 {(q, v). (q, b, v) \<in> S} \<and> sc_sieved p1 ms0"
      using react(1) i sc_fresh_sieve sc_sieved_config[OF react(2)]
      by (auto simp: sc_entry_def sc_sieve_inv_def split: option.splits)
    then have w: "sc_weighed (if sc_value p b \<noteq> None then ms0
        else ms0\<lparr>sc_receivedMessagesCnt := Suc (sc_receivedMessagesCnt ms0)\<rparr>) {(q, v). (q, b, v) \<in> S}"
      "sc_sieved p1 (if sc_value p b \<noteq> None then ms0
        else ms0\<lparr>sc_receivedMessagesCnt := Suc (sc_receivedMessagesCnt ms0)\<rparr>)"
      by (auto simp: sc_weighed_def sc_sieved_def)
    have "sc_weighed ms {(q, v). (q, b, v) \<in> S} \<and> sc_sieved p1 ms"
      by (rule sc_stage_sieve[OF react(3) w]) (use S m in simp)
    moreover have "sc_config p' = sc_config p" "sc_state p' = (sc_state p)(b \<mapsto> ms)"
      using react(4) by (auto simp: sc_moves_def)
    moreover have "sc_echoThreshold p' = sc_echoThreshold p" using calculation(2) by (simp add: sc_config_def)
    ultimately show ?thesis
      using i sc_sieved_config[of p' p] sc_sieved_config[OF react(2)] by (auto simp: sc_sieve_inv_def)
  qed
qed

lemma sc_sieve_request:
  assumes wf: "sc_wf p" and i: "sc_sieve_inv t S p" and h: "sc_Broadcast order rnd p v = Inr (p', es)"
  shows "sc_sieve_inv t S p'"
  using wf h
proof (cases rule: sc_request_cases)
  case (1 b ms0)
  have "sc_weighed (fst (sc_broadcastGossip order ms0 b v)) T \<and> sc_sieved p' (fst (sc_broadcastGossip order ms0 b v))" for T
    using sc_fresh_sieve[OF 1(5), of T p'] by (auto simp: sc_broadcastGossip_def Let_def sc_weighed_def sc_sieved_def)
  moreover have "sc_echoThreshold p' = sc_echoThreshold p" using 1(2) by (simp add: sc_config_def)
  ultimately show ?thesis using i 1(6) sc_sieved_config[OF 1(2)] by (auto simp: sc_sieve_inv_def)
qed

lemma sc_sieve_wake: "sc_sieve_inv t S p \<Longrightarrow> sc_sieve_inv t S (sc_cleanUp p b)"
  using sc_cleanUp_views(2)[of p b] sc_sieved_config[of "sc_cleanUp p b" p]
  by (auto simp: sc_sieve_inv_def sc_cleanUp_views sc_config_def split: if_splits)

section \<open>The handler returns\<close>

lemma sc_gossip_returns:
  assumes "sc_rnd_fair n rnd" "0 < n" "n \<le> 2 ^ 32"
  shows "\<exists>g. sc_generateGossipSample n (rnd k) = Inr g"
  using sc_gossip_ok[of n "rnd k"] assms by (auto simp: sc_rnd_fair_def)

lemma sc_process_returns:
  assumes wf: "sc_wf p" and a: "Author b \<in> set (procs (sc_n p))"
    and r: "sc_rnd_fair (sc_n p) rnd" "sc_n p \<le> 2 ^ 32"
  shows "\<exists>p' es. sc_processProtocolMessage order rnd p q b m = Inr (p', es)"
proof -
  have n: "0 < sc_n p" using a by (cases "sc_n p") (auto simp: procs_def)
  obtain D es0 where dl: "sc_delivered p b (ScalableValue m) = (D, es0)" by (metis surj_pair)
  note unf = sc_processProtocolMessage_def dl Let_def
  show ?thesis
  proof (cases "sc_state p b")
    case None
    obtain g where g: "sc_generateGossipSample (sc_n p) (rnd (sc_inits p)) = Inr g"
      using sc_gossip_returns[OF r(1) n r(2)] by blast
    obtain p1 ms es where init: "sc_initMessageState order rnd p b (ScalableValue m) = Inr (p1, ms, es)"
      using sc_init_returns[OF wf a, where rnd = rnd, OF g] by blast
    have "sc_wf p1" "sc_state p1 b \<noteq> None" using sc_init_ok[OF wf init] by simp_all
    moreover obtain ms' e d where "sc_stage order p1 D (if D then ms
      else ms\<lparr>sc_receivedMessagesCnt := Suc (sc_receivedMessagesCnt ms)\<rparr>) q b m = (ms', e, d)" by (metis prod_cases3)
    ultimately obtain p' es' where "sc_dispatch order p1 D ms q b m = Inr (p', es')"
      using sc_dispatch_ok by blast
    then show ?thesis using None a init by (auto simp: unf sc_state_def)
  next
    case (Some ms)
    obtain ms' e d where "sc_stage order p D (if D then ms
      else ms\<lparr>sc_receivedMessagesCnt := Suc (sc_receivedMessagesCnt ms)\<rparr>) q b m = (ms', e, d)" by (metis prod_cases3)
    then obtain p' es' where "sc_dispatch order p D ms q b m = Inr (p', es')"
      using sc_dispatch_ok[OF wf] Some by blast
    then show ?thesis using Some a by (auto simp: unf sc_state_def)
  qed
qed

section \<open>A repeated READY\<close>

lemma sc_ready_step:
  assumes wf: "sc_wf p" and st: "sc_state p b = Some ms0"
    and c: "sc_count (sc_deliverySample ms0) q = c" "0 < c"
  shows "\<exists>p' es ms. sc_HandleMessage order rnd p q (sc_msg b Scalable_READY v) = Inr (p', es) \<and> sc_wf p' \<and>
    sc_config p' = sc_config p \<and> sc_state p' b = Some ms \<and> sc_count (sc_deliverySample ms) q = c \<and>
    sc_deliverySampleStat ms v = sc_deliverySampleStat ms0 v + c \<and>
    sc_value p' b = (if sc_value p b = None \<and> sc_deliveryThreshold p \<le> int (sc_deliverySampleStat ms v)
      then Some v else sc_value p b)"
proof -
  let ?m = "\<lparr>ScalableStage = Scalable_READY, ScalableValue = v\<rparr>" and ?D = "sc_value p b \<noteq> None"
  let ?ms = "if ?D then ms0 else ms0\<lparr>sc_receivedMessagesCnt := Suc (sc_receivedMessagesCnt ms0)\<rparr>"
  have a: "Author b \<in> set (procs (sc_n p))"
    using wf lookup2_dom[of "sc_messagesLog p"] st by (auto simp: sc_wf_def sc_state_def)
  obtain es0 where dl: "sc_delivered p b v = (?D, es0)"
    by (cases "sc_value p b") (auto simp: sc_delivered_def sc_value_def)
  obtain ms e d where s: "sc_stage order p ?D ?ms q b ?m = (ms, e, d)" by (metis prod_cases3)
  have ready: "sc_onReady order p ?D ?ms q b v = (ms, e, d)" using s by (simp add: sc_stage_def)
  have facts: "sc_count (sc_deliverySample ms) q = c \<and> sc_deliverySampleStat ms v = sc_deliverySampleStat ms0 v + c \<and>
      d = (\<not> ?D \<and> sc_deliveryThreshold p \<le> int (sc_deliverySampleStat ms v))"
    using ready c by (cases ?D) (auto simp: sc_onReady_def sc_broadcastReady_def Let_def split: if_splits)
  have "sc_state p b \<noteq> None" using st by simp
  from sc_dispatch_ok[OF wf this s] obtain p' es where d: "sc_dispatch order p ?D ms0 q b ?m = Inr (p', es)"
    "sc_moves p b ms d v p' es" by auto
  have "sc_HandleMessage order rnd p q (sc_msg b Scalable_READY v) = Inr (p', es0 @ es)"
    using a st d(1) by (simp add: sc_HandleMessage_msg sc_processProtocolMessage_def dl sc_state_def)
  then show ?thesis using d(2) facts by (auto simp: sc_moves_def)
qed

lemma sc_ready_run:
  assumes "sc_wf p" "sc_state p b = Some ms0" "sc_count (sc_deliverySample ms0) q = c" "0 < c"
    and "sc_value p b = None \<or> sc_value p b = Some v"
    and "sc_value p b = Some v \<or> 0 < k \<and> sc_deliveryThreshold p \<le> int (sc_deliverySampleStat ms0 v) + int k * int c"
  shows "\<exists>p' es. run_inputs (sc_HandleMessage order rnd) (sc_Broadcast order rnd) p
      (replicate k (Received q (sc_msg b Scalable_READY v))) = Inr (p', es) \<and> sc_value p' b = Some v"
  using assms
proof (induction k arbitrary: p ms0)
  case (Suc k)
  obtain p1 es1 ms where h: "sc_HandleMessage order rnd p q (sc_msg b Scalable_READY v) = Inr (p1, es1)" "sc_wf p1"
    "sc_config p1 = sc_config p" "sc_state p1 b = Some ms" "sc_count (sc_deliverySample ms) q = c"
    "sc_deliverySampleStat ms v = sc_deliverySampleStat ms0 v + c"
    "sc_value p1 b = (if sc_value p b = None \<and> sc_deliveryThreshold p \<le> int (sc_deliverySampleStat ms v)
      then Some v else sc_value p b)"
    using sc_ready_step[OF Suc.prems(1-4)] by blast
  have thr: "sc_deliveryThreshold p1 = sc_deliveryThreshold p" using h(3) by (simp add: sc_config_def)
  have "sc_value p1 b = Some v \<or>
      0 < k \<and> sc_deliveryThreshold p1 \<le> int (sc_deliverySampleStat ms v) + int k * int c"
  proof (cases "sc_value p b = None \<and> \<not> sc_deliveryThreshold p \<le> int (sc_deliverySampleStat ms v)")
    case True
    then have "sc_deliveryThreshold p \<le> int (sc_deliverySampleStat ms v) + int k * int c"
      using Suc.prems(6) h(6) by (auto simp: distrib_right)
    then show ?thesis using True thr by (cases k) auto
  qed (use h(7) Suc.prems(5) in auto)
  moreover have "sc_value p1 b = None \<or> sc_value p1 b = Some v" using h(7) Suc.prems(5) by auto
  ultimately obtain p' es where "run_inputs (sc_HandleMessage order rnd) (sc_Broadcast order rnd) p1
      (replicate k (Received q (sc_msg b Scalable_READY v))) = Inr (p', es)" "sc_value p' b = Some v"
    using Suc.IH[OF h(2,4,5) Suc.prems(4)] by blast
  then show ?case using h(1) by simp
qed simp

section \<open>Properties\<close>

text \<open>A system of three processes; every instance draws the processes in turn.\<close>

definition sc_parameters :: Parameters where
  "sc_parameters = \<lparr>ProcessCount = 3, FaultyProcesses = 0, MinOwnWitnessSetSize_param = 0,
     MinPotWitnessSetSize_param = 0, OwnWitnessSetRadius_param = 0, PotWitnessSetRadius_param = 0,
     WitnessThreshold = 0, RecoverySwitchTimeoutNs = 0, NodeIdSize = 0, NumberOfBins = 0,
     GossipSampleSize = 2, EchoSampleSize = 3, EchoThreshold = 2, ReadySampleSize = 3,
     ReadyThreshold = 2, DeliverySampleSize = 3, DeliveryThreshold = 2, CleanUpTimeout = 0\<rparr>"

definition sc_in_turn :: "nat \<Rightarrow> sc_randomness" where
  "sc_in_turn k = \<lparr>sc_poisson = 2, sc_gossipDraws = (\<lambda>i. i), sc_echoDraws = (\<lambda>i. i),
     sc_readyDraws = (\<lambda>i. i), sc_deliveryDraws = (\<lambda>i. i)\<rparr>"

definition sc_three :: sc_Process where
  "sc_three = sc_InitProcess 0 [''p0'', ''p1'', ''p2''] sc_parameters False"

definition sc_tx :: BroadcastInstance where
  "sc_tx = \<lparr>Author = 0, SeqNumber = 0\<rparr>"

lemma sc_init_wf: "sc_wf (sc_InitProcess i pids ps own)"
  by (simp add: sc_InitProcess_def Let_def sc_wf_def)

lemma sc_three_facts:
  "sc_wf sc_three" "sc_n sc_three = 3" "sc_inits sc_three = 0" "sc_echoSampleSize sc_three = 3"
proof -
  show "sc_wf sc_three" by (simp add: sc_three_def sc_init_wf)
qed (simp_all add: sc_three_def sc_InitProcess_def sc_parameters_def Let_def)

lemma sc_in_turn_fair: "sc_rnd_fair n sc_in_turn"
  unfolding sc_rnd_fair_def
proof (intro allI impI)
  fix k x :: nat assume "x < n"
  then show "\<exists>i. sc_gossipDraws (sc_in_turn k) i mod n = x" by (intro exI[of _ x]) (simp add: sc_in_turn_def)
qed

text \<open>
  C12: When a process has sent READY from the sieve for an instance, it sent it for a value
  whose ECHO arrived from processes that hold together at least \<open>echoThreshold\<close> places of its
  echo sample; every process counts once and for one value only, however often it sends.
\<close>

theorem sc_sieve_backed:
  assumes "sc_run order rnd (sc_InitProcess i pids ps own) evs = Inr (p', es)"
    and "sc_state p' b = Some ms" "sc_sentReadyFromSieve ms"
  shows "\<exists>v A. v \<in> set (sc_sentReadyMessages ms) \<and> finite A \<and>
    EchoThreshold ps \<le> int (\<Sum>q\<in>A. sc_count (sc_echoSample ms) q) \<and>
    A \<subseteq> {q. Input (Received q (sc_msg b Scalable_ECHO v)) \<in> set evs}"
proof -
  define S where "S = {(q, b, v). Input (Received q (sc_msg b Scalable_ECHO v)) \<in> set evs}"
  have "sc_sieve_inv (EchoThreshold ps) S (sc_InitProcess i pids ps own)"
    by (simp add: sc_sieve_inv_def sc_InitProcess_def Let_def sc_state_def)
  then have "sc_sieve_inv (EchoThreshold ps) S p'"
    using sc_run_induct[where I = "sc_sieve_inv (EchoThreshold ps) S", OF assms(1) sc_init_wf]
      sc_sieve_handle sc_sieve_request sc_sieve_wake by (smt (verit, best) S_def case_prodI mem_Collect_eq)
  then have w: "sc_weighed ms {(q, v). (q, b, v) \<in> S}" and s: "sc_sieved p' ms" "sc_echoThreshold p' = EchoThreshold ps"
    using assms(2) by (auto simp: sc_sieve_inv_def)
  obtain em :: ScalableProtocolMessage where em: "EchoThreshold ps \<le> int (sc_echoMessagesStat ms (ScalableValue em))"
    "ScalableValue em \<in> set (sc_sentReadyMessages ms)"
    using s(1) assms(3) unfolding sc_sieved_def s(2) by blast
  obtain A where "finite A" "\<forall>q\<in>A. (q, b, ScalableValue em) \<in> S"
    "sc_echoMessagesStat ms (ScalableValue em) = (\<Sum>q\<in>A. sc_count (sc_echoSample ms) q)"
    using sc_weighed_sum[OF w, of "ScalableValue em"] by auto
  then show ?thesis using em by (intro exI[of _ "ScalableValue em"] exI[of _ A]) (auto simp: S_def)
qed

definition sc_echo_run :: "sc_event list" where
  "sc_echo_run = [Input (Request 5), Input (Received 0 (sc_msg sc_tx Scalable_GOSSIP 5)),
     Input (Received 1 (sc_msg sc_tx Scalable_ECHO 5)), Input (Received 1 (sc_msg sc_tx Scalable_ECHO 5)),
     Input (Received 2 (sc_msg sc_tx Scalable_ECHO 5)), Input (Received 1 (sc_msg sc_tx Scalable_READY 5)),
     Input (Received 2 (sc_msg sc_tx Scalable_READY 5))]"

definition sc_summary :: "(sc_Process \<times> effect list) go \<Rightarrow> (bool option \<times> (BroadcastInstance \<times> int32) list) go" where
  "sc_summary r = map_sum id (\<lambda>(p, es). (map_option sc_sentReadyFromSieve (sc_state p sc_tx), deliveries es)) r"

lemma sc_echo_run_ok:
  "\<exists>p' es ms. sc_run (\<lambda>ks. ks) sc_in_turn sc_three sc_echo_run = Inr (p', es) \<and> sc_state p' sc_tx = Some ms \<and>
    sc_sentReadyFromSieve ms \<and> deliveries es = [(sc_tx, 5)]"
proof -
  let ?r = "sc_run (\<lambda>ks. ks) sc_in_turn sc_three sc_echo_run"
  have "sc_summary ?r = Inr (Some True, [(sc_tx, 5)])" by code_simp
  then show ?thesis by (cases ?r) (auto simp: sc_summary_def)
qed

theorem sc_sieve_backed_witness:
  "\<exists>p' es ms v A. sc_run (\<lambda>ks. ks) sc_in_turn sc_three sc_echo_run = Inr (p', es) \<and> sc_state p' sc_tx = Some ms \<and>
    v \<in> set (sc_sentReadyMessages ms) \<and> 2 \<le> int (\<Sum>q\<in>A. sc_count (sc_echoSample ms) q)"
proof -
  obtain p' es ms where r: "sc_run (\<lambda>ks. ks) sc_in_turn sc_three sc_echo_run = Inr (p', es)"
    "sc_state p' sc_tx = Some ms" "sc_sentReadyFromSieve ms" using sc_echo_run_ok by blast
  have "EchoThreshold sc_parameters = 2" by (simp add: sc_parameters_def)
  then show ?thesis using sc_sieve_backed[OF r(1)[unfolded sc_three_def] r(2,3)] r(1,2) by metis
qed

text \<open>
  No duplication, whatever is received and whenever the clean-up goroutines run: every
  instance is delivered at most once over any run of the process.
\<close>

theorem sc_no_duplication:
  assumes "sc_run order rnd (sc_InitProcess i pids ps own) evs = Inr (p', es)"
  shows "distinct (map fst (deliveries es)) \<and> sc_value p' = map_of (deliveries es)"
proof -
  have "sc_value (sc_InitProcess i pids ps own) = Map.empty"
    by (simp add: sc_InitProcess_def Let_def sc_value_def fun_eq_iff)
  moreover have "delivery_step (sc_value (sc_InitProcess i pids ps own)) es (sc_value p')"
    using sc_run_induct[where I = "\<lambda>_. True", OF assms sc_init_wf] by simp
  ultimately show ?thesis by (simp add: delivery_step_def)
qed

theorem sc_no_duplication_witness:
  "\<exists>p' es. sc_run (\<lambda>ks. ks) sc_in_turn sc_three sc_echo_run = Inr (p', es) \<and> deliveries es = [(sc_tx, 5)] \<and>
    sc_value p' sc_tx = Some 5"
proof -
  obtain p' es where r: "sc_run (\<lambda>ks. ks) sc_in_turn sc_three sc_echo_run = Inr (p', es)"
    "deliveries es = [(sc_tx, 5)]" using sc_echo_run_ok by blast
  then show ?thesis using sc_no_duplication[OF r(1)[unfolded sc_three_def]] by auto
qed

text \<open>
  C27: The READY case does not remember who it heard: the field \<open>receivedReady\<close> is set up
  and never used. One process of the delivery sample that repeats READY for a value often enough
  makes the process deliver that value, without a vote of anyone else.
\<close>

theorem sc_repeated_ready_delivers:
  assumes "sc_wf p" "sc_value p b = None" "sc_state p b = Some ms"
    and "0 < sc_count (sc_deliverySample ms) q" "0 < k"
    and "sc_deliveryThreshold p \<le> int k * int (sc_count (sc_deliverySample ms) q)"
  shows "\<exists>p' es. run_inputs (sc_HandleMessage order rnd) (sc_Broadcast order rnd) p
      (replicate k (Received q (sc_msg b Scalable_READY v))) = Inr (p', es) \<and> sc_value p' b = Some v"
  using sc_ready_run[OF assms(1,3) refl assms(4)] assms(2,5,6) by simp

definition sc_started :: sc_Process where
  "sc_started = (case sc_Broadcast (\<lambda>ks. ks) sc_in_turn sc_three 5 of Inr (p, es) \<Rightarrow> p | Inl e \<Rightarrow> sc_three)"

theorem sc_repeated_ready_delivers_witness:
  "\<exists>p' es. run_inputs (sc_HandleMessage (\<lambda>ks. ks) sc_in_turn) (sc_Broadcast (\<lambda>ks. ks) sc_in_turn) sc_started
      (replicate 2 (Received 2 (sc_msg sc_tx Scalable_READY 9))) = Inr (p', es) \<and> sc_value p' sc_tx = Some 9"
proof -
  have "map_option (\<lambda>ms. sc_count (sc_deliverySample ms) 2) (sc_state sc_started sc_tx) = Some 1" by code_simp
  then obtain ms where ms: "sc_state sc_started sc_tx = Some ms" "sc_count (sc_deliverySample ms) 2 = 1" by auto
  have v: "sc_value sc_started sc_tx = None" "sc_deliveryThreshold sc_started = 2" by (code_simp, code_simp)
  have "sc_wf sc_started"
    using scalable.broadcast_ok[of sc_three "\<lambda>ks. ks" sc_in_turn 5] sc_init_wf
    by (auto simp: sc_started_def sc_three_def split: sum.split)
  from sc_repeated_ready_delivers[OF this v(1) ms(1), of 2 2] show ?thesis using ms(2) v(2) by simp
qed

text \<open>
  C29: Every outcome of the handler on its own messages, when the random source keeps naming
  every process: an author outside the system makes it lock a nil mutex, and otherwise it
  returns; in particular the gossip loop ends. A message of another protocol stops the program.
\<close>

theorem sc_HandleMessage_returns:
  assumes "sc_wf p" "sc_rnd_fair (sc_n p) rnd" "sc_n p \<le> 2 ^ 32"
  shows "case Message_of bm of
      ScalableMessage m \<Rightarrow> (case BroadcastInstance_of bm of
          None \<Rightarrow> sc_HandleMessage order rnd p q bm = Inl NilDereference
        | Some b \<Rightarrow> if Author b \<in> set (procs (sc_n p))
            then \<exists>p' es. sc_HandleMessage order rnd p q bm = Inr (p', es)
            else sc_HandleMessage order rnd p q bm = Inl NilDereference)
    | _ \<Rightarrow> sc_HandleMessage order rnd p q bm = Inl FatalExit"
  using sc_process_returns[OF assms(1) _ assms(2,3)]
  by (auto simp: sc_HandleMessage_def sc_processProtocolMessage_def
      split: BroadcastInstanceMessage_Message.split option.split)

theorem sc_HandleMessage_returns_witness:
  "\<exists>p' es. sc_HandleMessage (\<lambda>ks. ks) sc_in_turn sc_three 2 (sc_msg sc_tx Scalable_GOSSIP 5) = Inr (p', es)"
proof -
  have "Author sc_tx \<in> set (procs 3)" by code_simp
  then show ?thesis
    using sc_three_facts(1,2) sc_HandleMessage_returns[OF _ sc_in_turn_fair, where p = sc_three and bm = "sc_msg sc_tx Scalable_GOSSIP 5"
        and order = "\<lambda>ks. ks" and q = 2]
    by (simp add: sc_msg_def)
qed

text \<open>
  A new instance has samples of the configured sizes: the gossip sample consists of
  the Poisson value's number of different processes (at most \<open>n\<close>), and the echo, ready and
  delivery samples hold their numbers of draws, with repetition, all from the system's processes.
\<close>

theorem sc_samples:
  assumes "sc_wf p" "sc_rnd_fair (sc_n p) rnd" "0 < sc_n p" "sc_n p \<le> 2 ^ 32"
    and "sc_initMessageState order rnd p b v = Inr (p1, ms, es)"
  shows "int (card (set (sc_keys (sc_gossipSample ms)))) = max 0 (min (sc_poisson (rnd (sc_inits p))) (int (sc_n p))) \<and>
    sc_total (sc_echoSample ms) = nat (sc_echoSampleSize p) \<and>
    sc_total (sc_readySample ms) = nat (sc_readySampleSize p) \<and>
    sc_total (sc_deliverySample ms) = nat (sc_deliverySampleSize p) \<and>
    set (sc_keys (sc_gossipSample ms)) \<union> set (sc_keys (sc_echoSample ms)) \<union>
      set (sc_keys (sc_readySample ms)) \<union> set (sc_keys (sc_deliverySample ms)) \<subseteq> set (procs (sc_n p))"
proof -
  obtain gossip where g: "sc_generateGossipSample (sc_n p) (rnd (sc_inits p)) = Inr gossip"
    and ms: "ms = sc_newMessageState\<lparr>sc_receivedReady := make_maps (sc_n p), sc_gossipSample := gossip,
       sc_echoSample := sc_draw (sc_n p) (sc_echoSampleSize p) (sc_echoDraws (rnd (sc_inits p))),
       sc_readySample := sc_draw (sc_n p) (sc_readySampleSize p) (sc_readyDraws (rnd (sc_inits p))),
       sc_deliverySample := sc_draw (sc_n p) (sc_deliverySampleSize p) (sc_deliveryDraws (rnd (sc_inits p)))\<rparr>"
    using sc_init_ok[OF assms(1,5)] by (auto simp: sc_fresh_def)
  have "distinct (sc_keys gossip)" "set (sc_keys gossip) \<subseteq> set (procs (sc_n p))"
    "int (length gossip) = max 0 (min (sc_poisson (rnd (sc_inits p))) (int (sc_n p)))"
    using sc_gossip_ok[OF assms(3,4), of "rnd (sc_inits p)"] assms(2) g by (auto simp: sc_rnd_fair_def)
  then show ?thesis using sc_draw_facts[OF assms(3)] by (simp add: ms flip: sc_length_keys)
qed

theorem sc_samples_witness:
  "\<exists>p1 ms es. sc_initMessageState (\<lambda>ks. ks) sc_in_turn sc_three sc_tx 5 = Inr (p1, ms, es) \<and>
    int (card (set (sc_keys (sc_gossipSample ms)))) = 2 \<and> sc_total (sc_echoSample ms) = 3"
proof -
  note f = sc_three_facts
  have a: "Author sc_tx \<in> set (procs 3)" by code_simp
  obtain g where "sc_generateGossipSample 3 (sc_in_turn 0) = Inr g"
    using sc_gossip_returns[OF sc_in_turn_fair, of 3 0] by auto
  then obtain p1 ms es where i: "sc_initMessageState (\<lambda>ks. ks) sc_in_turn sc_three sc_tx 5 = Inr (p1, ms, es)"
    using sc_init_returns[of sc_three sc_tx sc_in_turn g "\<lambda>ks. ks" 5] f a by auto
  then show ?thesis using sc_samples[OF f(1) sc_in_turn_fair _ _ i] f by (simp add: sc_in_turn_def)
qed

end
