(* ===== verification/Topology.thy ===== *)
theory Topology
  imports Prelude "HOL-Library.Sublist"
begin

text \<open>
  \<open>impl/utils/simulation.go\<close>: how the addresses of the processes are generated, and how
  \<open>simulation/actor/mailbox.go\<close> reads them back. Strings are character lists; what the code uses
  of Go's \<open>strings\<close>, \<open>strconv\<close> and \<open>fmt\<close> is written out.
\<close>

section \<open>Decimal numbers and splitting\<close>

definition digit_char :: "nat \<Rightarrow> char" where
  "digit_char d = char_of (48 + d)"

definition char_digit :: "char \<Rightarrow> nat option" where
  "char_digit c = (let k = (of_char c :: nat) in if 48 \<le> k \<and> k \<le> 57 then Some (k - 48) else None)"

fun decimal :: "nat \<Rightarrow> string" where
  "decimal n = (if n < 10 then [digit_char n] else decimal (n div 10) @ [digit_char (n mod 10)])"

declare decimal.simps [simp del]

text \<open>\<open>strconv.Itoa\<close>, also \<open>%d\<close>.\<close>

definition Itoa :: "int \<Rightarrow> string" where
  "Itoa k = (if k < 0 then CHR ''-'' # decimal (nat (- k)) else decimal (nat k))"

fun digits_value :: "nat \<Rightarrow> string \<Rightarrow> nat option" where
  "digits_value acc [] = Some acc"
| "digits_value acc (c # cs) = (case char_digit c of None \<Rightarrow> None | Some d \<Rightarrow> digits_value (10 * acc + d) cs)"

text \<open>\<open>strconv.Atoi\<close>: an optional sign and at least one digit, in the range of \<open>int\<close>.\<close>

definition Atoi :: "string \<Rightarrow> int option" where
  "Atoi s =
     (let (neg, ds) = (case s of [] \<Rightarrow> (False, [])
        | c # cs \<Rightarrow> if c = CHR ''-'' then (True, cs) else if c = CHR ''+'' then (False, cs) else (False, s))
      in if ds = [] then None
         else case digits_value 0 ds of
           None \<Rightarrow> None
         | Some v \<Rightarrow> let k = (if neg then - int v else int v) in
             if - (2 ^ 63) \<le> k \<and> k < 2 ^ 63 then Some k else None)"

text \<open>\<open>strings.Split\<close> and \<open>strings.Join\<close> with a separator of one character.\<close>

fun Split :: "char \<Rightarrow> string \<Rightarrow> string list" where
  "Split sep [] = [[]]"
| "Split sep (c # cs) = (if c = sep then [] # Split sep cs
     else case Split sep cs of [] \<Rightarrow> [[c]] | w # ws \<Rightarrow> (c # w) # ws)"

fun Join :: "char \<Rightarrow> string list \<Rightarrow> string" where
  "Join sep [] = []"
| "Join sep [w] = w"
| "Join sep (w # ws) = w @ sep # Join sep ws"

section \<open>Addresses\<close>

definition JoinIpAndPort :: "string \<Rightarrow> int \<Rightarrow> string" where
  "JoinIpAndPort ip port = ip @ CHR '':'' # Itoa port"

definition parse_byte :: "string \<Rightarrow> byte go" where
  "parse_byte s = (case Atoi s of
     None \<Rightarrow> Inl FatalExit
   | Some k \<Rightarrow> if k < 0 \<or> k > 255 then Inl FatalExit else Inr (of_int k))"

definition parseIpv4 :: "string \<Rightarrow> byte list go" where
  "parseIpv4 ip =
     (let split = Split (CHR ''.'') ip in
      if length split \<noteq> 4 then Inl FatalExit else go_map parse_byte split)"

definition convertIpByteArrayToStr :: "byte list \<Rightarrow> string" where
  "convertIpByteArrayToStr ipBytes = Join (CHR ''.'') (map (\<lambda>ind. Itoa (uint (ipBytes ! ind))) [0..<4])"

text \<open>
  The inner part of the loop of \<open>GenerateStarTopology\<close>: the last byte that is not 255 is
  incremented and the bytes after it are cleared; with four bytes of 255 the program stops.
\<close>

fun left_byte :: "byte list \<Rightarrow> nat \<Rightarrow> nat option" where
  "left_byte ip 0 = None"
| "left_byte ip (Suc k) = (if ip ! k = 255 then left_byte ip k else Some k)"

definition next_ip :: "byte list \<Rightarrow> byte list go" where
  "next_ip ip = (case left_byte ip 4 of
     None \<Rightarrow> Inl FatalExit
   | Some k \<Rightarrow> Inr (fold (\<lambda>ind ip. ip[ind := 0]) [Suc k..<4] (ip[k := ip ! k + 1])))"

fun star_ips :: "byte list \<Rightarrow> nat \<Rightarrow> string list go" where
  "star_ips ip 0 = Inr []"
| "star_ips ip (Suc n) = go_bind (next_ip ip) (\<lambda>ip'.
     go_bind (star_ips ip' n) (\<lambda>rest. Inr (convertIpByteArrayToStr ip' # rest)))"

definition GenerateStarTopology :: "int \<Rightarrow> string \<Rightarrow> string list go" where
  "GenerateStarTopology nodes baseIp =
     go_bind (parseIpv4 baseIp) (\<lambda>ipBytes.
       if nodes < 0 then Inl LengthOutOfRange
       else if nodes = 0 then Inl IndexOutOfRange
       else go_bind (star_ips ipBytes (nat nodes - 1)) (\<lambda>ips. Inr (baseIp # ips)))"

definition GenerateTreeTopology :: "int \<Rightarrow> int \<Rightarrow> string \<Rightarrow> string list go" where
  "GenerateTreeTopology numberOfChildren nodes baseIp =
     (if nodes < 0 then Inl LengthOutOfRange
      else go_bind (parseIpv4 baseIp) (\<lambda>currIp.
        if nodes > 0 \<and> numberOfChildren = 0 then Inl DivideByZero
        else Inr (map (\<lambda>i. convertIpByteArrayToStr (currIp
          [3 := of_int (i + 1), 2 := of_int (go_quot i numberOfChildren),
           1 := of_int (go_quot i (numberOfChildren ^ 2))])) [0..nodes - 1])))"

definition GeneratePids :: "string list \<Rightarrow> int \<Rightarrow> int \<Rightarrow> string list go" where
  "GeneratePids nodeIps basePort processCount =
     (if processCount < 0 then Inl LengthOutOfRange
      else if nodeIps = [] \<and> processCount > 0 then Inl DivideByZero
      else Inr (map (\<lambda>i. JoinIpAndPort (nodeIps ! (i mod length nodeIps)) (basePort + int i)) [0..<nat processCount]))"

text \<open>The address as \<open>newMailbox\<close> reads it: host and port; a second colon would cut the port short.\<close>

definition read_address :: "string \<Rightarrow> (string \<times> int) go" where
  "read_address address =
     (let hostAndPort = Split (CHR '':'') address in
      go_bind (go_index hostAndPort 1) (\<lambda>p. case Atoi p of
        None \<Rightarrow> Inl FatalExit
      | Some port \<Rightarrow> Inr (hostAndPort ! 0, port)))"

section \<open>Round trips\<close>

lemma char_digit_digit: "d < 10 \<Longrightarrow> char_digit (digit_char d) = Some d"
  by (simp add: char_digit_def digit_char_def of_char_of take_bit_eq_mod)

lemma digits_value_append:
  "digits_value acc (xs @ ys) = (case digits_value acc xs of None \<Rightarrow> None | Some v \<Rightarrow> digits_value v ys)"
  by (induction acc xs rule: digits_value.induct) (auto split: option.splits)

lemma decimal_value: "digits_value 0 (decimal n) = Some n"
proof (induction n rule: decimal.induct)
  case (1 n)
  show ?case
  proof (cases "n < 10")
    case True
    then show ?thesis by (subst decimal.simps) (simp add: char_digit_digit)
  next
    case False
    then show ?thesis using 1 by (subst decimal.simps) (simp add: digits_value_append char_digit_digit)
  qed
qed

lemma decimal_chars: "c \<in> set (decimal n) \<Longrightarrow> \<exists>d<10. c = digit_char d"
proof (induction n rule: decimal.induct)
  case (1 n)
  show ?case
  proof (cases "n < 10")
    case True
    then show ?thesis using 1(2) by (subst (asm) decimal.simps) auto
  next
    case False
    then show ?thesis using 1 by (subst (asm) (2) decimal.simps) (auto intro: exI[of _ "n mod 10"])
  qed
qed

lemma decimal_nonempty: "decimal n \<noteq> []"
  by (subst decimal.simps) simp

lemma digit_char_less: "d < 10 \<Longrightarrow> of_char (digit_char d) = 48 + d" for d :: nat
  by (simp add: digit_char_def of_char_of take_bit_eq_mod)

lemma digit_char_other:
  "d < 10 \<Longrightarrow> digit_char d \<noteq> CHR ''.''" "d < 10 \<Longrightarrow> digit_char d \<noteq> CHR '':''"
  "d < 10 \<Longrightarrow> digit_char d \<noteq> CHR ''-''" "d < 10 \<Longrightarrow> digit_char d \<noteq> CHR ''+''"
  using digit_char_less[of d] by auto

lemma Itoa_chars: "c \<in> set (Itoa k) \<Longrightarrow> c \<noteq> CHR ''.'' \<and> c \<noteq> CHR '':''"
  using decimal_chars digit_char_other(1,2) by (fastforce simp: Itoa_def split: if_splits)

lemma Atoi_Itoa:
  assumes "- (2 ^ 63) \<le> k" "k < 2 ^ 63"
  shows "Atoi (Itoa k) = Some k"
proof -
  obtain c cs where d: "decimal (nat \<bar>k\<bar>) = c # cs" by (cases "decimal (nat \<bar>k\<bar>)") (auto simp: decimal_nonempty)
  have c: "c \<noteq> CHR ''-''" "c \<noteq> CHR ''+''"
    using decimal_chars[of c "nat \<bar>k\<bar>"] d digit_char_other(3,4) by auto
  have v: "digits_value 0 (c # cs) = Some (nat \<bar>k\<bar>)" using decimal_value[of "nat \<bar>k\<bar>"] d by simp
  show ?thesis
  proof (cases "k < 0")
    case True
    then have "Itoa k = CHR ''-'' # c # cs" using d by (simp add: Itoa_def)
    then show ?thesis using v True assms by (simp add: Atoi_def Let_def del: digits_value.simps)
  next
    case False
    then have "Itoa k = c # cs" using d by (simp add: Itoa_def)
    then show ?thesis using v c False assms by (simp add: Atoi_def Let_def del: digits_value.simps)
  qed
qed

lemma Split_none: "sep \<notin> set w \<Longrightarrow> Split sep w = [w]"
  by (induction w) auto

lemma Split_Cons: "sep \<notin> set w \<Longrightarrow> Split sep (w @ sep # s) = w # Split sep s"
  by (induction w) auto

lemma Split_Join: "ws \<noteq> [] \<Longrightarrow> (\<And>w. w \<in> set ws \<Longrightarrow> sep \<notin> set w) \<Longrightarrow> Split sep (Join sep ws) = ws"
  by (induction sep ws rule: Join.induct) (auto simp: Split_none Split_Cons)

lemma parse_convert:
  assumes "length ip = 4"
  shows "parseIpv4 (convertIpByteArrayToStr ip) = Inr ip"
proof -
  have split: "Split (CHR ''.'') (convertIpByteArrayToStr ip) = map (\<lambda>ind. Itoa (uint (ip ! ind))) [0..<4]"
    unfolding convertIpByteArrayToStr_def by (rule Split_Join) (use Itoa_chars in auto)
  have "go_map parse_byte (map (\<lambda>ind. Itoa (uint (ip ! ind))) [0..<4]) = Inr (map (\<lambda>ind. ip ! ind) [0..<4])"
  proof -
    have "parse_byte (Itoa (uint w)) = Inr w" for w :: byte
    proof -
      have u: "0 \<le> uint w" "uint w < 256" using uint_lt2p[of w] by simp_all
      have "- (2 ^ 63) \<le> uint w" "uint w < 2 ^ 63" using u by (simp_all add: order.trans[OF _ u(1)] order.strict_trans[OF u(2)])
      then have "Atoi (Itoa (uint w)) = Some (uint w)" by (rule Atoi_Itoa)
      then show ?thesis using u by (simp add: parse_byte_def)
    qed
    then show ?thesis by (simp add: upt_rec numeral_eq_Suc)
  qed
  moreover have "map (\<lambda>ind. ip ! ind) [0..<4] = ip" using assms by (metis map_nth)
  ultimately show ?thesis by (simp add: parseIpv4_def split)
qed

lemma convert_inject: "length ip = 4 \<Longrightarrow> length ip' = 4 \<Longrightarrow> convertIpByteArrayToStr ip = convertIpByteArrayToStr ip' \<longleftrightarrow> ip = ip'"
  using parse_convert by (metis sum.inject(2))

section \<open>Consecutive addresses\<close>

definition ip_value :: "byte list \<Rightarrow> nat" where
  "ip_value ip = ((unat (ip ! 0) * 256 + unat (ip ! 1)) * 256 + unat (ip ! 2)) * 256 + unat (ip ! 3)"

lemma byte_bound: "unat (w :: byte) \<le> 255"
  using unat_bound[of w] by simp

lemma byte_inc: "w \<noteq> 255 \<Longrightarrow> unat (w + 1) = unat w + 1" for w :: byte
proof -
  assume w: "w \<noteq> 255"
  have "unat w \<noteq> unat (255 :: byte)" using w by (simp only: word_unat_eq_iff[symmetric] not_False_eq_True)
  then have "unat w \<noteq> 255" by simp
  then show ?thesis using byte_bound[of w] by (simp add: unat_word_ariths)
qed

lemma four_bytes:
  assumes "length ip = 4"
  obtains a b c d where "ip = [a, b, c, d]"
  using assms by (auto simp: numeral_eq_Suc length_Suc_conv)

lemma four: "4 = Suc (Suc (Suc (Suc 0)))"
  by simp

lemma next_ip_cases:
  "next_ip [a, b, c, d] =
     (if d \<noteq> 255 then Inr [a, b, c, d + 1]
      else if c \<noteq> 255 then Inr [a, b, c + 1, 0]
      else if b \<noteq> 255 then Inr [a, b + 1, 0, 0]
      else if a \<noteq> 255 then Inr [a + 1, 0, 0, 0]
      else Inl FatalExit)"
  by (simp add: next_ip_def four upt_rec)

lemma next_ip_value:
  assumes "length ip = 4"
  shows "case next_ip ip of
      Inl e \<Rightarrow> e = FatalExit \<and> ip_value ip = 2 ^ 32 - 1
    | Inr ip' \<Rightarrow> length ip' = 4 \<and> ip_value ip' = ip_value ip + 1"
proof -
  obtain a b c d where ip: "ip = [a, b, c, d]" using assms by (rule four_bytes)
  show ?thesis
    by (cases "d = 255"; cases "c = 255"; cases "b = 255"; cases "a = 255")
      (simp_all add: ip next_ip_cases ip_value_def byte_inc)
qed

lemma ip_value_bound: "ip_value ip < 2 ^ 32"
  using byte_bound[of "ip ! 0"] byte_bound[of "ip ! 1"] byte_bound[of "ip ! 2"] byte_bound[of "ip ! 3"]
  by (simp add: ip_value_def)

lemma star_ips_values:
  "length ip = 4 \<Longrightarrow>
     (if ip_value ip + n < 2 ^ 32
      then \<exists>bs. star_ips ip n = Inr (map convertIpByteArrayToStr bs) \<and> length bs = n
             \<and> (\<forall>i<n. length (bs ! i) = 4 \<and> ip_value (bs ! i) = ip_value ip + Suc i)
      else star_ips ip n = Inl FatalExit)"
proof (induction n arbitrary: ip)
  case 0
  then show ?case using ip_value_bound[of ip] by simp
next
  case (Suc n)
  show ?case
  proof (cases "next_ip ip")
    case (Inl e)
    then show ?thesis using next_ip_value[OF Suc.prems] by simp
  next
    case (Inr ip')
    then have ip': "length ip' = 4" "ip_value ip' = ip_value ip + 1" using next_ip_value[OF Suc.prems] by simp_all
    show ?thesis
    proof (cases "ip_value ip' + n < 2 ^ 32")
      case True
      with Suc.IH[OF ip'(1)] obtain bs where bs: "star_ips ip' n = Inr (map convertIpByteArrayToStr bs)" "length bs = n"
        "\<forall>i<n. length (bs ! i) = 4 \<and> ip_value (bs ! i) = ip_value ip' + Suc i" by auto
      have "\<forall>i<Suc n. length ((ip' # bs) ! i) = 4 \<and> ip_value ((ip' # bs) ! i) = ip_value ip + Suc i"
        using bs(3) ip' by (auto simp: less_Suc_eq_0_disj)
      then show ?thesis using True ip' Inr bs(1,2) by (intro if_P[THEN iffD2] ) (auto intro!: exI[of _ "ip' # bs"])
    next
      case False
      then show ?thesis using Suc.IH[OF ip'(1)] ip' Inr by simp
    qed
  qed
qed

lemma byte_of_int_eq: "of_int a = (of_int b :: byte) \<longleftrightarrow> a mod 256 = b mod 256"
  by (simp add: word_uint_eq_iff uint_word_of_int)

lemma parse_length: "parseIpv4 s = Inr ip \<Longrightarrow> length ip = 4"
  by (auto simp: parseIpv4_def Let_def dest: go_map_length split: if_splits)

text \<open>Two node numbers with the same three bytes are far apart: the bound of the tree topology.\<close>

lemma tree_collision:
  fixes i j c :: int
  assumes c: "1 \<le> c" "c \<le> 256" and ij: "0 \<le> i" "i < j"
    and m: "(i + 1) mod 256 = (j + 1) mod 256" "(i div c) mod 256 = (j div c) mod 256"
      "(i div c\<^sup>2) mod 256 = (j div c\<^sup>2) mod 256"
  shows "256 * c\<^sup>2 \<le> j"
proof -
  have dvd: "(256 :: int) dvd b - a" if "a mod 256 = b mod 256" for a b :: int
    using that by (metis mod_eq_dvd_iff)
  have far: "a + 256 \<le> b" if "a < b" "a mod 256 = b mod 256" for a b :: int
  proof -
    have "256 \<le> b - a" using zdvd_imp_le[OF dvd[OF that(2)]] that(1) by simp
    then show ?thesis by simp
  qed
  have "i + 256 \<le> j" using far[of "i + 1" "j + 1"] ij(2) m(1) by simp
  then have "i + c \<le> j" using c by simp
  then have "(i + c) div c \<le> j div c" using c by (simp add: zdiv_mono1)
  then have "i div c < j div c" using c div_add_self2[of c i] by simp
  then have "i div c + 256 \<le> j div c" by (rule far) (rule m(2))
  then have "i div c + c \<le> j div c" using c by simp
  then have "(i div c + c) div c \<le> (j div c) div c" using c by (simp add: zdiv_mono1)
  then have "(i div c) div c < (j div c) div c" using c div_add_self2[of c "i div c"] by simp
  then have "i div c\<^sup>2 < j div c\<^sup>2" using c by (simp add: power2_eq_square zdiv_zmult2_eq)
  then have "i div c\<^sup>2 + 256 \<le> j div c\<^sup>2" by (rule far) (rule m(3))
  moreover have "0 \<le> i div c\<^sup>2" using ij c by (simp add: pos_imp_zdiv_nonneg_iff)
  ultimately have "256 \<le> j div c\<^sup>2" by simp
  then have "256 * c\<^sup>2 \<le> (j div c\<^sup>2) * c\<^sup>2" using c by (simp add: mult_right_mono)
  also have "\<dots> \<le> j" using c pos_mod_sign[of "c\<^sup>2" j] div_mult_mod_eq[of j "c\<^sup>2"] by (smt (verit) zero_less_power)
  finally show ?thesis .
qed

section \<open>The addresses of a simulation\<close>

text \<open>
  \<open>GenerateStarTopology\<close>, on a valid base address and a positive number of nodes, returns
  the base followed by the consecutive addresses after it, all different, if they fit in the
  IPv4 address space; otherwise the program stops with the fatal error, and never wraps round.
\<close>

theorem star_topology:
  assumes ip: "parseIpv4 baseIp = Inr ip" and n: "0 < nodes"
  shows "if ip_value ip + nat nodes \<le> 2 ^ 32
    then \<exists>ips. GenerateStarTopology nodes baseIp = Inr ips \<and> length ips = nat nodes \<and> ips ! 0 = baseIp \<and> distinct ips
      \<and> (\<forall>i<nat nodes. \<exists>b. parseIpv4 (ips ! i) = Inr b \<and> ip_value b = ip_value ip + i)
    else GenerateStarTopology nodes baseIp = Inl FatalExit"
proof (cases "ip_value ip + nat nodes \<le> 2 ^ 32")
  case True
  then have lt: "ip_value ip + (nat nodes - 1) < 2 ^ 32" using n by simp
  obtain bs where bs: "star_ips ip (nat nodes - 1) = Inr (map convertIpByteArrayToStr bs)" "length bs = nat nodes - 1"
    "\<forall>i<nat nodes - 1. length (bs ! i) = 4 \<and> ip_value (bs ! i) = ip_value ip + Suc i"
    using star_ips_values[OF parse_length[OF ip], of "nat nodes - 1"] lt by auto
  let ?ips = "baseIp # map convertIpByteArrayToStr bs"
  have val: "\<exists>b. parseIpv4 (?ips ! i) = Inr b \<and> ip_value b = ip_value ip + i" if "i < nat nodes" for i
    using that ip bs(2,3) by (cases i) (auto simp: parse_convert)
  have "distinct ?ips"
    unfolding distinct_conv_nth
  proof (intro allI impI)
    fix i j assume "i < length ?ips" "j < length ?ips" "i \<noteq> j"
    then show "?ips ! i \<noteq> ?ips ! j" using val[of i] val[of j] bs(2) by (metis One_nat_def Suc_diff_1 add_left_cancel length_Cons length_map n sum.inject(2) zero_less_nat_eq)
  qed
  moreover have "GenerateStarTopology nodes baseIp = Inr ?ips" using ip n bs(1) by (simp add: GenerateStarTopology_def)
  ultimately show ?thesis using True val bs(2) n by auto
next
  case False
  then have "\<not> ip_value ip + (nat nodes - 1) < 2 ^ 32" using n by simp
  then have "star_ips ip (nat nodes - 1) = Inl FatalExit"
    using star_ips_values[OF parse_length[OF ip], of "nat nodes - 1"] by (simp only: if_False)
  then show ?thesis using False ip n by (simp add: GenerateStarTopology_def)
qed

lemma star_topology_witness:
  "GenerateStarTopology 3 ''10.0.0.254'' = Inr [''10.0.0.254'', ''10.0.0.255'', ''10.0.1.0'']
   \<and> distinct [''10.0.0.254'', ''10.0.0.255'', ''10.0.1.0'']
   \<and> GenerateStarTopology 2 ''255.255.255.255'' = Inl FatalExit"
proof -
  have p: "parseIpv4 ''10.0.0.254'' = Inr [10, 0, 0, 254]" "parseIpv4 ''255.255.255.255'' = Inr [255, 255, 255, 255]"
    by code_simp+
  have v: "ip_value [10, 0, 0, 254] = 167772414" "ip_value [255, 255, 255, 255] = 4294967295" by (simp_all add: ip_value_def)
  have g: "GenerateStarTopology 3 ''10.0.0.254'' = Inr [''10.0.0.254'', ''10.0.0.255'', ''10.0.1.0'']" by code_simp
  show ?thesis using star_topology[OF p(1), of 3] star_topology[OF p(2), of 2] by (simp add: v g)
qed

text \<open>
  C35: \<open>GenerateTreeTopology\<close> stores the node number in single bytes: with at most 256 children
  per node its addresses are all different exactly when there are at most \<open>256 * children\<^sup>2\<close> nodes.
  Beyond that no error is reported; node \<open>256 * children\<^sup>2\<close> gets the address of node 0.
\<close>

theorem tree_topology:
  assumes ip: "parseIpv4 baseIp = Inr ip" and c: "1 \<le> c" "c \<le> 256" and n: "0 \<le> nodes"
  shows "\<exists>ips. GenerateTreeTopology c nodes baseIp = Inr ips \<and> length ips = nat nodes
    \<and> (distinct ips \<longleftrightarrow> nodes \<le> 256 * c\<^sup>2)
    \<and> (256 * c\<^sup>2 < nodes \<longrightarrow> ips ! nat (256 * c\<^sup>2) = ips ! 0)"
proof -
  let ?f = "\<lambda>i. ip[3 := of_int (i + 1), 2 := of_int (go_quot i c), 1 := of_int (go_quot i (c\<^sup>2))]"
  define g where "g i = convertIpByteArrayToStr (?f i)" for i
  have gen: "GenerateTreeTopology c nodes baseIp = Inr (map g [0..nodes - 1])"
    using ip c n by (simp add: GenerateTreeTopology_def g_def)
  obtain a0 a1 a2 a3 where ipb: "ip = [a0, a1, a2, a3]" using four_bytes[OF parse_length[OF ip]] .
  have eq: "g i = g j \<longleftrightarrow> (i + 1) mod 256 = (j + 1) mod 256 \<and> (i div c) mod 256 = (j div c) mod 256
      \<and> (i div c\<^sup>2) mod 256 = (j div c\<^sup>2) mod 256" if "0 \<le> i" "0 \<le> j" for i j
  proof -
    have "g i = g j \<longleftrightarrow> ?f i = ?f j" unfolding g_def by (rule convert_inject) (simp_all add: parse_length[OF ip])
    also have "\<dots> \<longleftrightarrow> (of_int (i + 1) :: byte) = of_int (j + 1) \<and> (of_int (i div c) :: byte) = of_int (j div c)
        \<and> (of_int (i div c\<^sup>2) :: byte) = of_int (j div c\<^sup>2)"
      using that c by (simp add: ipb numeral_3_eq_3 numeral_2_eq_2 del: of_int_add) blast
    finally show ?thesis by (simp only: byte_of_int_eq)
  qed
  have wrap: "g (256 * c\<^sup>2) = g 0"
    using c by (subst eq) (simp_all add: power2_eq_square mult.assoc[symmetric] mod_add_left_eq[symmetric])
  have "inj_on g {0..nodes - 1}" if "nodes \<le> 256 * c\<^sup>2"
  proof (rule linorder_inj_onI)
    fix i j :: int assume "i < j" "i \<in> {0..nodes - 1}" "j \<in> {0..nodes - 1}"
    then show "g i \<noteq> g j" using eq[of i j] tree_collision[OF c, of i j] that by auto
  qed auto
  moreover have "\<not> inj_on g {0..nodes - 1}" if "256 * c\<^sup>2 < nodes"
  proof
    have pos: "0 < nodes" using that c zero_le_power2[of c] by linarith
    assume "inj_on g {0..nodes - 1}"
    then have "256 * c\<^sup>2 = 0" using wrap by (rule inj_onD) (use that pos in auto)
    then show False using c by simp
  qed
  ultimately have "distinct (map g [0..nodes - 1]) \<longleftrightarrow> nodes \<le> 256 * c\<^sup>2"
    by (simp add: distinct_map) (metis linorder_not_le)
  moreover have "map g [0..nodes - 1] ! nat (256 * c\<^sup>2) = map g [0..nodes - 1] ! 0" if "256 * c\<^sup>2 < nodes"
    proof -
    have "0 \<le> 256 * c\<^sup>2" by simp
    then have "nat (256 * c\<^sup>2) < length [0..nodes - 1]" "[0..nodes - 1] ! nat (256 * c\<^sup>2) = 256 * c\<^sup>2"
      using that by (simp_all only: length_upto nth_upto)
    moreover from this(1) have "[0..nodes - 1] ! 0 = 0" "0 < length [0..nodes - 1]" by (simp_all add: nth_upto)
    ultimately show ?thesis using wrap by (simp only: nth_map)
  qed
  ultimately show ?thesis using gen n by auto
qed

lemma tree_topology_witness:
  "\<exists>ips. GenerateTreeTopology 4 4097 ''10.0.0.1'' = Inr ips \<and> length ips = 4097 \<and> ips ! 4096 = ips ! 0 \<and> \<not> distinct ips"
proof -
  have p: "parseIpv4 ''10.0.0.1'' = Inr [10, 0, 0, 1]" by code_simp
  show ?thesis using tree_topology[OF p, of 4 4097] by auto
qed

lemma GeneratePids_readable:
  assumes hosts: "nodeIps \<noteq> []" "\<forall>h\<in>set nodeIps. CHR '':'' \<notin> set h"
    and ports: "0 \<le> basePort" "basePort + processCount < 2 ^ 63" "0 \<le> processCount"
  shows "\<exists>pids. GeneratePids nodeIps basePort processCount = Inr pids \<and> length pids = nat processCount \<and> distinct pids
    \<and> (\<forall>i<nat processCount. read_address (pids ! i) = Inr (nodeIps ! (i mod length nodeIps), basePort + int i))"
proof -
  let ?pids = "map (\<lambda>i. JoinIpAndPort (nodeIps ! (i mod length nodeIps)) (basePort + int i)) [0..<nat processCount]"
  have read: "read_address (?pids ! i) = Inr (nodeIps ! (i mod length nodeIps), basePort + int i)" if "i < nat processCount" for i
  proof -
    have "nodeIps ! (i mod length nodeIps) \<in> set nodeIps" using hosts(1) by (intro nth_mem) simp
    then have host: "CHR '':'' \<notin> set (nodeIps ! (i mod length nodeIps))" using hosts(2) by blast
    have port: "CHR '':'' \<notin> set (Itoa (basePort + int i))" using Itoa_chars by blast
    have "Atoi (Itoa (basePort + int i)) = Some (basePort + int i)"
      by (rule Atoi_Itoa) (use that ports in auto)
    moreover have "Split (CHR '':'') (?pids ! i) = [nodeIps ! (i mod length nodeIps), Itoa (basePort + int i)]"
      using that host port by (simp add: JoinIpAndPort_def Split_Cons Split_none)
    ultimately show ?thesis by (simp add: read_address_def go_index_def)
  qed
  have "distinct ?pids"
    unfolding distinct_conv_nth
  proof (intro allI impI)
    fix i j assume *: "i < length ?pids" "j < length ?pids" "i \<noteq> j"
    then have "read_address (?pids ! i) \<noteq> read_address (?pids ! j)" using read[of i] read[of j] by simp
    then show "?pids ! i \<noteq> ?pids ! j" by metis
  qed
  moreover have "GeneratePids nodeIps basePort processCount = Inr ?pids"
    using hosts(1) ports(3) by (simp add: GeneratePids_def)
  ultimately show ?thesis using read by (intro exI[of _ ?pids]) simp
qed

text \<open>
  The addresses made by \<open>GeneratePids\<close> are all different, whatever the topology and even when
  many processes share a node, and the mailbox that reads one back gets the host of its node and
  the port \<open>basePort + i\<close>.
\<close>

theorem GeneratePids_addresses:
  assumes hosts: "nodeIps \<noteq> []" "\<forall>h\<in>set nodeIps. CHR '':'' \<notin> set h"
    and ports: "0 \<le> basePort" "basePort + processCount < 2 ^ 63" "0 \<le> processCount"
  shows "\<exists>pids. GeneratePids nodeIps basePort processCount = Inr pids \<and> length pids = nat processCount \<and> distinct pids
    \<and> (\<forall>i<nat processCount. read_address (pids ! i) = Inr (nodeIps ! (i mod length nodeIps), basePort + int i))"
  using assms by (rule GeneratePids_readable)

lemma GeneratePids_addresses_witness:
  "GeneratePids [''10.0.0.1'', ''10.0.0.2''] 80 3 = Inr [''10.0.0.1:80'', ''10.0.0.2:81'', ''10.0.0.1:82'']
   \<and> read_address ''10.0.0.1:82'' = Inr (''10.0.0.1'', 82)"
proof -
  have g: "GeneratePids [''10.0.0.1'', ''10.0.0.2''] 80 3 = Inr [''10.0.0.1:80'', ''10.0.0.2:81'', ''10.0.0.1:82'']"
    by code_simp
  have "\<forall>i<nat 3. read_address ([''10.0.0.1:80'', ''10.0.0.2:81'', ''10.0.0.1:82''] ! i)
      = Inr ([''10.0.0.1'', ''10.0.0.2''] ! (i mod length [''10.0.0.1'', ''10.0.0.2'']), 80 + int i)"
    using GeneratePids_addresses[of "[''10.0.0.1'', ''10.0.0.2'']" 80 3] unfolding g by auto
  from this[rule_format, of 2] show ?thesis using g by (simp add: mod_self numeral_2_eq_2[symmetric])
qed

end
