(* ===== verification/Reliable_Context.thy ===== *)
theory Reliable_Context
  imports Messages "HOL-Library.Word"
begin

text \<open>
  \<open>context/context.go\<close>: the context a process sends through. It stamps messages with the process
  index and a 32-bit counter and puts the marshalled message on the write channel. Acknowledgement
  and retransmission are commented out in the source, so \<open>Send\<close> is a single attempt. The wire
  format is third-party code: \<open>marshal\<close> is a parameter, \<open>None\<close> its error. Channels are lists; that a
  full channel blocks the sender is not modelled.
\<close>

section \<open>State\<close>

datatype log_entry =
    OnMessageSent int32
  | OnMessageReceived int32 int32
  | OnBroadcastStart
  | OnSimulationStart

record ReliableContext =
  cx_processIndex :: int32
  cx_retransmissionTimeoutNs :: int
  cx_messageCounter :: int32
  cx_writeChan :: "(int32 \<times> byte list) list"
  cx_log :: "log_entry list"

definition NewReliableContext :: "int32 \<Rightarrow> int \<Rightarrow> ReliableContext" where
  "NewReliableContext processIndex timeout =
     \<lparr>cx_processIndex = processIndex, cx_retransmissionTimeoutNs = timeout, cx_messageCounter = 0,
      cx_writeChan = [], cx_log = []\<rparr>"

section \<open>Operations\<close>

definition MakeNewMessage :: "ReliableContext \<Rightarrow> ReliableContext \<times> Message" where
  "MakeNewMessage c =
     (c\<lparr>cx_messageCounter := cx_messageCounter c + 1\<rparr>,
      \<lparr>Sender = cx_processIndex c, Stamp = cx_messageCounter c, RetransmissionStamp = 0, Content = UnsetContent\<rparr>)"

definition cx_send :: "(Message \<Rightarrow> byte list option) \<Rightarrow> ReliableContext \<Rightarrow> int32 \<Rightarrow> Message \<Rightarrow> ReliableContext" where
  "cx_send marshal c to m = (case marshal m of
     None \<Rightarrow> c
   | Some data \<Rightarrow> c\<lparr>cx_writeChan := cx_writeChan c @ [(to, data)], cx_log := cx_log c @ [OnMessageSent (Stamp m)]\<rparr>)"

definition cx_Send :: "(Message \<Rightarrow> byte list option) \<Rightarrow> ReliableContext \<Rightarrow> int32 \<Rightarrow> Message \<Rightarrow> ReliableContext" where
  "cx_Send marshal c to m = cx_send marshal c to m"

text \<open>Every caller makes a message, sets its content and sends it.\<close>

definition cx_post ::
  "(Message \<Rightarrow> byte list option) \<Rightarrow> int32 \<Rightarrow> Message_Content \<Rightarrow> ReliableContext \<Rightarrow> ReliableContext" where
  "cx_post marshal to content c =
     (let (c1, m) = MakeNewMessage c in cx_Send marshal c1 to (m\<lparr>Content := content\<rparr>))"

text \<open>The effects of a protocol step, carried out on the context in order.\<close>

fun cx_perform :: "(Message \<Rightarrow> byte list option) \<Rightarrow> effect list \<Rightarrow> ReliableContext \<Rightarrow> ReliableContext" where
  "cx_perform marshal [] c = c"
| "cx_perform marshal (Send to bm # es) c =
     cx_perform marshal es (cx_post marshal to (BroadcastInstanceContent bm) c)"
| "cx_perform marshal (Log e # es) c = cx_perform marshal es c"
| "cx_perform marshal (OwnDelivered # es) c = cx_perform marshal es c"

section \<open>What a context has sent\<close>

text \<open>\<open>stamped i k cs\<close>: the messages a context of process \<open>i\<close> makes for the contents \<open>cs\<close> from stamp \<open>k\<close> on.\<close>

fun stamped :: "int32 \<Rightarrow> int32 \<Rightarrow> (int32 \<times> Message_Content) list \<Rightarrow> (int32 \<times> Message) list" where
  "stamped i k [] = []"
| "stamped i k ((to, content) # cs) =
     (to, \<lparr>Sender = i, Stamp = k, RetransmissionStamp = 0, Content = content\<rparr>) # stamped i (k + 1) cs"

definition packets :: "(Message \<Rightarrow> byte list option) \<Rightarrow> (int32 \<times> Message) list \<Rightarrow> (int32 \<times> byte list) list" where
  "packets marshal ms = concat (map (\<lambda>(to, m). case marshal m of None \<Rightarrow> [] | Some d \<Rightarrow> [(to, d)]) ms)"

text \<open>\<open>c'\<close> comes from \<open>c\<close> by posting \<open>cs\<close>.\<close>

definition cx_extends ::
  "(Message \<Rightarrow> byte list option) \<Rightarrow> (int32 \<times> Message_Content) list \<Rightarrow> ReliableContext \<Rightarrow> ReliableContext \<Rightarrow> bool" where
  "cx_extends marshal cs c c' \<longleftrightarrow> cx_processIndex c' = cx_processIndex c \<and>
     cx_messageCounter c' = cx_messageCounter c + of_nat (length cs) \<and>
     cx_writeChan c' = cx_writeChan c @ packets marshal (stamped (cx_processIndex c) (cx_messageCounter c) cs)"

lemma packets_append [simp]: "packets marshal (xs @ ys) = packets marshal xs @ packets marshal ys"
  by (simp add: packets_def)

lemma stamped_append: "stamped i k (cs @ ds) = stamped i k cs @ stamped i (k + of_nat (length cs)) ds"
  by (induction i k cs rule: stamped.induct) (simp_all add: algebra_simps)

lemma cx_extends_refl [intro]: "cx_extends marshal [] c c"
  by (simp add: cx_extends_def packets_def)

lemma cx_extends_trans:
  "cx_extends marshal cs c c' \<Longrightarrow> cx_extends marshal ds c' c'' \<Longrightarrow> cx_extends marshal (cs @ ds) c c''"
  by (simp add: cx_extends_def stamped_append add.assoc)

lemma cx_post_extends: "cx_extends marshal [(to, content)] c (cx_post marshal to content c)"
  by (simp add: cx_extends_def cx_post_def MakeNewMessage_def cx_Send_def cx_send_def packets_def split: option.split)

lemma cx_perform_extends:
  "cx_extends marshal (map (\<lambda>(to, bm). (to, BroadcastInstanceContent bm)) (sends es)) c (cx_perform marshal es c)"
proof (induction es arbitrary: c rule: sends.induct)
  case (2 to m es)
  from cx_extends_trans[OF cx_post_extends 2, of to "BroadcastInstanceContent m"] show ?case by simp
qed (auto simp: cx_extends_def packets_def)

lemma cx_posts_extends:
  "cx_extends marshal (map (\<lambda>x. (f x, g x)) xs) c (fold (\<lambda>x. cx_post marshal (f x) (g x)) xs c)"
proof (induction xs arbitrary: c)
  case (Cons x xs)
  from cx_extends_trans[OF cx_post_extends Cons, of "f x" "g x"] show ?case by simp
qed auto

text \<open>Stamps are distinct until the 32-bit counter wraps around.\<close>

lemma stamped_keys: "map (\<lambda>(to, m). (Sender m, Stamp m)) (stamped i k cs) = map (\<lambda>j. (i, k + of_nat j)) [0..<length cs]"
proof (induction i k cs rule: stamped.induct)
  case (2 i k to content cs)
  have "map (\<lambda>j. (i, k + of_nat j)) [0..<Suc n] = (i, k) # map (\<lambda>j. (i, k + 1 + of_nat j)) [0..<n]" for n
    by (simp only: upt_rec[of 0] upt_conv_Cons map_Suc_upt[symmetric]) (simp add: add.assoc)
  then show ?case using 2 by simp
qed simp

lemma stamped_distinct:
  assumes "length cs \<le> 2 ^ 32"
  shows "distinct (map (\<lambda>(to, m). (Sender m, Stamp m)) (stamped i k cs))"
proof -
  have "inj_on (\<lambda>j. (i, k + of_nat j)) {0..<length cs}"
  proof (rule inj_onI)
    fix a b assume ab: "a \<in> {0..<length cs}" "b \<in> {0..<length cs}" and eq: "(i, k + of_nat a) = (i, k + of_nat b)"
    then have "(of_nat a :: int32) = of_nat b" by simp
    moreover have "distinct (procs (length cs))" by (rule distinct_procs[OF assms])
    ultimately show "a = b" using ab by (simp add: procs_def distinct_map inj_on_def)
  qed
  then show ?thesis by (simp add: stamped_keys distinct_map)
qed

lemma stamped_wraps:
  assumes "2 ^ 32 < length cs"
  shows "\<not> distinct (map (\<lambda>(to, m). (Sender m, Stamp m)) (stamped i k cs))"
proof -
  have "(of_nat (2 ^ 32) :: int32) = of_nat 0" by simp
  moreover have "0 \<in> {0..<length cs}" "2 ^ 32 \<in> {0..<length cs}" using assms by auto
  ultimately have "\<not> inj_on (\<lambda>j. (i, k + of_nat j :: int32)) {0..<length cs}"
    unfolding inj_on_def by (metis zero_neq_numeral power_eq_0_iff)
  then show ?thesis by (simp add: stamped_keys distinct_map)
qed

end
