(* ===== verification/Mailbox.thy ===== *)
theory Mailbox
  imports Topology Reliable_Context
begin

text \<open>
  \<open>simulation/actor/mailbox.go\<close>: how the packets of the write channel become datagrams, and how
  datagrams become the data on the read channel. Whether a system call on the socket succeeds is a
  parameter. The parsing of the host name (\<open>net.ParseIP\<close>) and the delay between two sends are
  outside the model.
\<close>

section \<open>Starting\<close>

record Mailbox =
  mb_id :: int32
  mb_udpAddresses :: "(string \<times> int) list"
  mb_messageDelay :: int

text \<open>The answers of the system: \<open>net.ListenUDP\<close> and \<open>SetReadBuffer\<close>, for an address.\<close>

record sockets =
  sk_ListenUDP :: "string \<times> int \<Rightarrow> bool"
  sk_SetReadBuffer :: "string \<times> int \<Rightarrow> int \<Rightarrow> bool"

definition ReadBufferSize :: int where
  "ReadBufferSize = 2 ^ 20"

definition newMailbox :: "sockets \<Rightarrow> int32 \<Rightarrow> string list \<Rightarrow> int \<Rightarrow> Mailbox go" where
  "newMailbox sk ownId addresses messageDelay =
     go_bind (go_map read_address addresses) (\<lambda>udp.
     go_bind (go_index addresses (sint ownId)) (\<lambda>_.
     go_bind (go_index udp (sint ownId)) (\<lambda>own.
       if \<not> sk_ListenUDP sk own then Inl FatalExit
       else if \<not> sk_SetReadBuffer sk own ReadBufferSize then Inl FatalExit
       else Inr \<lparr>mb_id = ownId, mb_udpAddresses = udp, mb_messageDelay = messageDelay\<rparr>)))"

section \<open>The two goroutines\<close>

text \<open>A datagram is read into a buffer of 1024 bytes; the rest of a longer one is lost.\<close>

definition BufferSize :: nat where
  "BufferSize = 1024"

text \<open>
  The mailbox at work: whether its connection is open, what the listener has put on the read
  channel, and what the sender has given to the network.
\<close>

record mailbox_run = Mailbox +
  mb_open :: bool
  mb_readChannel :: "byte list list"
  mb_written :: "((string \<times> int) \<times> byte list) list"

definition mb_go :: "Mailbox \<Rightarrow> mailbox_run" where
  "mb_go m = \<lparr>mb_id = mb_id m, mb_udpAddresses = mb_udpAddresses m, mb_messageDelay = mb_messageDelay m,
     mb_open = True, mb_readChannel = [], mb_written = []\<rparr>"

text \<open>
  One turn of \<open>listenForMessages\<close>; \<open>None\<close> is an error of the read. The listener then returns and
  closes the connection (\<open>defer\<close>), which the sender goes on using.
\<close>

definition mb_listenForMessages :: "byte list option \<Rightarrow> mailbox_run \<Rightarrow> mailbox_run" where
  "mb_listenForMessages received m =
     (if \<not> mb_open m then m
      else case received of
        None \<Rightarrow> m\<lparr>mb_open := False\<rparr>
      | Some data \<Rightarrow> m\<lparr>mb_readChannel := mb_readChannel m @ [take BufferSize data]\<rparr>)"

text \<open>
  One turn of \<open>sendMessages\<close>; \<open>ok\<close> says whether the network takes the datagram. A write that fails, as
  every write on a closed connection does, is only logged.
\<close>

definition mb_sendMessages :: "bool \<Rightarrow> int32 \<times> byte list \<Rightarrow> mailbox_run \<Rightarrow> mailbox_run go" where
  "mb_sendMessages ok packet m = (case packet of (to, data) \<Rightarrow>
     go_bind (go_index (mb_udpAddresses m) (sint to)) (\<lambda>addr.
       Inr (if mb_open m \<and> ok then m\<lparr>mb_written := mb_written m @ [(addr, data)]\<rparr> else m)))"

text \<open>The turns of the two goroutines, in the order in which they happen.\<close>

datatype mailbox_event =
    Reads "byte list option"
  | Writes bool "int32 \<times> byte list"

definition mb_step :: "mailbox_run \<Rightarrow> mailbox_event \<Rightarrow> mailbox_run go" where
  "mb_step m e = (case e of
     Reads received \<Rightarrow> Inr (mb_listenForMessages received m)
   | Writes ok packet \<Rightarrow> mb_sendMessages ok packet m)"

abbreviation mb_serve :: "mailbox_run \<Rightarrow> mailbox_event list \<Rightarrow> mailbox_run go" where
  "mb_serve \<equiv> go_fold mb_step"

text \<open>What the events bring in and send out before the first failing read.\<close>

definition mb_before :: "mailbox_event list \<Rightarrow> mailbox_event list" where
  "mb_before es = takeWhile (\<lambda>e. e \<noteq> Reads None) es"

fun mb_arrived :: "mailbox_event list \<Rightarrow> byte list list" where
  "mb_arrived [] = []"
| "mb_arrived (Reads (Some data) # es) = data # mb_arrived es"
| "mb_arrived (e # es) = mb_arrived es"

fun mb_posted :: "mailbox_event list \<Rightarrow> (int32 \<times> byte list) list" where
  "mb_posted [] = []"
| "mb_posted (Writes True packet # es) = packet # mb_posted es"
| "mb_posted (e # es) = mb_posted es"

fun mb_targets :: "mailbox_event list \<Rightarrow> int list" where
  "mb_targets [] = []"
| "mb_targets (Writes ok (to, data) # es) = sint to # mb_targets es"
| "mb_targets (e # es) = mb_targets es"

lemmas mb_step_simps = mb_step_def mb_listenForMessages_def mb_sendMessages_def mb_before_def go_index_def

lemma mb_step_error: "mb_open m \<Longrightarrow> mb_step m (Reads None) = Inr (m\<lparr>mb_open := False\<rparr>)"
  by (simp add: mb_step_simps)

lemma mb_serve_closed:
  assumes "\<not> mb_open m" "\<forall>i\<in>set (mb_targets es). 0 \<le> i \<and> i < int (length (mb_udpAddresses m))"
  shows "mb_serve m es = Inr m"
  using assms(2) by (induction es rule: mb_targets.induct) (auto simp: mb_step_simps assms(1))

lemma mb_serve_open:
  assumes "mb_open m" "mb_udpAddresses m = udp" "\<forall>i\<in>set (mb_targets es). 0 \<le> i \<and> i < int (length udp)"
  shows "\<exists>m'. mb_serve m es = Inr m' \<and> (mb_open m' \<longleftrightarrow> Reads None \<notin> set es) \<and>
    mb_readChannel m' = mb_readChannel m @ map (take BufferSize) (mb_arrived (mb_before es)) \<and>
    mb_written m' = mb_written m @ map (\<lambda>(to, data). (udp ! nat (sint to), data)) (mb_posted (mb_before es))"
  using assms
proof (induction es arbitrary: m)
  case (Cons e es)
  show ?case
  proof (cases "e = Reads None")
    case True
    then have "mb_serve m (e # es) = Inr (m\<lparr>mb_open := False\<rparr>)"
      using Cons.prems mb_serve_closed[of "m\<lparr>mb_open := False\<rparr>" es] mb_step_error by simp
    then show ?thesis using True by (simp add: mb_before_def)
  next
    case False
    then obtain m1 where m1: "mb_step m e = Inr m1" "mb_open m1" "mb_udpAddresses m1 = udp"
      and chan: "mb_readChannel m1 = mb_readChannel m @ map (take BufferSize) (mb_arrived [e])"
      and net: "mb_written m1 = mb_written m @ map (\<lambda>(to, data). (udp ! nat (sint to), data)) (mb_posted [e])"
      using Cons.prems by (cases "[e]" rule: mb_posted.cases; cases e)
        (auto simp: mb_step_simps split: option.splits prod.splits)
    have "mb_targets [e] @ mb_targets es = mb_targets (e # es)" by (cases "[e]" rule: mb_targets.cases) auto
    then have "\<forall>i\<in>set (mb_targets es). 0 \<le> i \<and> i < int (length udp)" using Cons.prems(3) by (metis Un_iff set_append)
    then obtain m' where m': "mb_serve m1 es = Inr m'" "mb_open m' \<longleftrightarrow> Reads None \<notin> set es"
      "mb_readChannel m' = mb_readChannel m1 @ map (take BufferSize) (mb_arrived (mb_before es))"
      "mb_written m' = mb_written m1 @ map (\<lambda>(to, data). (udp ! nat (sint to), data)) (mb_posted (mb_before es))"
      using Cons.IH[OF m1(2,3)] by blast
    have "mb_before (e # es) = e # mb_before es" using False by (simp add: mb_before_def)
    moreover have "mb_arrived (e # mb_before es) = mb_arrived [e] @ mb_arrived (mb_before es)"
      by (cases "[e]" rule: mb_arrived.cases) auto
    moreover have "mb_posted (e # mb_before es) = mb_posted [e] @ mb_posted (mb_before es)"
      by (cases "[e]" rule: mb_posted.cases) auto
    ultimately show ?thesis using m' False by (intro exI[of _ m']) (simp add: m1(1) chan net)
  qed
qed (simp add: mb_before_def)

lemma mb_serve_outside:
  assumes "i \<in> set (mb_targets es)" "\<not> (0 \<le> i \<and> i < int (length (mb_udpAddresses m)))"
  shows "mb_serve m es = Inl IndexOutOfRange"
  using assms
proof (induction es arbitrary: m)
  case (Cons e es)
  show ?case
  proof (cases "mb_step m e")
    case (Inl f)
    then show ?thesis by (cases e) (auto simp: mb_step_simps split: if_splits prod.splits)
  next
    case (Inr m1)
    then have "mb_udpAddresses m1 = mb_udpAddresses m" "i \<in> set (mb_targets es)"
      using Cons.prems by (cases e; auto simp: mb_step_simps split: if_splits prod.splits option.splits)+
    then show ?thesis using Inr Cons by simp
  qed
qed simp

lemma mb_posted_targets: "(to, data) \<in> set (mb_posted (mb_before es)) \<Longrightarrow> sint to \<in> set (mb_targets es)"
  unfolding mb_before_def by (induction es rule: mb_posted.induct) (auto split: if_splits)

section \<open>Routing\<close>

lemma go_map_nth: "go_map f xs = Inr ys \<Longrightarrow> i < length xs \<Longrightarrow> f (xs ! i) = Inr (ys ! i)"
  by (induction xs arbitrary: ys i) (auto simp: go_simps nth_Cons split: nat.split)

lemma go_map_total: "(\<And>x. x \<in> set xs \<Longrightarrow> \<exists>y. f x = Inr y) \<Longrightarrow> \<exists>ys. go_map f xs = Inr ys"
  by (induction xs) fastforce+

lemma newMailbox_GeneratePids:
  assumes "nodeIps \<noteq> []" "\<forall>h\<in>set nodeIps. CHR '':'' \<notin> set h" "0 \<le> basePort" "basePort + n < 2 ^ 63"
    and "0 \<le> sint own" "sint own < n" and pids: "GeneratePids nodeIps basePort n = Inr pids"
    and udp: "udp = map (\<lambda>i. (nodeIps ! (i mod length nodeIps), basePort + int i)) [0..<nat n]"
  shows "length pids = nat n"
    and "newMailbox sk own pids delay = (let addr = udp ! nat (sint own) in
      if sk_ListenUDP sk addr \<and> sk_SetReadBuffer sk addr ReadBufferSize
      then Inr \<lparr>mb_id = own, mb_udpAddresses = udp, mb_messageDelay = delay\<rparr> else Inl FatalExit)"
proof -
  have n: "0 \<le> n" using assms(5,6) by linarith
  have p: "length pids = nat n"
    and read: "\<forall>i<nat n. read_address (pids ! i) = Inr (nodeIps ! (i mod length nodeIps), basePort + int i)"
    using GeneratePids_readable[OF assms(1-4) n] pids by auto
  show "length pids = nat n" by (rule p)
  have "go_map read_address pids = Inr (map (\<lambda>a. projr (read_address a)) pids)"
    by (rule go_map_Inr_I) (use read p in \<open>auto simp: in_set_conv_nth\<close>)
  moreover have "map (\<lambda>a. projr (read_address a)) pids = udp"
    unfolding udp by (rule nth_equalityI) (use read p in simp_all)
  moreover have "length udp = nat n" by (simp add: udp)
  ultimately show "newMailbox sk own pids delay = (let addr = udp ! nat (sint own) in
      if sk_ListenUDP sk addr \<and> sk_SetReadBuffer sk addr ReadBufferSize
      then Inr \<lparr>mb_id = own, mb_udpAddresses = udp, mb_messageDelay = delay\<rparr> else Inl FatalExit)"
    using p assms(5,6) by (simp add: newMailbox_def go_index_def Let_def)
qed

text \<open>
  C34: The mailbox on the addresses that \<open>GeneratePids\<close> makes. It starts exactly if the system
  lets it listen on the host of its node and port \<open>basePort\<close> plus its index, and stops the program
  otherwise. Whatever datagrams, packets and errors then come, in any order, the actor reads the
  datagrams that arrived before the first failing read, cut after 1024 bytes, and the packets
  for process \<open>i\<close> that the network took leave for the host of its node and port \<open>basePort + i\<close>. After
  a failing read nothing is received or sent any more, but the program does not stop. A packet for
  an index outside the system makes the sending goroutine panic.
\<close>

theorem mailbox_routes:
  assumes hosts: "nodeIps \<noteq> []" "\<forall>h\<in>set nodeIps. CHR '':'' \<notin> set h"
    and ports: "0 \<le> basePort" "basePort + n < 2 ^ 63" "0 \<le> sint own" "sint own < n"
    and pids: "GeneratePids nodeIps basePort n = Inr pids"
    and address: "address = (\<lambda>i. (nodeIps ! (nat i mod length nodeIps), basePort + i))"
  shows "if sk_ListenUDP sk (address (sint own)) \<and> sk_SetReadBuffer sk (address (sint own)) (2 ^ 20)
    then \<exists>m. newMailbox sk own pids delay = Inr m \<and>
      (\<forall>es. if \<forall>i\<in>set (mb_targets es). 0 \<le> i \<and> i < n
        then \<exists>m'. mb_serve (mb_go m) es = Inr m' \<and> (mb_open m' \<longleftrightarrow> Reads None \<notin> set es) \<and>
          mb_readChannel m' = map (take 1024) (mb_arrived (mb_before es)) \<and>
          mb_written m' = map (\<lambda>(to, data). (address (sint to), data)) (mb_posted (mb_before es))
        else mb_serve (mb_go m) es = Inl IndexOutOfRange)
    else newMailbox sk own pids delay = Inl FatalExit"
proof -
  define udp where "udp = map (\<lambda>i. (nodeIps ! (i mod length nodeIps), basePort + int i)) [0..<nat n]"
  have nth: "udp ! nat i = address i" if "0 \<le> i" "i < n" for i using that by (simp add: udp_def address)
  have len: "int (length udp) = n" using ports by (simp add: udp_def)
  let ?m = "\<lparr>mb_id = own, mb_udpAddresses = udp, mb_messageDelay = delay\<rparr>"
  have start: "newMailbox sk own pids delay =
      (if sk_ListenUDP sk (address (sint own)) \<and> sk_SetReadBuffer sk (address (sint own)) (2 ^ 20) then Inr ?m else Inl FatalExit)"
    using newMailbox_GeneratePids(2)[OF hosts ports pids udp_def] nth ports by (simp add: Let_def ReadBufferSize_def)
  have go: "mb_open (mb_go ?m)" "mb_udpAddresses (mb_go ?m) = udp" "mb_readChannel (mb_go ?m) = []" "mb_written (mb_go ?m) = []"
    by (simp_all add: mb_go_def)
  have "\<exists>m'. mb_serve (mb_go ?m) es = Inr m' \<and> (mb_open m' \<longleftrightarrow> Reads None \<notin> set es) \<and>
      mb_readChannel m' = map (take 1024) (mb_arrived (mb_before es)) \<and>
      mb_written m' = map (\<lambda>(to, data). (address (sint to), data)) (mb_posted (mb_before es))"
    if "\<forall>i\<in>set (mb_targets es). 0 \<le> i \<and> i < n" for es
  proof -
    have "udp ! nat (sint to) = address (sint to)" if "(to, data) \<in> set (mb_posted (mb_before es))" for to data
      using nth mb_posted_targets[OF that] \<open>\<forall>i\<in>set (mb_targets es). 0 \<le> i \<and> i < n\<close> by blast
    then have same: "map (\<lambda>(to, data). (udp ! nat (sint to), data)) (mb_posted (mb_before es)) =
        map (\<lambda>(to, data). (address (sint to), data)) (mb_posted (mb_before es))"
      by (intro map_cong) auto
    have "\<forall>i\<in>set (mb_targets es). 0 \<le> i \<and> i < int (length udp)" using that len by simp
    from mb_serve_open[OF go(1,2) this] show ?thesis unfolding same go BufferSize_def append_Nil .
  qed
  moreover have "mb_serve (mb_go ?m) es = Inl IndexOutOfRange" if "\<not> (\<forall>i\<in>set (mb_targets es). 0 \<le> i \<and> i < n)" for es
    using that mb_serve_outside[of _ es "mb_go ?m"] by (auto simp: go len)
  ultimately show ?thesis using start by auto
qed

text \<open>Three processes on two hosts; the last packet is lost on the closed connection.\<close>

definition mb_sample :: sockets where
  "mb_sample = \<lparr>sk_ListenUDP = (\<lambda>a. True), sk_SetReadBuffer = (\<lambda>a k. k \<le> 2 ^ 20)\<rparr>"

lemma mailbox_routes_witness:
  "\<exists>m m'. newMailbox mb_sample 0 [''10.0.0.1:80'', ''10.0.0.2:81'', ''10.0.0.1:82''] 0 = Inr m \<and>
    mb_serve (mb_go m) [Writes True (2, [7]), Reads (Some [1]), Reads None, Writes True (1, [8])] = Inr m' \<and>
    mb_written m' = [((''10.0.0.1'', 82), [7])] \<and> mb_readChannel m' = [[1]] \<and> \<not> mb_open m' \<and>
    mb_serve (mb_go m) [Writes True (3, [7])] = Inl IndexOutOfRange"
proof -
  let ?address = "\<lambda>i. ([''10.0.0.1'', ''10.0.0.2''] ! (nat i mod length [''10.0.0.1'', ''10.0.0.2'']), 80 + i)"
  have g: "GeneratePids [''10.0.0.1'', ''10.0.0.2''] 80 3 = Inr [''10.0.0.1:80'', ''10.0.0.2:81'', ''10.0.0.1:82'']"
    by code_simp
  have sk: "sk_ListenUDP mb_sample a" "sk_SetReadBuffer mb_sample a (2 ^ 20)" for a by (simp_all add: mb_sample_def)
  obtain m where m: "newMailbox mb_sample 0 [''10.0.0.1:80'', ''10.0.0.2:81'', ''10.0.0.1:82''] 0 = Inr m"
    and r: "\<And>es. if \<forall>i\<in>set (mb_targets es). 0 \<le> i \<and> i < 3
        then \<exists>m'. mb_serve (mb_go m) es = Inr m' \<and> (mb_open m' \<longleftrightarrow> Reads None \<notin> set es) \<and>
          mb_readChannel m' = map (take 1024) (mb_arrived (mb_before es)) \<and>
          mb_written m' = map (\<lambda>(to, data). (?address (sint to), data)) (mb_posted (mb_before es))
        else mb_serve (mb_go m) es = Inl IndexOutOfRange"
    using mailbox_routes[where own = "0 :: int32" and sk = mb_sample and delay = 0, OF _ _ _ _ _ _ g refl] sk by auto
  show ?thesis
    using m r[of "[Writes True (2, [7]), Reads (Some [1]), Reads None, Writes True (1, [8])]"] r[of "[Writes True (3, [7])]"]
    by (auto simp: mb_before_def mod_self numeral_2_eq_2[symmetric])
qed

end
