(* ===== verification/Actor.thy ===== *)
theory Actor
  imports Mailbox "HOL-Library.Multiset"
begin

text \<open>
  \<open>simulation/actor/actor.go\<close>: the receive loop of an actor. It drops what does not parse, drops a
  message whose sender and stamp it has seen, and hands every other message to its instance, the
  main server or a node. Locale \<open>actor_instance\<close> is the interface \<open>ActorInstance\<close>.
\<close>

section \<open>The receive loop\<close>

record 'a Actor =
  ac_receivedMessages :: "bool map2"
  ac_mailbox :: Mailbox
  ac_instance :: 'a
  ac_log :: "log_entry list"

text \<open>\<open>start\<close> is the instance's method \<open>Start\<close>, which gets the new context.\<close>

definition ac_InitActor ::
  "sockets \<Rightarrow> int32 \<Rightarrow> string list \<Rightarrow> (ReliableContext \<Rightarrow> 'a go) \<Rightarrow> int \<Rightarrow> int \<Rightarrow> 'a Actor go" where
  "ac_InitActor sk processIndex nodeAddresses start retransmissionTimeoutNs messageDelay =
     go_bind (newMailbox sk processIndex nodeAddresses messageDelay) (\<lambda>mailbox.
     go_bind (start (NewReliableContext processIndex retransmissionTimeoutNs)) (\<lambda>i.
       Inr \<lparr>ac_receivedMessages = make_maps (length nodeAddresses), ac_mailbox = mailbox,
            ac_instance = i, ac_log = []\<rparr>))"

text \<open>One turn of \<open>receiveMessages\<close>; the second result is the message handed on, if any.\<close>

definition ac_receive ::
  "(byte list \<Rightarrow> Message option) \<Rightarrow> ('a \<Rightarrow> Message \<Rightarrow> 'a go) \<Rightarrow> 'a Actor \<Rightarrow> byte list \<Rightarrow>
   ('a Actor \<times> Message option) go" where
  "ac_receive unmarshal process a data = (case unmarshal data of
     None \<Rightarrow> Inr (a, None)
   | Some m \<Rightarrow>
       let a1 = a\<lparr>ac_log := ac_log a @ [OnMessageReceived (Sender m) (Stamp m)]\<rparr> in
       if lookup2 (ac_receivedMessages a1) (Sender m) (Stamp m) = Some True then Inr (a1, None)
       else go_bind (assign2 (ac_receivedMessages a1) (Sender m) (Stamp m) True) (\<lambda>rm.
            go_bind (process (ac_instance a1) m) (\<lambda>i.
              Inr (a1\<lparr>ac_receivedMessages := rm, ac_instance := i\<rparr>, Some m))))"

text \<open>The loop over the data that arrives on the channel, with the messages handed on.\<close>

fun ac_receiveMessages ::
  "(byte list \<Rightarrow> Message option) \<Rightarrow> ('a \<Rightarrow> Message \<Rightarrow> 'a go) \<Rightarrow> 'a Actor \<Rightarrow> byte list list \<Rightarrow>
   ('a Actor \<times> Message list) go" where
  "ac_receiveMessages unmarshal process a [] = Inr (a, [])"
| "ac_receiveMessages unmarshal process a (data # ds) =
     go_bind (ac_receive unmarshal process a data) (\<lambda>(a', handled).
     go_bind (ac_receiveMessages unmarshal process a' ds) (\<lambda>(a'', ms).
       Inr (a'', (case handled of None \<Rightarrow> ms | Some m \<Rightarrow> m # ms))))"

section \<open>Each message once\<close>

definition msg_key :: "Message \<Rightarrow> int32 \<times> int32" where
  "msg_key m = (Sender m, Stamp m)"

text \<open>The keys an actor has marked as received.\<close>

definition ac_seen :: "'a Actor \<Rightarrow> (int32 \<times> int32) set" where
  "ac_seen a = {(s, k). lookup2 (ac_receivedMessages a) s k = Some True}"

lemma ac_receive_cases:
  assumes "ac_receive unmarshal process a data = Inr (a', handled)"
  obtains (garbage) "unmarshal data = None" "a' = a" "handled = None"
  | (again) m where "unmarshal data = Some m" "msg_key m \<in> ac_seen a" "handled = None"
      "ac_instance a' = ac_instance a" "ac_seen a' = ac_seen a"
      "dom (ac_receivedMessages a') = dom (ac_receivedMessages a)"
  | (fresh) m where "unmarshal data = Some m" "msg_key m \<notin> ac_seen a" "handled = Some m"
      "process (ac_instance a) m = Inr (ac_instance a')" "ac_seen a' = insert (msg_key m) (ac_seen a)"
      "dom (ac_receivedMessages a') = dom (ac_receivedMessages a)"
proof (cases "unmarshal data")
  case None
  then show ?thesis using assms garbage by (simp add: ac_receive_def)
next
  case (Some m)
  show ?thesis
  proof (cases "msg_key m \<in> ac_seen a")
    case True
    then show ?thesis using assms Some again[OF Some True]
      by (auto simp: ac_receive_def Let_def ac_seen_def msg_key_def)
  next
    case False
    then obtain rm i where rm: "assign2 (ac_receivedMessages a) (Sender m) (Stamp m) True = Inr rm"
      and i: "process (ac_instance a) m = Inr i" and h: "handled = Some m"
      and a': "ac_receivedMessages a' = rm" "ac_instance a' = i"
      using assms Some by (auto simp: ac_receive_def Let_def ac_seen_def msg_key_def go_simps split: if_splits)
    have "ac_seen a' = insert (msg_key m) (ac_seen a)"
      using a'(1) assign2_lookup[OF rm] by (auto simp: ac_seen_def msg_key_def)
    then show ?thesis using fresh[OF Some False h] i a' assign2_dom[OF rm] by simp
  qed
qed

text \<open>The messages in the data that parse.\<close>

definition parsed :: "(byte list \<Rightarrow> Message option) \<Rightarrow> byte list list \<Rightarrow> Message list" where
  "parsed unmarshal ds = concat (map (\<lambda>d. case unmarshal d of None \<Rightarrow> [] | Some m \<Rightarrow> [m]) ds)"

lemma ac_receiveMessages_once:
  assumes "ac_receiveMessages unmarshal process a ds = Inr (a', ms)"
  shows "distinct (map msg_key ms) \<and> set ms \<subseteq> set (parsed unmarshal ds) \<and>
    msg_key ` set ms \<inter> ac_seen a = {} \<and> ac_seen a' = ac_seen a \<union> msg_key ` set ms \<and>
    msg_key ` set (parsed unmarshal ds) \<subseteq> ac_seen a'"
  using assms
proof (induction ds arbitrary: a ms)
  case Nil
  then show ?case by (simp add: parsed_def)
next
  case (Cons d ds)
  obtain a1 handled ms1 where r: "ac_receive unmarshal process a d = Inr (a1, handled)"
    and rest: "ac_receiveMessages unmarshal process a1 ds = Inr (a', ms1)"
    and ms: "ms = (case handled of None \<Rightarrow> ms1 | Some m \<Rightarrow> m # ms1)"
    using Cons.prems by (auto simp: go_simps)
  note ih = Cons.IH[OF rest]
  have p: "parsed unmarshal (d # ds) = (case unmarshal d of None \<Rightarrow> [] | Some m \<Rightarrow> [m]) @ parsed unmarshal ds"
    by (simp add: parsed_def)
  from r show ?case
  proof (cases rule: ac_receive_cases)
    case garbage
    then show ?thesis using ih by (auto simp: ms p)
  next
    case (again m)
    then show ?thesis using ih by (auto simp: ms p)
  next
    case (fresh m)
    then show ?thesis using ih by (auto simp: ms p)
  qed
qed

section \<open>The interface of the instances\<close>

text \<open>
  What the loop relies on: processing a message only extends what the instance's context has
  sent, under the context's own identity and with the next stamps.
\<close>

locale actor_instance =
  fixes marshal :: "Message \<Rightarrow> byte list option"
    and process :: "'a \<Rightarrow> Message \<Rightarrow> 'a go"
    and context_of :: "'a \<Rightarrow> ReliableContext"
  assumes process_extends: "process i m = Inr i' \<Longrightarrow> \<exists>cs. cx_extends marshal cs (context_of i) (context_of i')"
begin

lemma run_extends:
  "ac_receiveMessages unmarshal process a ds = Inr (a', ms) \<Longrightarrow>
   \<exists>cs. cx_extends marshal cs (context_of (ac_instance a)) (context_of (ac_instance a'))"
proof (induction ds arbitrary: a ms)
  case (Cons d ds)
  obtain a1 handled ms1 where r: "ac_receive unmarshal process a d = Inr (a1, handled)"
    and rest: "ac_receiveMessages unmarshal process a1 ds = Inr (a', ms1)"
    using Cons.prems by (auto simp: go_simps)
  from r have "\<exists>cs. cx_extends marshal cs (context_of (ac_instance a)) (context_of (ac_instance a1))"
    by (cases rule: ac_receive_cases) (auto intro: process_extends cx_extends_refl)
  with Cons.IH[OF rest] show ?case using cx_extends_trans by metis
qed auto

end

section \<open>Properties\<close>

text \<open>
  C30: Exactly once. When the data an actor receives contain, from process \<open>s\<close>, exactly the
  messages one context made for the contents \<open>cs\<close> (in any order, any number of copies each, mixed
  with garbage and with other senders' messages), the loop hands each of them to its instance
  exactly once, as long as the 32-bit stamp has not wrapped around.
\<close>

theorem actor_exactly_once:
  assumes start: "ac_InitActor sk own addresses start timeout delay = Inr a"
    and run: "ac_receiveMessages unmarshal process a ds = Inr (a', ms)"
    and data: "{m \<in> set (parsed unmarshal ds). Sender m = s} = snd ` set (stamped s k cs)"
    and bound: "length cs \<le> 2 ^ 32"
  shows "distinct (filter (\<lambda>m. Sender m = s) ms) \<and>
    mset (filter (\<lambda>m. Sender m = s) ms) = mset (map snd (stamped s k cs))"
proof -
  have seen: "ac_seen a = {}" using start by (auto simp: ac_seen_def ac_InitActor_def go_simps)
  note once = ac_receiveMessages_once[OF run, unfolded seen]
  have keys: "distinct (map msg_key (map snd (stamped s k cs)))"
  proof -
    have "map msg_key (map snd (stamped s k cs)) = map (\<lambda>(to, m). (Sender m, Stamp m)) (stamped s k cs)"
      by (simp add: msg_key_def case_prod_beta)
    then show ?thesis using stamped_distinct[OF bound, of s k] by (simp only:)
  qed
  have d1: "distinct (filter (\<lambda>m. Sender m = s) ms)" using once by (simp add: distinct_map)
  have "set (filter (\<lambda>m. Sender m = s) ms) = snd ` set (stamped s k cs)"
  proof (rule equalityI; rule subsetI)
    fix m assume "m \<in> set (filter (\<lambda>m. Sender m = s) ms)"
    then show "m \<in> snd ` set (stamped s k cs)" using once data by auto
  next
    fix m assume m: "m \<in> snd ` set (stamped s k cs)"
    then have p: "m \<in> set (parsed unmarshal ds)" "Sender m = s" using data by blast+
    then obtain m' where m': "m' \<in> set ms" "msg_key m' = msg_key m" using once by (metis (no_types, lifting) Un_empty_left image_iff subsetD imageI)
    then have "m' \<in> snd ` set (stamped s k cs)" using once data p(2) by (auto simp: msg_key_def)
    then have "m' = m" using keys m m'(2) by (auto simp: distinct_map inj_on_def)
    then show "m \<in> set (filter (\<lambda>m. Sender m = s) ms)" using m'(1) p(2) by simp
  qed
  moreover have "distinct (map snd (stamped s k cs))" using keys distinct_map by blast
  ultimately have "mset (filter (\<lambda>m. Sender m = s) ms) = mset (map snd (stamped s k cs))"
    using set_eq_iff_mset_eq_distinct[OF d1, of "map snd (stamped s k cs)"] by (metis list.set_map)
  then show ?thesis using d1 by blast
qed

text \<open>A closed example: two messages of process 0, the second one received twice and first.\<close>

definition ac_two :: "(int32 \<times> Message) list" where
  "ac_two = stamped 0 0 [(1, StartedContent), (1, SimulateContent)]"

definition ac_code :: "byte list \<Rightarrow> Message option" where
  "ac_code d = (if d = [0] then Some (snd (ac_two ! 0)) else if d = [1] then Some (snd (ac_two ! 1)) else None)"

definition ac_start :: "unit Actor" where
  "ac_start = \<lparr>ac_receivedMessages = make_maps 2,
     ac_mailbox = \<lparr>mb_id = 1, mb_udpAddresses = [(''a'', 1), (''b'', 2)], mb_messageDelay = 0\<rparr>,
     ac_instance = (), ac_log = []\<rparr>"

lemma ac_start_init: "ac_InitActor mb_sample 1 [''a:1'', ''b:2''] (\<lambda>c. Inr ()) 0 0 = Inr ac_start"
proof -
  have "newMailbox mb_sample 1 [''a:1'', ''b:2''] 0 = Inr \<lparr>mb_id = 1, mb_udpAddresses = [(''a'', 1), (''b'', 2)], mb_messageDelay = 0\<rparr>"
    by code_simp
  then show ?thesis by (simp add: ac_InitActor_def ac_start_def numeral_2_eq_2)
qed

theorem actor_exactly_once_witness:
  "\<exists>a' ms. ac_receiveMessages ac_code (\<lambda>u m. Inr u) ac_start [[1], [9], [0], [1]] = Inr (a', ms) \<and>
    mset (filter (\<lambda>m. Sender m = 0) ms) = mset (map snd ac_two)"
proof -
  let ?r = "ac_receiveMessages ac_code (\<lambda>u m. Inr u) ac_start [[1], [9], [0], [1]]"
  have "map_sum id (\<lambda>(a, ms). length ms) ?r = Inr 2" by code_simp
  then obtain a' ms where r: "?r = Inr (a', ms)" by (cases ?r) auto
  have "{m \<in> set (parsed ac_code [[1], [9], [0], [1]]). Sender m = 0} = snd ` set ac_two"
    by (auto simp: parsed_def ac_code_def ac_two_def)
  from actor_exactly_once[OF ac_start_init r this[unfolded ac_two_def]] r show ?thesis by (simp add: ac_two_def)
qed

text \<open>
  C36: A message whose sender and stamp were already seen is dropped whatever it contains,
  and a message whose sender is not among the actor's addresses makes the loop assign to a nil
  map: any process that can send a packet can stop the actor.
\<close>

theorem actor_drops_or_panics:
  assumes "unmarshal data = Some m"
  shows "(msg_key m \<in> ac_seen a \<longrightarrow> (\<exists>a'. ac_receive unmarshal process a data = Inr (a', None) \<and>
      ac_instance a' = ac_instance a \<and> ac_seen a' = ac_seen a)) \<and>
    (Sender m \<notin> dom (ac_receivedMessages a) \<longrightarrow> ac_receive unmarshal process a data = Inl NilMapAssign)"
proof -
  have "lookup2 (ac_receivedMessages a) (Sender m) (Stamp m) = None" "assign2 (ac_receivedMessages a) (Sender m) (Stamp m) True = Inl NilMapAssign"
    if "Sender m \<notin> dom (ac_receivedMessages a)"
    using that lookup2_dom[of "ac_receivedMessages a" "Sender m" "Stamp m"]
    by (auto simp: assign2_def dom_def) (metis not_None_eq)
  then show ?thesis using assms by (auto simp: ac_receive_def Let_def ac_seen_def msg_key_def)
qed

theorem actor_drops_or_panics_witness:
  "ac_receive (\<lambda>d. Some \<lparr>Sender = 2, Stamp = 0, RetransmissionStamp = 0, Content = UnsetContent\<rparr>) (\<lambda>u m. Inr u)
     ac_start [] = Inl NilMapAssign"
proof -
  have "(2 :: int32) \<notin> set (procs 2)" by code_simp
  then have "2 \<notin> dom (ac_receivedMessages ac_start)"
    by (simp add: ac_start_def numeral_2_eq_2)
  then show ?thesis
    using actor_drops_or_panics[of "\<lambda>d. Some \<lparr>Sender = 2, Stamp = 0, RetransmissionStamp = 0, Content = UnsetContent\<rparr>"
        "[]" "\<lparr>Sender = 2, Stamp = 0, RetransmissionStamp = 0, Content = UnsetContent\<rparr>"
        ac_start "\<lambda>u m. Inr u"] by simp
qed

end
