(* ===== verification/Main_Server.thy ===== *)
theory Main_Server
  imports Actor
begin

text \<open>
  \<open>simulation/mainserver/server.go\<close>: the actor that waits until every process has sent it a
  message and then tells all of them to start. Any message counts, and once all are connected
  every further message starts the simulation again.
\<close>

section \<open>The server\<close>

record MainServer =
  ms_n :: int
  ms_context :: ReliableContext
  ms_connectedNodes :: "int32 set"
  ms_log :: "log_entry list"

definition ms_Start :: "int \<Rightarrow> ReliableContext \<Rightarrow> MainServer" where
  "ms_Start n c = \<lparr>ms_n = n, ms_context = c, ms_connectedNodes = {}, ms_log = []\<rparr>"

definition ms_simulate :: "(Message \<Rightarrow> byte list option) \<Rightarrow> MainServer \<Rightarrow> MainServer" where
  "ms_simulate marshal s = s\<lparr>ms_context :=
     fold (\<lambda>pid. cx_post marshal (of_nat pid) SimulateContent) [0..<nat (ms_n s)] (ms_context s)\<rparr>"

definition ms_ProcessMessage :: "(Message \<Rightarrow> byte list option) \<Rightarrow> MainServer \<Rightarrow> Message \<Rightarrow> MainServer go" where
  "ms_ProcessMessage marshal s m =
     (let s1 = s\<lparr>ms_connectedNodes := insert (Sender m) (ms_connectedNodes s)\<rparr> in
      if int (card (ms_connectedNodes s1)) = ms_n s1
      then Inr (ms_simulate marshal (s1\<lparr>ms_log := ms_log s1 @ [OnBroadcastStart]\<rparr>))
      else Inr s1)"

fun ms_run :: "(Message \<Rightarrow> byte list option) \<Rightarrow> MainServer \<Rightarrow> Message list \<Rightarrow> MainServer go" where
  "ms_run marshal s [] = Inr s"
| "ms_run marshal s (m # ms) = go_bind (ms_ProcessMessage marshal s m) (\<lambda>s'. ms_run marshal s' ms)"

section \<open>Rounds\<close>

text \<open>One round of the simulation: a message to every process.\<close>

definition ms_round :: "int \<Rightarrow> (int32 \<times> Message_Content) list" where
  "ms_round n = map (\<lambda>pid. (of_nat pid, SimulateContent)) [0..<nat n]"

text \<open>The messages after which the connected senders number exactly \<open>n\<close>.\<close>

fun ms_rounds :: "int \<Rightarrow> int32 set \<Rightarrow> int32 list \<Rightarrow> nat" where
  "ms_rounds n C [] = 0"
| "ms_rounds n C (x # xs) = (if int (card (insert x C)) = n then 1 else 0) + ms_rounds n (insert x C) xs"

lemma ms_simulate_extends: "cx_extends marshal (ms_round (ms_n s)) (ms_context s) (ms_context (ms_simulate marshal s))"
  using cx_posts_extends[of marshal "\<lambda>pid. of_nat pid" "\<lambda>_. SimulateContent" "[0..<nat (ms_n s)]" "ms_context s"]
  by (simp add: ms_simulate_def ms_round_def)

lemma ms_ProcessMessage_extends:
  "\<exists>s'. ms_ProcessMessage marshal s m = Inr s' \<and> ms_n s' = ms_n s \<and>
    ms_connectedNodes s' = insert (Sender m) (ms_connectedNodes s) \<and>
    cx_extends marshal (if int (card (insert (Sender m) (ms_connectedNodes s))) = ms_n s then ms_round (ms_n s) else [])
      (ms_context s) (ms_context s')"
  using ms_simulate_extends[of marshal
      "s\<lparr>ms_connectedNodes := insert (Sender m) (ms_connectedNodes s), ms_log := ms_log s @ [OnBroadcastStart]\<rparr>"]
  by (auto simp: ms_ProcessMessage_def Let_def ms_simulate_def)

interpretation main_server: actor_instance marshal "ms_ProcessMessage marshal" ms_context for marshal
proof unfold_locales
  fix s s' :: MainServer and m
  assume "ms_ProcessMessage marshal s m = Inr s'"
  then show "\<exists>cs. cx_extends marshal cs (ms_context s) (ms_context s')"
    using ms_ProcessMessage_extends[of marshal s m] by auto
qed

lemma ms_run_extends:
  "\<exists>s'. ms_run marshal s ms = Inr s' \<and>
    ms_n s' = ms_n s \<and> ms_connectedNodes s' = ms_connectedNodes s \<union> Sender ` set ms \<and>
    cx_extends marshal (concat (replicate (ms_rounds (ms_n s) (ms_connectedNodes s) (map Sender ms)) (ms_round (ms_n s))))
      (ms_context s) (ms_context s')"
proof (induction ms arbitrary: s)
  case (Cons m ms)
  obtain s1 where s1: "ms_ProcessMessage marshal s m = Inr s1" "ms_n s1 = ms_n s"
    "ms_connectedNodes s1 = insert (Sender m) (ms_connectedNodes s)"
    "cx_extends marshal (if int (card (insert (Sender m) (ms_connectedNodes s))) = ms_n s then ms_round (ms_n s) else [])
      (ms_context s) (ms_context s1)" using ms_ProcessMessage_extends by blast
  obtain s' where s': "ms_run marshal s1 ms = Inr s'" "ms_n s' = ms_n s"
    "ms_connectedNodes s' = ms_connectedNodes s1 \<union> Sender ` set ms"
    "cx_extends marshal (concat (replicate (ms_rounds (ms_n s) (ms_connectedNodes s1) (map Sender ms)) (ms_round (ms_n s))))
      (ms_context s1) (ms_context s')" using Cons.IH[of s1] s1(2) by auto
  show ?case using cx_extends_trans[OF s1(4) s'(4)] s1(1,3) s'(1-3) by (auto split: if_splits)
qed auto

text \<open>Different senders make one round, after the last of them.\<close>

lemma ms_rounds_distinct:
  "distinct xs \<Longrightarrow> set xs \<inter> C = {} \<Longrightarrow> finite C \<Longrightarrow>
   ms_rounds n C xs = (if int (card C) < n \<and> n \<le> int (card C + length xs) then 1 else 0)"
proof (induction xs arbitrary: C)
  case (Cons x xs)
  have c: "card (insert x C) = Suc (card C)" using Cons.prems by simp
  have "ms_rounds n (insert x C) xs =
      (if int (Suc (card C)) < n \<and> n \<le> int (Suc (card C) + length xs) then 1 else 0)"
    using Cons.IH[of "insert x C"] Cons.prems c by auto
  then show ?case by (simp add: c del: card_insert_disjoint)
qed auto

section \<open>Properties\<close>

text \<open>
  C33: When \<open>n\<close> different processes have sent the server one message each, it has sent every
  process exactly one Simulate message, in order of index, and nothing before the last of them
  connected.
\<close>

theorem main_server_starts:
  assumes "distinct (map Sender ms)" "length ms = n" "0 < n"
  shows "\<exists>s'. ms_run marshal (ms_Start (int n) c) ms = Inr s' \<and>
    cx_extends marshal (ms_round (int n)) c (ms_context s') \<and>
    (\<forall>k<n. \<exists>s. ms_run marshal (ms_Start (int n) c) (take k ms) = Inr s \<and> cx_extends marshal [] c (ms_context s))"
proof -
  have rounds: "ms_rounds (int n) {} (map Sender (take k ms)) = (if k < n then 0 else 1)" for k
    using ms_rounds_distinct[of "map Sender (take k ms)" "{}" "int n"] assms
    by (simp add: take_map[symmetric])
  have start: "ms_n (ms_Start (int n) c) = int n" "ms_connectedNodes (ms_Start (int n) c) = {}"
    "ms_context (ms_Start (int n) c) = c" by (simp_all add: ms_Start_def)
  have run: "\<exists>s. ms_run marshal (ms_Start (int n) c) (take k ms) = Inr s \<and>
      cx_extends marshal (if k < n then [] else ms_round (int n)) c (ms_context s)" for k
    using ms_run_extends[of marshal "ms_Start (int n) c" "take k ms"] unfolding start rounds
    by (cases "k < n") auto
  have "\<forall>k<n. \<exists>s. ms_run marshal (ms_Start (int n) c) (take k ms) = Inr s \<and> cx_extends marshal [] c (ms_context s)"
  proof (intro allI impI)
    fix k assume "k < n"
    then show "\<exists>s. ms_run marshal (ms_Start (int n) c) (take k ms) = Inr s \<and> cx_extends marshal [] c (ms_context s)"
      using run[of k] by simp
  qed
  then show ?thesis using run[of n] assms(2) by auto
qed

theorem main_server_starts_witness:
  "\<exists>s'. ms_run (\<lambda>_. Some []) (ms_Start 2 (NewReliableContext 2 0))
      (map (\<lambda>i. \<lparr>Sender = i, Stamp = 0, RetransmissionStamp = 0, Content = StartedContent\<rparr>) [1, 0]) = Inr s' \<and>
    cx_extends (\<lambda>_. Some []) (ms_round 2) (NewReliableContext 2 0) (ms_context s')"
  using main_server_starts[of "map (\<lambda>i. \<lparr>Sender = i, Stamp = 0, RetransmissionStamp = 0, Content = StartedContent\<rparr>) [1, 0]" 2
      "\<lambda>_. Some []" "NewReliableContext 2 0"] by auto

text \<open>
  C37: Every further message, of whatever content, from a process that is already connected
  makes the server start the simulation once more.
\<close>

theorem main_server_restarts:
  assumes "int (card (ms_connectedNodes s)) = ms_n s" "Sender m \<in> ms_connectedNodes s"
  shows "\<exists>s'. ms_ProcessMessage marshal s m = Inr s' \<and> ms_connectedNodes s' = ms_connectedNodes s \<and>
    cx_extends marshal (ms_round (ms_n s)) (ms_context s) (ms_context s')"
proof -
  have "insert (Sender m) (ms_connectedNodes s) = ms_connectedNodes s" using assms(2) by (rule insert_absorb)
  then show ?thesis using ms_ProcessMessage_extends[of marshal s m] assms(1) by auto
qed

theorem main_server_restarts_witness:
  "\<exists>s'. ms_ProcessMessage (\<lambda>_. Some []) \<lparr>ms_n = 1, ms_context = NewReliableContext 1 0, ms_connectedNodes = {0}, ms_log = []\<rparr>
      \<lparr>Sender = 0, Stamp = 7, RetransmissionStamp = 0, Content = UnsetContent\<rparr> = Inr s' \<and>
    cx_extends (\<lambda>_. Some []) (ms_round 1) (NewReliableContext 1 0) (ms_context s')"
  using main_server_restarts[of "\<lparr>ms_n = 1, ms_context = NewReliableContext 1 0, ms_connectedNodes = {0}, ms_log = []\<rparr>"
      "\<lparr>Sender = 0, Stamp = 7, RetransmissionStamp = 0, Content = UnsetContent\<rparr>" "\<lambda>_. Some []"]
  by auto

end
