(* ===== verification/Node.thy ===== *)
theory Node
  imports Actor Process_Interface
begin

text \<open>
  \<open>simulation/node/node.go\<close>: the actor that runs a protocol process. The process is a parameter, as
  the interface \<open>protocols.Process\<close> is in the source: its constructor, \<open>HandleMessage\<close> and
  \<open>Broadcast\<close>. The goroutine \<open>simulate\<close> runs as steps of its own; \<open>draws\<close> are the values of
  \<open>rand.Int()\<close>, and \<open>nd_ownDelivered\<close> counts the tokens in the channel of that name.
\<close>

section \<open>The node\<close>

record 'p Node =
  nd_processIndex :: int32
  nd_pids :: "string list"
  nd_parameters :: Parameters
  nd_transactionsToSendOut :: int
  nd_process :: 'p
  nd_ownDelivered :: nat
  nd_stressTest :: bool
  nd_context :: ReliableContext
  nd_log :: "log_entry list"
  nd_simulations :: nat   \<comment> \<open>goroutines running \<open>simulate\<close>\<close>
  nd_effects :: "effect list"   \<comment> \<open>what the process has done so far\<close>

text \<open>Carrying out what a protocol step does: messages, log entries, tokens.\<close>

definition nd_apply :: "(Message \<Rightarrow> byte list option) \<Rightarrow> 'p Node \<Rightarrow> 'p \<times> effect list \<Rightarrow> 'p Node" where
  "nd_apply marshal nd r = (case r of (p, es) \<Rightarrow>
     nd\<lparr>nd_process := p, nd_context := cx_perform marshal es (nd_context nd),
        nd_ownDelivered := nd_ownDelivered nd + length (filter (\<lambda>e. e = OwnDelivered) es),
        nd_effects := nd_effects nd @ es\<rparr>)"

text \<open>
  \<open>Start\<close>: the last address is the main server's. With no address at all the slice bound is
  negative.
\<close>

definition nd_Start ::
  "(Message \<Rightarrow> byte list option) \<Rightarrow> (int32 \<Rightarrow> string list \<Rightarrow> Parameters \<Rightarrow> bool \<Rightarrow> 'p go) \<Rightarrow>
   int32 \<Rightarrow> string list \<Rightarrow> Parameters \<Rightarrow> int \<Rightarrow> bool \<Rightarrow> ReliableContext \<Rightarrow> 'p Node go" where
  "nd_Start marshal init processIndex pids parameters transactions stressTest c =
     (if pids = [] then Inl IndexOutOfRange
      else let mainServerAddr = length pids - 1 in
        go_bind (init processIndex (take mainServerAddr pids) parameters stressTest) (\<lambda>p.
          Inr \<lparr>nd_processIndex = processIndex, nd_pids = pids, nd_parameters = parameters,
            nd_transactionsToSendOut = transactions, nd_process = p, nd_ownDelivered = 0,
            nd_stressTest = stressTest,
            nd_context = cx_post marshal (of_nat mainServerAddr) StartedContent c,
            nd_log = [], nd_simulations = 0, nd_effects = []\<rparr>))"

definition nd_doBroadcast :: "(Message \<Rightarrow> byte list option) \<Rightarrow> nat \<Rightarrow> 'p Node \<Rightarrow> 'p Node" where
  "nd_doBroadcast marshal draw nd = nd\<lparr>nd_context :=
     cx_post marshal (nd_processIndex nd)
       (BroadcastContent \<lparr>Value = of_nat (draw mod 1000000), XHash = 0\<rparr>) (nd_context nd)\<rparr>"

definition nd_ProcessMessage ::
  "(Message \<Rightarrow> byte list option) \<Rightarrow> ('p \<Rightarrow> int32 \<Rightarrow> BroadcastInstanceMessage \<Rightarrow> ('p \<times> effect list) go) \<Rightarrow>
   ('p \<Rightarrow> int32 \<Rightarrow> ('p \<times> effect list) go) \<Rightarrow> 'p Node \<Rightarrow> Message \<Rightarrow> 'p Node go" where
  "nd_ProcessMessage marshal handle broadcast nd m =
     (case Content m of
        BroadcastContent bc \<Rightarrow> go_bind (broadcast (nd_process nd) (Value bc)) (\<lambda>r. Inr (nd_apply marshal nd r))
      | SimulateContent \<Rightarrow> Inr (nd\<lparr>nd_log := nd_log nd @ [OnSimulationStart], nd_simulations := Suc (nd_simulations nd)\<rparr>)
      | BroadcastInstanceContent bm \<Rightarrow>
          go_bind (handle (nd_process nd) (Sender m) bm) (\<lambda>r. Inr (nd_apply marshal nd r))
      | _ \<Rightarrow> Inr nd)"

text \<open>
  The goroutine: a burst of \<open>transactionsToSendOut\<close> requests, or one request and then one more
  for every own transaction that is delivered.
\<close>

definition nd_simulate :: "(Message \<Rightarrow> byte list option) \<Rightarrow> (nat \<Rightarrow> nat) \<Rightarrow> 'p Node \<Rightarrow> 'p Node" where
  "nd_simulate marshal draws nd =
     (if nd_stressTest nd then nd_doBroadcast marshal (draws 0) nd
      else fold (\<lambda>i. nd_doBroadcast marshal (draws i)) [0..<nat (nd_transactionsToSendOut nd)] nd)"

definition nd_onOwnDelivered :: "(Message \<Rightarrow> byte list option) \<Rightarrow> nat \<Rightarrow> 'p Node \<Rightarrow> 'p Node option" where
  "nd_onOwnDelivered marshal draw nd =
     (if nd_stressTest nd \<and> 0 < nd_simulations nd \<and> 0 < nd_ownDelivered nd
      then Some (nd_doBroadcast marshal draw (nd\<lparr>nd_ownDelivered := nd_ownDelivered nd - 1\<rparr>))
      else None)"

section \<open>Facts\<close>

lemma nd_apply_extends: "\<exists>cs. cx_extends marshal cs (nd_context nd) (nd_context (nd_apply marshal nd r))"
  using cx_perform_extends[of marshal "snd r" "nd_context nd"] by (cases r) (auto simp: nd_apply_def)

lemma cx_extends_none: "\<exists>cs. cx_extends marshal cs c c"
  by (rule exI, rule cx_extends_refl)

interpretation node: actor_instance marshal "nd_ProcessMessage marshal handle broadcast" nd_context
  for marshal handle broadcast
proof unfold_locales
  fix nd nd' :: "'a Node" and m
  assume "nd_ProcessMessage marshal handle broadcast nd m = Inr nd'"
  then show "\<exists>cs. cx_extends marshal cs (nd_context nd) (nd_context nd')"
    by (auto simp: nd_ProcessMessage_def go_simps nd_apply_extends cx_extends_none split: Message_Content.splits)
qed

lemma nd_simulate_extends:
  assumes "\<not> nd_stressTest nd"
  shows "cx_extends marshal (map (\<lambda>i. (nd_processIndex nd, BroadcastContent \<lparr>Value = of_nat (draws i mod 1000000), XHash = 0\<rparr>))
      [0..<nat (nd_transactionsToSendOut nd)]) (nd_context nd) (nd_context (nd_simulate marshal draws nd))"
proof -
  have ctx: "nd_context (fold (\<lambda>i. nd_doBroadcast marshal (draws i)) is nd) =
      fold (\<lambda>i. cx_post marshal (nd_processIndex nd) (BroadcastContent \<lparr>Value = of_nat (draws i mod 1000000), XHash = 0\<rparr>))
        is (nd_context nd)" for "is" and nd :: "'a Node"
    by (induction "is" arbitrary: nd) (simp_all add: nd_doBroadcast_def)
  show ?thesis using assms cx_posts_extends[of marshal "\<lambda>_. nd_processIndex nd"]
    by (simp add: nd_simulate_def ctx)
qed

text \<open>A process that honours the protocol interface, inside a node: deliveries happen once.\<close>

context broadcast_process
begin

definition node_ok :: "'p Node \<Rightarrow> bool" where
  "node_ok nd \<longleftrightarrow> invar (nd_process nd) \<and> delivery_step Map.empty (nd_effects nd) (delivered_value (nd_process nd))"

lemma node_ok_step:
  assumes ok: "node_ok nd" and h: "nd_ProcessMessage marshal handle broadcast nd m = Inr nd'"
  shows "node_ok nd'"
proof -
  have applied: "node_ok (nd_apply marshal nd (p, es))"
    if "invar p \<and> delivery_step (delivered_value (nd_process nd)) es (delivered_value p)" for p es
    using ok that by (auto simp: node_ok_def nd_apply_def intro: delivery_step_trans)
  have inv: "invar (nd_process nd)" using ok by (simp add: node_ok_def)
  have frame: "node_ok nd \<Longrightarrow> node_ok (nd\<lparr>nd_log := l, nd_simulations := k\<rparr>)" for l k
    by (simp add: node_ok_def)
  show ?thesis
    using h applied ok frame handle_ok[OF inv] broadcast_ok[OF inv]
    by (auto simp: nd_ProcessMessage_def go_simps split: Message_Content.splits)
qed

end

section \<open>Properties\<close>

text \<open>
  Outside the stress test \<open>simulate\<close> posts exactly \<open>transactionsToSendOut\<close> requests, all to
  the node itself, each with a value below 1000000, and it touches nothing but the context.
\<close>

theorem node_simulate_burst:
  assumes "\<not> nd_stressTest nd"
  shows "\<exists>vs. length vs = nat (nd_transactionsToSendOut nd) \<and> list_all (\<lambda>v. unat v < 1000000) vs \<and>
    cx_extends marshal (map (\<lambda>v. (nd_processIndex nd, BroadcastContent \<lparr>Value = v, XHash = 0\<rparr>)) vs)
      (nd_context nd) (nd_context (nd_simulate marshal draws nd)) \<and>
    nd_process (nd_simulate marshal draws nd) = nd_process nd"
proof -
  define vs :: "int32 list" where "vs = map (\<lambda>i. of_nat (draws i mod 1000000)) [0..<nat (nd_transactionsToSendOut nd)]"
  have "unat (of_nat (d mod 1000000) :: int32) = d mod 1000000" for d :: nat
  proof -
    have "d mod 1000000 < 2 ^ 32" using mod_less_divisor[of 1000000 d] by simp
    then show ?thesis by (simp add: unat_of_nat take_bit_nat_eq_self)
  qed
  then have "list_all (\<lambda>v. unat v < 1000000) vs" by (simp add: vs_def list_all_iff)
  moreover have "nd_process (fold (\<lambda>i. nd_doBroadcast marshal (draws i)) is nd) = nd_process nd" for "is"
    by (induction "is" arbitrary: nd) (simp_all add: nd_doBroadcast_def)
  ultimately show ?thesis
    using nd_simulate_extends[OF assms, of marshal draws] assms
    by (intro exI[of _ vs]) (simp add: vs_def nd_simulate_def comp_def)
qed

definition nd_sample :: "unit Node" where
  "nd_sample = \<lparr>nd_processIndex = 1, nd_pids = [''a'', ''b'', ''s''],
     nd_parameters = \<lparr>ProcessCount = 2, FaultyProcesses = 0, MinOwnWitnessSetSize_param = 0,
       MinPotWitnessSetSize_param = 0, OwnWitnessSetRadius_param = 0, PotWitnessSetRadius_param = 0,
       WitnessThreshold = 0, RecoverySwitchTimeoutNs = 0, NodeIdSize = 0, NumberOfBins = 0,
       GossipSampleSize = 0, EchoSampleSize = 0, EchoThreshold = 0, ReadySampleSize = 0,
       ReadyThreshold = 0, DeliverySampleSize = 0, DeliveryThreshold = 0, CleanUpTimeout = 0\<rparr>,
     nd_transactionsToSendOut = 3, nd_process = (), nd_ownDelivered = 0, nd_stressTest = False,
     nd_context = NewReliableContext 1 0, nd_log = [], nd_simulations = 1, nd_effects = []\<rparr>"

theorem node_simulate_burst_witness:
  "\<exists>vs. length vs = 3 \<and> cx_extends (\<lambda>_. Some []) (map (\<lambda>v. (1, BroadcastContent \<lparr>Value = v, XHash = 0\<rparr>)) vs)
    (NewReliableContext 1 0) (nd_context (nd_simulate (\<lambda>_. Some []) (\<lambda>i. 5000000 + i) nd_sample))"
  using node_simulate_burst[of nd_sample "\<lambda>_. Some []" "\<lambda>i. 5000000 + i"] by (auto simp: nd_sample_def)

end
