(* ===== verification/Reliable.thy ===== *)
theory Reliable
  imports Quorums Witness_Selection
begin

text \<open>
  \<open>impl/protocols/accountability/reliable\<close>: reliable broadcast with witnesses and a reveal phase,
  one process. Record \<open>re_env\<close> holds what the code calls and does not define: the order in which
  ranging over a Go map visits its keys, \<open>sort.Sort\<close>, the Reed-Solomon encoder, RSA encryption
  (with the constant padding source of \<open>helpers.go\<close> it is a function), and the numbers of
  \<open>math/rand\<close> for a seed. \<open>None\<close> is the error result of such a call.
\<close>

section \<open>Stages\<close>

datatype re_WitnessStage = InitialWitnessStage | SentEchoFromWitness | SentReadyFromWitness | SentValidate

datatype re_Stage = InitialStage | SentEchoFromProcess | SentReadyFromProcess | Delivered

datatype re_RevealStage =
    InitialRevealStage | SentDoneToWitnesses | SentDoneToProcesses | SentFailedToProcesses | SentFailedToWitnesses

text \<open>The code compares stages by their numbers (\<open>iota\<close>).\<close>

instantiation re_WitnessStage :: linorder
begin

fun rank_re_WitnessStage :: "re_WitnessStage \<Rightarrow> nat" where
  "rank_re_WitnessStage InitialWitnessStage = 0"
| "rank_re_WitnessStage SentEchoFromWitness = 1"
| "rank_re_WitnessStage SentReadyFromWitness = 2"
| "rank_re_WitnessStage SentValidate = 3"

definition less_eq_re_WitnessStage :: "re_WitnessStage \<Rightarrow> re_WitnessStage \<Rightarrow> bool" where
  "less_eq_re_WitnessStage x y \<longleftrightarrow> rank_re_WitnessStage x \<le> rank_re_WitnessStage y"

definition less_re_WitnessStage :: "re_WitnessStage \<Rightarrow> re_WitnessStage \<Rightarrow> bool" where
  "less_re_WitnessStage x y \<longleftrightarrow> rank_re_WitnessStage x < rank_re_WitnessStage y"

instance
proof
  fix x y :: re_WitnessStage
  show "x \<le> y \<Longrightarrow> y \<le> x \<Longrightarrow> x = y" by (cases x; cases y) (simp_all add: less_eq_re_WitnessStage_def)
qed (auto simp: less_eq_re_WitnessStage_def less_re_WitnessStage_def)

end

instantiation re_Stage :: linorder
begin

fun rank_re_Stage :: "re_Stage \<Rightarrow> nat" where
  "rank_re_Stage InitialStage = 0"
| "rank_re_Stage SentEchoFromProcess = 1"
| "rank_re_Stage SentReadyFromProcess = 2"
| "rank_re_Stage Delivered = 3"

definition less_eq_re_Stage :: "re_Stage \<Rightarrow> re_Stage \<Rightarrow> bool" where
  "less_eq_re_Stage x y \<longleftrightarrow> rank_re_Stage x \<le> rank_re_Stage y"

definition less_re_Stage :: "re_Stage \<Rightarrow> re_Stage \<Rightarrow> bool" where
  "less_re_Stage x y \<longleftrightarrow> rank_re_Stage x < rank_re_Stage y"

instance
proof
  fix x y :: re_Stage
  show "x \<le> y \<Longrightarrow> y \<le> x \<Longrightarrow> x = y" by (cases x; cases y) (simp_all add: less_eq_re_Stage_def)
qed (auto simp: less_eq_re_Stage_def less_re_Stage_def)

end

lemmas re_stage_order = less_eq_re_WitnessStage_def less_re_WitnessStage_def less_eq_re_Stage_def less_re_Stage_def

section \<open>What the code calls\<close>

text \<open>A public key is modulus and exponent; a private key is the same pair with its own exponent.\<close>

type_synonym rsa_key = "nat \<times> nat"

record re_env =
  env_order :: "string set \<Rightarrow> string list"
  env_sort :: "dist list \<Rightarrow> dist list"
  env_encoder_ok :: "int \<Rightarrow> int \<Rightarrow> bool"   \<comment> \<open>\<open>reedsolomon.New\<close> with data and parity shards\<close>
  env_encode :: "int \<Rightarrow> int \<Rightarrow> byte list list \<Rightarrow> byte list list option"
  env_reconstruct :: "int \<Rightarrow> int \<Rightarrow> byte list list \<Rightarrow> byte list list option"
  env_EncryptPKCS1v15 :: "rsa_key \<Rightarrow> byte list \<Rightarrow> byte list option"
  env_DecryptPKCS1v15 :: "rsa_key \<Rightarrow> byte list \<Rightarrow> byte list option"
  env_Int31 :: "int32 \<Rightarrow> nat \<Rightarrow> int32"   \<comment> \<open>the \<open>i\<close>-th number for a seed\<close>

text \<open>\<open>helpers.go\<close>.\<close>

definition Encrypt :: "re_env \<Rightarrow> rsa_key \<Rightarrow> byte list \<Rightarrow> byte list go" where
  "Encrypt env publicKey share = (case env_EncryptPKCS1v15 env publicKey share of
     None \<Rightarrow> Inl FatalExit | Some cipher \<Rightarrow> Inr cipher)"

text \<open>The private key is a pointer, nil when the process index has no key file.\<close>

definition decrypt :: "re_env \<Rightarrow> rsa_key option \<Rightarrow> byte list \<Rightarrow> byte list go" where
  "decrypt env privateKey encryptedShare = (case privateKey of
     None \<Rightarrow> Inl NilDereference
   | Some key \<Rightarrow> (case env_DecryptPKCS1v15 env key encryptedShare of
       None \<Rightarrow> Inl FatalExit | Some share \<Rightarrow> Inr share))"

definition re_hash :: "int32 list \<Rightarrow> int32" where
  "re_hash input = fold (\<lambda>val h. h + val) input 0"

section \<open>State\<close>

record re_messageState =
  re_echoFromProcesses :: "ProcessId \<Rightarrow> bool"
  re_readyFromProcesses :: "ProcessId \<Rightarrow> bool"
  re_readyFromWitnesses :: "ProcessId \<Rightarrow> bool"
  re_validateFromWitnesses :: "ProcessId \<Rightarrow> bool"
  re_revealFromProcesses :: "ProcessId set"
  re_echoFromProcessesStat :: "int32 \<Rightarrow> nat"
  re_readyFromProcessesStat :: "int32 \<Rightarrow> nat"
  re_readyFromWitnessesStat :: "int32 \<Rightarrow> nat"
  re_validatesStat :: "int32 \<Rightarrow> nat"
  re_stage :: re_Stage
  re_witnessStage :: re_WitnessStage
  re_revealStage :: re_RevealStage
  re_ownWitnessSet :: "string set"
  re_potWitnessSet :: "string set"
  re_encryptedShares :: "byte list list"
  re_ownEncryptedShare :: "byte list"
  re_decryptedShares :: "byte list list option"   \<comment> \<open>\<open>None\<close> is the nil slice\<close>
  re_receivedMessagesCnt :: nat
  re_pendingRevealProtocolMessages :: "(ProcessId \<times> CommitmentProtocolMessage) list"

definition re_newMessageState :: re_messageState where
  "re_newMessageState = \<lparr>re_echoFromProcesses = (\<lambda>_. False), re_readyFromProcesses = (\<lambda>_. False),
     re_readyFromWitnesses = (\<lambda>_. False), re_validateFromWitnesses = (\<lambda>_. False), re_revealFromProcesses = {},
     re_echoFromProcessesStat = (\<lambda>_. 0), re_readyFromProcessesStat = (\<lambda>_. 0),
     re_readyFromWitnessesStat = (\<lambda>_. 0), re_validatesStat = (\<lambda>_. 0),
     re_stage = InitialStage, re_witnessStage = InitialWitnessStage, re_revealStage = InitialRevealStage,
     re_ownWitnessSet = {}, re_potWitnessSet = {}, re_encryptedShares = [], re_ownEncryptedShare = [],
     re_decryptedShares = None, re_receivedMessagesCnt = 0, re_pendingRevealProtocolMessages = []\<rparr>"

record re_Process =
  re_processIndex :: int32
  re_actorPids :: "string \<rightharpoonup> ProcessId"
  re_pids :: "string list"
  re_transactionCounter :: int32
  re_deliveredMessages :: "Broadcast_msg map2"
  re_messagesLog :: "re_messageState map2"
  re_checkpoints :: "int \<rightharpoonup> BroadcastInstance"
  re_finallyCommittedMessages :: "int32 map2"
  re_transactionToCheckpoint :: "int map2"
  re_deliveredMessagesCount :: int
  re_quorumThreshold :: int
  re_readyMessagesThreshold :: int
  re_recoverySwitchTimeoutNs :: int
  re_witnessThreshold :: int
  re_faultyProcesses :: int
  re_dataShares :: int
  re_parityShares :: int
  re_processCount :: int
  re_MixingTime :: int
  re_wSelector :: WitnessesSelector
  re_historyHashes :: "HistoryHash list"
  re_sendOwnDeliveredTransactions :: bool
  re_PublicKeys :: "rsa_key list"
  re_PrivateKey :: "rsa_key option"

text \<open>
  \<open>InitProcess\<close>; the keys and the mixing time are fields the caller has set. When the encoder
  cannot be made the code calls \<open>Fatal\<close> on a logger that is not assigned yet: a nil dereference. The sums are written
  in unbounded integers, unlike those of Bracha: \<open>reedsolomon.New\<close> makes no encoder for the share
  counts (it takes at most 65536 shares) with which they could leave 64 bits.
\<close>

definition re_InitProcess ::
  "re_env \<Rightarrow> (byte list \<Rightarrow> byte list) \<Rightarrow> (byte list \<Rightarrow> byte list) \<Rightarrow> rsa_key list \<Rightarrow> rsa_key option \<Rightarrow> int \<Rightarrow>
   int32 \<Rightarrow> string list \<Rightarrow> Parameters \<Rightarrow> bool \<Rightarrow> re_Process go" where
  "re_InitProcess env sha256 sha512 publicKeys privateKey mixingTime processIndex actorPids parameters sendOwn =
     (let n = length actorPids; f = FaultyProcesses parameters; count = ProcessCount parameters;
          dataShares = f + 1; parityShares = count - dataShares;
          hash = (if NodeIdSize parameters = 256 then sha256 else sha512) in
      if \<not> env_encoder_ok env dataShares parityShares then Inl NilDereference
      else if NumberOfBins parameters = 0 then Inl DivideByZero
      else if count < 0 \<or> 0 < count \<and> NumberOfBins parameters < 0 then Inl LengthOutOfRange
      else Inr \<lparr>re_processIndex = processIndex, re_actorPids = pid_map actorPids, re_pids = actorPids,
        re_transactionCounter = 0, re_deliveredMessages = make_maps n, re_messagesLog = make_maps n,
        re_checkpoints = Map.empty, re_finallyCommittedMessages = make_maps n,
        re_transactionToCheckpoint = make_maps n, re_deliveredMessagesCount = 0,
        re_quorumThreshold = ceil_half (int n + f + 1), re_readyMessagesThreshold = f + 1,
        re_recoverySwitchTimeoutNs = RecoverySwitchTimeoutNs parameters,
        re_witnessThreshold = WitnessThreshold parameters, re_faultyProcesses = f,
        re_dataShares = dataShares, re_parityShares = parityShares, re_processCount = count,
        re_MixingTime = mixingTime,
        re_wSelector = \<lparr>MinPotWitnessSetSize = MinPotWitnessSetSize_param parameters,
          MinOwnWitnessSetSize = MinOwnWitnessSetSize_param parameters,
          PotWitnessSetRadius = PotWitnessSetRadius_param parameters,
          OwnWitnessSetRadius = OwnWitnessSetRadius_param parameters\<rparr>,
        re_historyHashes = map (\<lambda>i. NewHistoryHash (nat (NumberOfBins parameters))
          (uint_pow2 (go_quot (NodeIdSize parameters) (NumberOfBins parameters))) hash (of_nat i)) [0..<nat count],
        re_sendOwnDeliveredTransactions = sendOwn,
        re_PublicKeys = publicKeys, re_PrivateKey = privateKey\<rparr>)"

section \<open>Message states\<close>

definition re_state :: "re_Process \<Rightarrow> BroadcastInstance \<Rightarrow> re_messageState option" where
  "re_state p b = lookup2 (re_messagesLog p) (Author b) (SeqNumber b)"

definition re_store :: "re_Process \<Rightarrow> BroadcastInstance \<Rightarrow> re_messageState \<Rightarrow> re_Process" where
  "re_store p b ms = p\<lparr>re_messagesLog := poke2 (re_messagesLog p) (Author b) (SeqNumber b) ms\<rparr>"

definition re_initMessageState ::
  "re_env \<Rightarrow> re_Process \<Rightarrow> BroadcastInstance \<Rightarrow> (re_Process \<times> re_messageState \<times> effect list) go" where
  "re_initMessageState env p b =
     go_bind (assign2 (re_messagesLog p) (Author b) (SeqNumber b) re_newMessageState) (\<lambda>lg.
     go_bind (GetWitnessSet (env_sort env) (re_wSelector p) (re_pids p) (re_historyHashes p)) (\<lambda>r.
       let (own, pot) = (case r of None \<Rightarrow> ({}, {}) | Some sets \<Rightarrow> sets);
           ms = re_newMessageState\<lparr>re_ownWitnessSet := own, re_potWitnessSet := pot\<rparr>
       in Inr (re_store (p\<lparr>re_messagesLog := lg\<rparr>) b ms, ms,
            [Log (OnWitnessSetSelected ''own'' b (env_order env own)),
             Log (OnWitnessSetSelected ''pot'' b (env_order env pot))])))"

definition re_registerMessage ::
  "re_env \<Rightarrow> re_Process \<Rightarrow> BroadcastInstance \<Rightarrow> (re_Process \<times> re_messageState \<times> effect list) go" where
  "re_registerMessage env p b = (case re_state p b of
     None \<Rightarrow> re_initMessageState env p b
   | Some ms \<Rightarrow> Inr (p, ms, []))"

section \<open>Sending\<close>

definition re_sendProtocolMessage :: "ProcessId \<Rightarrow> BroadcastInstance \<Rightarrow> ReliableProtocolMessage \<Rightarrow> effect" where
  "re_sendProtocolMessage to b m = Send to \<lparr>BroadcastInstance_of = Some b, Message_of = ReliableMessage m\<rparr>"

definition re_sendCommitmentMessage :: "ProcessId \<Rightarrow> BroadcastInstance \<Rightarrow> CommitmentProtocolMessage \<Rightarrow> effect" where
  "re_sendCommitmentMessage to b m = Send to \<lparr>BroadcastInstance_of = Some b, Message_of = CommitmentMessage m\<rparr>"

definition re_broadcastProtocolMessage ::
  "re_Process \<Rightarrow> BroadcastInstance \<Rightarrow> ReliableProtocolMessage \<Rightarrow> effect list" where
  "re_broadcastProtocolMessage p b m =
     map (\<lambda>i. re_sendProtocolMessage (of_nat i) b m) [0..<length (re_pids p)]"

definition re_broadcastCommitmentMessage ::
  "re_Process \<Rightarrow> BroadcastInstance \<Rightarrow> CommitmentProtocolMessage \<Rightarrow> effect list" where
  "re_broadcastCommitmentMessage p b m =
     map (\<lambda>i. re_sendCommitmentMessage (of_nat i) b m) [0..<length (re_pids p)]"

text \<open>\<open>p.actorPids[pid]\<close> reads as zero when the name is not in the map.\<close>

definition re_index :: "re_Process \<Rightarrow> string \<Rightarrow> ProcessId" where
  "re_index p pid = (case re_actorPids p pid of None \<Rightarrow> 0 | Some i \<Rightarrow> i)"

definition re_broadcastToWitnesses ::
  "re_env \<Rightarrow> re_Process \<Rightarrow> BroadcastInstance \<Rightarrow> ReliableProtocolMessage \<Rightarrow> re_messageState \<Rightarrow> effect list" where
  "re_broadcastToWitnesses env p b m ms =
     map (\<lambda>pid. re_sendProtocolMessage (re_index p pid) b m) (env_order env (re_potWitnessSet ms))"

definition re_broadcastCommitmentToWitnesses ::
  "re_env \<Rightarrow> re_Process \<Rightarrow> BroadcastInstance \<Rightarrow> CommitmentProtocolMessage \<Rightarrow> re_messageState \<Rightarrow> effect list" where
  "re_broadcastCommitmentToWitnesses env p b m ms =
     map (\<lambda>pid. re_sendCommitmentMessage (re_index p pid) b m) (env_order env (re_potWitnessSet ms))"

definition re_msg ::
  "ReliableProtocolMessage_Stage \<Rightarrow> Broadcast_msg option \<Rightarrow> byte list list \<Rightarrow> ReliableProtocolMessage" where
  "re_msg st bm shares = \<lparr>ReliableStage = st, BroadcastMessage = bm, EncryptedShares = shares\<rparr>"

definition re_commitment :: "CommitmentProtocolMessage_Stage \<Rightarrow> byte list \<Rightarrow> int32 list \<Rightarrow> CommitmentProtocolMessage" where
  "re_commitment st share x = \<lparr>CommitmentStage = st, DecryptedShare = share, X = x\<rparr>"

definition re_broadcastReadyFromWitness ::
  "re_Process \<Rightarrow> BroadcastInstance \<Rightarrow> Broadcast_msg \<Rightarrow> re_messageState \<Rightarrow> re_messageState \<times> effect list" where
  "re_broadcastReadyFromWitness p b bm ms =
     (ms\<lparr>re_witnessStage := SentReadyFromWitness\<rparr>,
      re_broadcastProtocolMessage p b (re_msg Reliable_READY_FROM_WITNESS (Some bm) []))"

definition re_isWitness :: "re_Process \<Rightarrow> re_messageState \<Rightarrow> bool go" where
  "re_isWitness p ms = go_bind (go_index (re_pids p) (sint (re_processIndex p))) (\<lambda>pid.
     Inr (pid \<in> re_potWitnessSet ms))"

section \<open>The reveal phase\<close>

definition re_finallyCommitted :: "re_Process \<Rightarrow> BroadcastInstance \<Rightarrow> bool" where
  "re_finallyCommitted p b = (lookup2 (re_finallyCommittedMessages p) (Author b) (SeqNumber b) \<noteq> None)"

definition re_cleanUp :: "re_Process \<Rightarrow> BroadcastInstance \<Rightarrow> int32 \<Rightarrow> re_Process go" where
  "re_cleanUp p b v =
     (let p1 = p\<lparr>re_messagesLog := delete2 (re_messagesLog p) (Author b) (SeqNumber b)\<rparr> in
      go_bind (assign2 (re_finallyCommittedMessages p1) (Author b) (SeqNumber b) v) (\<lambda>fc.
        Inr (p1\<lparr>re_finallyCommittedMessages := fc\<rparr>)))"

definition re_startRevealPhase :: "re_env \<Rightarrow> re_Process \<Rightarrow> BroadcastInstance \<Rightarrow> effect list go" where
  "re_startRevealPhase env p transaction =
     go_bind (go_deref (re_state p transaction)) (\<lambda>ms.
     go_bind (decrypt env (re_PrivateKey p) (re_ownEncryptedShare ms)) (\<lambda>share.
       Inr (re_broadcastCommitmentToWitnesses env p transaction (re_commitment Commitment_REVEAL share []) ms)))"

definition re_secretBytes :: "int32 list \<Rightarrow> byte list" where
  "re_secretBytes secret = concat (map Int32ToBytes secret)"

definition re_addSecret :: "re_Process \<Rightarrow> int32 list \<Rightarrow> re_Process go" where
  "re_addSecret p secret =
     go_bind (go_map (\<lambda>i. go_bind (go_index (re_historyHashes p) (int i)) (\<lambda>hh.
        hh_Insert hh (re_secretBytes secret))) [0..<nat (re_processCount p)]) (\<lambda>hs.
       Inr (p\<lparr>re_historyHashes := hs @ drop (length hs) (re_historyHashes p)\<rparr>))"

text \<open>REVEAL: checking a share against the encrypted one that NOTIFY brought.\<close>

definition re_checkShare :: "re_env \<Rightarrow> re_Process \<Rightarrow> ProcessId \<Rightarrow> byte list \<Rightarrow> re_messageState \<Rightarrow> unit go" where
  "re_checkShare env p q share ms =
     (if re_encryptedShares ms = [] then Inr ()
      else go_bind (go_index (re_PublicKeys p) (sint q)) (\<lambda>key.
           go_bind (Encrypt env key share) (\<lambda>cipher.
           go_bind (go_index (re_encryptedShares ms) (sint q)) (\<lambda>expected.
             if AreEqual cipher expected then Inr () else Inl FatalExit))))"

text \<open>REVEAL with enough shares: the secret is decoded and its hash compared.\<close>

definition re_decodeSecret ::
  "re_env \<Rightarrow> re_Process \<Rightarrow> BroadcastInstance \<Rightarrow> Broadcast_msg \<Rightarrow> byte list list \<Rightarrow> re_messageState \<Rightarrow>
   (re_messageState \<times> effect list) go" where
  "re_decodeSecret env p b delivered shares ms =
     (case env_reconstruct env (re_dataShares p) (re_parityShares p) shares of
        None \<Rightarrow> Inl FatalExit
      | Some full \<Rightarrow>
          if re_dataShares p < 0 then Inl LengthOutOfRange
          else go_bind (go_map (\<lambda>i. go_bind (go_index full (int i)) ToInt32) [0..<nat (re_dataShares p)]) (\<lambda>xPrime.
            let ms1 = ms\<lparr>re_decryptedShares := Some full\<rparr> in
            if re_hash xPrime = XHash delivered
            then Inr (ms1\<lparr>re_revealStage := SentDoneToProcesses\<rparr>,
              re_broadcastCommitmentMessage p b (re_commitment Commitment_DONE [] xPrime))
            else Inr (ms1\<lparr>re_revealStage := SentFailedToProcesses\<rparr>,
              Log (OnHashMismatch (XHash delivered) (re_hash xPrime)) #
              re_broadcastCommitmentMessage p b (re_commitment Commitment_FAILED [] []))))"

definition re_onReveal ::
  "re_env \<Rightarrow> re_Process \<Rightarrow> ProcessId \<Rightarrow> BroadcastInstance \<Rightarrow> byte list \<Rightarrow> Broadcast_msg \<Rightarrow> re_messageState \<Rightarrow>
   (re_messageState \<times> effect list) go" where
  "re_onReveal env p q b share delivered ms =
     go_bind (re_isWitness p ms) (\<lambda>witness.
       if \<not> witness \<or> q \<in> re_revealFromProcesses ms \<or> re_revealStage ms = SentDoneToProcesses \<or>
          re_revealStage ms = SentFailedToProcesses then Inr (ms, [])
       else
         go_bind (case re_decryptedShares ms of
             Some shares \<Rightarrow> Inr shares
           | None \<Rightarrow> if re_processCount p < 0 then Inl LengthOutOfRange
                    else Inr (replicate (nat (re_processCount p)) [])) (\<lambda>shares.
         go_bind (go_index shares (sint q)) (\<lambda>_.
         let shares' = shares[nat (sint q) := share];
             ms1 = ms\<lparr>re_revealFromProcesses := insert q (re_revealFromProcesses ms),
                     re_decryptedShares := Some shares'\<rparr> in
         go_bind (re_checkShare env p q share ms1) (\<lambda>_.
           if 2 * re_faultyProcesses p + 1 \<le> int (card (re_revealFromProcesses ms1))
           then re_decodeSecret env p b delivered shares' ms1
           else Inr (ms1, [])))))"

text \<open>
  DONE: the last component tells that the transaction is committed. The state is read before the
  message state is stored, as the code reads fields the message state does not hold.
\<close>

definition re_onDone ::
  "re_env \<Rightarrow> re_Process \<Rightarrow> string \<Rightarrow> BroadcastInstance \<Rightarrow> int32 list \<Rightarrow> Broadcast_msg \<Rightarrow> re_messageState \<Rightarrow>
   (re_messageState \<times> effect list \<times> bool) go" where
  "re_onDone env p senderPid b x delivered ms =
     (if re_hash x \<noteq> XHash delivered then Inr (ms, [], False)
      else go_bind (re_isWitness p ms) (\<lambda>witness.
        let m = re_commitment Commitment_DONE [] x;
            (ms1, es1) = (if witness \<and> re_revealStage ms \<noteq> SentDoneToProcesses
              then (ms\<lparr>re_revealStage := SentDoneToProcesses\<rparr>, re_broadcastCommitmentMessage p b m)
              else (ms, []));
            checkpoint = (case lookup2 (re_transactionToCheckpoint p) (Author b) (SeqNumber b) of
              None \<Rightarrow> 0 | Some k \<Rightarrow> k)
        in if senderPid \<in> re_ownWitnessSet ms1 \<and> re_MixingTime p \<le> re_deliveredMessagesCount p - checkpoint
           then let (ms2, es2) = (if re_revealStage ms1 \<noteq> SentDoneToWitnesses
                  then (ms1\<lparr>re_revealStage := SentDoneToWitnesses\<rparr>, re_broadcastCommitmentToWitnesses env p b m ms1)
                  else (ms1, []))
                in Inr (ms2, es1 @ es2, True)
           else Inr (ms1, es1, False)))"

definition re_onFailed ::
  "re_env \<Rightarrow> re_Process \<Rightarrow> string \<Rightarrow> BroadcastInstance \<Rightarrow> re_messageState \<Rightarrow> (re_messageState \<times> effect list) go" where
  "re_onFailed env p senderPid b ms =
     (let m = re_commitment Commitment_FAILED [] [];
          (ms1, es1) = (if senderPid \<in> re_ownWitnessSet ms \<and> re_revealStage ms \<noteq> SentFailedToWitnesses
            then (ms\<lparr>re_revealStage := SentFailedToWitnesses\<rparr>, re_broadcastCommitmentToWitnesses env p b m ms)
            else (ms, []))
      in go_bind (re_isWitness p ms1) (\<lambda>witness.
           if witness \<and> re_revealStage ms1 \<noteq> SentFailedToProcesses
           then Inr (ms1\<lparr>re_revealStage := SentFailedToProcesses\<rparr>, es1 @ re_broadcastCommitmentMessage p b m)
           else Inr (ms1, es1)))"

text \<open>
  \<open>processCommitmentProtocolMessage\<close>. The second component is the message state the call has worked
  on, as its pointer holds it afterwards, also when the instance is removed from the log;
  \<open>None\<close> when the instance was committed before.
\<close>

definition re_commitmentStage ::
  "re_env \<Rightarrow> re_Process \<Rightarrow> ProcessId \<Rightarrow> BroadcastInstance \<Rightarrow> CommitmentProtocolMessage \<Rightarrow> Broadcast_msg \<Rightarrow> re_messageState \<Rightarrow>
   (re_Process \<times> re_messageState \<times> effect list) go" where
  "re_commitmentStage env p q b m delivered ms =
     (let keep = (\<lambda>(ms', es). Inr (re_store p b ms', ms', es)) in
      go_bind (go_index (re_pids p) (sint q)) (\<lambda>senderPid.
      case CommitmentStage m of
        Commitment_REVEAL \<Rightarrow> go_bind (re_onReveal env p q b (DecryptedShare m) delivered ms) keep
      | Commitment_DONE \<Rightarrow> go_bind (re_onDone env p senderPid b (X m) delivered ms) (\<lambda>(ms', es, committed).
          if committed
          then go_bind (re_addSecret (re_store p b ms') (X m)) (\<lambda>p1.
               go_bind (re_cleanUp p1 b (Value delivered)) (\<lambda>p2. Inr (p2, ms', es)))
          else keep (ms', es))
      | Commitment_FAILED \<Rightarrow> go_bind (re_onFailed env p senderPid b ms) keep
      | Commitment_OTHER _ \<Rightarrow> keep (ms, [])))"

definition re_processCommitmentProtocolMessage ::
  "re_env \<Rightarrow> re_Process \<Rightarrow> ProcessId \<Rightarrow> BroadcastInstance \<Rightarrow> CommitmentProtocolMessage \<Rightarrow>
   (re_Process \<times> re_messageState option \<times> effect list) go" where
  "re_processCommitmentProtocolMessage env p q b m =
     (if re_finallyCommitted p b then Inr (p, None, [])
      else go_bind (re_registerMessage env p b) (\<lambda>(p1, ms0, es0).
        let ms = ms0\<lparr>re_receivedMessagesCnt := Suc (re_receivedMessagesCnt ms0)\<rparr> in
        go_bind (go_index (re_pids p1) (sint q)) (\<lambda>_.
        case lookup2 (re_deliveredMessages p1) (Author b) (SeqNumber b) of
          None \<Rightarrow>
            let ms' = ms\<lparr>re_pendingRevealProtocolMessages := re_pendingRevealProtocolMessages ms @ [(q, m)]\<rparr>
            in Inr (re_store p1 b ms', Some ms', es0)
        | Some delivered \<Rightarrow>
            go_bind (re_commitmentStage env (re_store p1 b ms) q b m delivered ms) (\<lambda>(p', ms', es).
              Inr (p', Some ms', es0 @ es)))))"

section \<open>Delivery\<close>

text \<open>The reveal messages that came too early are handled in order; the pointer is followed along.\<close>

definition re_replay ::
  "re_env \<Rightarrow> BroadcastInstance \<Rightarrow> re_Process \<Rightarrow> re_messageState \<Rightarrow> (ProcessId \<times> CommitmentProtocolMessage) list \<Rightarrow>
   (re_Process \<times> re_messageState \<times> effect list) go" where
  "re_replay env b p ms pending = go_fold (\<lambda>(p, ms, es) (q, m).
     go_bind (re_processCommitmentProtocolMessage env p q b m) (\<lambda>(p', touched, es').
       Inr (p', (case touched of None \<Rightarrow> ms | Some ms' \<Rightarrow> ms'), es @ es'))) (p, ms, []) pending"

text \<open>The transaction delivered \<open>MixingTime\<close> deliveries ago is revealed.\<close>

definition re_checkpointReveal :: "re_env \<Rightarrow> re_Process \<Rightarrow> (re_Process \<times> effect list) go" where
  "re_checkpointReveal env p =
     (let k = re_deliveredMessagesCount p - re_MixingTime p in
      case re_checkpoints p k of
        None \<Rightarrow> Inr (p, [])
      | Some transaction \<Rightarrow> go_bind (re_startRevealPhase env p transaction) (\<lambda>es.
          Inr (p\<lparr>re_checkpoints := (re_checkpoints p)(k := None)\<rparr>, es)))"

definition re_deliver ::
  "re_env \<Rightarrow> re_Process \<Rightarrow> BroadcastInstance \<Rightarrow> Broadcast_msg \<Rightarrow> (re_Process \<times> re_messageState \<times> effect list) go" where
  "re_deliver env p b bm =
     go_bind (assign2 (re_deliveredMessages p) (Author b) (SeqNumber b) bm) (\<lambda>dm.
     let k = re_deliveredMessagesCount p + 1;
         p1 = p\<lparr>re_deliveredMessages := dm, re_deliveredMessagesCount := k,
                re_checkpoints := (re_checkpoints p)(k \<mapsto> b)\<rparr> in
     go_bind (assign2 (re_transactionToCheckpoint p1) (Author b) (SeqNumber b) k) (\<lambda>tc.
     let p2 = p1\<lparr>re_transactionToCheckpoint := tc\<rparr> in
     go_bind (go_deref (re_state p2 b)) (\<lambda>ms0.
     go_bind (re_replay env b p2 ms0 (re_pendingRevealProtocolMessages ms0)) (\<lambda>(p3, ms1, es1).
     let ms2 = ms1\<lparr>re_pendingRevealProtocolMessages := []\<rparr> in
     go_bind (re_checkpointReveal env (re_store p3 b ms2)) (\<lambda>(p4, es2).
       Inr (p4, ms2, es1 @ es2 @ [Log (OnDeliver b (Value bm) (re_receivedMessagesCnt ms2))] @
         (if re_sendOwnDeliveredTransactions p4 \<and> Author b = re_processIndex p4 then [OwnDelivered] else [])))))))"

section \<open>The stages of the reliable protocol\<close>

definition re_onNotify ::
  "re_Process \<Rightarrow> BroadcastInstance \<Rightarrow> ReliableProtocolMessage \<Rightarrow> re_messageState \<Rightarrow> (re_messageState \<times> effect list) go" where
  "re_onNotify p b m ms =
     go_bind (re_isWitness p ms) (\<lambda>witness.
       if \<not> witness \<or> SentEchoFromWitness \<le> re_witnessStage ms then Inr (ms, [])
       else go_bind (go_index (EncryptedShares m) (sint (re_processIndex p))) (\<lambda>own.
         go_bind (go_map (\<lambda>i. go_bind (go_index (EncryptedShares m) (int i)) (\<lambda>share.
             Inr (re_sendProtocolMessage (of_nat i) b
               (re_msg Reliable_ECHO_FROM_WITNESS (BroadcastMessage m) [share]))))
           [0..<nat (re_processCount p)]) (\<lambda>es.
         Inr (ms\<lparr>re_encryptedShares := EncryptedShares m, re_ownEncryptedShare := own,
                 re_witnessStage := SentEchoFromWitness\<rparr>, es))))"

definition re_onEchoFromWitness ::
  "re_env \<Rightarrow> re_Process \<Rightarrow> string \<Rightarrow> BroadcastInstance \<Rightarrow> ReliableProtocolMessage \<Rightarrow> re_messageState \<Rightarrow>
   (re_messageState \<times> effect list) go" where
  "re_onEchoFromWitness env p senderPid b m ms =
     (if senderPid \<notin> re_ownWitnessSet ms \<or> SentEchoFromProcess \<le> re_stage ms then Inr (ms, [])
      else go_bind (go_index (EncryptedShares m) 0) (\<lambda>share.
        Inr (ms\<lparr>re_ownEncryptedShare := share, re_stage := SentEchoFromProcess\<rparr>,
          re_broadcastToWitnesses env p b (re_msg Reliable_ECHO_FROM_PROCESS (BroadcastMessage m) []) ms)))"

definition re_onEchoFromProcess ::
  "re_Process \<Rightarrow> ProcessId \<Rightarrow> BroadcastInstance \<Rightarrow> ReliableProtocolMessage \<Rightarrow> re_messageState \<Rightarrow>
   (re_messageState \<times> effect list) go" where
  "re_onEchoFromProcess p q b m ms =
     go_bind (re_isWitness p ms) (\<lambda>witness.
       if \<not> witness \<or> SentReadyFromWitness \<le> re_witnessStage ms \<or> re_echoFromProcesses ms q then Inr (ms, [])
       else go_bind (go_deref (BroadcastMessage m)) (\<lambda>bm.
         let v = Value bm;
             ms1 = ms\<lparr>re_echoFromProcesses := (re_echoFromProcesses ms)(q := True),
               re_echoFromProcessesStat := (re_echoFromProcessesStat ms)(v := Suc (re_echoFromProcessesStat ms v))\<rparr>
         in if re_quorumThreshold p \<le> int (re_echoFromProcessesStat ms1 v)
            then Inr (re_broadcastReadyFromWitness p b bm ms1) else Inr (ms1, [])))"

definition re_onReadyFromWitness ::
  "re_env \<Rightarrow> re_Process \<Rightarrow> ProcessId \<Rightarrow> string \<Rightarrow> BroadcastInstance \<Rightarrow> ReliableProtocolMessage \<Rightarrow> re_messageState \<Rightarrow>
   (re_messageState \<times> effect list) go" where
  "re_onReadyFromWitness env p q senderPid b m ms =
     (if senderPid \<notin> re_ownWitnessSet ms \<or> SentReadyFromProcess \<le> re_stage ms \<or> re_readyFromWitnesses ms q
      then Inr (ms, [])
      else go_bind (go_deref (BroadcastMessage m)) (\<lambda>bm.
        let v = Value bm;
            ms1 = ms\<lparr>re_readyFromWitnesses := (re_readyFromWitnesses ms)(q := True),
              re_readyFromWitnessesStat := (re_readyFromWitnessesStat ms)(v := Suc (re_readyFromWitnessesStat ms v))\<rparr>
        in if re_witnessThreshold p \<le> int (re_readyFromWitnessesStat ms1 v)
           then Inr (ms1\<lparr>re_stage := SentReadyFromProcess\<rparr>,
             re_broadcastToWitnesses env p b (re_msg Reliable_READY_FROM_PROCESS (Some bm) []) ms1)
           else Inr (ms1, [])))"

definition re_onReadyFromProcess ::
  "re_Process \<Rightarrow> ProcessId \<Rightarrow> BroadcastInstance \<Rightarrow> ReliableProtocolMessage \<Rightarrow> re_messageState \<Rightarrow>
   (re_messageState \<times> effect list) go" where
  "re_onReadyFromProcess p q b m ms =
     go_bind (re_isWitness p ms) (\<lambda>witness.
       if \<not> witness \<or> re_readyFromProcesses ms q then Inr (ms, [])
       else go_bind (go_deref (BroadcastMessage m)) (\<lambda>bm.
         let v = Value bm;
             ms1 = ms\<lparr>re_readyFromProcesses := (re_readyFromProcesses ms)(q := True),
               re_readyFromProcessesStat := (re_readyFromProcessesStat ms)(v := Suc (re_readyFromProcessesStat ms v))\<rparr>;
             (ms2, es1) = (if re_witnessStage ms1 < SentReadyFromWitness \<and>
                 re_readyMessagesThreshold p \<le> int (re_readyFromProcessesStat ms1 v)
               then re_broadcastReadyFromWitness p b bm ms1 else (ms1, []))
         in if re_witnessStage ms2 < SentValidate \<and> re_quorumThreshold p \<le> int (re_readyFromProcessesStat ms2 v)
            then Inr (ms2\<lparr>re_witnessStage := SentValidate\<rparr>,
              es1 @ re_broadcastProtocolMessage p b (re_msg Reliable_VALIDATE (Some bm) []))
            else Inr (ms2, es1)))"

text \<open>VALIDATE: the last component is what is to be delivered.\<close>

definition re_onValidate ::
  "re_Process \<Rightarrow> ProcessId \<Rightarrow> string \<Rightarrow> ReliableProtocolMessage \<Rightarrow> re_messageState \<Rightarrow>
   (re_messageState \<times> Broadcast_msg option) go" where
  "re_onValidate p q senderPid m ms =
     (if senderPid \<notin> re_ownWitnessSet ms \<or> Delivered \<le> re_stage ms \<or> re_validateFromWitnesses ms q
      then Inr (ms, None)
      else go_bind (go_deref (BroadcastMessage m)) (\<lambda>bm.
        let v = Value bm;
            ms1 = ms\<lparr>re_validateFromWitnesses := (re_validateFromWitnesses ms)(q := True),
              re_validatesStat := (re_validatesStat ms)(v := Suc (re_validatesStat ms v))\<rparr>
        in Inr (ms1, if re_witnessThreshold p \<le> int (re_validatesStat ms1 v) then Some bm else None)))"

definition re_reliableStage ::
  "re_env \<Rightarrow> re_Process \<Rightarrow> ProcessId \<Rightarrow> string \<Rightarrow> BroadcastInstance \<Rightarrow> ReliableProtocolMessage \<Rightarrow> re_messageState \<Rightarrow>
   (re_messageState \<times> effect list \<times> Broadcast_msg option) go" where
  "re_reliableStage env p q senderPid b m ms =
     (let quiet = (\<lambda>(ms, es). Inr (ms, es, None)) in
      case ReliableStage m of
        Reliable_NOTIFY \<Rightarrow> go_bind (re_onNotify p b m ms) quiet
      | Reliable_ECHO_FROM_WITNESS \<Rightarrow> go_bind (re_onEchoFromWitness env p senderPid b m ms) quiet
      | Reliable_ECHO_FROM_PROCESS \<Rightarrow> go_bind (re_onEchoFromProcess p q b m ms) quiet
      | Reliable_READY_FROM_WITNESS \<Rightarrow> go_bind (re_onReadyFromWitness env p q senderPid b m ms) quiet
      | Reliable_READY_FROM_PROCESS \<Rightarrow> go_bind (re_onReadyFromProcess p q b m ms) quiet
      | Reliable_VALIDATE \<Rightarrow> go_bind (re_onValidate p q senderPid m ms) (\<lambda>(ms, d). Inr (ms, [], d))
      | Reliable_OTHER _ \<Rightarrow> Inr (ms, [], None))"

definition re_processReliableProtocolMessage ::
  "re_env \<Rightarrow> re_Process \<Rightarrow> ProcessId \<Rightarrow> BroadcastInstance \<Rightarrow> ReliableProtocolMessage \<Rightarrow> (re_Process \<times> effect list) go" where
  "re_processReliableProtocolMessage env p q b m =
     (if re_finallyCommitted p b then Inr (p, [])
      else go_bind (re_registerMessage env p b) (\<lambda>(p1, ms0, es0).
        let ms = ms0\<lparr>re_receivedMessagesCnt := Suc (re_receivedMessagesCnt ms0)\<rparr> in
        go_bind (go_index (re_pids p1) (sint q)) (\<lambda>senderPid.
        go_bind (re_reliableStage env p1 q senderPid b m ms) (\<lambda>(ms1, es1, d).
        let p2 = re_store p1 b ms1 in
        case d of
          None \<Rightarrow> Inr (p2, es0 @ es1)
        | Some bm \<Rightarrow> go_bind (re_deliver env p2 b bm) (\<lambda>(p3, ms2, es2).
            Inr (re_store p3 b (ms2\<lparr>re_stage := Delivered\<rparr>), es0 @ es1 @ es2))))))"

section \<open>The interface of the process\<close>

definition re_HandleMessage ::
  "re_env \<Rightarrow> re_Process \<Rightarrow> int32 \<Rightarrow> BroadcastInstanceMessage \<Rightarrow> (re_Process \<times> effect list) go" where
  "re_HandleMessage env p sender bm =
     (case Message_of bm of
        ReliableMessage m \<Rightarrow> go_bind (go_deref (BroadcastInstance_of bm)) (\<lambda>b.
          re_processReliableProtocolMessage env p sender b m)
      | CommitmentMessage m \<Rightarrow> go_bind (go_deref (BroadcastInstance_of bm)) (\<lambda>b.
          go_bind (re_processCommitmentProtocolMessage env p sender b m) (\<lambda>(p', _, es). Inr (p', es)))
      | _ \<Rightarrow> Inl FatalExit)"

text \<open>The random source is made anew for every transaction, with the process index as its seed.\<close>

definition re_sample :: "re_env \<Rightarrow> re_Process \<Rightarrow> int32 list go" where
  "re_sample env p = (if re_dataShares p < 0 then Inl LengthOutOfRange
     else Inr (map (env_Int31 env (re_processIndex p)) [0..<nat (re_dataShares p)]))"

text \<open>The result is the data slice and the encoder's error, if any, as \<open>None\<close>.\<close>

definition re_encodeEntropy :: "re_env \<Rightarrow> re_Process \<Rightarrow> int32 list \<Rightarrow> byte list list option go" where
  "re_encodeEntropy env p x =
     (if re_processCount p < 0 then Inl LengthOutOfRange
      else if re_processCount p < re_dataShares p then Inl IndexOutOfRange
      else Inr (env_encode env (re_dataShares p) (re_parityShares p)
        (map (\<lambda>i. Int32ToBytes (x ! i)) [0..<nat (re_dataShares p)] @
         replicate (nat (re_processCount p - re_dataShares p)) (replicate 4 0))))"

definition re_Broadcast :: "re_env \<Rightarrow> re_Process \<Rightarrow> int32 \<Rightarrow> (re_Process \<times> effect list) go" where
  "re_Broadcast env p v =
     (let b = \<lparr>Author = re_processIndex p, SeqNumber = re_transactionCounter p\<rparr> in
      go_bind (re_sample env p) (\<lambda>x.
      go_bind (re_encodeEntropy env p x) (\<lambda>encoded.
      case encoded of
        None \<Rightarrow> Inl FatalExit
      | Some shares \<Rightarrow>
          go_bind (go_map (\<lambda>i. go_bind (go_index (re_PublicKeys p) (int i)) (\<lambda>key.
              go_bind (go_index shares (int i)) (Encrypt env key))) [0..<nat (re_processCount p)]) (\<lambda>encryptedShares.
          go_bind (re_initMessageState env p b) (\<lambda>(p1, ms, es).
            Inr (p1\<lparr>re_transactionCounter := re_transactionCounter p1 + 1\<rparr>,
              es @ re_broadcastToWitnesses env p1 b
                (re_msg Reliable_NOTIFY (Some \<lparr>Value = v, XHash = re_hash x\<rparr>) encryptedShares) ms @
              [Log (OnTransactionInit b)]))))))"

end
