(* ===== verification/Reliable_Steps.thy ===== *)
theory Reliable_Steps
  imports Reliable
begin

text \<open>
  What one call does to the state of a process of the reliable protocol: the views of a state,
  the four vote boxes of a message state, and for every operation the parts of the state it
  changes.
\<close>

section \<open>Views\<close>

definition re_delivered :: "re_Process \<Rightarrow> BroadcastInstance \<Rightarrow> Broadcast_msg option" where
  "re_delivered p b = lookup2 (re_deliveredMessages p) (Author b) (SeqNumber b)"

definition re_value :: "re_Process \<Rightarrow> BroadcastInstance \<Rightarrow> int32 option" where
  "re_value p b = map_option Value (re_delivered p b)"

text \<open>The fields no step writes, and the authors for which the maps were made.\<close>

definition re_config ::
  "re_Process \<Rightarrow> int32 \<times> (string \<rightharpoonup> ProcessId) \<times> string list \<times> (int \<times> int \<times> int \<times> int \<times> int \<times> int \<times> int \<times> int \<times> int) \<times>
     WitnessesSelector \<times> bool \<times> rsa_key list \<times> rsa_key option \<times> (int32 set \<times> int32 set \<times> int32 set \<times> int32 set)" where
  "re_config p = (re_processIndex p, re_actorPids p, re_pids p,
     (re_quorumThreshold p, re_readyMessagesThreshold p, re_recoverySwitchTimeoutNs p, re_witnessThreshold p,
      re_faultyProcesses p, re_dataShares p, re_parityShares p, re_processCount p, re_MixingTime p),
     re_wSelector p, re_sendOwnDeliveredTransactions p, re_PublicKeys p, re_PrivateKey p,
     dom (re_deliveredMessages p), dom (re_messagesLog p), dom (re_finallyCommittedMessages p), dom (re_transactionToCheckpoint p))"

lemma re_config_fields:
  assumes "re_config p' = re_config p"
  shows "re_processIndex p' = re_processIndex p" "re_actorPids p' = re_actorPids p" "re_pids p' = re_pids p"
    "re_quorumThreshold p' = re_quorumThreshold p" "re_readyMessagesThreshold p' = re_readyMessagesThreshold p"
    "re_witnessThreshold p' = re_witnessThreshold p" "re_faultyProcesses p' = re_faultyProcesses p"
    "re_processCount p' = re_processCount p" "re_MixingTime p' = re_MixingTime p"
    "re_dataShares p' = re_dataShares p" "re_parityShares p' = re_parityShares p"
    "re_PublicKeys p' = re_PublicKeys p" "re_PrivateKey p' = re_PrivateKey p" "re_wSelector p' = re_wSelector p"
    "dom (re_deliveredMessages p') = dom (re_deliveredMessages p)" "dom (re_messagesLog p') = dom (re_messagesLog p)"
    "dom (re_finallyCommittedMessages p') = dom (re_finallyCommittedMessages p)"
    "dom (re_transactionToCheckpoint p') = dom (re_transactionToCheckpoint p)"
  using assms by (simp_all add: re_config_def)

text \<open>The fields of a message state that the reliable protocol reads and the reveal phase leaves alone.\<close>

definition re_core where
  "re_core ms = ((re_echoFromProcesses ms, re_readyFromProcesses ms, re_readyFromWitnesses ms, re_validateFromWitnesses ms),
     (re_echoFromProcessesStat ms, re_readyFromProcessesStat ms, re_readyFromWitnessesStat ms, re_validatesStat ms),
     re_stage ms, re_witnessStage ms, re_ownWitnessSet ms, re_potWitnessSet ms)"

lemma re_core_fields:
  assumes "re_core ms' = re_core ms"
  shows "re_readyFromProcesses ms' = re_readyFromProcesses ms" "re_validateFromWitnesses ms' = re_validateFromWitnesses ms"
    "re_readyFromProcessesStat ms' = re_readyFromProcessesStat ms" "re_validatesStat ms' = re_validatesStat ms"
    "re_stage ms' = re_stage ms" "re_witnessStage ms' = re_witnessStage ms"
    "re_ownWitnessSet ms' = re_ownWitnessSet ms" "re_potWitnessSet ms' = re_potWitnessSet ms"
  using assms by (simp_all add: re_core_def)

lemma re_core_updates [simp]:
  "re_core (ms\<lparr>re_receivedMessagesCnt := k\<rparr>) = re_core ms"
  "re_core (ms\<lparr>re_revealStage := r\<rparr>) = re_core ms"
  "re_core (ms\<lparr>re_decryptedShares := d\<rparr>) = re_core ms"
  "re_core (ms\<lparr>re_revealFromProcesses := S\<rparr>) = re_core ms"
  "re_core (ms\<lparr>re_pendingRevealProtocolMessages := c\<rparr>) = re_core ms"
  by (simp_all add: re_core_def)

lemma re_store_views [simp]:
  "re_state p b = Some ms0 \<Longrightarrow> re_state (re_store p b ms) = (re_state p)(b \<mapsto> ms)"
  "re_state p b = None \<Longrightarrow> re_store p b ms = p"
  "re_delivered (re_store p b ms) = re_delivered p"
  "re_finallyCommitted (re_store p b ms) = re_finallyCommitted p"
  "re_config (re_store p b ms) = re_config p"
  "re_value (re_store p b ms) = re_value p"
proof -
  show "re_state p b = Some ms0 \<Longrightarrow> re_state (re_store p b ms) = (re_state p)(b \<mapsto> ms)"
    by (rule ext) (auto simp: re_state_def re_store_def BroadcastInstance_cong)
  show "re_state p b = None \<Longrightarrow> re_store p b ms = p"
    by (simp add: re_state_def re_store_def poke2_def)
qed (simp_all add: re_store_def re_delivered_def re_finallyCommitted_def re_config_def re_value_def fun_eq_iff)

section \<open>Votes\<close>

definition re_vote_echo :: "ProcessId \<Rightarrow> int32 \<Rightarrow> re_messageState \<Rightarrow> re_messageState" where
  "re_vote_echo q v ms = (if re_echoFromProcesses ms q then ms
     else ms\<lparr>re_echoFromProcesses := (re_echoFromProcesses ms)(q := True),
       re_echoFromProcessesStat := (re_echoFromProcessesStat ms)(v := Suc (re_echoFromProcessesStat ms v))\<rparr>)"

definition re_vote_ready :: "ProcessId \<Rightarrow> int32 \<Rightarrow> re_messageState \<Rightarrow> re_messageState" where
  "re_vote_ready q v ms = (if re_readyFromProcesses ms q then ms
     else ms\<lparr>re_readyFromProcesses := (re_readyFromProcesses ms)(q := True),
       re_readyFromProcessesStat := (re_readyFromProcessesStat ms)(v := Suc (re_readyFromProcessesStat ms v))\<rparr>)"

definition re_vote_witness :: "ProcessId \<Rightarrow> int32 \<Rightarrow> re_messageState \<Rightarrow> re_messageState" where
  "re_vote_witness q v ms = (if re_readyFromWitnesses ms q then ms
     else ms\<lparr>re_readyFromWitnesses := (re_readyFromWitnesses ms)(q := True),
       re_readyFromWitnessesStat := (re_readyFromWitnessesStat ms)(v := Suc (re_readyFromWitnessesStat ms v))\<rparr>)"

definition re_vote_validate :: "ProcessId \<Rightarrow> int32 \<Rightarrow> re_messageState \<Rightarrow> re_messageState" where
  "re_vote_validate q v ms = (if re_validateFromWitnesses ms q then ms
     else ms\<lparr>re_validateFromWitnesses := (re_validateFromWitnesses ms)(q := True),
       re_validatesStat := (re_validatesStat ms)(v := Suc (re_validatesStat ms v))\<rparr>)"

interpretation re_echo_box: vote_box re_echoFromProcesses re_echoFromProcessesStat re_vote_echo
  by unfold_locales (simp_all add: re_vote_echo_def)

interpretation re_ready_box: vote_box re_readyFromProcesses re_readyFromProcessesStat re_vote_ready
  by unfold_locales (simp_all add: re_vote_ready_def)

interpretation re_witness_box: vote_box re_readyFromWitnesses re_readyFromWitnessesStat re_vote_witness
  by unfold_locales (simp_all add: re_vote_witness_def)

interpretation re_validate_box: vote_box re_validateFromWitnesses re_validatesStat re_vote_validate
  by unfold_locales (simp_all add: re_vote_validate_def)

lemma re_vote_fields [simp]:
  "re_readyFromProcesses (re_vote_echo q v ms) = re_readyFromProcesses ms"
  "re_readyFromProcessesStat (re_vote_echo q v ms) = re_readyFromProcessesStat ms"
  "re_readyFromProcesses (re_vote_witness q v ms) = re_readyFromProcesses ms"
  "re_readyFromProcessesStat (re_vote_witness q v ms) = re_readyFromProcessesStat ms"
  "re_readyFromProcesses (re_vote_validate q v ms) = re_readyFromProcesses ms"
  "re_readyFromProcessesStat (re_vote_validate q v ms) = re_readyFromProcessesStat ms"
  "re_validateFromWitnesses (re_vote_echo q v ms) = re_validateFromWitnesses ms"
  "re_validatesStat (re_vote_echo q v ms) = re_validatesStat ms"
  "re_validateFromWitnesses (re_vote_ready q v ms) = re_validateFromWitnesses ms"
  "re_validatesStat (re_vote_ready q v ms) = re_validatesStat ms"
  "re_validateFromWitnesses (re_vote_witness q v ms) = re_validateFromWitnesses ms"
  "re_validatesStat (re_vote_witness q v ms) = re_validatesStat ms"
  "re_stage (re_vote_echo q v ms) = re_stage ms" "re_stage (re_vote_ready q v ms) = re_stage ms"
  "re_stage (re_vote_witness q v ms) = re_stage ms" "re_stage (re_vote_validate q v ms) = re_stage ms"
  "re_witnessStage (re_vote_echo q v ms) = re_witnessStage ms" "re_witnessStage (re_vote_ready q v ms) = re_witnessStage ms"
  "re_witnessStage (re_vote_witness q v ms) = re_witnessStage ms" "re_witnessStage (re_vote_validate q v ms) = re_witnessStage ms"
  "re_ownWitnessSet (re_vote_echo q v ms) = re_ownWitnessSet ms" "re_ownWitnessSet (re_vote_ready q v ms) = re_ownWitnessSet ms"
  "re_ownWitnessSet (re_vote_witness q v ms) = re_ownWitnessSet ms" "re_ownWitnessSet (re_vote_validate q v ms) = re_ownWitnessSet ms"
  "re_potWitnessSet (re_vote_echo q v ms) = re_potWitnessSet ms" "re_potWitnessSet (re_vote_ready q v ms) = re_potWitnessSet ms"
  "re_potWitnessSet (re_vote_witness q v ms) = re_potWitnessSet ms" "re_potWitnessSet (re_vote_validate q v ms) = re_potWitnessSet ms"
  "re_pendingRevealProtocolMessages (re_vote_echo q v ms) = re_pendingRevealProtocolMessages ms"
  "re_pendingRevealProtocolMessages (re_vote_ready q v ms) = re_pendingRevealProtocolMessages ms"
  "re_pendingRevealProtocolMessages (re_vote_witness q v ms) = re_pendingRevealProtocolMessages ms"
  "re_pendingRevealProtocolMessages (re_vote_validate q v ms) = re_pendingRevealProtocolMessages ms"
  by (simp_all add: re_vote_echo_def re_vote_ready_def re_vote_witness_def re_vote_validate_def)

section \<open>What is said\<close>

definition re_rmsg ::
  "BroadcastInstance \<Rightarrow> ReliableProtocolMessage_Stage \<Rightarrow> Broadcast_msg option \<Rightarrow> byte list list \<Rightarrow> BroadcastInstanceMessage" where
  "re_rmsg b st bm shares = \<lparr>BroadcastInstance_of = Some b, Message_of = ReliableMessage (re_msg st bm shares)\<rparr>"

definition re_cmsg :: "BroadcastInstance \<Rightarrow> CommitmentProtocolMessage \<Rightarrow> BroadcastInstanceMessage" where
  "re_cmsg b m = \<lparr>BroadcastInstance_of = Some b, Message_of = CommitmentMessage m\<rparr>"

text \<open>The message is about value \<open>v\<close> of instance \<open>b\<close>, in stage \<open>st\<close>.\<close>

definition re_about ::
  "BroadcastInstance \<Rightarrow> ReliableProtocolMessage_Stage \<Rightarrow> int32 \<Rightarrow> BroadcastInstanceMessage \<Rightarrow> bool" where
  "re_about b st v m \<longleftrightarrow> (\<exists>bm shares. m = re_rmsg b st (Some bm) shares \<and> Value bm = v)"

definition re_says :: "effect set \<Rightarrow> BroadcastInstance \<Rightarrow> ReliableProtocolMessage_Stage \<Rightarrow> int32 \<Rightarrow> bool" where
  "re_says E b st v \<longleftrightarrow> (\<exists>to m. Send to m \<in> E \<and> re_about b st v m)"

lemma re_rmsg_inject [simp]:
  "re_rmsg b st bm sh = re_rmsg b' st' bm' sh' \<longleftrightarrow> b = b' \<and> st = st' \<and> bm = bm' \<and> sh = sh'"
  by (auto simp: re_rmsg_def re_msg_def)

lemma re_about_rmsg [simp]:
  "re_about b st v (re_rmsg b' st' bm sh) \<longleftrightarrow> b = b' \<and> st = st' \<and> map_option Value bm = Some v"
  by (auto simp: re_about_def)

lemma re_about_cmsg [simp]: "\<not> re_about b st v (re_cmsg b' m)"
  by (simp add: re_about_def re_rmsg_def re_cmsg_def)

lemma re_says_empty [simp]: "\<not> re_says {} b st v"
  by (simp add: re_says_def)

lemma re_says_Un [simp]: "re_says (E \<union> E') b st v \<longleftrightarrow> re_says E b st v \<or> re_says E' b st v"
  by (auto simp: re_says_def)

lemma re_says_insert [simp]:
  "re_says (insert e E) b st v \<longleftrightarrow> (\<exists>to m. e = Send to m \<and> re_about b st v m) \<or> re_says E b st v"
  by (auto simp: re_says_def)

lemma re_send_eq:
  "re_sendProtocolMessage to b (re_msg st bm sh) = Send to (re_rmsg b st bm sh)"
  "re_sendCommitmentMessage to b m = Send to (re_cmsg b m)"
  by (simp_all add: re_sendProtocolMessage_def re_rmsg_def re_sendCommitmentMessage_def re_cmsg_def)

text \<open>Effects that only send messages of the reliable protocol, or only messages of the reveal phase.\<close>

definition re_only_sends :: "effect list \<Rightarrow> bool" where
  "re_only_sends es \<longleftrightarrow> list_all (\<lambda>e. \<exists>to m. e = Send to m) es"

definition re_only_reveals :: "effect list \<Rightarrow> bool" where
  "re_only_reveals es \<longleftrightarrow> list_all (\<lambda>e. (\<exists>to b m. e = Send to (re_cmsg b m)) \<or> (\<exists>v w. e = Log (OnHashMismatch v w))) es"

lemma re_only_simps [simp]:
  "re_only_sends []" "re_only_sends (es @ es') \<longleftrightarrow> re_only_sends es \<and> re_only_sends es'"
  "re_only_reveals []" "re_only_reveals (es @ es') \<longleftrightarrow> re_only_reveals es \<and> re_only_reveals es'"
  "re_only_reveals (Log (OnHashMismatch v w) # es) \<longleftrightarrow> re_only_reveals es"
  "re_only_sends (re_broadcastProtocolMessage p b m)" "re_only_sends (re_broadcastToWitnesses env p b m ms)"
  "re_only_reveals (re_broadcastCommitmentMessage p b c)" "re_only_reveals (re_broadcastCommitmentToWitnesses env p b c ms)"
  by (auto simp: re_only_sends_def re_only_reveals_def re_broadcastProtocolMessage_def re_broadcastToWitnesses_def
      re_broadcastCommitmentMessage_def re_broadcastCommitmentToWitnesses_def list_all_iff re_send_eq
      re_sendProtocolMessage_def)

lemma re_only_sends_deliveries: "re_only_sends es \<Longrightarrow> deliveries es = []"
  by (induction es rule: deliveries.induct) (auto simp: re_only_sends_def)

lemma re_only_reveals_deliveries: "re_only_reveals es \<Longrightarrow> deliveries es = []"
  by (induction es rule: deliveries.induct) (auto simp: re_only_reveals_def)

lemma re_only_reveals_says: "re_only_reveals es \<Longrightarrow> \<not> re_says (set es) b st v"
  by (auto simp: re_only_reveals_def re_says_def list_all_iff)

lemma re_says_map:
  "re_says (set (map (\<lambda>x. Send (f x) m) xs)) b st v \<longleftrightarrow> xs \<noteq> [] \<and> re_about b st v m"
  by (induction xs) auto

lemma re_says_broadcast [simp]:
  "re_says (set (re_broadcastProtocolMessage p b (re_msg st bm sh))) b' st' v \<longleftrightarrow>
     re_pids p \<noteq> [] \<and> b' = b \<and> st' = st \<and> map_option Value bm = Some v"
  by (simp only: re_broadcastProtocolMessage_def re_send_eq re_says_map) auto

lemma re_says_witnesses:
  "re_says (set (re_broadcastToWitnesses env p b (re_msg st bm sh) ms)) b' st' v \<longleftrightarrow>
     env_order env (re_potWitnessSet ms) \<noteq> [] \<and> b' = b \<and> st' = st \<and> map_option Value bm = Some v"
  by (simp only: re_broadcastToWitnesses_def re_send_eq re_says_map) auto

section \<open>One stage\<close>

text \<open>
  \<open>re_stage_step p q pid b m ms ms' es d\<close>: what a message of the reliable protocol may do to the
  message state \<open>ms\<close>, whatever its stage: at most one vote of its sender, stages only forward,
  READY_FROM_PROCESS at most once, VALIDATE and delivery only on full counts.
\<close>

definition re_stage_step ::
  "re_Process \<Rightarrow> ProcessId \<Rightarrow> string \<Rightarrow> BroadcastInstance \<Rightarrow> ReliableProtocolMessage \<Rightarrow> re_messageState \<Rightarrow>
   re_messageState \<Rightarrow> effect list \<Rightarrow> Broadcast_msg option \<Rightarrow> bool" where
  "re_stage_step p q pid b m ms ms' es d \<longleftrightarrow>
     re_ownWitnessSet ms' = re_ownWitnessSet ms \<and> re_potWitnessSet ms' = re_potWitnessSet ms \<and>
     re_pendingRevealProtocolMessages ms' = re_pendingRevealProtocolMessages ms \<and> re_only_sends es \<and>
     re_stage ms \<le> re_stage ms' \<and> (re_stage ms' = Delivered \<longleftrightarrow> re_stage ms = Delivered) \<and>
     re_witnessStage ms \<le> re_witnessStage ms' \<and>
     (re_readyFromProcesses ms' = re_readyFromProcesses ms \<and> re_readyFromProcessesStat ms' = re_readyFromProcessesStat ms \<or>
        ReliableStage m = Reliable_READY_FROM_PROCESS \<and> (\<exists>bm. BroadcastMessage m = Some bm \<and>
          re_readyFromProcesses ms' = re_readyFromProcesses (re_vote_ready q (Value bm) ms) \<and>
          re_readyFromProcessesStat ms' = re_readyFromProcessesStat (re_vote_ready q (Value bm) ms))) \<and>
     (re_validateFromWitnesses ms' = re_validateFromWitnesses ms \<and> re_validatesStat ms' = re_validatesStat ms \<or>
        ReliableStage m = Reliable_VALIDATE \<and> pid \<in> re_ownWitnessSet ms \<and> (\<exists>bm. BroadcastMessage m = Some bm \<and>
          re_validateFromWitnesses ms' = re_validateFromWitnesses (re_vote_validate q (Value bm) ms) \<and>
          re_validatesStat ms' = re_validatesStat (re_vote_validate q (Value bm) ms))) \<and>
     (\<forall>c v. re_says (set es) c Reliable_READY_FROM_PROCESS v \<longrightarrow> c = b \<and> re_stage ms < SentReadyFromProcess \<and>
        re_stage ms' = SentReadyFromProcess \<and> map_option Value (BroadcastMessage m) = Some v) \<and>
     (\<forall>c v. re_says (set es) c Reliable_VALIDATE v \<longrightarrow> c = b \<and>
        re_quorumThreshold p \<le> int (re_readyFromProcessesStat ms' v)) \<and>
     (\<forall>bm. d = Some bm \<longrightarrow> re_stage ms < Delivered \<and> re_witnessThreshold p \<le> int (re_validatesStat ms' (Value bm)))"

lemma re_stage_step_quiet: "re_stage_step p q pid b m ms ms [] None"
  by (simp add: re_stage_step_def)

lemma re_onNotify_step:
  assumes "re_onNotify p b m ms = Inr (ms', es)"
  shows "re_stage_step p q pid b m ms ms' es None"
proof -
  have send: "re_only_sends es \<and> (\<forall>c v. \<not> re_says (set es) c Reliable_READY_FROM_PROCESS v \<and> \<not> re_says (set es) c Reliable_VALIDATE v)"
    if "go_map (\<lambda>i. go_bind (go_index (EncryptedShares m) (int i)) (\<lambda>share.
         Inr (re_sendProtocolMessage (of_nat i) b (re_msg Reliable_ECHO_FROM_WITNESS (BroadcastMessage m) [share])))) is = Inr es"
    for "is" es
    using that
  proof (induction "is" arbitrary: es)
    case (Cons i "is")
    then show ?case by (auto simp: go_simps re_send_eq re_only_sends_def)
  qed simp
  from assms show ?thesis
    by (auto simp: re_onNotify_def go_simps re_stage_step_def re_stage_order not_le split: if_splits dest!: send)
qed

lemma re_onEchoFromWitness_step:
  assumes "re_onEchoFromWitness env p pid b m ms = Inr (ms', es)"
  shows "re_stage_step p q pid b m ms ms' es None"
proof (cases "pid \<notin> re_ownWitnessSet ms \<or> SentEchoFromProcess \<le> re_stage ms")
  case True
  then show ?thesis using assms by (simp add: re_onEchoFromWitness_def re_stage_step_quiet)
next
  case False
  then obtain share where "ms' = ms\<lparr>re_ownEncryptedShare := share, re_stage := SentEchoFromProcess\<rparr>"
    and "es = re_broadcastToWitnesses env p b (re_msg Reliable_ECHO_FROM_PROCESS (BroadcastMessage m) []) ms"
    using assms by (auto simp: re_onEchoFromWitness_def go_simps)
  moreover have "re_stage ms = InitialStage" using False by (cases "re_stage ms") (simp_all add: re_stage_order)
  ultimately show ?thesis by (auto simp: re_stage_step_def re_stage_order re_says_witnesses)
qed

lemma re_onEchoFromProcess_step:
  assumes "re_onEchoFromProcess p q b m ms = Inr (ms', es)"
  shows "re_stage_step p q pid b m ms ms' es None"
proof (cases "re_isWitness p ms = Inr True \<and> re_witnessStage ms < SentReadyFromWitness \<and> \<not> re_echoFromProcesses ms q")
  case False
  then have "ms' = ms" "es = []"
    using assms by (auto simp: re_onEchoFromProcess_def go_simps not_le[symmetric] split: if_splits)
  then show ?thesis by (simp add: re_stage_step_quiet)
next
  case True
  obtain bm where bm: "BroadcastMessage m = Some bm"
    using assms True by (auto simp: re_onEchoFromProcess_def go_simps go_deref_def not_le split: if_splits option.splits)
  define ms1 where "ms1 = re_vote_echo q (Value bm) ms"
  have "ms\<lparr>re_echoFromProcesses := (re_echoFromProcesses ms)(q := True),
      re_echoFromProcessesStat := (re_echoFromProcessesStat ms)(Value bm := Suc (re_echoFromProcessesStat ms (Value bm)))\<rparr> = ms1"
    using True by (simp add: ms1_def re_vote_echo_def)
  then have "re_onEchoFromProcess p q b m ms = (if re_quorumThreshold p \<le> int (re_echoFromProcessesStat ms1 (Value bm))
      then Inr (re_broadcastReadyFromWitness p b bm ms1) else Inr (ms1, []))"
    using True by (simp only: re_onEchoFromProcess_def bm go_deref_def go_bind.simps option.case Let_def
        simp_thms if_False not_le[symmetric])
  then have "ms' = ms1 \<and> es = [] \<or> ms' = ms1\<lparr>re_witnessStage := SentReadyFromWitness\<rparr> \<and>
      es = re_broadcastProtocolMessage p b (re_msg Reliable_READY_FROM_WITNESS (Some bm) [])"
    using assms by (auto simp: re_broadcastReadyFromWitness_def split: if_splits)
  then show ?thesis using True by (elim disjE) (simp_all add: re_stage_step_def ms1_def less_imp_le)
qed

lemma re_onReadyFromWitness_step:
  assumes "re_onReadyFromWitness env p q pid b m ms = Inr (ms', es)"
  shows "re_stage_step p q pid b m ms ms' es None"
proof (cases "pid \<in> re_ownWitnessSet ms \<and> re_stage ms < SentReadyFromProcess \<and> \<not> re_readyFromWitnesses ms q")
  case False
  then have "ms' = ms" "es = []"
    using assms by (auto simp: re_onReadyFromWitness_def go_simps not_le[symmetric] split: if_splits)
  then show ?thesis by (simp add: re_stage_step_quiet)
next
  case True
  obtain bm where bm: "BroadcastMessage m = Some bm"
    using assms True by (auto simp: re_onReadyFromWitness_def go_simps go_deref_def not_le split: if_splits option.splits)
  define ms1 where "ms1 = re_vote_witness q (Value bm) ms"
  have "ms\<lparr>re_readyFromWitnesses := (re_readyFromWitnesses ms)(q := True),
      re_readyFromWitnessesStat := (re_readyFromWitnessesStat ms)(Value bm := Suc (re_readyFromWitnessesStat ms (Value bm)))\<rparr> = ms1"
    using True by (simp add: ms1_def re_vote_witness_def)
  then have "re_onReadyFromWitness env p q pid b m ms =
      (if re_witnessThreshold p \<le> int (re_readyFromWitnessesStat ms1 (Value bm))
       then Inr (ms1\<lparr>re_stage := SentReadyFromProcess\<rparr>,
         re_broadcastToWitnesses env p b (re_msg Reliable_READY_FROM_PROCESS (Some bm) []) ms1)
       else Inr (ms1, []))"
    using True by (simp only: re_onReadyFromWitness_def bm go_deref_def go_bind.simps option.case Let_def
        simp_thms if_False not_le[symmetric])
  then have "ms' = ms1 \<and> es = [] \<or> ms' = ms1\<lparr>re_stage := SentReadyFromProcess\<rparr> \<and>
      es = re_broadcastToWitnesses env p b (re_msg Reliable_READY_FROM_PROCESS (Some bm) []) ms1"
    using assms by (auto split: if_splits)
  moreover have "re_stage ms \<noteq> Delivered" using True by (auto simp: re_stage_order)
  ultimately show ?thesis using True bm
    by (elim disjE) (simp_all add: re_stage_step_def ms1_def re_says_witnesses less_imp_le)
qed

lemma re_onReadyFromProcess_step:
  assumes "re_onReadyFromProcess p q b m ms = Inr (ms', es)" and st: "ReliableStage m = Reliable_READY_FROM_PROCESS"
  shows "re_stage_step p q pid b m ms ms' es None"
proof (cases "\<exists>bm. BroadcastMessage m = Some bm \<and> \<not> re_readyFromProcesses ms q \<and> re_isWitness p ms = Inr True")
  case False
  then have "ms' = ms" "es = []"
    using assms by (auto simp: re_onReadyFromProcess_def go_simps go_deref_def split: if_splits option.splits)
  then show ?thesis by (simp add: re_stage_step_quiet)
next
  case True
  then obtain bm where bm: "BroadcastMessage m = Some bm" "\<not> re_readyFromProcesses ms q" "re_isWitness p ms = Inr True"
    by blast
  define ms1 where "ms1 = re_vote_ready q (Value bm) ms"
  have "ms\<lparr>re_readyFromProcesses := (re_readyFromProcesses ms)(q := True),
      re_readyFromProcessesStat := (re_readyFromProcessesStat ms)(Value bm := Suc (re_readyFromProcessesStat ms (Value bm)))\<rparr> = ms1"
    using bm(2) by (simp add: ms1_def re_vote_ready_def)
  then have r: "re_onReadyFromProcess p q b m ms =
     (let (ms2, es1) = (if re_witnessStage ms1 < SentReadyFromWitness \<and>
          re_readyMessagesThreshold p \<le> int (re_readyFromProcessesStat ms1 (Value bm))
        then re_broadcastReadyFromWitness p b bm ms1 else (ms1, []))
      in if re_witnessStage ms2 < SentValidate \<and> re_quorumThreshold p \<le> int (re_readyFromProcessesStat ms2 (Value bm))
         then Inr (ms2\<lparr>re_witnessStage := SentValidate\<rparr>,
           es1 @ re_broadcastProtocolMessage p b (re_msg Reliable_VALIDATE (Some bm) []))
         else Inr (ms2, es1))"
    using bm(2) by (simp only: re_onReadyFromProcess_def bm(1,3) go_deref_def go_bind.simps option.case Let_def
        simp_thms if_False)
  have fields: "re_ownWitnessSet ms1 = re_ownWitnessSet ms" "re_potWitnessSet ms1 = re_potWitnessSet ms"
    "re_stage ms1 = re_stage ms" "re_witnessStage ms1 = re_witnessStage ms"
    "re_validateFromWitnesses ms1 = re_validateFromWitnesses ms" "re_validatesStat ms1 = re_validatesStat ms"
    "re_pendingRevealProtocolMessages ms1 = re_pendingRevealProtocolMessages ms"
    by (simp_all add: ms1_def)
  obtain ms2 es1 where c: "(if re_witnessStage ms1 < SentReadyFromWitness \<and>
          re_readyMessagesThreshold p \<le> int (re_readyFromProcessesStat ms1 (Value bm))
        then re_broadcastReadyFromWitness p b bm ms1 else (ms1, [])) = (ms2, es1)" by (metis surj_pair)
  then have two: "ms2 = ms1 \<and> es1 = [] \<or> re_witnessStage ms1 \<le> SentReadyFromWitness \<and>
      ms2 = ms1\<lparr>re_witnessStage := SentReadyFromWitness\<rparr> \<and>
      es1 = re_broadcastProtocolMessage p b (re_msg Reliable_READY_FROM_WITNESS (Some bm) [])"
    by (auto simp: re_broadcastReadyFromWitness_def split: if_splits)
  have box: "\<exists>bm'. BroadcastMessage m = Some bm' \<and> re_readyFromProcesses ms1 = re_readyFromProcesses (re_vote_ready q (Value bm') ms) \<and>
      re_readyFromProcessesStat ms1 = re_readyFromProcessesStat (re_vote_ready q (Value bm') ms)"
    by (simp add: ms1_def bm(1))
  have run: "(if re_witnessStage ms2 < SentValidate \<and> re_quorumThreshold p \<le> int (re_readyFromProcessesStat ms2 (Value bm))
      then Inr (ms2\<lparr>re_witnessStage := SentValidate\<rparr>,
        es1 @ re_broadcastProtocolMessage p b (re_msg Reliable_VALIDATE (Some bm) []))
      else Inr (ms2, es1)) = (Inr (ms', es) :: (re_messageState \<times> effect list) go)"
    using assms(1) unfolding r c by (simp only: prod.case Let_def)
  show ?thesis
  proof (cases "re_witnessStage ms2 < SentValidate \<and> re_quorumThreshold p \<le> int (re_readyFromProcessesStat ms2 (Value bm))")
    case True
    then have "ms' = ms2\<lparr>re_witnessStage := SentValidate\<rparr>"
      "es = es1 @ re_broadcastProtocolMessage p b (re_msg Reliable_VALIDATE (Some bm) [])"
      using run by simp_all
    moreover have "w \<le> SentValidate" for w by (cases w) (simp_all add: re_stage_order)
    ultimately show ?thesis using two True box st unfolding re_stage_step_def by (elim disjE) (simp_all add: fields)
  next
    case False
    from run have "ms' = ms2" "es = es1" unfolding if_not_P[OF False] by simp_all
    then show ?thesis using two box st unfolding re_stage_step_def by (elim disjE) (simp_all add: fields)
  qed
qed

lemma re_onValidate_step:
  assumes "re_onValidate p q pid m ms = Inr (ms', d)" and st: "ReliableStage m = Reliable_VALIDATE"
  shows "re_stage_step p q pid b m ms ms' [] d"
proof (cases "pid \<in> re_ownWitnessSet ms \<and> re_stage ms < Delivered \<and> \<not> re_validateFromWitnesses ms q")
  case False
  then have "ms' = ms" "d = None"
    using assms by (auto simp: re_onValidate_def go_simps not_le[symmetric] split: if_splits)
  then show ?thesis by (simp add: re_stage_step_quiet)
next
  case True
  obtain bm where bm: "BroadcastMessage m = Some bm"
    using assms True by (auto simp: re_onValidate_def go_simps go_deref_def not_le split: if_splits option.splits)
  define ms1 where "ms1 = re_vote_validate q (Value bm) ms"
  have "ms\<lparr>re_validateFromWitnesses := (re_validateFromWitnesses ms)(q := True),
      re_validatesStat := (re_validatesStat ms)(Value bm := Suc (re_validatesStat ms (Value bm)))\<rparr> = ms1"
    using True by (simp add: ms1_def re_vote_validate_def)
  then have "re_onValidate p q pid m ms =
      Inr (ms1, if re_witnessThreshold p \<le> int (re_validatesStat ms1 (Value bm)) then Some bm else None)"
    using True by (simp only: re_onValidate_def bm go_deref_def go_bind.simps option.case Let_def
        simp_thms if_False not_le[symmetric])
  then have "ms' = ms1" "d = (if re_witnessThreshold p \<le> int (re_validatesStat ms1 (Value bm)) then Some bm else None)"
    using assms by simp_all
  moreover have "\<exists>bm'. BroadcastMessage m = Some bm' \<and> re_validateFromWitnesses ms1 = re_validateFromWitnesses (re_vote_validate q (Value bm') ms) \<and>
      re_validatesStat ms1 = re_validatesStat (re_vote_validate q (Value bm') ms)"
    by (simp add: ms1_def bm)
  ultimately show ?thesis using True st unfolding re_stage_step_def by (simp add: ms1_def)
qed

lemma re_reliableStage_step:
  assumes "re_reliableStage env p q pid b m ms = Inr (ms', es, d)"
  shows "re_stage_step p q pid b m ms ms' es d"
proof (cases "ReliableStage m")
  case Reliable_READY_FROM_PROCESS
  then show ?thesis using assms
    by (auto simp: re_reliableStage_def Let_def go_simps intro: re_onReadyFromProcess_step)
next
  case Reliable_VALIDATE
  then show ?thesis using assms
    by (auto simp: re_reliableStage_def Let_def go_simps intro: re_onValidate_step)
qed (use assms in \<open>auto simp: re_reliableStage_def Let_def go_simps re_stage_step_quiet
      intro: re_onNotify_step re_onEchoFromWitness_step re_onEchoFromProcess_step re_onReadyFromWitness_step\<close>)

section \<open>Registration\<close>

text \<open>What deliveries write and nothing else does.\<close>

definition re_books where
  "re_books p = (re_deliveredMessages p, re_checkpoints p, re_transactionToCheckpoint p, re_deliveredMessagesCount p)"

lemma re_books_fields:
  assumes "re_books p' = re_books p"
  shows "re_delivered p' = re_delivered p" "re_value p' = re_value p" "re_checkpoints p' = re_checkpoints p"
    "re_transactionToCheckpoint p' = re_transactionToCheckpoint p"
    "re_deliveredMessagesCount p' = re_deliveredMessagesCount p"
proof -
  have "re_deliveredMessages p' = re_deliveredMessages p" using assms by (simp add: re_books_def)
  then show "re_delivered p' = re_delivered p" "re_value p' = re_value p"
    by (intro ext; simp add: re_delivered_def re_value_def)+
qed (use assms in \<open>simp_all add: re_books_def\<close>)

lemma re_store_books [simp]:
  "re_books (re_store p b ms) = re_books p" "re_historyHashes (re_store p b ms) = re_historyHashes p"
  "re_transactionCounter (re_store p b ms) = re_transactionCounter p"
  by (simp_all add: re_store_def re_books_def)

definition re_selected :: "re_env \<Rightarrow> BroadcastInstance \<Rightarrow> re_messageState \<Rightarrow> effect list" where
  "re_selected env b ms = [Log (OnWitnessSetSelected ''own'' b (env_order env (re_ownWitnessSet ms))),
     Log (OnWitnessSetSelected ''pot'' b (env_order env (re_potWitnessSet ms)))]"

lemma re_selected_views [simp]:
  "deliveries (re_selected env b ms) = []" "\<not> re_says (set (re_selected env b ms)) c st v"
  "sends (re_selected env b ms) = []"
  by (simp_all add: re_selected_def)

lemma re_init_eq:
  assumes "re_initMessageState env p b = Inr (p', ms, es)"
  shows "re_state p' = (re_state p)(b \<mapsto> ms)" "re_books p' = re_books p" "re_config p' = re_config p"
    "re_finallyCommitted p' = re_finallyCommitted p" "re_historyHashes p' = re_historyHashes p"
    "re_transactionCounter p' = re_transactionCounter p" "es = re_selected env b ms"
    "\<exists>own pot. ms = re_newMessageState\<lparr>re_ownWitnessSet := own, re_potWitnessSet := pot\<rparr> \<and> finite own \<and> finite pot"
    "dom (re_messagesLog p') = dom (re_messagesLog p)"
proof -
  obtain lg r where lg: "assign2 (re_messagesLog p) (Author b) (SeqNumber b) re_newMessageState = Inr lg"
    and r: "GetWitnessSet (env_sort env) (re_wSelector p) (re_pids p) (re_historyHashes p) = Inr r"
    using assms by (auto simp: re_initMessageState_def go_simps)
  obtain own pot where op: "(case r of None \<Rightarrow> ({}, {}) | Some sets \<Rightarrow> sets) = (own, pot)" by (metis surj_pair)
  have fin: "finite own" "finite pot" using op r GetWitnessSet_finite by (auto split: option.splits)
  have ms: "ms = re_newMessageState\<lparr>re_ownWitnessSet := own, re_potWitnessSet := pot\<rparr>"
    and p': "p' = re_store (p\<lparr>re_messagesLog := lg\<rparr>) b ms" and es: "es = re_selected env b ms"
    using assms by (auto simp: re_initMessageState_def lg r op re_selected_def Let_def)
  have st: "re_state (p\<lparr>re_messagesLog := lg\<rparr>) = (re_state p)(b \<mapsto> re_newMessageState)"
    using assign2_lookup[OF lg] by (auto simp: re_state_def fun_eq_iff BroadcastInstance_cong)
  then have "re_state (p\<lparr>re_messagesLog := lg\<rparr>) b = Some re_newMessageState" by simp
  from re_store_views(1)[OF this] st show "re_state p' = (re_state p)(b \<mapsto> ms)" by (simp add: p')
  show "\<exists>own pot. ms = re_newMessageState\<lparr>re_ownWitnessSet := own, re_potWitnessSet := pot\<rparr> \<and> finite own \<and> finite pot"
    using ms fin by blast
  show "re_books p' = re_books p" "re_config p' = re_config p" "re_finallyCommitted p' = re_finallyCommitted p"
    "re_historyHashes p' = re_historyHashes p" "re_transactionCounter p' = re_transactionCounter p" "es = re_selected env b ms"
    using assign2_dom[OF lg]
    by (simp_all add: p' es re_books_def re_config_def re_finallyCommitted_def fun_eq_iff re_store_def)
  show "dom (re_messagesLog p') = dom (re_messagesLog p)"
    using assign2_dom[OF lg] by (simp add: p' re_store_def)
qed

text \<open>Registration finds the message state or makes a fresh one.\<close>

lemma re_register_cases:
  assumes "re_registerMessage env p b = Inr (p1, ms, es)"
  obtains (known) "re_state p b = Some ms" "p1 = p" "es = []"
  | (fresh) own pot where "re_state p b = None" "re_initMessageState env p b = Inr (p1, ms, es)"
      "ms = re_newMessageState\<lparr>re_ownWitnessSet := own, re_potWitnessSet := pot\<rparr>" "finite own" "finite pot"
      "es = re_selected env b ms"
  using assms re_init_eq(7,8)[of env p b p1 ms es] by (auto simp: re_registerMessage_def split: option.splits)

lemma re_register_eq:
  assumes "re_registerMessage env p b = Inr (p1, ms, es)"
  shows "re_state p1 = (re_state p)(b \<mapsto> ms)" "re_books p1 = re_books p" "re_config p1 = re_config p"
    "re_finallyCommitted p1 = re_finallyCommitted p" "re_historyHashes p1 = re_historyHashes p"
    "re_transactionCounter p1 = re_transactionCounter p" "dom (re_messagesLog p1) = dom (re_messagesLog p)"
proof -
  have "re_state p1 = (re_state p)(b \<mapsto> ms) \<and> re_books p1 = re_books p \<and> re_config p1 = re_config p \<and>
    re_finallyCommitted p1 = re_finallyCommitted p \<and> re_historyHashes p1 = re_historyHashes p \<and>
    re_transactionCounter p1 = re_transactionCounter p \<and> dom (re_messagesLog p1) = dom (re_messagesLog p)"
    using assms
  proof (cases rule: re_register_cases)
    case known
    then show ?thesis by (simp add: map_upd_triv)
  next
    case (fresh own pot)
    show ?thesis using re_init_eq[OF fresh(2)] by simp
  qed
  then show "re_state p1 = (re_state p)(b \<mapsto> ms)" "re_books p1 = re_books p" "re_config p1 = re_config p"
    "re_finallyCommitted p1 = re_finallyCommitted p" "re_historyHashes p1 = re_historyHashes p"
    "re_transactionCounter p1 = re_transactionCounter p" "dom (re_messagesLog p1) = dom (re_messagesLog p)" by blast+
qed

section \<open>Reveal messages\<close>

text \<open>A secret enters the history of every process: what \<open>addSecret\<close> does to the histories.\<close>

definition re_histories_add :: "nat \<Rightarrow> HistoryHash list \<Rightarrow> int32 list \<Rightarrow> HistoryHash list go" where
  "re_histories_add n hs x =
     go_bind (go_map (\<lambda>i. go_bind (go_index hs (int i)) (\<lambda>hh. hh_Insert hh (re_secretBytes x))) [0..<n]) (\<lambda>hs'.
       Inr (hs' @ drop (length hs') hs))"

lemma re_addSecret_eq:
  "re_addSecret p x = go_bind (re_histories_add (nat (re_processCount p)) (re_historyHashes p) x) (\<lambda>hs. Inr (p\<lparr>re_historyHashes := hs\<rparr>))"
  by (cases "go_map (\<lambda>i. go_bind (go_index (re_historyHashes p) (int i)) (\<lambda>hh. hh_Insert hh (re_secretBytes x))) [0..<nat (re_processCount p)]")
    (simp_all add: re_addSecret_def re_histories_add_def)

definition re_checkpoint_of :: "re_Process \<Rightarrow> BroadcastInstance \<Rightarrow> int" where
  "re_checkpoint_of p b = (case lookup2 (re_transactionToCheckpoint p) (Author b) (SeqNumber b) of None \<Rightarrow> 0 | Some k \<Rightarrow> k)"

text \<open>\<open>re_commits p b x p'\<close>: the delivered instance \<open>b\<close> is committed with secret \<open>x\<close>.\<close>

definition re_commits :: "re_Process \<Rightarrow> BroadcastInstance \<Rightarrow> int32 list \<Rightarrow> re_Process \<Rightarrow> bool" where
  "re_commits p b x p' \<longleftrightarrow> (\<exists>bm. re_delivered p b = Some bm \<and> re_hash x = XHash bm) \<and>
     re_MixingTime p \<le> re_deliveredMessagesCount p - re_checkpoint_of p b \<and>
     re_histories_add (nat (re_processCount p)) (re_historyHashes p) x = Inr (re_historyHashes p')"

text \<open>
  \<open>re_reveal_step q m b p ms p' ms' es\<close>: the reveal message \<open>m\<close> of \<open>q\<close> handled on the message state \<open>ms\<close>
  of \<open>b\<close>. The reliable protocol's part of the state stays, unless the transaction is committed and goes.
\<close>

definition re_reveal_step ::
  "ProcessId \<Rightarrow> CommitmentProtocolMessage \<Rightarrow> BroadcastInstance \<Rightarrow> re_Process \<Rightarrow> re_messageState \<Rightarrow> re_Process \<Rightarrow>
   re_messageState \<Rightarrow> effect list \<Rightarrow> bool" where
  "re_reveal_step q m b p ms p' ms' es \<longleftrightarrow> re_config p' = re_config p \<and> re_books p' = re_books p \<and>
     re_transactionCounter p' = re_transactionCounter p \<and> re_core ms' = re_core ms \<and> re_only_reveals es \<and>
     set (re_pendingRevealProtocolMessages ms') \<subseteq> insert (q, m) (set (re_pendingRevealProtocolMessages ms)) \<and>
     (re_state p' = (re_state p)(b \<mapsto> ms') \<and> re_finallyCommitted p' = re_finallyCommitted p \<and>
        re_historyHashes p' = re_historyHashes p \<or>
      re_state p' = (re_state p)(b := None) \<and> re_finallyCommitted p' = (re_finallyCommitted p)(b := True) \<and>
        CommitmentStage m = Commitment_DONE \<and> re_commits p b (X m) p')"

text \<open>What handling a reveal message of a delivered instance keeps.\<close>

definition re_kept where
  "re_kept ms = (re_core ms, re_pendingRevealProtocolMessages ms)"

lemma re_kept_updates [simp]:
  "re_kept (ms\<lparr>re_revealStage := r\<rparr>) = re_kept ms"
  "re_kept (ms\<lparr>re_decryptedShares := d\<rparr>) = re_kept ms"
  "re_kept (ms\<lparr>re_revealFromProcesses := S\<rparr>) = re_kept ms"
  "re_kept (ms\<lparr>re_receivedMessagesCnt := k\<rparr>) = re_kept ms"
  by (simp_all add: re_kept_def re_core_def)

lemma re_decodeSecret_core:
  assumes "re_decodeSecret env p b delivered shares ms = Inr (ms', es)"
  shows "re_kept ms' = re_kept ms \<and> re_only_reveals es"
proof -
  obtain full where full: "env_reconstruct env (re_dataShares p) (re_parityShares p) shares = Some full" "\<not> re_dataShares p < 0"
    using assms by (cases "env_reconstruct env (re_dataShares p) (re_parityShares p) shares"; cases "re_dataShares p < 0")
      (simp_all add: re_decodeSecret_def)
  show ?thesis
  proof (cases "go_map (\<lambda>i. go_bind (go_index full (int i)) ToInt32) [0..<nat (re_dataShares p)]")
    case (Inl e)
    then show ?thesis using assms full by (simp add: re_decodeSecret_def)
  next
    case (Inr xPrime)
    then show ?thesis using assms full
      by (cases "re_hash xPrime = XHash delivered") (auto simp: re_decodeSecret_def Let_def)
  qed
qed

lemma re_onReveal_core:
  assumes "re_onReveal env p q b share delivered ms = Inr (ms', es)"
  shows "re_kept ms' = re_kept ms \<and> re_only_reveals es"
proof -
  obtain w where w: "re_isWitness p ms = Inr w" using assms by (auto simp: re_onReveal_def elim: go_bindE)
  show ?thesis
  proof (cases "\<not> w \<or> q \<in> re_revealFromProcesses ms \<or> re_revealStage ms = SentDoneToProcesses \<or>
      re_revealStage ms = SentFailedToProcesses")
    case True
    then have "ms' = ms" "es = []" using assms by (simp_all add: re_onReveal_def w)
    then show ?thesis by simp
  next
    case False
    from assms[unfolded re_onReveal_def w go_bind.simps if_not_P[OF False] Let_def]
    show ?thesis
    proof (elim go_bindE)
      fix shares k u
      let ?ms = "ms\<lparr>re_revealFromProcesses := insert q (re_revealFromProcesses ms),
        re_decryptedShares := Some (shares[nat (sint q) := share])\<rparr>"
      assume fin: "(if 2 * re_faultyProcesses p + 1 \<le> int (card (re_revealFromProcesses ?ms))
        then re_decodeSecret env p b delivered (shares[nat (sint q) := share]) ?ms else Inr (?ms, [])) = Inr (ms', es)"
      show ?thesis
      proof (cases "2 * re_faultyProcesses p + 1 \<le> int (card (re_revealFromProcesses ?ms))")
        case True
        from re_decodeSecret_core[OF fin[unfolded if_P[OF True]]] show ?thesis by (simp only: re_kept_updates)
      next
        case False
        from fin[unfolded if_not_P[OF False]] have "ms' = ?ms" "es = []" by simp_all
        then show ?thesis by simp
      qed
    qed
  qed
qed

lemma re_onDone_core:
  assumes "re_onDone env p pid b x delivered ms = Inr (ms', es, c)"
  shows "re_kept ms' = re_kept ms \<and> re_only_reveals es"
proof (cases "re_hash x \<noteq> XHash delivered")
  case False
  then obtain w where w: "re_isWitness p ms = Inr w" using assms by (auto simp: re_onDone_def elim: go_bindE)
  define one where "one = (if w \<and> re_revealStage ms \<noteq> SentDoneToProcesses
    then (ms\<lparr>re_revealStage := SentDoneToProcesses\<rparr>, re_broadcastCommitmentMessage p b (re_commitment Commitment_DONE [] x))
    else (ms, []))"
  obtain ms1 es1 where one': "one = (ms1, es1)" by (cases one)
  then have k: "re_kept ms1 = re_kept ms" "re_only_reveals es1" by (auto simp: one_def split: if_splits)
  show ?thesis
    using assms[unfolded re_onDone_def if_not_P[OF False] w go_bind.simps Let_def one_def[symmetric] one' prod.case] k
    by (simp split: if_splits) auto
qed (use assms in \<open>simp add: re_onDone_def\<close>)

lemma re_onFailed_core:
  "re_onFailed env p pid b ms = Inr (ms', es) \<Longrightarrow> re_kept ms' = re_kept ms \<and> re_only_reveals es"
  by (auto simp: re_onFailed_def go_simps Let_def split: if_splits)

lemma re_addSecret_views:
  assumes "re_addSecret p x = Inr p'"
  shows "re_state p' = re_state p" "re_books p' = re_books p" "re_config p' = re_config p"
    "re_finallyCommitted p' = re_finallyCommitted p" "re_transactionCounter p' = re_transactionCounter p"
    "re_messagesLog p' = re_messagesLog p" "re_finallyCommittedMessages p' = re_finallyCommittedMessages p"
    "re_histories_add (nat (re_processCount p)) (re_historyHashes p) x = Inr (re_historyHashes p')"
  using assms by (auto simp: re_addSecret_eq go_simps re_state_def re_books_def re_config_def re_finallyCommitted_def)

lemma re_cleanUp_views:
  assumes "re_cleanUp p b v = Inr p'"
  shows "re_state p' = (re_state p)(b := None)" "re_finallyCommitted p' = (re_finallyCommitted p)(b := True)"
    "re_books p' = re_books p" "re_config p' = re_config p" "re_transactionCounter p' = re_transactionCounter p"
    "re_historyHashes p' = re_historyHashes p" "dom (re_messagesLog p') = dom (re_messagesLog p)"
    "dom (re_finallyCommittedMessages p') = dom (re_finallyCommittedMessages p)"
proof -
  obtain fc where fc: "assign2 (re_finallyCommittedMessages p) (Author b) (SeqNumber b) v = Inr fc"
    and p': "p' = p\<lparr>re_messagesLog := delete2 (re_messagesLog p) (Author b) (SeqNumber b), re_finallyCommittedMessages := fc\<rparr>"
    using assms by (auto simp: re_cleanUp_def Let_def go_simps)
  show "re_state p' = (re_state p)(b := None)" by (rule ext) (simp add: p' re_state_def BroadcastInstance_cong)
  show "re_finallyCommitted p' = (re_finallyCommitted p)(b := True)"
    by (rule ext) (simp add: p' re_finallyCommitted_def assign2_lookup[OF fc] BroadcastInstance_cong)
  show "dom (re_finallyCommittedMessages p') = dom (re_finallyCommittedMessages p)" using assign2_dom[OF fc] by (simp add: p')
  show "dom (re_messagesLog p') = dom (re_messagesLog p)" by (simp add: p')
  show "re_config p' = re_config p" using assign2_dom[OF fc] by (simp add: p' re_config_def)
qed (use assms in \<open>auto simp: re_cleanUp_def Let_def go_simps re_books_def\<close>)

lemma re_onDone_commits:
  assumes "re_onDone env p pid b x delivered ms = Inr (ms', es, True)"
  shows "re_hash x = XHash delivered" "re_MixingTime p \<le> re_deliveredMessagesCount p - re_checkpoint_of p b"
  using assms by (auto simp: re_onDone_def go_simps Let_def re_checkpoint_of_def split: if_splits)

lemma re_commitmentStage_step:
  assumes run: "re_commitmentStage env p q b m delivered ms = Inr (p', ms', es)"
    and st: "re_state p b = Some ms" and dl: "re_delivered p b = Some delivered"
  shows "re_reveal_step q m b p ms p' ms' es"
proof -
  have keep: "re_reveal_step q m b p ms (re_store p b ms1) ms1 es1" if "re_kept ms1 = re_kept ms \<and> re_only_reveals es1" for ms1 es1
    using that st unfolding re_reveal_step_def re_kept_def by auto
  show ?thesis
  proof (cases "CommitmentStage m")
    case Commitment_REVEAL
    then show ?thesis using run keep by (auto simp: re_commitmentStage_def Let_def go_simps dest: re_onReveal_core)
  next
    case Commitment_FAILED
    then show ?thesis using run keep by (auto simp: re_commitmentStage_def Let_def go_simps dest: re_onFailed_core)
  next
    case (Commitment_OTHER k)
    then show ?thesis using run keep by (auto simp: re_commitmentStage_def Let_def go_simps)
  next
    case dn: Commitment_DONE
    then obtain pid c where o: "re_onDone env p pid b (X m) delivered ms = Inr (ms', es, c)"
      and rest: "if c then \<exists>p1. re_addSecret (re_store p b ms') (X m) = Inr p1 \<and> re_cleanUp p1 b (Value delivered) = Inr p'
        else p' = re_store p b ms'"
      using run by (auto simp: re_commitmentStage_def Let_def go_simps split: if_splits)
    have core: "re_kept ms' = re_kept ms \<and> re_only_reveals es" by (rule re_onDone_core[OF o])
    show ?thesis
    proof (cases c)
      case True
      then obtain p1 where p1: "re_addSecret (re_store p b ms') (X m) = Inr p1" "re_cleanUp p1 b (Value delivered) = Inr p'"
        using rest by auto
      note a = re_addSecret_views[OF p1(1)] and c = re_cleanUp_views[OF p1(2)]
      have "re_processCount (re_store p b ms') = re_processCount p" by (simp add: re_store_def)
      then have "re_histories_add (nat (re_processCount p)) (re_historyHashes p) (X m) = Inr (re_historyHashes p')"
        using a(8) c(6) by simp
      then have "re_commits p b (X m) p'"
        using dl re_onDone_commits[OF o[unfolded eqTrueI[OF True]]] by (simp add: re_commits_def)
      then show ?thesis
        using core dn a(1-5) c(1-5) st by (simp add: re_reveal_step_def re_kept_def) blast
    next
      case False
      then show ?thesis using rest keep core by simp
    qed
  qed
qed

lemma re_commits_store: "re_commits (re_store p b ms) c x p' = re_commits p c x p'"
  by (simp add: re_commits_def re_checkpoint_of_def re_delivered_def) (simp add: re_store_def)

text \<open>The outcomes of a reveal message: ignored after the commitment, otherwise a reveal step.\<close>

lemma re_commitment_cases:
  assumes "re_processCommitmentProtocolMessage env p q b m = Inr (p', t, es)"
  obtains (ignored) "re_finallyCommitted p b" "p' = p" "t = None" "es = []"
  | (handled) p1 ms es0 ms' es1 where "\<not> re_finallyCommitted p b" "re_registerMessage env p b = Inr (p1, ms, es0)"
      "t = Some ms'" "es = es0 @ es1" "re_reveal_step q m b p1 ms p' ms' es1"
proof (cases "re_finallyCommitted p b")
  case True
  from assms[unfolded re_processCommitmentProtocolMessage_def if_P[OF True]]
  have "p' = p" "t = None" "es = []" by simp_all
  then show ?thesis by (rule ignored[OF True])
next
  case False
  from assms[unfolded re_processCommitmentProtocolMessage_def if_not_P[OF False]]
  show ?thesis
  proof (elim go_bindE)
    fix r
    assume reg: "re_registerMessage env p b = Inr r"
    obtain p1 ms es0 where r: "r = (p1, ms, es0)" by (cases r)
    let ?ms = "ms\<lparr>re_receivedMessagesCnt := Suc (re_receivedMessagesCnt ms)\<rparr>"
    assume "(case r of (p1, ms0, es0) \<Rightarrow>
        let ms = ms0\<lparr>re_receivedMessagesCnt := Suc (re_receivedMessagesCnt ms0)\<rparr> in
        go_bind (go_index (re_pids p1) (sint q)) (\<lambda>_.
        case lookup2 (re_deliveredMessages p1) (Author b) (SeqNumber b) of
          None \<Rightarrow>
            let ms' = ms\<lparr>re_pendingRevealProtocolMessages := re_pendingRevealProtocolMessages ms @ [(q, m)]\<rparr>
            in Inr (re_store p1 b ms', Some ms', es0)
        | Some delivered \<Rightarrow>
            go_bind (re_commitmentStage env (re_store p1 b ms) q b m delivered ms) (\<lambda>(p', ms', es).
              Inr (p', Some ms', es0 @ es)))) = Inr (p', t, es)"
    then have rest: "(case re_delivered p1 b of
          None \<Rightarrow>
            let ms' = ?ms\<lparr>re_pendingRevealProtocolMessages := re_pendingRevealProtocolMessages ?ms @ [(q, m)]\<rparr>
            in Inr (re_store p1 b ms', Some ms', es0)
        | Some delivered \<Rightarrow>
            go_bind (re_commitmentStage env (re_store p1 b ?ms) q b m delivered ?ms) (\<lambda>(p', ms', es).
              Inr (p', Some ms', es0 @ es))) = Inr (p', t, es)"
      unfolding r prod.case Let_def re_delivered_def by (rule go_bindE)
    note reg = reg[unfolded r]
    have st: "re_state p1 b = Some ms" using re_register_eq(1)[OF reg] by simp
    show ?thesis
    proof (cases "re_delivered p1 b")
      case None
      let ?ms' = "?ms\<lparr>re_pendingRevealProtocolMessages := re_pendingRevealProtocolMessages ?ms @ [(q, m)]\<rparr>"
      from rest[unfolded None option.case Let_def]
      have eq: "p' = re_store p1 b ?ms'" "t = Some ?ms'" "es = es0 @ []" by simp_all
      have "re_core ?ms' = re_core ms" by (simp only: re_core_updates)
      then have "re_reveal_step q m b p1 ms p' ?ms' []"
        unfolding eq re_reveal_step_def re_store_views(1)[OF st]
        by (simp only: re_store_views re_store_books re_only_simps simp_thms) auto
      then show ?thesis by (rule handled[OF False reg eq(2,3)])
    next
      case (Some delivered)
      from rest[unfolded Some option.case]
      show ?thesis
      proof (rule go_bindE)
        fix y
        assume c: "re_commitmentStage env (re_store p1 b ?ms) q b m delivered ?ms = Inr y"
        obtain p2 ms' es1 where y: "y = (p2, ms', es1)" by (cases y)
        assume "(case y of (p', ms', es) \<Rightarrow> Inr (p', Some ms', es0 @ es)) = Inr (p', t, es)"
        then have eq: "p2 = p'" "t = Some ms'" "es = es0 @ es1" by (simp_all add: y)
        note c = c[unfolded y eq(1)]
        have "re_reveal_step q m b (re_store p1 b ?ms) ?ms p' ms' es1"
          by (rule re_commitmentStage_step[OF c]) (use st Some in \<open>simp_all\<close>)
        then have "re_reveal_step q m b p1 ms p' ms' es1"
          unfolding re_reveal_step_def re_core_updates re_store_views re_store_views(1)[OF st] re_store_books
            re_commits_store by simp
        then show ?thesis by (rule handled[OF False reg eq(2,3)])
      qed
    qed
  qed
qed

end
