(* ===== verification/Reliable_Calls.thy ===== *)
theory Reliable_Calls
  imports Reliable_Steps
begin

text \<open>
  Delivery and the calls of the reliable protocol's process: what a delivery, a received message
  and a request do, case by case, in the views of \<open>Reliable_Steps\<close>.
\<close>

section \<open>Replayed reveal messages\<close>

text \<open>
  \<open>re_same_but b p p'\<close>: the two states agree on everything but the message state and the
  commitment of \<open>b\<close> and the histories.
\<close>

definition re_same_but :: "BroadcastInstance \<Rightarrow> re_Process \<Rightarrow> re_Process \<Rightarrow> bool" where
  "re_same_but b p p' \<longleftrightarrow> re_config p' = re_config p \<and> re_books p' = re_books p \<and>
     re_transactionCounter p' = re_transactionCounter p \<and>
     (\<forall>c. c \<noteq> b \<longrightarrow> re_state p' c = re_state p c \<and> re_finallyCommitted p' c = re_finallyCommitted p c)"

definition re_live_or_committed :: "BroadcastInstance \<Rightarrow> re_Process \<Rightarrow> re_messageState \<Rightarrow> bool" where
  "re_live_or_committed b p ms \<longleftrightarrow>
     re_state p b = Some ms \<and> \<not> re_finallyCommitted p b \<or> re_state p b = None \<and> re_finallyCommitted p b"

text \<open>What a reveal step does to the histories: nothing, or a commitment.\<close>

definition re_history_step ::
  "BroadcastInstance \<Rightarrow> CommitmentProtocolMessage set \<Rightarrow> re_Process \<Rightarrow> re_Process \<Rightarrow> bool" where
  "re_history_step b M p p' \<longleftrightarrow>
     re_historyHashes p' = re_historyHashes p \<and> re_finallyCommitted p' b = re_finallyCommitted p b \<or>
     \<not> re_finallyCommitted p b \<and> re_finallyCommitted p' b \<and>
       (\<exists>m\<in>M. CommitmentStage m = Commitment_DONE \<and> re_commits p b (X m) p')"

lemma re_reveal_step_same:
  assumes "re_reveal_step q m b p ms p' ms' es" "\<not> re_finallyCommitted p b"
  shows "re_same_but b p p'" "re_live_or_committed b p' ms'" "re_core ms' = re_core ms" "re_only_reveals es"
    "set (re_pendingRevealProtocolMessages ms') \<subseteq> insert (q, m) (set (re_pendingRevealProtocolMessages ms))"
    "re_history_step b {m} p p'"
  using assms by (auto simp: re_reveal_step_def re_same_but_def re_live_or_committed_def re_history_step_def)

lemma re_same_but_refl [simp]: "re_same_but b p p"
  by (simp add: re_same_but_def)

lemma re_same_but_trans: "re_same_but b p p' \<Longrightarrow> re_same_but b p' p'' \<Longrightarrow> re_same_but b p p''"
  by (simp add: re_same_but_def)

lemma re_commits_same:
  assumes "re_books p' = re_books p" "re_config p' = re_config p" "re_historyHashes p' = re_historyHashes p"
  shows "re_commits p' b x p'' = re_commits p b x p''"
  unfolding re_commits_def re_checkpoint_of_def re_books_fields[OF assms(1)] re_config_fields(8,9)[OF assms(2)] assms(3) ..

lemma re_history_step_trans:
  assumes one: "re_history_step b {m} p p1" and two: "re_history_step b M p1 p'" and same: "re_same_but b p p1"
  shows "re_history_step b (insert m M) p p'"
proof (cases "re_historyHashes p1 = re_historyHashes p \<and> re_finallyCommitted p1 b = re_finallyCommitted p b")
  case True
  then have "re_commits p1 b x p' = re_commits p b x p'" for x
    using same by (intro re_commits_same) (simp_all add: re_same_but_def)
  then show ?thesis using two True unfolding re_history_step_def by auto
next
  case False
  then obtain x where c: "re_finallyCommitted p1 b" "\<not> re_finallyCommitted p b" "CommitmentStage m = Commitment_DONE" "re_commits p b (X m) p1"
    using one unfolding re_history_step_def by auto
  then have "re_historyHashes p' = re_historyHashes p1" "re_finallyCommitted p' b" using two unfolding re_history_step_def by auto
  then show ?thesis using c unfolding re_history_step_def re_commits_def by auto
qed

lemma re_replay_views:
  assumes "re_replay env b p ms pending = Inr (p', ms', es)" "re_live_or_committed b p ms"
  shows "re_same_but b p p' \<and> re_live_or_committed b p' ms' \<and> re_core ms' = re_core ms \<and> re_only_reveals es \<and>
    re_history_step b (snd ` set pending) p p'"
proof -
  let ?f = "\<lambda>(p, ms, es) (q, m). go_bind (re_processCommitmentProtocolMessage env p q b m)
    (\<lambda>(p', touched, es'). Inr (p', (case touched of None \<Rightarrow> ms | Some ms' \<Rightarrow> ms'), es @ es'))"
  have "re_same_but b p p' \<and> re_live_or_committed b p' ms' \<and> re_core ms' = re_core ms \<and> re_only_reveals es \<and>
      re_history_step b (snd ` set pending) p p'"
    if "go_fold ?f (p, ms, es0) pending = Inr (p', ms', es)" "re_live_or_committed b p ms" "re_only_reveals es0" for es0
    using that
  proof (induction pending arbitrary: p ms es0)
    case (Cons qm pending)
    obtain q m where qm: "qm = (q, m)" by (cases qm)
    from Cons.prems(1) obtain r where r: "re_processCommitmentProtocolMessage env p q b m = Inr r"
      by (auto simp: qm go_simps)
    obtain p1 t es1 where t: "r = (p1, t, es1)" by (cases r)
    let ?ms = "case t of None \<Rightarrow> ms | Some ms' \<Rightarrow> ms'"
    have go: "go_fold ?f (p1, ?ms, es0 @ es1) pending = Inr (p', ms', es)"
      using Cons.prems(1) by (simp add: qm r t)
    have one: "re_same_but b p p1 \<and> re_live_or_committed b p1 ?ms \<and> re_core ?ms = re_core ms \<and> re_only_reveals es1 \<and>
        re_history_step b {m} p p1"
      using r[unfolded t]
    proof (cases rule: re_commitment_cases)
      case ignored
      then show ?thesis using Cons.prems(2) by (simp add: re_history_step_def)
    next
      case (handled p2 ms2 es2 ms3 es3)
      have "re_state p b = Some ms" using Cons.prems(2) handled(1) by (simp add: re_live_or_committed_def)
      then have "p2 = p" "ms2 = ms" "es2 = []" using handled(2) by (simp_all add: re_registerMessage_def)
      then show ?thesis using re_reveal_step_same[OF handled(5)] handled(1,3,4) by simp
    qed
    have two: "re_same_but b p1 p' \<and> re_live_or_committed b p' ms' \<and> re_core ms' = re_core ?ms \<and> re_only_reveals es \<and>
      re_history_step b (snd ` set pending) p1 p'"
      by (rule Cons.IH[OF go]) (use one Cons.prems(3) in simp_all)
    have "re_history_step b (insert m (snd ` set pending)) p p'"
      using re_history_step_trans[of b m p p1] one two by blast
    then show ?case using one two re_same_but_trans[of b p p1 p'] by (simp add: qm)
  qed (simp add: re_history_step_def)
  then show ?thesis using assms by (simp add: re_replay_def)
qed

section \<open>Delivery\<close>

lemma re_startRevealPhase_reveals:
  assumes "re_startRevealPhase env p t = Inr es"
  shows "re_only_reveals es"
  using assms by (auto simp: re_startRevealPhase_def go_simps)

lemma re_checkpointReveal_views:
  assumes "re_checkpointReveal env p = Inr (p', es)"
  shows "re_config p' = re_config p" "re_state p' = re_state p" "re_delivered p' = re_delivered p"
    "re_finallyCommitted p' = re_finallyCommitted p" "re_transactionCounter p' = re_transactionCounter p"
    "re_only_reveals es" "re_transactionToCheckpoint p' = re_transactionToCheckpoint p"
    "re_deliveredMessagesCount p' = re_deliveredMessagesCount p"
    "re_checkpoints p' = (re_checkpoints p)(re_deliveredMessagesCount p - re_MixingTime p := None)"
    "re_historyHashes p' = re_historyHashes p"
proof -
  let ?k = "re_deliveredMessagesCount p - re_MixingTime p"
  have "p' = p\<lparr>re_checkpoints := (re_checkpoints p)(?k := None)\<rparr> \<and> re_only_reveals es"
  proof (cases "re_checkpoints p ?k")
    case None
    then have "(re_checkpoints p)(?k := None) = re_checkpoints p" by auto
    then show ?thesis using None assms by (simp add: re_checkpointReveal_def Let_def)
  next
    case (Some t)
    then show ?thesis using assms re_startRevealPhase_reveals
      by (auto simp: re_checkpointReveal_def Let_def go_simps)
  qed
  then show "re_config p' = re_config p" "re_state p' = re_state p" "re_delivered p' = re_delivered p"
    "re_finallyCommitted p' = re_finallyCommitted p" "re_transactionCounter p' = re_transactionCounter p"
    "re_only_reveals es" "re_transactionToCheckpoint p' = re_transactionToCheckpoint p"
    "re_deliveredMessagesCount p' = re_deliveredMessagesCount p"
    "re_checkpoints p' = (re_checkpoints p)(re_deliveredMessagesCount p - re_MixingTime p := None)"
    "re_historyHashes p' = re_historyHashes p"
    by (auto simp: re_config_def re_state_def re_delivered_def re_finallyCommitted_def fun_eq_iff)
qed

text \<open>What a delivery does: the delivered map and the books grow, the rest is the reveal phase.\<close>

definition re_delivery ::
  "BroadcastInstance \<Rightarrow> Broadcast_msg \<Rightarrow> re_Process \<Rightarrow> re_messageState \<Rightarrow> re_Process \<Rightarrow> re_messageState \<Rightarrow> effect list \<Rightarrow> bool" where
  "re_delivery b bm p ms p' ms' es \<longleftrightarrow>
     re_config p' = re_config p \<and> re_transactionCounter p' = re_transactionCounter p \<and>
     re_delivered p' = (re_delivered p)(b \<mapsto> bm) \<and>
     re_deliveredMessagesCount p' = re_deliveredMessagesCount p + 1 \<and>
     re_checkpoints p' = ((re_checkpoints p)(re_deliveredMessagesCount p + 1 \<mapsto> b))
       (re_deliveredMessagesCount p + 1 - re_MixingTime p := None) \<and>
     assign2 (re_transactionToCheckpoint p) (Author b) (SeqNumber b) (re_deliveredMessagesCount p + 1) =
       Inr (re_transactionToCheckpoint p') \<and>
     (\<forall>c. c \<noteq> b \<longrightarrow> re_state p' c = re_state p c \<and> re_finallyCommitted p' c = re_finallyCommitted p c) \<and>
     re_live_or_committed b p' ms' \<and> re_core ms' = re_core ms \<and> re_pendingRevealProtocolMessages ms' = [] \<and>
     (re_historyHashes p' = re_historyHashes p \<and> \<not> re_finallyCommitted p' b \<or>
      re_finallyCommitted p' b \<and> re_MixingTime p \<le> 0 \<and>
        (\<exists>m\<in>snd ` set (re_pendingRevealProtocolMessages ms). CommitmentStage m = Commitment_DONE \<and>
          re_hash (X m) = XHash bm \<and>
          re_histories_add (nat (re_processCount p)) (re_historyHashes p) (X m) = Inr (re_historyHashes p'))) \<and>
     deliveries es = [(b, Value bm)] \<and> (\<forall>c st v. \<not> re_says (set es) c st v) \<and>
     (\<forall>knd c ws. Log (OnWitnessSetSelected knd c ws) \<notin> set es) \<and>
     (\<forall>to c st m sh. Send to (re_rmsg c st m sh) \<notin> set es)"

lemma re_only_reveals_no_sets: "re_only_reveals es \<Longrightarrow> Log (OnWitnessSetSelected knd c ws) \<notin> set es"
  by (auto simp: re_only_reveals_def list_all_iff)

lemma re_only_reveals_no_rmsg: "re_only_reveals es \<Longrightarrow> Send to (re_rmsg c st m sh) \<notin> set es"
  by (auto simp: re_only_reveals_def list_all_iff re_rmsg_def re_cmsg_def)

lemma re_live_store:
  "re_live_or_committed b p ms \<Longrightarrow> re_live_or_committed b (re_store p b ms') ms'"
  by (auto simp: re_live_or_committed_def)

lemma re_live_store_other:
  "re_live_or_committed b p ms \<Longrightarrow> c \<noteq> b \<Longrightarrow> re_state (re_store p b ms') c = re_state p c"
  by (auto simp: re_live_or_committed_def)

lemma re_deliver_views:
  assumes run: "re_deliver env p b bm = Inr (p', ms', es)"
    and st: "re_state p b = Some ms" and fc: "\<not> re_finallyCommitted p b"
  shows "re_delivery b bm p ms p' ms' es"
proof -
  let ?k = "re_deliveredMessagesCount p + 1"
  obtain dm where dm: "assign2 (re_deliveredMessages p) (Author b) (SeqNumber b) bm = Inr dm"
    using run by (auto simp: re_deliver_def go_simps)
  define p1 where "p1 = p\<lparr>re_deliveredMessages := dm, re_deliveredMessagesCount := ?k, re_checkpoints := (re_checkpoints p)(?k \<mapsto> b)\<rparr>"
  from run[unfolded re_deliver_def dm go_bind.simps Let_def, folded p1_def]
  obtain tc where tc: "assign2 (re_transactionToCheckpoint p1) (Author b) (SeqNumber b) ?k = Inr tc" by (rule go_bindE)
  define p2 where "p2 = p1\<lparr>re_transactionToCheckpoint := tc\<rparr>"
  have p2: "re_config p2 = re_config p" "re_state p2 = re_state p" "re_finallyCommitted p2 = re_finallyCommitted p"
    "re_transactionCounter p2 = re_transactionCounter p" "re_deliveredMessagesCount p2 = ?k"
    "re_checkpoints p2 = (re_checkpoints p)(?k \<mapsto> b)" "re_transactionToCheckpoint p2 = tc"
    using assign2_dom[OF dm] assign2_dom[OF tc]
    by (simp_all add: p2_def p1_def re_config_def re_state_def re_finallyCommitted_def fun_eq_iff)
  have hist2: "re_historyHashes p2 = re_historyHashes p" by (simp add: p2_def p1_def)
  have cp2: "re_checkpoint_of p2 b = ?k"
    using assign2_lookup[OF tc] by (simp add: re_checkpoint_of_def p2(7))
  have dlv: "re_delivered p2 = (re_delivered p)(b \<mapsto> bm)"
    by (rule ext) (simp add: p2_def p1_def re_delivered_def assign2_lookup[OF dm] BroadcastInstance_cong)
  have st2: "re_state p2 b = Some ms" using st p2(2) by simp
  from run[unfolded re_deliver_def dm go_bind.simps Let_def, folded p1_def, unfolded tc go_bind.simps, folded p2_def,
      unfolded st2 go_deref_def option.case go_bind.simps]
  obtain r where r: "re_replay env b p2 ms (re_pendingRevealProtocolMessages ms) = Inr r"
    and rest: "(case r of (p3, ms1, es1) \<Rightarrow>
      go_bind (re_checkpointReveal env (re_store p3 b (ms1\<lparr>re_pendingRevealProtocolMessages := []\<rparr>))) (\<lambda>(p4, es2).
       Inr (p4, ms1\<lparr>re_pendingRevealProtocolMessages := []\<rparr>, es1 @ es2 @
         [Log (OnDeliver b (Value bm) (re_receivedMessagesCnt (ms1\<lparr>re_pendingRevealProtocolMessages := []\<rparr>)))] @
         (if re_sendOwnDeliveredTransactions p4 \<and> Author b = re_processIndex p4 then [OwnDelivered] else [])))) = Inr (p', ms', es)"
    by (rule go_bindE)
  obtain p3 ms1 es1 where r3: "r = (p3, ms1, es1)" by (cases r)
  let ?ms2 = "ms1\<lparr>re_pendingRevealProtocolMessages := []\<rparr>"
  from rest[unfolded r3 prod.case] obtain u where u: "re_checkpointReveal env (re_store p3 b ?ms2) = Inr u"
    and eq: "(case u of (p4, es2) \<Rightarrow> Inr (p4, ?ms2, es1 @ es2 @
         [Log (OnDeliver b (Value bm) (re_receivedMessagesCnt ?ms2))] @
         (if re_sendOwnDeliveredTransactions p4 \<and> Author b = re_processIndex p4 then [OwnDelivered] else []))) = (Inr (p', ms', es) :: (re_Process \<times> re_messageState \<times> effect list) go)"
    by (rule go_bindE)
  obtain p4 es2 where u4: "u = (p4, es2)" by (cases u)
  from eq[unfolded u4 prod.case] have p': "p4 = p'" and ms': "ms' = ?ms2"
    and es: "es = es1 @ es2 @ [Log (OnDeliver b (Value bm) (re_receivedMessagesCnt ?ms2))] @
         (if re_sendOwnDeliveredTransactions p4 \<and> Author b = re_processIndex p4 then [OwnDelivered] else [])"
    by (auto simp only: sum.inject prod.inject)
  obtain own where es: "es = es1 @ es2 @ [Log (OnDeliver b (Value bm) (re_receivedMessagesCnt ?ms2))] @ own"
    and own: "own = [] \<or> own = [OwnDelivered]" using es by (cases "re_sendOwnDeliveredTransactions p4 \<and> Author b = re_processIndex p4") simp_all
  have ownsil: "\<not> re_says (set own) c sta v" "Log e \<notin> set own" "deliveries own = []" for c sta v e
    using own by auto
  have live: "re_live_or_committed b p2 ms" using st2 fc p2(3) by (simp add: re_live_or_committed_def)
  note rp = re_replay_views[OF r[unfolded r3] live]
  note cp = re_checkpointReveal_views[OF u[unfolded u4 p']]
  have live3: "re_live_or_committed b p3 ms1" using rp by blast
  have same: "re_same_but b p2 p3" using rp by blast
  then have bk: "re_books p3 = re_books p2" by (simp add: re_same_but_def)
  note bk = re_books_fields[OF bk]
  have bk3: "re_books (re_store p3 b ?ms2) = re_books p3" by simp
  note bk3 = re_books_fields[OF bk3]
  have mix: "re_MixingTime (re_store p3 b ?ms2) = re_MixingTime p" using same p2(1) by (intro re_config_fields) (simp add: re_same_but_def)
  have cfg: "re_config p' = re_config p" using cp(1) same p2(1) by (simp add: re_same_but_def)
  have oth: "re_state p' c = re_state p c \<and> re_finallyCommitted p' c = re_finallyCommitted p c" if "c \<noteq> b" for c
    using that same p2(2,3) re_live_store_other[OF live3 that] by (simp add: cp(2,4) re_same_but_def)
  have live': "re_live_or_committed b p' ms'"
    using re_live_store[OF live3, of ?ms2] by (simp add: re_live_or_committed_def cp(2,4) ms')
  have says: "\<not> re_says (set es) c sta v" for c sta v
    using rp re_only_reveals_says[of es1] re_only_reveals_says[OF cp(6)] ownsil(1) by (simp add: es)
  have sets: "Log (OnWitnessSetSelected knd c ws) \<notin> set es" for knd c ws
    using rp re_only_reveals_no_sets[of es1] re_only_reveals_no_sets[OF cp(6)] ownsil(2) by (simp add: es)
  have rmsgs: "Send to (re_rmsg c st m sh) \<notin> set es" for to c st m sh
    using rp re_only_reveals_no_rmsg[of es1] re_only_reveals_no_rmsg[OF cp(6)] own by (auto simp: es)
  have dl: "deliveries es = [(b, Value bm)]"
    using rp re_only_reveals_deliveries[of es1] re_only_reveals_deliveries[OF cp(6)] ownsil(3) by (simp add: es)
  have "re_delivered p' = (re_delivered p)(b \<mapsto> bm)" by (simp only: cp(3) re_store_views bk(1) dlv)
  moreover have "re_deliveredMessagesCount p' = ?k" by (simp only: cp(8) bk3(5) bk(5) p2(5))
  moreover have "re_checkpoints p' = ((re_checkpoints p)(?k \<mapsto> b))(?k - re_MixingTime p := None)"
    by (simp only: cp(9) bk3(3,5) bk(3,5) p2(5,6) mix)
  moreover have "assign2 (re_transactionToCheckpoint p) (Author b) (SeqNumber b) ?k = Inr (re_transactionToCheckpoint p')"
    using tc by (simp add: cp(7) bk3(4) bk(4) p2(7)) (simp add: p1_def)
  moreover have "re_transactionCounter p' = re_transactionCounter p"
    using same by (simp add: cp(5) p2(4) re_same_but_def)
  moreover have "re_core ms' = re_core ms" using rp by (simp add: ms')
  moreover have "re_historyHashes p' = re_historyHashes p \<and> \<not> re_finallyCommitted p' b \<or>
      re_finallyCommitted p' b \<and> re_MixingTime p \<le> 0 \<and>
        (\<exists>m\<in>snd ` set (re_pendingRevealProtocolMessages ms). CommitmentStage m = Commitment_DONE \<and>
          re_hash (X m) = XHash bm \<and>
          re_histories_add (nat (re_processCount p)) (re_historyHashes p) (X m) = Inr (re_historyHashes p'))"
  proof -
    have h: "re_historyHashes p' = re_historyHashes p3" "re_finallyCommitted p' b = re_finallyCommitted p3 b"
      by (simp_all add: cp(10,4))
    have "re_MixingTime p2 = re_MixingTime p" "re_processCount p2 = re_processCount p"
      by (rule re_config_fields[OF p2(1)])+
    then have "re_commits p2 b x p3 \<longleftrightarrow> re_hash x = XHash bm \<and> re_MixingTime p \<le> 0 \<and>
        re_histories_add (nat (re_processCount p)) (re_historyHashes p) x = Inr (re_historyHashes p')" for x
      by (simp add: re_commits_def dlv cp2 p2(5) hist2 h(1))
    then show ?thesis using rp fc unfolding re_history_step_def p2(3) hist2 h by auto
  qed
  moreover have "re_pendingRevealProtocolMessages ms' = []" by (simp add: ms')
  ultimately show ?thesis unfolding re_delivery_def using cfg oth live' says sets dl rmsgs by (intro conjI) blast+
qed

section \<open>Calls\<close>

lemma re_vote_count:
  "re_readyFromProcesses (re_vote_ready q v (ms\<lparr>re_receivedMessagesCnt := k\<rparr>)) = re_readyFromProcesses (re_vote_ready q v ms)"
  "re_readyFromProcessesStat (re_vote_ready q v (ms\<lparr>re_receivedMessagesCnt := k\<rparr>)) = re_readyFromProcessesStat (re_vote_ready q v ms)"
  "re_validateFromWitnesses (re_vote_validate q v (ms\<lparr>re_receivedMessagesCnt := k\<rparr>)) = re_validateFromWitnesses (re_vote_validate q v ms)"
  "re_validatesStat (re_vote_validate q v (ms\<lparr>re_receivedMessagesCnt := k\<rparr>)) = re_validatesStat (re_vote_validate q v ms)"
  by (simp_all add: re_vote_ready_def re_vote_validate_def)

lemma re_stage_step_count:
  assumes "re_stage_step p1 q pid b m (ms\<lparr>re_receivedMessagesCnt := k\<rparr>) ms' es d" "re_config p1 = re_config p"
  shows "re_stage_step p q pid b m ms ms' es d"
  using assms(1) unfolding re_stage_step_def re_vote_count re_config_fields[OF assms(2)] re_messageState.select_convs
    re_messageState.update_convs by simp

lemma re_stage_step_config:
  assumes "re_config p1 = re_config p"
  shows "re_stage_step p1 = re_stage_step p"
  by (intro ext) (simp only: re_stage_step_def re_config_fields[OF assms])

text \<open>The outcomes of a message of the reliable protocol.\<close>

lemma re_reliable_cases:
  assumes "re_processReliableProtocolMessage env p q b m = Inr (p', es)"
  obtains (ignored) "re_finallyCommitted p b" "p' = p" "es = []"
  | (quiet) p1 ms0 es0 ms' es1 where "\<not> re_finallyCommitted p b" "re_registerMessage env p b = Inr (p1, ms0, es0)"
      "0 \<le> sint q" "sint q < int (length (re_pids p))"
      "re_stage_step p q (re_pids p ! nat (sint q)) b m ms0 ms' es1 None" "p' = re_store p1 b ms'" "es = es0 @ es1"
      "\<exists>k. re_reliableStage env p1 q (re_pids p ! nat (sint q)) b m (ms0\<lparr>re_receivedMessagesCnt := k\<rparr>) = Inr (ms', es1, None)"
  | (delivers) p1 ms0 es0 ms1 es1 bm p2 ms2 es2 where "\<not> re_finallyCommitted p b"
      "re_registerMessage env p b = Inr (p1, ms0, es0)"
      "0 \<le> sint q" "sint q < int (length (re_pids p))"
      "re_stage_step p q (re_pids p ! nat (sint q)) b m ms0 ms1 es1 (Some bm)"
      "re_delivery b bm (re_store p1 b ms1) ms1 p2 ms2 es2"
      "p' = re_store p2 b (ms2\<lparr>re_stage := Delivered\<rparr>)" "es = es0 @ es1 @ es2"
      "\<exists>k. re_reliableStage env p1 q (re_pids p ! nat (sint q)) b m (ms0\<lparr>re_receivedMessagesCnt := k\<rparr>) = Inr (ms1, es1, Some bm)"
proof (cases "re_finallyCommitted p b")
  case True
  from assms[unfolded re_processReliableProtocolMessage_def if_P[OF True]]
  have "p' = p" "es = []" by simp_all
  then show ?thesis by (rule ignored[OF True])
next
  case False
  from assms[unfolded re_processReliableProtocolMessage_def if_not_P[OF False]]
  show ?thesis
  proof (rule go_bindE)
    fix r assume reg: "re_registerMessage env p b = Inr r"
    obtain p1 ms0 es0 where r: "r = (p1, ms0, es0)" by (cases r)
    note reg = reg[unfolded r]
    let ?ms = "ms0\<lparr>re_receivedMessagesCnt := Suc (re_receivedMessagesCnt ms0)\<rparr>"
    have cfg: "re_config p1 = re_config p" by (rule re_register_eq(3)[OF reg])
    have st: "re_state p1 b = Some ms0" using re_register_eq(1)[OF reg] by simp
    have fc: "\<not> re_finallyCommitted p1 b" using re_register_eq(4)[OF reg] False by simp
    assume "(case r of (p1, ms0, es0) \<Rightarrow>
        let ms = ms0\<lparr>re_receivedMessagesCnt := Suc (re_receivedMessagesCnt ms0)\<rparr> in
        go_bind (go_index (re_pids p1) (sint q)) (\<lambda>senderPid.
        go_bind (re_reliableStage env p1 q senderPid b m ms) (\<lambda>(ms1, es1, d).
        let p2 = re_store p1 b ms1 in
        case d of
          None \<Rightarrow> Inr (p2, es0 @ es1)
        | Some bm \<Rightarrow> go_bind (re_deliver env p2 b bm) (\<lambda>(p3, ms2, es2).
            Inr (re_store p3 b (ms2\<lparr>re_stage := Delivered\<rparr>), es0 @ es1 @ es2))))) = Inr (p', es)"
    from this[unfolded r prod.case Let_def] show ?thesis
    proof (elim go_bindE)
      fix pid y
      assume "go_index (re_pids p1) (sint q) = Inr pid" and y: "re_reliableStage env p1 q pid b m ?ms = Inr y"
        and fin: "(case y of (ms1, es1, d) \<Rightarrow> case d of None \<Rightarrow> Inr (re_store p1 b ms1, es0 @ es1)
          | Some bm \<Rightarrow> go_bind (re_deliver env (re_store p1 b ms1) b bm) (\<lambda>(p3, ms2, es2).
            Inr (re_store p3 b (ms2\<lparr>re_stage := Delivered\<rparr>), es0 @ es1 @ es2))) = Inr (p', es)"
      then have q: "0 \<le> sint q" "sint q < int (length (re_pids p))" "pid = re_pids p ! nat (sint q)"
        using re_config_fields(3)[OF cfg] by (simp_all add: go_index_Inr)
      obtain ms1 es1 d where y3: "y = (ms1, es1, d)" by (cases y)
      have step: "re_stage_step p q (re_pids p ! nat (sint q)) b m ms0 ms1 es1 d"
        by (rule re_stage_step_count[OF re_reliableStage_step[OF y[unfolded y3 q(3)]] cfg])
      show ?thesis
      proof (cases d)
        case None
        from fin[unfolded y3 prod.case None option.case] have "p' = re_store p1 b ms1" "es = es0 @ es1" by simp_all
        moreover have "\<exists>k. re_reliableStage env p1 q (re_pids p ! nat (sint q)) b m (ms0\<lparr>re_receivedMessagesCnt := k\<rparr>) = Inr (ms1, es1, None)"
          using y[unfolded y3 q(3) None] by blast
        ultimately show ?thesis by (rule quiet[OF False reg q(1,2) step[unfolded None]])
      next
        case (Some bm)
        from fin[unfolded y3 prod.case Some option.case] show ?thesis
        proof (rule go_bindE)
          fix z assume z: "re_deliver env (re_store p1 b ms1) b bm = Inr z"
            and last: "(case z of (p3, ms2, es2) \<Rightarrow> Inr (re_store p3 b (ms2\<lparr>re_stage := Delivered\<rparr>), es0 @ es1 @ es2)) = Inr (p', es)"
          obtain p2 ms2 es2 where z3: "z = (p2, ms2, es2)" by (cases z)
          have dv: "re_delivery b bm (re_store p1 b ms1) ms1 p2 ms2 es2"
            by (rule re_deliver_views[OF z[unfolded z3]]) (use st fc in simp_all)
          from last[unfolded z3 prod.case] have "p' = re_store p2 b (ms2\<lparr>re_stage := Delivered\<rparr>)" "es = es0 @ es1 @ es2" by simp_all
          moreover have "\<exists>k. re_reliableStage env p1 q (re_pids p ! nat (sint q)) b m (ms0\<lparr>re_receivedMessagesCnt := k\<rparr>) = Inr (ms1, es1, Some bm)"
            using y[unfolded y3 q(3) Some] by blast
          ultimately show ?thesis by (rule delivers[OF False reg q(1,2) step[unfolded Some] dv])
        qed
      qed
    qed
  qed
qed

text \<open>A received message is one of the two protocols' messages, of a known instance.\<close>

lemma re_HandleMessage_cases:
  assumes "re_HandleMessage env p q m = Inr (p', es)"
  obtains (reliable) b rm where "m = re_rmsg b (ReliableStage rm) (BroadcastMessage rm) (EncryptedShares rm)"
      "re_processReliableProtocolMessage env p q b rm = Inr (p', es)"
  | (commitment) b cm t where "m = re_cmsg b cm" "re_processCommitmentProtocolMessage env p q b cm = Inr (p', t, es)"
proof (cases m)
  case m: (fields bi msg)
  show ?thesis
  proof (cases bi)
    case None
    then show ?thesis using assms m by (cases msg) (simp_all add: re_HandleMessage_def go_deref_def)
  next
    case (Some b)
    show ?thesis
    proof (cases msg)
      case (ReliableMessage rm)
      then show ?thesis using assms m Some reliable[of b rm]
        by (simp add: re_HandleMessage_def go_deref_def re_rmsg_def re_msg_def)
    next
      case (CommitmentMessage cm)
      then have "go_bind (re_processCommitmentProtocolMessage env p q b cm) (\<lambda>(p', _, es). Inr (p', es)) = Inr (p', es)"
        using assms m Some by (simp add: re_HandleMessage_def go_deref_def)
      then show ?thesis
      proof (rule go_bindE)
        fix r assume r: "re_processCommitmentProtocolMessage env p q b cm = Inr r"
          and e: "(case r of (p', _, es) \<Rightarrow> Inr (p', es)) = (Inr (p', es) :: (re_Process \<times> effect list) go)"
        obtain a t c where "r = (a, t, c)" by (cases r)
        then show ?thesis using e r m Some CommitmentMessage commitment[of b cm t] by (simp add: re_cmsg_def)
      qed
    qed (use assms m in \<open>simp_all add: re_HandleMessage_def\<close>)
  qed
qed

text \<open>A request makes a fresh message state for the next own instance, whatever was there.\<close>

definition re_next :: "re_Process \<Rightarrow> BroadcastInstance" where
  "re_next p = \<lparr>Author = re_processIndex p, SeqNumber = re_transactionCounter p\<rparr>"

lemma re_request_views:
  assumes "re_Broadcast env p v = Inr (p', es)"
  obtains p1 ms shares x where "re_initMessageState env p (re_next p) = Inr (p1, ms, re_selected env (re_next p) ms)"
    "p' = p1\<lparr>re_transactionCounter := re_transactionCounter p1 + 1\<rparr>" "re_sample env p = Inr x"
    "es = re_selected env (re_next p) ms @ re_broadcastToWitnesses env p1 (re_next p)
       (re_msg Reliable_NOTIFY (Some \<lparr>Value = v, XHash = re_hash x\<rparr>) shares) ms @ [Log (OnTransactionInit (re_next p))]"
proof -
  from assms[unfolded re_Broadcast_def Let_def, folded re_next_def]
  obtain x where x: "re_sample env p = Inr x" and r1: "go_bind (re_encodeEntropy env p x) (\<lambda>encoded.
      case encoded of
        None \<Rightarrow> Inl FatalExit
      | Some shares \<Rightarrow>
          go_bind (go_map (\<lambda>i. go_bind (go_index (re_PublicKeys p) (int i)) (\<lambda>key.
              go_bind (go_index shares (int i)) (Encrypt env key))) [0..<nat (re_processCount p)]) (\<lambda>encryptedShares.
          go_bind (re_initMessageState env p (re_next p)) (\<lambda>(p1, ms, es).
            Inr (p1\<lparr>re_transactionCounter := re_transactionCounter p1 + 1\<rparr>,
              es @ re_broadcastToWitnesses env p1 (re_next p)
                (re_msg Reliable_NOTIFY (Some \<lparr>Value = v, XHash = re_hash x\<rparr>) encryptedShares) ms @
              [Log (OnTransactionInit (re_next p))])))) = Inr (p', es)" by (rule go_bindE)
  obtain enc shares where "re_encodeEntropy env p x = Inr enc" and r2: "go_bind (re_initMessageState env p (re_next p)) (\<lambda>(p1, ms, es).
            Inr (p1\<lparr>re_transactionCounter := re_transactionCounter p1 + 1\<rparr>,
              es @ re_broadcastToWitnesses env p1 (re_next p)
                (re_msg Reliable_NOTIFY (Some \<lparr>Value = v, XHash = re_hash x\<rparr>) shares) ms @
              [Log (OnTransactionInit (re_next p))])) = Inr (p', es)"
  proof -
    from r1 obtain enc where e: "re_encodeEntropy env p x = Inr enc" by (rule go_bindE)
    then show ?thesis
    proof (cases enc)
      case None
      then show ?thesis using r1 e by simp
    next
      case (Some sh)
      from r1[unfolded e Some go_bind.simps option.case] show ?thesis by (rule go_bindE) (rule that[OF e])
    qed
  qed
  from r2 obtain r where r: "re_initMessageState env p (re_next p) = Inr r" by (rule go_bindE)
  obtain p1 ms es0 where r3: "r = (p1, ms, es0)" by (cases r)
  note sel = re_init_eq(7)[OF r[unfolded r3]]
  show ?thesis
    by (rule that[OF r[unfolded r3 sel] _ x]) (use r2[unfolded r r3 sel] in auto)
qed

section \<open>Runs\<close>

text \<open>
  \<open>re_reaches env p0 is p es\<close>: from \<open>p0\<close> the inputs \<open>is\<close>, handled in this order, lead to \<open>p\<close> with the
  effects \<open>es\<close>. A request is only made while nobody has used the process' next instance: see
  property \<open>re_request_redelivers\<close> for what happens otherwise.
\<close>

definition re_unused :: "re_Process \<Rightarrow> BroadcastInstance \<Rightarrow> bool" where
  "re_unused p b \<longleftrightarrow> re_state p b = None \<and> re_delivered p b = None"

inductive re_reaches :: "re_env \<Rightarrow> re_Process \<Rightarrow> input list \<Rightarrow> re_Process \<Rightarrow> effect list \<Rightarrow> bool"
  for env p0 where
  start: "re_reaches env p0 [] p0 []"
| message: "re_reaches env p0 is p es \<Longrightarrow> re_HandleMessage env p q m = Inr (p', es') \<Longrightarrow>
    re_reaches env p0 (is @ [Received q m]) p' (es @ es')"
| request: "re_reaches env p0 is p es \<Longrightarrow> re_unused p (re_next p) \<Longrightarrow> re_Broadcast env p v = Inr (p', es') \<Longrightarrow>
    re_reaches env p0 (is @ [Request v]) p' (es @ es')"

end
