(* ===== verification/Reliable_Run.thy ===== *)
theory Reliable_Run
  imports Reliable_Calls
begin

text \<open>
  Runs of one process of the reliable protocol: the invariant that ties what the process has said
  and delivered to the messages it has received, and its preservation by every input. \<open>R\<close> is the
  set of inputs so far, \<open>E\<close> the set of effects so far.
\<close>

section \<open>The invariant\<close>

definition re_heard :: "input set \<Rightarrow> ProcessId \<Rightarrow> BroadcastInstance \<Rightarrow> ReliableProtocolMessage_Stage \<Rightarrow> int32 \<Rightarrow> bool" where
  "re_heard R q b st v \<longleftrightarrow> (\<exists>m. Received q m \<in> R \<and> re_about b st v m)"

definition re_heard_votes ::
  "re_Process \<Rightarrow> input set \<Rightarrow> BroadcastInstance \<Rightarrow> ReliableProtocolMessage_Stage \<Rightarrow> (ProcessId \<times> int32) set" where
  "re_heard_votes p R b st = {(q, v). q \<in> set (procs (length (re_pids p))) \<and> re_heard R q b st v}"

definition re_name :: "string list \<Rightarrow> ProcessId \<Rightarrow> string" where
  "re_name pids q = pids ! nat (sint q)"

definition re_entry_ok :: "re_env \<Rightarrow> re_Process \<Rightarrow> input set \<Rightarrow> effect set \<Rightarrow> BroadcastInstance \<Rightarrow> re_messageState \<Rightarrow> bool" where
  "re_entry_ok env p R E b ms \<longleftrightarrow>
     tally (re_readyFromProcesses ms) (re_readyFromProcessesStat ms) (re_heard_votes p R b Reliable_READY_FROM_PROCESS) \<and>
     tally (re_validateFromWitnesses ms) (re_validatesStat ms)
       {(q, v) \<in> re_heard_votes p R b Reliable_VALIDATE. re_name (re_pids p) q \<in> re_ownWitnessSet ms} \<and>
     finite (re_ownWitnessSet ms) \<and>
     Log (OnWitnessSetSelected ''own'' b (env_order env (re_ownWitnessSet ms))) \<in> E \<and>
     (\<forall>v. re_says E b Reliable_READY_FROM_PROCESS v \<longrightarrow> SentReadyFromProcess \<le> re_stage ms)"

text \<open>What the effects say about an instance, and what its delivery rests on.\<close>

definition re_said_ok :: "re_Process \<Rightarrow> input set \<Rightarrow> effect set \<Rightarrow> BroadcastInstance \<Rightarrow> bool" where
  "re_said_ok p R E b \<longleftrightarrow>
     (\<forall>v w. re_says E b Reliable_READY_FROM_PROCESS v \<longrightarrow> re_says E b Reliable_READY_FROM_PROCESS w \<longrightarrow> v = w) \<and>
     (\<forall>v. re_says E b Reliable_VALIDATE v \<longrightarrow>
        re_quorumThreshold p \<le> int (card {q. (q, v) \<in> re_heard_votes p R b Reliable_READY_FROM_PROCESS}))"

definition re_backed :: "re_env \<Rightarrow> re_Process \<Rightarrow> input set \<Rightarrow> effect set \<Rightarrow> BroadcastInstance \<Rightarrow> int32 \<Rightarrow> bool" where
  "re_backed env p R E b v \<longleftrightarrow> (\<exists>own. finite own \<and>
     Log (OnWitnessSetSelected ''own'' b (env_order env own)) \<in> E \<and>
     re_witnessThreshold p \<le> int (card {q. (q, v) \<in> re_heard_votes p R b Reliable_VALIDATE \<and> re_name (re_pids p) q \<in> own}))"

definition re_inst_ok :: "re_env \<Rightarrow> re_Process \<Rightarrow> input set \<Rightarrow> effect set \<Rightarrow> BroadcastInstance \<Rightarrow> bool" where
  "re_inst_ok env p R E b \<longleftrightarrow>
     (\<forall>ms. re_state p b = Some ms \<longrightarrow>
        re_entry_ok env p R E b ms \<and> (re_stage ms = Delivered \<longleftrightarrow> re_delivered p b \<noteq> None)) \<and>
     (re_finallyCommitted p b \<longrightarrow> re_state p b = None \<and> re_delivered p b \<noteq> None) \<and>
     (re_state p b = None \<and> \<not> re_finallyCommitted p b \<longrightarrow>
        (\<forall>v. \<not> re_says E b Reliable_READY_FROM_PROCESS v) \<and> re_delivered p b = None) \<and>
     re_said_ok p R E b \<and>
     (\<forall>v. re_value p b = Some v \<longrightarrow> re_backed env p R E b v)"

definition re_run_inv :: "re_env \<Rightarrow> re_Process \<Rightarrow> input set \<Rightarrow> effect set \<Rightarrow> bool" where
  "re_run_inv env p R E \<longleftrightarrow> (\<forall>b. re_inst_ok env p R E b)"

section \<open>More inputs, more effects\<close>

lemma re_heard_mono: "R \<subseteq> R' \<Longrightarrow> re_heard R q b st v \<Longrightarrow> re_heard R' q b st v"
  by (auto simp: re_heard_def)

lemma re_heard_votes_mono: "R \<subseteq> R' \<Longrightarrow> re_heard_votes p R b st \<subseteq> re_heard_votes p R' b st"
  by (auto simp: re_heard_votes_def intro: re_heard_mono)

lemma re_heard_votes_config: "re_config p' = re_config p \<Longrightarrow> re_heard_votes p' R b st = re_heard_votes p R b st"
  by (simp add: re_heard_votes_def re_config_fields(3)[of p' p])

lemma finite_re_heard_votes: "finite {q. (q, v) \<in> re_heard_votes p R b st}"
  by (rule finite_subset[of _ "set (procs (length (re_pids p)))"]) (auto simp: re_heard_votes_def)

lemma re_heard_votes_card_mono:
  assumes "R \<subseteq> R'"
  shows "card {q. (q, v) \<in> re_heard_votes p R b st} \<le> card {q. (q, v) \<in> re_heard_votes p R' b st}"
  by (rule card_mono[OF finite_re_heard_votes]) (use re_heard_votes_mono[OF assms] in auto)

lemma re_heard_rmsg:
  assumes "0 \<le> sint q" "sint q < int (length (re_pids p))"
  shows "(q, Value bm) \<in> re_heard_votes p (insert (Received q (re_rmsg b st (Some bm) sh)) R) b st"
proof -
  have "of_nat (nat (sint q)) = q" using assms(1) by simp
  moreover have "nat (sint q) < length (re_pids p)" using assms by simp
  ultimately have "q \<in> set (procs (length (re_pids p)))" unfolding set_procs by (metis imageI lessThan_iff)
  then show ?thesis by (auto simp: re_heard_votes_def re_heard_def intro!: exI[of _ "re_rmsg b st (Some bm) sh"])
qed

lemma re_backed_mono:
  assumes "re_backed env p R E b v" "R \<subseteq> R'" "E \<subseteq> E'" "re_config p' = re_config p"
  shows "re_backed env p' R' E' b v"
proof -
  obtain own where own: "finite own" "Log (OnWitnessSetSelected ''own'' b (env_order env own)) \<in> E"
    and le: "re_witnessThreshold p \<le>
      int (card {q. (q, v) \<in> re_heard_votes p R b Reliable_VALIDATE \<and> re_name (re_pids p) q \<in> own})"
    using assms(1) unfolding re_backed_def by blast
  have "card {q. (q, v) \<in> re_heard_votes p R b Reliable_VALIDATE \<and> re_name (re_pids p) q \<in> own} \<le>
      card {q. (q, v) \<in> re_heard_votes p R' b Reliable_VALIDATE \<and> re_name (re_pids p) q \<in> own}"
    by (rule card_mono[OF finite_subset[OF _ finite_re_heard_votes[of v p R' b Reliable_VALIDATE]]])
      (use re_heard_votes_mono[OF assms(2)] in auto)
  with le have "re_witnessThreshold p \<le>
      int (card {q. (q, v) \<in> re_heard_votes p R' b Reliable_VALIDATE \<and> re_name (re_pids p) q \<in> own})" by linarith
  moreover have "Log (OnWitnessSetSelected ''own'' b (env_order env own)) \<in> E'" using own(2) assms(3) by blast
  ultimately show ?thesis using own(1)
    unfolding re_backed_def re_config_fields(3,6)[OF assms(4)] re_heard_votes_config[OF assms(4)] by blast
qed

lemma re_said_ok_silent:
  assumes "re_said_ok p R E b" "R \<subseteq> R'" "re_config p' = re_config p"
    and "\<And>v. \<not> re_says E' b Reliable_READY_FROM_PROCESS v" "\<And>v. \<not> re_says E' b Reliable_VALIDATE v"
  shows "re_said_ok p' R' (E \<union> E') b"
proof -
  note cfg = re_config_fields(4)[OF assms(3)] re_heard_votes_config[OF assms(3)]
  have "re_quorumThreshold p \<le> int (card {q. (q, v) \<in> re_heard_votes p R' b Reliable_READY_FROM_PROCESS})"
    if "re_says E b Reliable_VALIDATE v" for v
  proof -
    have "re_quorumThreshold p \<le> int (card {q. (q, v) \<in> re_heard_votes p R b Reliable_READY_FROM_PROCESS})"
      using assms(1) that by (simp add: re_said_ok_def)
    then show ?thesis using re_heard_votes_card_mono[OF assms(2), of v p b Reliable_READY_FROM_PROCESS] by linarith
  qed
  then show ?thesis using assms(1,4,5) by (simp add: re_said_ok_def cfg)
qed

lemma re_entry_ok_silent:
  assumes "re_entry_ok env p R E b ms" "R \<subseteq> R'" "re_config p' = re_config p" "re_core ms' = re_core ms"
    and "\<And>v. \<not> re_says E' b Reliable_READY_FROM_PROCESS v"
  shows "re_entry_ok env p' R' (E \<union> E') b ms'"
proof -
  note k = re_core_fields[OF assms(4)] re_config_fields(3)[OF assms(3)] re_heard_votes_config[OF assms(3)]
  have "tally (re_readyFromProcesses ms) (re_readyFromProcessesStat ms) (re_heard_votes p R' b Reliable_READY_FROM_PROCESS)"
    by (rule tally_mono[OF _ re_heard_votes_mono[OF assms(2)]]) (use assms(1) in \<open>simp add: re_entry_ok_def\<close>)
  moreover have "tally (re_validateFromWitnesses ms) (re_validatesStat ms)
      {(q, v) \<in> re_heard_votes p R' b Reliable_VALIDATE. re_name (re_pids p) q \<in> re_ownWitnessSet ms}"
    by (rule tally_mono[where S = "{(q, v) \<in> re_heard_votes p R b Reliable_VALIDATE. re_name (re_pids p) q \<in> re_ownWitnessSet ms}"])
      (use assms(1) re_heard_votes_mono[OF assms(2)] in \<open>auto simp: re_entry_ok_def\<close>)
  ultimately show ?thesis using assms(1,5) unfolding re_entry_ok_def k re_says_Un by simp
qed

text \<open>An instance that a step does not touch.\<close>

lemma re_inst_ok_silent:
  assumes ok: "re_inst_ok env p R E b" and R: "R \<subseteq> R'" and cfg: "re_config p' = re_config p"
    and same: "re_state p' b = re_state p b" "re_finallyCommitted p' b = re_finallyCommitted p b"
      "re_delivered p' b = re_delivered p b"
    and no: "\<And>v. \<not> re_says E' b Reliable_READY_FROM_PROCESS v" "\<And>v. \<not> re_says E' b Reliable_VALIDATE v"
  shows "re_inst_ok env p' R' (E \<union> E') b"
proof -
  have v: "re_value p' b = re_value p b" using same(3) by (simp add: re_value_def)
  have "re_entry_ok env p' R' (E \<union> E') b ms" if "re_state p b = Some ms" for ms
    by (rule re_entry_ok_silent[OF _ R cfg refl no(1)]) (use ok that in \<open>simp add: re_inst_ok_def\<close>)
  moreover have "re_said_ok p' R' (E \<union> E') b"
    by (rule re_said_ok_silent[OF _ R cfg no]) (use ok in \<open>simp add: re_inst_ok_def\<close>)
  moreover have "re_backed env p' R' (E \<union> E') b v" if "re_value p b = Some v" for v
    by (rule re_backed_mono[OF _ R Un_upper1 cfg]) (use ok that in \<open>simp add: re_inst_ok_def\<close>)
  ultimately show ?thesis using ok no unfolding re_inst_ok_def same v re_says_Un by simp
qed

section \<open>Steps\<close>

text \<open>A fresh message state of an instance about which nothing was said.\<close>

lemma re_inst_ok_fresh:
  assumes i: "re_initMessageState env p b = Inr (p1, ms, es0)" and ok: "re_inst_ok env p R E b"
    and new: "re_state p b = None" "\<not> re_finallyCommitted p b"
  shows "re_inst_ok env p1 R (E \<union> set es0) b"
proof -
  note v = re_init_eq[OF i]
  obtain own pot where ms: "ms = re_newMessageState\<lparr>re_ownWitnessSet := own, re_potWitnessSet := pot\<rparr>" "finite own"
    using v(8) by blast
  have silent: "\<not> re_says (E \<union> set es0) b Reliable_READY_FROM_PROCESS w" for w
    using ok new by (simp add: re_inst_ok_def v(7))
  have nv: "\<not> re_says (set es0) b st w" for st w by (simp add: v(7))
  have d: "re_delivered p1 b = None" using ok new re_books_fields(1)[OF v(2)] by (simp add: re_inst_ok_def)
  have "re_entry_ok env p1 R (E \<union> set es0) b ms"
    using silent ms(2) by (simp add: re_entry_ok_def ms(1) re_newMessageState_def tally_empty v(7) re_selected_def)
  moreover have "re_stage ms = InitialStage" by (simp add: ms(1) re_newMessageState_def)
  moreover have "re_said_ok p1 R (E \<union> set es0) b"
    by (rule re_said_ok_silent[OF _ subset_refl v(3) nv nv]) (use ok in \<open>simp add: re_inst_ok_def\<close>)
  ultimately show ?thesis using d new v(1,4) by (simp add: re_inst_ok_def re_value_def)
qed

lemma re_inst_ok_register:
  assumes r: "re_registerMessage env p b = Inr (p1, ms, es0)" and ok: "re_inst_ok env p R E b"
    and fc: "\<not> re_finallyCommitted p b"
  shows "re_inst_ok env p1 R (E \<union> set es0) b"
  using r
proof (cases rule: re_register_cases)
  case known
  then show ?thesis using ok by simp
next
  case (fresh own pot)
  show ?thesis by (rule re_inst_ok_fresh[OF fresh(2) ok fresh(1) fc])
qed

text \<open>A message of the reliable protocol, on the message state of its instance.\<close>

lemma re_stage_step_ok:
  assumes s: "re_stage_step p q (re_name (re_pids p) q) b rm ms ms' es d"
    and m: "m = re_rmsg b (ReliableStage rm) (BroadcastMessage rm) (EncryptedShares rm)"
    and q: "0 \<le> sint q" "sint q < int (length (re_pids p))"
    and e: "re_entry_ok env p R E b ms" and o: "re_said_ok p R E b"
  shows "re_entry_ok env p (insert (Received q m) R) (E \<union> set es) b ms'"
    "re_said_ok p (insert (Received q m) R) (E \<union> set es) b"
    "d = Some bm \<Longrightarrow> re_backed env p (insert (Received q m) R) (E \<union> set es) b (Value bm)"
proof -
  let ?R = "insert (Received q m) R" and ?E = "E \<union> set es"
  let ?V = "{(q, v) \<in> re_heard_votes p ?R b Reliable_VALIDATE. re_name (re_pids p) q \<in> re_ownWitnessSet ms}"
  have own: "re_ownWitnessSet ms' = re_ownWitnessSet ms" using s by (simp add: re_stage_step_def)
  have heard: "(q, Value bm) \<in> re_heard_votes p ?R b (ReliableStage rm)" if "BroadcastMessage rm = Some bm" for bm
    unfolding m that by (rule re_heard_rmsg[OF q])
  have sub: "re_heard_votes p R b st \<subseteq> re_heard_votes p ?R b st" for st by (rule re_heard_votes_mono) blast
  have r0: "tally (re_readyFromProcesses ms) (re_readyFromProcessesStat ms) (re_heard_votes p ?R b Reliable_READY_FROM_PROCESS)"
    by (rule tally_mono[OF _ sub]) (use e in \<open>simp add: re_entry_ok_def\<close>)
  have w0: "tally (re_validateFromWitnesses ms) (re_validatesStat ms) ?V"
    by (rule tally_mono[where S = "{(q, v) \<in> re_heard_votes p R b Reliable_VALIDATE. re_name (re_pids p) q \<in> re_ownWitnessSet ms}"])
      (use e sub in \<open>auto simp: re_entry_ok_def\<close>)
  have r1: "tally (re_readyFromProcesses ms') (re_readyFromProcessesStat ms') (re_heard_votes p ?R b Reliable_READY_FROM_PROCESS)"
  proof -
    consider "re_readyFromProcesses ms' = re_readyFromProcesses ms" "re_readyFromProcessesStat ms' = re_readyFromProcessesStat ms"
      | bm where "ReliableStage rm = Reliable_READY_FROM_PROCESS" "BroadcastMessage rm = Some bm"
          "re_readyFromProcesses ms' = re_readyFromProcesses (re_vote_ready q (Value bm) ms)"
          "re_readyFromProcessesStat ms' = re_readyFromProcessesStat (re_vote_ready q (Value bm) ms)"
      using s unfolding re_stage_step_def by blast
    then show ?thesis
    proof cases
      case 1
      then show ?thesis using r0 by simp
    next
      case (2 bm)
      show ?thesis unfolding 2(3,4) by (rule re_ready_box.vote_tally[OF r0]) (use heard[OF 2(2)] 2(1) in simp)
    qed
  qed
  have w1: "tally (re_validateFromWitnesses ms') (re_validatesStat ms') ?V"
  proof -
    consider "re_validateFromWitnesses ms' = re_validateFromWitnesses ms" "re_validatesStat ms' = re_validatesStat ms"
      | bm where "ReliableStage rm = Reliable_VALIDATE" "re_name (re_pids p) q \<in> re_ownWitnessSet ms" "BroadcastMessage rm = Some bm"
          "re_validateFromWitnesses ms' = re_validateFromWitnesses (re_vote_validate q (Value bm) ms)"
          "re_validatesStat ms' = re_validatesStat (re_vote_validate q (Value bm) ms)"
      using s unfolding re_stage_step_def by blast
    then show ?thesis
    proof cases
      case 1
      then show ?thesis using w0 by simp
    next
      case (2 bm)
      show ?thesis unfolding 2(4,5) by (rule re_validate_box.vote_tally[OF w0]) (use heard[OF 2(3)] 2(1,2) in simp)
    qed
  qed
  have st: "re_stage ms \<le> re_stage ms'" using s by (simp add: re_stage_step_def)
  have rfp: "re_stage ms < SentReadyFromProcess \<and> re_stage ms' = SentReadyFromProcess \<and> map_option Value (BroadcastMessage rm) = Some v"
    if "re_says (set es) b Reliable_READY_FROM_PROCESS v" for v
    using s that unfolding re_stage_step_def by blast
  have before: "SentReadyFromProcess \<le> re_stage ms" if "re_says E b Reliable_READY_FROM_PROCESS v" for v
    using e that unfolding re_entry_ok_def by blast
  have says: "SentReadyFromProcess \<le> re_stage ms'" if "re_says ?E b Reliable_READY_FROM_PROCESS v" for v
    using that before[of v] rfp[of v] st by auto
  have "Log (OnWitnessSetSelected ''own'' b (env_order env (re_ownWitnessSet ms))) \<in> ?E" "finite (re_ownWitnessSet ms)"
    using e by (simp_all add: re_entry_ok_def)
  note loc = this
  show "re_entry_ok env p ?R ?E b ms'" using r1 w1 loc says unfolding re_entry_ok_def own by blast
  have "v = w" if "re_says ?E b Reliable_READY_FROM_PROCESS v" "re_says ?E b Reliable_READY_FROM_PROCESS w" for v w
  proof (cases "re_says (set es) b Reliable_READY_FROM_PROCESS v \<or> re_says (set es) b Reliable_READY_FROM_PROCESS w")
    case True
    then have "\<not> re_says E b Reliable_READY_FROM_PROCESS u" for u using rfp before not_le by blast
    then have "re_says (set es) b Reliable_READY_FROM_PROCESS v" "re_says (set es) b Reliable_READY_FROM_PROCESS w"
      using that by simp_all
    then show ?thesis using rfp[of v] rfp[of w] by simp
  next
    case False
    then show ?thesis using that o unfolding re_said_ok_def by simp
  qed
  moreover have "re_quorumThreshold p \<le> int (card {q. (q, v) \<in> re_heard_votes p ?R b Reliable_READY_FROM_PROCESS})"
    if v: "re_says ?E b Reliable_VALIDATE v" for v
  proof (cases "re_says (set es) b Reliable_VALIDATE v")
    case True
    then have "re_quorumThreshold p \<le> int (re_readyFromProcessesStat ms' v)" using s unfolding re_stage_step_def by blast
    also have "\<dots> \<le> int (card {q. (q, v) \<in> re_heard_votes p ?R b Reliable_READY_FROM_PROCESS})"
      using tally_le[OF r1] by simp
    finally show ?thesis .
  next
    case False
    then have "re_quorumThreshold p \<le> int (card {q. (q, v) \<in> re_heard_votes p R b Reliable_READY_FROM_PROCESS})"
      using v o unfolding re_said_ok_def by simp
    also have "\<dots> \<le> int (card {q. (q, v) \<in> re_heard_votes p ?R b Reliable_READY_FROM_PROCESS})"
      using re_heard_votes_card_mono[OF subset_insertI] by simp
    finally show ?thesis .
  qed
  ultimately show "re_said_ok p ?R ?E b" unfolding re_said_ok_def by blast
  assume "d = Some bm"
  then have "re_witnessThreshold p \<le> int (re_validatesStat ms' (Value bm))" using s unfolding re_stage_step_def by blast
  also have "\<dots> \<le> int (card {q. (q, Value bm) \<in> ?V})" using tally_le[OF w1] by simp
  finally show "re_backed env p ?R ?E b (Value bm)" unfolding re_backed_def
    using loc by (intro exI[of _ "re_ownWitnessSet ms"]) simp
qed

text \<open>An input only touches its own instance.\<close>

definition re_silent_else :: "BroadcastInstance \<Rightarrow> re_Process \<Rightarrow> re_Process \<Rightarrow> effect list \<Rightarrow> bool" where
  "re_silent_else b p p' es \<longleftrightarrow> re_config p' = re_config p \<and>
     (\<forall>c. c \<noteq> b \<longrightarrow> re_state p' c = re_state p c \<and> re_finallyCommitted p' c = re_finallyCommitted p c \<and>
        re_delivered p' c = re_delivered p c \<and>
        (\<forall>v. \<not> re_says (set es) c Reliable_READY_FROM_PROCESS v \<and> \<not> re_says (set es) c Reliable_VALIDATE v))"

lemma re_run_inv_step:
  assumes inv: "re_run_inv env p R E" and R: "R \<subseteq> R'" and s: "re_silent_else b p p' es"
    and b: "re_inst_ok env p' R' (E \<union> set es) b"
  shows "re_run_inv env p' R' (E \<union> set es)"
  unfolding re_run_inv_def
proof
  fix c show "re_inst_ok env p' R' (E \<union> set es) c"
  proof (cases "c = b")
    case False
    have "re_inst_ok env p R E c" using inv by (simp add: re_run_inv_def)
    from re_inst_ok_silent[OF this R] show ?thesis using s False by (simp add: re_silent_else_def)
  qed (use b in simp)
qed

lemma re_register_silent:
  assumes "re_registerMessage env p b = Inr (p1, ms, es0)"
  shows "re_silent_else b p p1 es0" "re_state p1 b = Some ms" "\<not> re_says (set es0) c st v"
proof -
  note k = re_register_eq[OF assms]
  show sil: "\<not> re_says (set es0) c st v" for c st v using assms by (cases rule: re_register_cases) simp_all
  show "re_silent_else b p p1 es0" using k re_books_fields(1)[OF k(2)] sil by (simp add: re_silent_else_def)
  show "re_state p1 b = Some ms" using k(1) by simp
qed

lemma re_stage_step_only:
  assumes "re_stage_step p q pid b rm ms ms' es d" "c \<noteq> b"
  shows "\<not> re_says (set es) c Reliable_READY_FROM_PROCESS v" "\<not> re_says (set es) c Reliable_VALIDATE v"
  using assms unfolding re_stage_step_def by blast+

lemma re_inst_ok_committed:
  assumes "re_state p b = None" "re_finallyCommitted p b" "re_delivered p b = Some bm"
    "re_said_ok p R E b" "re_backed env p R E b (Value bm)"
  shows "re_inst_ok env p R E b"
  using assms by (simp add: re_inst_ok_def re_value_def)

lemma re_inst_ok_live:
  assumes "re_state p b = Some ms" "\<not> re_finallyCommitted p b" "re_entry_ok env p R E b ms"
    "re_stage ms = Delivered \<longleftrightarrow> re_delivered p b \<noteq> None"
    "re_said_ok p R E b" "\<And>v. re_value p b = Some v \<Longrightarrow> re_backed env p R E b v"
  shows "re_inst_ok env p R E b"
  using assms by (simp add: re_inst_ok_def)

lemma re_reliable_inv:
  assumes run: "re_processReliableProtocolMessage env p q b rm = Inr (p', es)"
    and m: "m = re_rmsg b (ReliableStage rm) (BroadcastMessage rm) (EncryptedShares rm)"
    and inv: "re_run_inv env p R E"
  shows "re_run_inv env p' (insert (Received q m) R) (E \<union> set es)"
proof -
  let ?R = "insert (Received q m) R"
  have R: "R \<subseteq> ?R" by blast
  have ok: "re_inst_ok env p R E b" using inv by (simp add: re_run_inv_def)
  from run show ?thesis
  proof (cases rule: re_reliable_cases)
    case ignored
    have "re_inst_ok env p ?R (E \<union> set es) b" by (rule re_inst_ok_silent[OF ok R]) (simp_all add: ignored)
    then show ?thesis
      by (intro re_run_inv_step[OF inv R, of b]) (simp_all add: ignored re_silent_else_def)
  next
    case (quiet p1 ms0 es0 ms' es1)
    note reg = re_register_silent[OF quiet(2)] and fc = re_register_eq(4)[OF quiet(2)]
    have ok1: "re_inst_ok env p1 R (E \<union> set es0) b" by (rule re_inst_ok_register[OF quiet(2) ok quiet(1)])
    have cfg: "re_config p1 = re_config p" by (rule re_register_eq(3)[OF quiet(2)])
    have st: "re_stage_step p1 q (re_name (re_pids p1) q) b rm ms0 ms' es1 None"
      using quiet(5) by (simp add: re_name_def re_config_fields(3)[OF cfg] re_stage_step_config[OF cfg])
    have q: "0 \<le> sint q" "sint q < int (length (re_pids p1))" using quiet(3,4) re_config_fields(3)[OF cfg] by simp_all
    have e: "re_entry_ok env p1 R (E \<union> set es0) b ms0" "re_said_ok p1 R (E \<union> set es0) b"
      and dl: "re_stage ms0 = Delivered \<longleftrightarrow> re_delivered p1 b \<noteq> None"
      using ok1 reg(2) by (simp_all add: re_inst_ok_def)
    note step = re_stage_step_ok(1,2)[OF st m q e]
    have views: "re_state p' = (re_state p1)(b \<mapsto> ms')" "re_finallyCommitted p' = re_finallyCommitted p1"
      "re_delivered p' = re_delivered p1" "re_config p' = re_config p1"
      using reg(2) by (simp_all add: quiet(6))
    note cfg' = trans[OF views(4) cfg]
    have "re_inst_ok env p' ?R (E \<union> set es) b"
    proof (rule re_inst_ok_live)
      show "re_state p' b = Some ms'" "\<not> re_finallyCommitted p' b" using views fc quiet(1) by simp_all
      show "re_entry_ok env p' ?R (E \<union> set es) b ms'"
        using re_entry_ok_silent[OF step(1) subset_refl views(4) refl, of "{}"] by (simp add: quiet(7) Un_assoc)
      show "re_said_ok p' ?R (E \<union> set es) b"
        using re_said_ok_silent[OF step(2) subset_refl views(4), of "{}"] by (simp add: quiet(7) Un_assoc)
      show "re_stage ms' = Delivered \<longleftrightarrow> re_delivered p' b \<noteq> None"
        using st dl views(3) by (simp add: re_stage_step_def)
      fix v assume "re_value p' b = Some v"
      then have "re_value p1 b = Some v" using views(3) by (simp add: re_value_def)
      then have "re_backed env p1 R (E \<union> set es0) b v" using ok1 by (simp add: re_inst_ok_def)
      then show "re_backed env p' ?R (E \<union> set es) b v"
        by (rule re_backed_mono[OF _ R _ views(4)]) (auto simp: quiet(7))
    qed
    moreover have "re_silent_else b p p' es"
      using reg(1,3) views re_stage_step_only[OF st] cfg' by (simp add: re_silent_else_def quiet(7))
    ultimately show ?thesis by (intro re_run_inv_step[OF inv R])
  next
    case (delivers p1 ms0 es0 ms1 es1 bm p2 ms2 es2)
    note reg = re_register_silent[OF delivers(2)] and fc = re_register_eq(4)[OF delivers(2)]
    have ok1: "re_inst_ok env p1 R (E \<union> set es0) b" by (rule re_inst_ok_register[OF delivers(2) ok delivers(1)])
    have cfg: "re_config p1 = re_config p" by (rule re_register_eq(3)[OF delivers(2)])
    have st: "re_stage_step p1 q (re_name (re_pids p1) q) b rm ms0 ms1 es1 (Some bm)"
      using delivers(5) by (simp add: re_name_def re_config_fields(3)[OF cfg] re_stage_step_config[OF cfg])
    have q: "0 \<le> sint q" "sint q < int (length (re_pids p1))" using delivers(3,4) re_config_fields(3)[OF cfg] by simp_all
    have e: "re_entry_ok env p1 R (E \<union> set es0) b ms0" "re_said_ok p1 R (E \<union> set es0) b"
      using ok1 reg(2) by (simp_all add: re_inst_ok_def)
    note step = re_stage_step_ok[OF st m q e]
    note d = delivers(6)[unfolded re_delivery_def]
    have cfg2: "re_config p2 = re_config p1" using d by simp
    have live: "re_live_or_committed b p' (ms2\<lparr>re_stage := Delivered\<rparr>)"
      unfolding delivers(7) by (rule re_live_store) (use d in blast)
    have views: "re_config p' = re_config p1" "re_delivered p' = (re_delivered p1)(b \<mapsto> bm)"
      using d by (simp_all add: delivers(7))
    note cfg' = trans[OF views(1) cfg]
    have core: "re_core ms2 = re_core ms1" using d by blast
    have quiet2: "\<not> re_says (set es2) c sta v" for c sta v using d by blast
    have E: "E \<union> set es = (E \<union> set es0) \<union> set es1 \<union> set es2" by (simp add: delivers(8) Un_assoc)
    have said: "re_said_ok p' ?R (E \<union> set es) b" unfolding E
      by (rule re_said_ok_silent[OF step(2) subset_refl views(1) quiet2 quiet2])
    have backed: "re_backed env p' ?R (E \<union> set es) b (Value bm)"
      by (rule re_backed_mono[OF step(3)[OF refl] subset_refl _ views(1)]) (auto simp: E)
    have "re_inst_ok env p' ?R (E \<union> set es) b"
    proof (cases "re_finallyCommitted p' b")
      case True
      then have "re_state p' b = None" using live by (simp add: re_live_or_committed_def)
      from re_inst_ok_committed[OF this True _ said backed] show ?thesis using views(2) by simp
    next
      case False
      then have "re_state p' b = Some (ms2\<lparr>re_stage := Delivered\<rparr>)" using live by (simp add: re_live_or_committed_def)
      moreover have "re_entry_ok env p' ?R (E \<union> set es) b (ms2\<lparr>re_stage := Delivered\<rparr>)"
      proof -
        have "re_entry_ok env p' ?R (E \<union> set es) b ms2" unfolding E
          by (rule re_entry_ok_silent[OF step(1) subset_refl views(1) core quiet2])
        moreover have "s \<le> Delivered" for s by (cases s) (simp_all add: re_stage_order)
        ultimately show ?thesis by (simp add: re_entry_ok_def)
      qed
      moreover have "re_backed env p' ?R (E \<union> set es) b v" if "re_value p' b = Some v" for v
        using that backed views(2) by (simp add: re_value_def)
      ultimately show ?thesis
        using re_inst_ok_live[OF _ False _ _ said, of "ms2\<lparr>re_stage := Delivered\<rparr>"] by (simp add: views(2))
    qed
    moreover have "re_silent_else b p p' es"
    proof -
      have "re_state p' c = re_state p c \<and> re_finallyCommitted p' c = re_finallyCommitted p c \<and> re_delivered p' c = re_delivered p c"
        if "c \<noteq> b" for c
      proof -
        have "re_state p' c = re_state p2 c" using re_live_store_other[of b p2 ms2] d that unfolding delivers(7) by blast
        moreover have "re_state p2 c = re_state p1 c" "re_finallyCommitted p2 c = re_finallyCommitted p1 c"
          using d that reg(2) by simp_all
        moreover have "re_state p1 c = re_state p c" "re_finallyCommitted p1 c = re_finallyCommitted p c" "re_delivered p1 c = re_delivered p c"
          using reg(1) that by (simp_all add: re_silent_else_def)
        ultimately show ?thesis using views(2) that by (simp add: delivers(7))
      qed
      then show ?thesis using re_stage_step_only[OF st] reg(3) quiet2 cfg' by (simp add: re_silent_else_def delivers(8))
    qed
    ultimately show ?thesis by (intro re_run_inv_step[OF inv R])
  qed
qed

lemma re_commitment_inv:
  assumes run: "re_processCommitmentProtocolMessage env p q b cm = Inr (p', t, es)"
    and inv: "re_run_inv env p R E" and R: "R \<subseteq> R'"
  shows "re_run_inv env p' R' (E \<union> set es)"
proof -
  have ok: "re_inst_ok env p R E b" using inv by (simp add: re_run_inv_def)
  from run show ?thesis
  proof (cases rule: re_commitment_cases)
    case ignored
    have "re_inst_ok env p R' (E \<union> set es) b" by (rule re_inst_ok_silent[OF ok R]) (simp_all add: ignored)
    then show ?thesis
      by (intro re_run_inv_step[OF inv R, of b]) (simp_all add: ignored re_silent_else_def)
  next
    case (handled p1 ms es0 ms' es1)
    note reg = re_register_silent[OF handled(2)]
    have fc: "\<not> re_finallyCommitted p1 b" using re_register_eq(4)[OF handled(2)] handled(1) by simp
    have ok1: "re_inst_ok env p1 R (E \<union> set es0) b" by (rule re_inst_ok_register[OF handled(2) ok handled(1)])
    note s = re_reveal_step_same[OF handled(5) fc]
    have cfg: "re_config p' = re_config p1" and bk: "re_books p' = re_books p1" using s(1) by (simp_all add: re_same_but_def)
    have dl: "re_delivered p' = re_delivered p1" "re_value p' = re_value p1" by (rule re_books_fields[OF bk])+
    have quiet: "\<not> re_says (set es1) c st v" for c st v by (rule re_only_reveals_says[OF s(4)])
    have E: "E \<union> set es = (E \<union> set es0) \<union> set es1" by (simp add: handled(4) Un_assoc)
    have said: "re_said_ok p' R' (E \<union> set es) b" unfolding E
      by (rule re_said_ok_silent[OF _ R cfg quiet quiet]) (use ok1 in \<open>simp add: re_inst_ok_def\<close>)
    have backed: "re_backed env p' R' (E \<union> set es) b v" if "re_value p' b = Some v" for v unfolding E
      by (rule re_backed_mono[OF _ R Un_upper1 cfg]) (use ok1 that dl in \<open>simp add: re_inst_ok_def\<close>)
    have "re_inst_ok env p' R' (E \<union> set es) b"
    proof (cases "re_finallyCommitted p' b")
      case True
      then have "re_state p' b = None" using s(2) by (simp add: re_live_or_committed_def)
      moreover have "re_delivered p1 b \<noteq> None"
        using handled(5) True fc by (auto simp: re_reveal_step_def re_commits_def)
      ultimately show ?thesis using True said backed dl by (simp add: re_inst_ok_def)
    next
      case False
      have live: "re_state p' b = Some ms'" using s(2) False by (simp add: re_live_or_committed_def)
      have "re_entry_ok env p' R' (E \<union> set es) b ms'" unfolding E
        by (rule re_entry_ok_silent[OF _ R cfg s(3) quiet]) (use ok1 reg(2) in \<open>simp add: re_inst_ok_def\<close>)
      moreover have "re_stage ms' = Delivered \<longleftrightarrow> re_delivered p' b \<noteq> None"
        using ok1 reg(2) dl re_core_fields(5)[OF s(3)] by (simp add: re_inst_ok_def)
      ultimately show ?thesis by (rule re_inst_ok_live[OF live False _ _ said backed])
    qed
    moreover have "re_silent_else b p p' es"
      using reg(1,3) s(1) dl quiet by (simp add: re_silent_else_def re_same_but_def handled(4))
    ultimately show ?thesis by (intro re_run_inv_step[OF inv R])
  qed
qed

lemma re_message_inv:
  assumes run: "re_HandleMessage env p q m = Inr (p', es)" and inv: "re_run_inv env p R E"
  shows "re_run_inv env p' (insert (Received q m) R) (E \<union> set es)"
  using run
proof (cases rule: re_HandleMessage_cases)
  case (reliable b rm)
  show ?thesis by (rule re_reliable_inv[OF reliable(2,1) inv])
next
  case (commitment b cm t)
  show ?thesis by (rule re_commitment_inv[OF commitment(2) inv]) blast
qed

lemma re_request_inv:
  assumes run: "re_Broadcast env p v = Inr (p', es)" and inv: "re_run_inv env p R E"
    and new: "re_unused p (re_next p)" and R: "R \<subseteq> R'"
  shows "re_run_inv env p' R' (E \<union> set es)"
  using run
proof (cases rule: re_request_views)
  case (1 p1 ms shares x)
  let ?b = "re_next p"
  let ?sel = "re_selected env ?b ms"
  have ok: "re_inst_ok env p R E ?b" using inv by (simp add: re_run_inv_def)
  have fc: "\<not> re_finallyCommitted p ?b" using ok new by (auto simp: re_inst_ok_def re_unused_def)
  have st: "re_state p ?b = None" using new by (simp add: re_unused_def)
  note i = re_init_eq[OF 1(1)]
  have ok1: "re_inst_ok env p1 R (E \<union> set ?sel) ?b" by (rule re_inst_ok_fresh[OF 1(1) ok st fc])
  have views: "re_config p' = re_config p1" "re_state p' = re_state p1" "re_finallyCommitted p' = re_finallyCommitted p1"
    "re_delivered p' = re_delivered p1"
    by (simp_all add: 1(2) re_config_def re_state_def re_finallyCommitted_def re_delivered_def fun_eq_iff)
  have quiet: "\<not> re_says (set (re_broadcastToWitnesses env p1 ?b
       (re_msg Reliable_NOTIFY (Some \<lparr>Value = v, XHash = re_hash x\<rparr>) shares) ms @ [Log (OnTransactionInit ?b)])) c sta w"
    if "sta \<noteq> Reliable_NOTIFY" for c sta w
    using that re_says_witnesses[of env p1 ?b Reliable_NOTIFY] by simp
  have "re_inst_ok env p' R' (E \<union> set es) ?b"
    using re_inst_ok_silent[OF ok1 R views(1), of "set (re_broadcastToWitnesses env p1 ?b
       (re_msg Reliable_NOTIFY (Some \<lparr>Value = v, XHash = re_hash x\<rparr>) shares) ms @ [Log (OnTransactionInit ?b)])"] views quiet
    by (simp add: 1(4) Un_assoc)
  moreover have "re_silent_else ?b p p' es"
    using views i(1-4) re_books_fields(1)[OF i(2)] quiet by (simp add: re_silent_else_def 1(4))
  ultimately show ?thesis by (intro re_run_inv_step[OF inv R])
qed

section \<open>Reached states\<close>

lemma re_run_inv_start:
  assumes "re_InitProcess env sha256 sha512 pubs priv mix i pids ps own = Inr p"
  shows "re_run_inv env p {} {}"
proof -
  have "re_deliveredMessages p = make_maps (length pids)" "re_messagesLog p = make_maps (length pids)"
    "re_finallyCommittedMessages p = make_maps (length pids)"
    using assms by (auto simp: re_InitProcess_def Let_def split: if_splits)
  then show ?thesis
    by (simp add: re_run_inv_def re_inst_ok_def re_said_ok_def re_state_def re_delivered_def re_value_def re_finallyCommitted_def)
qed

lemma re_reaches_inv:
  assumes "re_reaches env p0 is p es" "re_run_inv env p0 {} {}"
  shows "re_run_inv env p (set is) (set es)"
  using assms
proof (induction rule: re_reaches.induct)
  case (message "is" p es q m p' es')
  then show ?case using re_message_inv[OF message(2)] by simp
next
  case (request "is" p es v p' es')
  then show ?case using re_request_inv[OF request(3) _ request(2), of "set is" "set es" "insert (Request v) (set is)"] by auto
qed simp

text \<open>The configuration stays the one the process started with.\<close>

lemma re_HandleMessage_config:
  assumes "re_HandleMessage env p q m = Inr (p', es)"
  shows "re_config p' = re_config p" "re_transactionCounter p' = re_transactionCounter p"
proof -
  have "re_config p' = re_config p \<and> re_transactionCounter p' = re_transactionCounter p"
    using assms
  proof (cases rule: re_HandleMessage_cases)
    case (reliable b rm)
    from reliable(2) show ?thesis
    proof (cases rule: re_reliable_cases)
      case (quiet p1 ms0 es0 ms' es1)
      then show ?thesis using re_register_eq(3,6)[OF quiet(2)] by simp
    next
      case (delivers p1 ms0 es0 ms1 es1 bm p2 ms2 es2)
      then show ?thesis using re_register_eq(3,6)[OF delivers(2)] by (simp add: re_delivery_def)
    qed simp
  next
    case (commitment b cm t)
    from commitment(2) show ?thesis
    proof (cases rule: re_commitment_cases)
      case (handled p1 ms es0 ms' es1)
      then show ?thesis using re_register_eq(3,6)[OF handled(2)] by (simp add: re_reveal_step_def)
    qed simp
  qed
  then show "re_config p' = re_config p" "re_transactionCounter p' = re_transactionCounter p" by blast+
qed

lemma re_reaches_config:
  assumes "re_reaches env p0 is p es"
  shows "re_config p = re_config p0"
  using assms
proof (induction rule: re_reaches.induct)
  case (message "is" p es q m p' es')
  then show ?case using re_HandleMessage_config(1)[OF message(2)] by simp
next
  case (request "is" p es v p' es')
  from request(3) show ?case
  proof (cases rule: re_request_views)
    case (1 p1 ms shares x)
    then show ?thesis using re_init_eq(3)[OF 1(1)] request(4) by (simp add: re_config_def)
  qed
qed simp

text \<open>A step delivers its own instance or nothing, and only an instance not delivered before.\<close>

lemma re_HandleMessage_delivers:
  assumes run: "re_HandleMessage env p q m = Inr (p', es)" and inv: "re_run_inv env p R E"
  shows "delivery_step (re_value p) es (re_value p')"
  using run
proof (cases rule: re_HandleMessage_cases)
  case (reliable b rm)
  from reliable(2) show ?thesis
  proof (cases rule: re_reliable_cases)
    case ignored
    then show ?thesis by (simp add: delivery_step_none)
  next
    case (quiet p1 ms0 es0 ms' es1)
    have "deliveries es = []" using quiet(2)
      by (cases rule: re_register_cases)
        (use quiet(5,7) re_only_sends_deliveries[of es1] in \<open>simp_all add: re_stage_step_def\<close>)
    moreover have "re_value p' = re_value p"
      using re_books_fields(2)[OF re_register_eq(2)[OF quiet(2)]] by (simp add: quiet(6))
    ultimately show ?thesis by (simp add: delivery_step_none)
  next
    case (delivers p1 ms0 es0 ms1 es1 bm p2 ms2 es2)
    have ok: "re_inst_ok env p R E b" using inv by (simp add: re_run_inv_def)
    have ok1: "re_inst_ok env p1 R (E \<union> set es0) b" by (rule re_inst_ok_register[OF delivers(2) ok delivers(1)])
    have v1: "re_value p1 = re_value p" by (rule re_books_fields(2)[OF re_register_eq(2)[OF delivers(2)]])
    have "re_stage ms0 \<noteq> Delivered" using delivers(5) by (auto simp: re_stage_step_def re_stage_order)
    then have "re_value p1 b = None"
      using ok1 re_register_silent(2)[OF delivers(2)] by (simp add: re_inst_ok_def re_value_def)
    then have none: "re_value p b = None" by (simp only: v1)
    have "deliveries es0 = []" using delivers(2) by (cases rule: re_register_cases) simp_all
    moreover have "deliveries es1 = []" using delivers(5) re_only_sends_deliveries[of es1] by (simp add: re_stage_step_def)
    ultimately have "deliveries es = [(b, Value bm)]" using delivers(6,8) by (simp add: re_delivery_def)
    moreover have "re_value p' = (re_value p)(b \<mapsto> Value bm)"
      using delivers(6) v1 by (simp add: delivers(7) re_delivery_def) (auto simp: re_value_def fun_eq_iff)
    ultimately show ?thesis using none by (intro delivery_step_one)
  qed
next
  case (commitment b cm t)
  from commitment(2) show ?thesis
  proof (cases rule: re_commitment_cases)
    case ignored
    then show ?thesis by (simp add: delivery_step_none)
  next
    case (handled p1 ms es0 ms' es1)
    have "deliveries es0 = []" using handled(2) by (cases rule: re_register_cases) simp_all
    then have "deliveries es = []" using handled(4,5) re_only_reveals_deliveries[of es1] by (simp add: re_reveal_step_def)
    moreover have "re_value p' = re_value p"
      using re_books_fields(2)[OF re_register_eq(2)[OF handled(2)]] re_books_fields(2)[of p' p1] handled(5)
      by (simp add: re_reveal_step_def)
    ultimately show ?thesis by (simp add: delivery_step_none)
  qed
qed

lemma re_Broadcast_delivers:
  assumes "re_Broadcast env p v = Inr (p', es)"
  shows "delivery_step (re_value p) es (re_value p')"
  using assms
proof (cases rule: re_request_views)
  case (1 p1 ms shares x)
  have "re_value p' = re_value p1" by (simp add: 1(2) re_value_def re_delivered_def fun_eq_iff)
  also have "re_value p1 = re_value p" by (rule re_books_fields(2)[OF re_init_eq(2)[OF 1(1)]])
  finally have "re_value p' = re_value p" .
  moreover have "deliveries es = []" by (simp add: 1(4) re_only_sends_deliveries)
  ultimately show ?thesis by (simp add: delivery_step_none)
qed

lemma re_reaches_delivers:
  assumes "re_reaches env p0 is p es" "re_run_inv env p0 {} {}"
  shows "delivery_step (re_value p0) es (re_value p)"
  using assms
proof (induction rule: re_reaches.induct)
  case (message "is" p es q m p' es')
  have "re_run_inv env p (set is) (set es)" by (rule re_reaches_inv[OF message(1) message.prems])
  then show ?case using delivery_step_trans[OF message(3)[OF message.prems]] re_HandleMessage_delivers[OF message(2)] by blast
next
  case (request "is" p es v p' es')
  then show ?case using delivery_step_trans re_Broadcast_delivers[OF request(3)] by blast
qed (simp add: delivery_step_none)

text \<open>Messages handled one after the other.\<close>

fun re_is_message :: "input \<Rightarrow> bool" where
  "re_is_message (Received q m) = True"
| "re_is_message (Request v) = False"

lemma re_reaches_messages:
  assumes "re_reaches env p0 is p es"
    and "run_inputs (re_HandleMessage env) (re_Broadcast env) p ms = Inr (p', es')" "list_all re_is_message ms"
  shows "re_reaches env p0 (is @ ms) p' (es @ es')"
  using assms
proof (induction ms arbitrary: "is" p es es')
  case (Cons i ms)
  obtain q m where i: "i = Received q m" using Cons.prems(3) by (cases i) simp_all
  obtain p1 es1 es2 where s: "re_HandleMessage env p q m = Inr (p1, es1)"
    "run_inputs (re_HandleMessage env) (re_Broadcast env) p1 ms = Inr (p', es2)" "es' = es1 @ es2"
    using Cons.prems(2) by (auto simp: i go_simps)
  have "re_reaches env p0 (is @ [i]) p1 (es @ es1)" unfolding i by (rule re_reaches.message[OF Cons.prems(1) s(1)])
  from Cons.IH[OF this s(2)] show ?case using Cons.prems(3) by (simp add: s(3))
qed simp

end
