(* ===== verification/Reliable_History.thy ===== *)
theory Reliable_History
  imports Reliable_Run
begin

text \<open>
  The reveal phase over a run: checkpoints, commitments and the histories. A committed transaction
  enters the histories with the secret of an accepted DONE message; the histories do not depend on
  the order of the commitments.
\<close>

section \<open>Histories\<close>

definition re_histories_ok :: "nat \<Rightarrow> nat \<Rightarrow> nat \<Rightarrow> HistoryHash list \<Rightarrow> bool" where
  "re_histories_ok n cap num hs \<longleftrightarrow> length hs = n \<and> histories_ok cap num hs"

lemma re_histories_ok_nth:
  "re_histories_ok n cap num hs \<Longrightarrow> i < n \<Longrightarrow> hh_wf (hs ! i) \<and> binCapacity (hs ! i) = cap \<and> binNum (hs ! i) = num"
  by (auto simp: re_histories_ok_def histories_ok_def list_all_length)

text \<open>One insertion per history, and how two of them follow each other.\<close>

definition hh_inserted :: "byte list \<Rightarrow> HistoryHash \<Rightarrow> HistoryHash" where
  "hh_inserted bs hh = hh\<lparr>bins := (bins hh)\<lparr>vector := (vector (bins hh))
     [hh_bin hh bs := (vector (bins hh) ! hh_bin hh bs + hh_step hh bs) mod int (binCapacity hh)]\<rparr>\<rparr>"

lemma hh_inserted:
  assumes "hh_wf hh"
  shows "hh_Insert hh bs = Inr (hh_inserted bs hh)" "hh_wf (hh_inserted bs hh)"
    "binCapacity (hh_inserted bs hh) = binCapacity hh" "binNum (hh_inserted bs hh) = binNum hh"
  using hh_Insert_wf[OF assms, of bs] hh_wf_update[OF assms] by (simp_all add: hh_inserted_def)

lemma hh_inserted_commute:
  assumes "hh_wf hh"
  shows "hh_inserted bs (hh_inserted cs hh) = hh_inserted cs (hh_inserted bs hh)"
  using history.insert_commute[OF assms, of bs cs] hh_inserted[OF assms] by (simp add: hh_inserted(1)[OF hh_inserted(2)[OF assms]])

lemma re_histories_add_map:
  assumes "re_histories_ok n cap num hs"
  shows "re_histories_add n hs x = Inr (map (hh_inserted (re_secretBytes x)) hs)"
proof -
  have len: "length hs = n" using assms by (simp add: re_histories_ok_def)
  have "go_map (\<lambda>i. go_bind (go_index hs (int i)) (\<lambda>hh. hh_Insert hh (re_secretBytes x))) [0..<n] =
      Inr (map (\<lambda>i. hh_inserted (re_secretBytes x) (hs ! i)) [0..<n])"
    by (rule go_map_Inr_I) (use re_histories_ok_nth[OF assms] len in \<open>auto simp: go_index_nat hh_inserted(1)\<close>)
  moreover have "map (\<lambda>i. hh_inserted (re_secretBytes x) (hs ! i)) [0..<n] = map (hh_inserted (re_secretBytes x)) hs"
    by (rule nth_equalityI) (simp_all add: len)
  ultimately show ?thesis by (simp add: re_histories_add_def len)
qed

lemma re_histories_ok_map:
  assumes "re_histories_ok n cap num hs"
  shows "re_histories_ok n cap num (map (hh_inserted bs) hs)"
  using assms by (auto simp: re_histories_ok_def histories_ok_def list_all_iff hh_inserted)

interpretation re_histories: accumulator "re_histories_ok n cap num" "re_histories_add n" for n cap num
proof unfold_locales
  fix hs x y assume ok: "re_histories_ok n cap num hs"
  note ok' = re_histories_ok_map[OF ok]
  show "\<exists>hs'. re_histories_add n hs x = Inr hs' \<and> re_histories_ok n cap num hs'"
    using re_histories_add_map[OF ok] ok' by blast
  have "hh_wf h" if "h \<in> set hs" for h using ok that by (auto simp: re_histories_ok_def histories_ok_def list_all_iff)
  then have "map (hh_inserted (re_secretBytes y)) (map (hh_inserted (re_secretBytes x)) hs) =
      map (hh_inserted (re_secretBytes x)) (map (hh_inserted (re_secretBytes y)) hs)"
    by (simp add: hh_inserted_commute)
  then show "go_bind (re_histories_add n hs x) (\<lambda>hs'. re_histories_add n hs' y) =
      go_bind (re_histories_add n hs y) (\<lambda>hs'. re_histories_add n hs' x)"
    using re_histories_add_map[OF ok] re_histories_add_map[OF ok'] by simp
qed

section \<open>Commitments\<close>

text \<open>
  \<open>re_accepted R D b x\<close>: a DONE message with secret \<open>x\<close> was received for \<open>b\<close>, and the secret has the hash
  that was delivered.
\<close>

definition re_accepted :: "input set \<Rightarrow> (BroadcastInstance \<Rightarrow> Broadcast_msg option) \<Rightarrow> BroadcastInstance \<Rightarrow> int32 list \<Rightarrow> bool" where
  "re_accepted R D b x \<longleftrightarrow> (\<exists>q m. Received q (re_cmsg b m) \<in> R \<and> CommitmentStage m = Commitment_DONE \<and> X m = x) \<and>
     (\<exists>bm. D b = Some bm \<and> re_hash x = XHash bm)"

text \<open>\<open>re_committed_as R p hs0 cs\<close>: the commitments so far, in order, with their secrets.\<close>

definition re_committed_as ::
  "input set \<Rightarrow> re_Process \<Rightarrow> HistoryHash list \<Rightarrow> (BroadcastInstance \<times> int32 list) list \<Rightarrow> bool" where
  "re_committed_as R p hs0 cs \<longleftrightarrow> distinct (map fst cs) \<and> set (map fst cs) = {b. re_finallyCommitted p b} \<and>
     (\<forall>(b, x)\<in>set cs. re_accepted R (re_delivered p) b x) \<and>
     go_fold (re_histories_add (nat (re_processCount p))) hs0 (map snd cs) = Inr (re_historyHashes p)"

definition re_pending_ok :: "input set \<Rightarrow> re_Process \<Rightarrow> bool" where
  "re_pending_ok R p \<longleftrightarrow> (\<forall>b ms. re_state p b = Some ms \<longrightarrow>
     (\<forall>(q, m)\<in>set (re_pendingRevealProtocolMessages ms). Received q (re_cmsg b m) \<in> R))"

text \<open>One input: nothing is committed, or one instance with an accepted secret.\<close>

definition re_commit_step :: "input set \<Rightarrow> BroadcastInstance \<Rightarrow> re_Process \<Rightarrow> re_Process \<Rightarrow> bool" where
  "re_commit_step R b p p' \<longleftrightarrow> re_config p' = re_config p \<and>
     (\<forall>c bm. re_delivered p c = Some bm \<longrightarrow> re_delivered p' c = Some bm) \<and>
     (\<forall>c. c \<noteq> b \<longrightarrow> re_state p' c = re_state p c \<and> re_finallyCommitted p' c = re_finallyCommitted p c) \<and>
     (\<forall>ms. re_state p' b = Some ms \<longrightarrow> (\<forall>(q, m)\<in>set (re_pendingRevealProtocolMessages ms). Received q (re_cmsg b m) \<in> R)) \<and>
     (re_historyHashes p' = re_historyHashes p \<and> re_finallyCommitted p' b = re_finallyCommitted p b \<or>
      \<not> re_finallyCommitted p b \<and> re_finallyCommitted p' b \<and> (\<exists>x. re_accepted R (re_delivered p') b x \<and>
        re_histories_add (nat (re_processCount p)) (re_historyHashes p) x = Inr (re_historyHashes p')))"

lemma re_commit_step_inv:
  assumes s: "re_commit_step R' b p p'" and cs: "re_committed_as R p hs0 cs" and p: "re_pending_ok R p" and R: "R \<subseteq> R'"
  shows "\<exists>cs'. re_committed_as R' p' hs0 cs'" "re_pending_ok R' p'"
proof -
  have acc: "re_accepted R' (re_delivered p') c x" if "re_accepted R (re_delivered p) c x" for c x
    using that s R unfolding re_accepted_def re_commit_step_def by blast
  have cnt: "re_processCount p' = re_processCount p" by (rule re_config_fields) (use s in \<open>simp add: re_commit_step_def\<close>)
  have old: "\<forall>(c, x)\<in>set cs. re_accepted R' (re_delivered p') c x" using cs acc by (auto simp: re_committed_as_def)
  show "re_pending_ok R' p'" unfolding re_pending_ok_def
  proof (intro allI impI)
    fix c ms assume c: "re_state p' c = Some ms"
    show "\<forall>(q, m)\<in>set (re_pendingRevealProtocolMessages ms). Received q (re_cmsg c m) \<in> R'"
    proof (cases "c = b")
      case True
      then show ?thesis using s c by (simp add: re_commit_step_def)
    next
      case False
      then have "re_state p c = Some ms" using s c by (simp add: re_commit_step_def)
      then show ?thesis using p R by (fastforce simp: re_pending_ok_def)
    qed
  qed
  have oth: "re_finallyCommitted p' c = re_finallyCommitted p c" if "c \<noteq> b" for c using s that by (simp add: re_commit_step_def)
  consider "re_historyHashes p' = re_historyHashes p" "re_finallyCommitted p' b = re_finallyCommitted p b"
    | x where "\<not> re_finallyCommitted p b" "re_finallyCommitted p' b" "re_accepted R' (re_delivered p') b x"
        "re_histories_add (nat (re_processCount p)) (re_historyHashes p) x = Inr (re_historyHashes p')"
    using s unfolding re_commit_step_def by blast
  then show "\<exists>cs'. re_committed_as R' p' hs0 cs'"
  proof cases
    case 1
    have "re_finallyCommitted p' c = re_finallyCommitted p c" for c using oth[of c] 1(2) by (cases "c = b") simp_all
    then have "re_finallyCommitted p' = re_finallyCommitted p" ..
    then have "re_committed_as R' p' hs0 cs" using cs old 1(1) by (simp add: re_committed_as_def cnt)
    then show ?thesis by blast
  next
    case (2 x)
    have "{c. re_finallyCommitted p' c} = insert b {c. re_finallyCommitted p c}"
    proof (rule set_eqI)
      fix c show "c \<in> {c. re_finallyCommitted p' c} \<longleftrightarrow> c \<in> insert b {c. re_finallyCommitted p c}"
        using oth[of c] 2(2) by (cases "c = b") simp_all
    qed
    then have "re_committed_as R' p' hs0 (cs @ [(b, x)])"
      using cs old 2 by (simp add: re_committed_as_def cnt go_fold_append)
    then show ?thesis by blast
  qed
qed

lemma re_commit_step_refl: "re_pending_ok R p \<Longrightarrow> re_commit_step R b p p"
  by (auto simp: re_commit_step_def re_pending_ok_def)

lemma re_pending_ok_mono: "re_pending_ok R p \<Longrightarrow> R \<subseteq> R' \<Longrightarrow> re_pending_ok R' p"
  unfolding re_pending_ok_def by fast

text \<open>The message state after registration holds reveal messages that were received.\<close>

lemma re_register_pending:
  assumes "re_registerMessage env p b = Inr (p1, ms0, es0)" "re_pending_ok R p"
  shows "\<forall>(q, m)\<in>set (re_pendingRevealProtocolMessages ms0). Received q (re_cmsg b m) \<in> R"
  using assms(1)
proof (cases rule: re_register_cases)
  case known
  then show ?thesis using assms(2) by (simp add: re_pending_ok_def)
next
  case (fresh own pot)
  then show ?thesis by (simp add: re_newMessageState_def)
qed

lemma re_message_commits:
  assumes run: "re_HandleMessage env p q m = Inr (p', es)" and inv: "re_run_inv env p R E" and pend: "re_pending_ok R p"
  shows "\<exists>b. re_commit_step (insert (Received q m) R) b p p'"
proof -
  let ?R = "insert (Received q m) R"
  have pend': "re_pending_ok ?R p" by (rule re_pending_ok_mono[OF pend]) blast
  from run show ?thesis
  proof (cases rule: re_HandleMessage_cases)
    case (reliable b rm)
    from reliable(2) show ?thesis
    proof (cases rule: re_reliable_cases)
      case ignored
      then show ?thesis using re_commit_step_refl[OF pend'] by blast
    next
      case (quiet p1 ms0 es0 ms' es1)
      note reg = re_register_eq[OF quiet(2)] and st = re_register_silent(2)[OF quiet(2)]
      have "re_pendingRevealProtocolMessages ms' = re_pendingRevealProtocolMessages ms0"
        using quiet(5) unfolding re_stage_step_def by blast
      then have "\<forall>(q, m)\<in>set (re_pendingRevealProtocolMessages ms'). Received q (re_cmsg b m) \<in> ?R"
        using re_register_pending[OF quiet(2) pend'] by simp
      then have "re_commit_step ?R b p p'"
        using reg(1,3,4,5) st re_books_fields(1)[OF reg(2)] by (simp add: re_commit_step_def quiet(6))
      then show ?thesis by blast
    next
      case (delivers p1 ms0 es0 ms1 es1 bm p2 ms2 es2)
      note reg = re_register_eq[OF delivers(2)] and sil = re_register_silent[OF delivers(2)]
      note d = delivers(6)[unfolded re_delivery_def]
      have ok: "re_inst_ok env p R E b" using inv by (simp add: re_run_inv_def)
      have ok1: "re_inst_ok env p1 R (E \<union> set es0) b" by (rule re_inst_ok_register[OF delivers(2) ok delivers(1)])
      have "re_stage ms0 \<noteq> Delivered" using delivers(5) by (auto simp: re_stage_step_def re_stage_order)
      then have none: "re_delivered p1 b = None" using ok1 sil(2) by (simp add: re_inst_ok_def)
      have p1: "re_delivered p1 = re_delivered p" by (rule re_books_fields(1)[OF reg(2)])
      have dl: "re_delivered p' = (re_delivered p)(b \<mapsto> bm)" using d p1 by (simp add: delivers(7))
      have live: "re_live_or_committed b p2 ms2" using d by blast
      have cfg: "re_config p' = re_config p" using d reg(3) by (simp add: delivers(7))
      have oth: "re_state p' c = re_state p c \<and> re_finallyCommitted p' c = re_finallyCommitted p c" if "c \<noteq> b" for c
        using d that sil(1,2) re_live_store_other[OF live that] by (simp add: delivers(7) re_silent_else_def)
      have "re_pendingRevealProtocolMessages ms1 = re_pendingRevealProtocolMessages ms0"
        using delivers(5) unfolding re_stage_step_def by blast
      then have recv: "\<forall>(q, m)\<in>set (re_pendingRevealProtocolMessages ms1). Received q (re_cmsg b m) \<in> ?R"
        using re_register_pending[OF delivers(2) pend'] by simp
      have hist: "re_historyHashes (re_store p1 b ms1) = re_historyHashes p" "re_processCount (re_store p1 b ms1) = re_processCount p"
        using reg(5) re_config_fields(8)[OF reg(3)] by simp_all (simp add: re_store_def)
      have "re_pendingRevealProtocolMessages ms = []" if "re_state p' b = Some ms" for ms
      proof -
        have "re_live_or_committed b p' (ms2\<lparr>re_stage := Delivered\<rparr>)" unfolding delivers(7) by (rule re_live_store[OF live])
        then have "ms = ms2\<lparr>re_stage := Delivered\<rparr>" using that by (auto simp: re_live_or_committed_def)
        then show ?thesis using d by simp
      qed
      moreover have "re_historyHashes p' = re_historyHashes p \<and> re_finallyCommitted p' b = re_finallyCommitted p b \<or>
        \<not> re_finallyCommitted p b \<and> re_finallyCommitted p' b \<and> (\<exists>x. re_accepted ?R (re_delivered p') b x \<and>
          re_histories_add (nat (re_processCount p)) (re_historyHashes p) x = Inr (re_historyHashes p'))"
      proof (cases "re_finallyCommitted p2 b")
        case False
        then show ?thesis using d hist(1) delivers(1) by (simp add: delivers(7))
      next
        case True
        then obtain c where c: "c \<in> snd ` set (re_pendingRevealProtocolMessages ms1)" "CommitmentStage c = Commitment_DONE"
          "re_hash (X c) = XHash bm"
          "re_histories_add (nat (re_processCount p)) (re_historyHashes p) (X c) = Inr (re_historyHashes p2)"
          using d unfolding hist by blast
        then have "re_accepted ?R (re_delivered p') b (X c)"
          using recv unfolding re_accepted_def dl by force
        then show ?thesis using c(4) True delivers(1) by (auto simp: delivers(7))
      qed
      moreover have "re_delivered p' c = Some y" if "re_delivered p c = Some y" for c y
        using that none p1 dl by (cases "c = b") simp_all
      ultimately have "re_commit_step ?R b p p'" unfolding re_commit_step_def using cfg oth by simp
      then show ?thesis by blast
    qed
  next
    case (commitment b cm t)
    from commitment(2) show ?thesis
    proof (cases rule: re_commitment_cases)
      case ignored
      then show ?thesis using re_commit_step_refl[OF pend'] by blast
    next
      case (handled p1 ms es0 ms' es1)
      note reg = re_register_eq[OF handled(2)]
      have fc: "\<not> re_finallyCommitted p1 b" using reg(4) handled(1) by simp
      note s = re_reveal_step_same[OF handled(5) fc]
      have cfg: "re_config p' = re_config p" and bk: "re_books p' = re_books p1" using s(1) reg(3) by (simp_all add: re_same_but_def)
      have dl: "re_delivered p' = re_delivered p" using re_books_fields(1)[OF bk] re_books_fields(1)[OF reg(2)] by simp
      have oth: "re_state p' c = re_state p c \<and> re_finallyCommitted p' c = re_finallyCommitted p c" if "c \<noteq> b" for c
        using s(1) reg(1,4) that by (simp add: re_same_but_def)
      have "\<forall>(q, m)\<in>set (re_pendingRevealProtocolMessages ms''). Received q (re_cmsg b m) \<in> ?R" if "re_state p' b = Some ms''" for ms''
      proof -
        have "ms'' = ms'" using s(2) that by (auto simp: re_live_or_committed_def)
        then show ?thesis using s(5) re_register_pending[OF handled(2) pend'] commitment(1) by auto
      qed
      moreover have "re_historyHashes p' = re_historyHashes p \<and> re_finallyCommitted p' b = re_finallyCommitted p b \<or>
        \<not> re_finallyCommitted p b \<and> re_finallyCommitted p' b \<and> (\<exists>x. re_accepted ?R (re_delivered p') b x \<and>
          re_histories_add (nat (re_processCount p)) (re_historyHashes p) x = Inr (re_historyHashes p'))"
      proof (cases "re_historyHashes p' = re_historyHashes p1 \<and> re_finallyCommitted p' b = re_finallyCommitted p1 b")
        case True
        then show ?thesis using reg(4,5) by simp
      next
        case False
        then have c: "re_finallyCommitted p' b" "CommitmentStage cm = Commitment_DONE" "re_commits p1 b (X cm) p'"
          using s(6) unfolding re_history_step_def by auto
        have "re_accepted ?R (re_delivered p') b (X cm)"
          using c commitment(1) re_books_fields(1)[OF reg(2)] unfolding re_accepted_def dl re_commits_def by auto
        moreover have "re_histories_add (nat (re_processCount p)) (re_historyHashes p) (X cm) = Inr (re_historyHashes p')"
          using c(3) reg(5) re_config_fields(8)[OF reg(3)] by (simp add: re_commits_def)
        ultimately show ?thesis using c(1) handled(1) by blast
      qed
      ultimately have "re_commit_step ?R b p p'" unfolding re_commit_step_def using cfg oth dl by simp
      then show ?thesis by blast
    qed
  qed
qed

lemma re_request_commits:
  assumes run: "re_Broadcast env p v = Inr (p', es)" and pend: "re_pending_ok R p"
  shows "re_commit_step R (re_next p) p p'"
  using run
proof (cases rule: re_request_views)
  case (1 p1 ms shares x)
  note i = re_init_eq[OF 1(1)]
  have "re_pendingRevealProtocolMessages ms = []" using i(8) by (auto simp: re_newMessageState_def)
  moreover have "re_config p' = re_config p1" "re_state p' = re_state p1" "re_finallyCommitted p' = re_finallyCommitted p1"
    "re_delivered p' = re_delivered p1" "re_historyHashes p' = re_historyHashes p1"
    by (simp_all add: 1(2) re_config_def re_state_def re_finallyCommitted_def re_delivered_def fun_eq_iff)
  ultimately show ?thesis using i(1,3,4,5) re_books_fields(1)[OF i(2)] by (simp add: re_commit_step_def)
qed

lemma re_reaches_commits:
  assumes "re_reaches env p0 is p es" "re_run_inv env p0 {} {}" "re_pending_ok {} p0" "\<And>b. \<not> re_finallyCommitted p0 b"
  shows "(\<exists>cs. re_committed_as (set is) p (re_historyHashes p0) cs) \<and> re_pending_ok (set is) p"
  using assms
proof (induction rule: re_reaches.induct)
  case start
  have "re_committed_as {} p0 (re_historyHashes p0) []" using start(3) by (simp add: re_committed_as_def)
  then show ?case using start(2) by auto
next
  case (message "is" p es q m p' es')
  then obtain cs where cs: "re_committed_as (set is) p (re_historyHashes p0) cs" and pend: "re_pending_ok (set is) p" by blast
  have "re_run_inv env p (set is) (set es)" by (rule re_reaches_inv[OF message(1) message.prems(1)])
  then obtain b where "re_commit_step (insert (Received q m) (set is)) b p p'"
    using re_message_commits[OF message(2) _ pend] by blast
  from re_commit_step_inv[OF this cs pend subset_insertI] show ?case by simp
next
  case (request "is" p es v p' es')
  then obtain cs where cs: "re_committed_as (set is) p (re_historyHashes p0) cs" and pend: "re_pending_ok (set is) p" by blast
  have "re_commit_step (insert (Request v) (set is)) (re_next p) p p'"
    by (rule re_request_commits[OF request(3) re_pending_ok_mono[OF pend subset_insertI]])
  from re_commit_step_inv[OF this cs pend subset_insertI] show ?case by simp
qed

section \<open>Checkpoints\<close>

text \<open>
  Every checkpoint is of one of the last \<open>MixingTime\<close> deliveries, is not behind the checkpoint its
  transaction is recorded with, and its transaction still has a message state: the reveal phase that
  starts there finds it.
\<close>

definition re_checkpoints_ok :: "re_Process \<Rightarrow> bool" where
  "re_checkpoints_ok p \<longleftrightarrow> (\<forall>k c. re_checkpoints p k = Some c \<longrightarrow>
     k \<le> re_deliveredMessagesCount p \<and> re_deliveredMessagesCount p - re_MixingTime p < k \<and>
     re_state p c \<noteq> None \<and> k \<le> re_checkpoint_of p c)"

lemma re_checkpoints_ok_books:
  assumes "re_checkpoints_ok p" "re_books p' = re_books p" "re_config p' = re_config p"
    and "\<And>k c. re_checkpoints p k = Some c \<Longrightarrow> re_state p' c = None \<Longrightarrow> re_state p c = None"
  shows "re_checkpoints_ok p'"
  using assms(1,4) unfolding re_checkpoints_ok_def re_books_fields(3,5)[OF assms(2)] re_config_fields(9)[OF assms(3)]
    re_checkpoint_of_def re_books_fields(4)[OF assms(2)] by blast

lemma re_checkpoints_ok_reveal:
  assumes ok: "re_checkpoints_ok p" and s: "re_reveal_step q m b p ms p' ms' es"
  shows "re_checkpoints_ok p'"
proof (rule re_checkpoints_ok_books[OF ok])
  show "re_books p' = re_books p" "re_config p' = re_config p" using s by (simp_all add: re_reveal_step_def)
  fix k c assume k: "re_checkpoints p k = Some c" and none: "re_state p' c = None"
  show "re_state p c = None"
  proof (cases "c = b")
    case False
    then show ?thesis using s none by (auto simp: re_reveal_step_def)
  next
    case True
    have "re_deliveredMessagesCount p - re_MixingTime p < k" "k \<le> re_checkpoint_of p b"
      using ok k True by (auto simp: re_checkpoints_ok_def)
    then have "\<not> re_commits p b (X m) p'" by (simp add: re_commits_def)
    then have "re_state p' = (re_state p)(b \<mapsto> ms')" using s by (auto simp: re_reveal_step_def)
    then show ?thesis using none True by simp
  qed
qed

lemma re_checkpoints_ok_deliver:
  assumes ok: "re_checkpoints_ok p" and d: "re_delivery b bm p ms p' ms' es" and mix: "1 \<le> re_MixingTime p"
  shows "re_checkpoints_ok p'"
  unfolding re_checkpoints_ok_def
proof (intro allI impI)
  fix k c assume k: "re_checkpoints p' k = Some c"
  let ?n = "re_deliveredMessagesCount p + 1"
  note d = d[unfolded re_delivery_def]
  have cp: "re_checkpoints p' = ((re_checkpoints p)(?n \<mapsto> b))(?n - re_MixingTime p := None)" using d by blast
  have cfg: "re_config p' = re_config p" using d by blast
  note M = re_config_fields(9)[OF cfg]
  have n: "re_deliveredMessagesCount p' = ?n" using d by blast
  have tc: "assign2 (re_transactionToCheckpoint p) (Author b) (SeqNumber b) ?n = Inr (re_transactionToCheckpoint p')" using d by blast
  have cof: "re_checkpoint_of p' a = (if a = b then ?n else re_checkpoint_of p a)" for a
    by (simp add: re_checkpoint_of_def assign2_lookup[OF tc] BroadcastInstance_cong)
  have live: "re_state p' b \<noteq> None"
  proof -
    have "\<not> re_MixingTime p \<le> 0" using mix by simp
    then have "\<not> re_finallyCommitted p' b" using d by blast
    then show ?thesis using d by (auto simp: re_live_or_committed_def)
  qed
  have oth: "re_state p' a = re_state p a" if "a \<noteq> b" for a using d that by blast
  have ne: "k \<noteq> ?n - re_MixingTime p" using k cp by (auto split: if_splits)
  show "k \<le> re_deliveredMessagesCount p' \<and> re_deliveredMessagesCount p' - re_MixingTime p' < k \<and>
      re_state p' c \<noteq> None \<and> k \<le> re_checkpoint_of p' c"
  proof (cases "k = ?n")
    case True
    then have "c = b" using k cp ne by simp
    then show ?thesis using True mix live cof by (simp add: n M)
  next
    case False
    then have "re_checkpoints p k = Some c" using k cp ne by simp
    then have o: "k \<le> re_deliveredMessagesCount p" "re_deliveredMessagesCount p - re_MixingTime p < k" "re_state p c \<noteq> None"
      "k \<le> re_checkpoint_of p c"
      using ok by (auto simp: re_checkpoints_ok_def)
    have "re_state p' c \<noteq> None" using live oth o(3) by (cases "c = b") simp_all
    then show ?thesis using o(1,2,4) ne cof by (simp add: n M)
  qed
qed

lemma re_checkpoints_ok_register:
  assumes "re_registerMessage env p b = Inr (p1, ms0, es0)" "re_checkpoints_ok p"
  shows "re_checkpoints_ok p1"
proof -
  note reg = re_register_eq[OF assms(1)]
  show ?thesis by (rule re_checkpoints_ok_books[OF assms(2) reg(2,3)]) (auto simp: reg(1) split: if_splits)
qed

lemma re_checkpoints_ok_store:
  assumes "re_checkpoints_ok p"
  shows "re_checkpoints_ok (re_store p b ms)"
proof (rule re_checkpoints_ok_books[OF assms])
  fix c assume "re_state (re_store p b ms) c = None"
  then show "re_state p c = None" by (cases "re_state p b") (auto split: if_splits)
qed simp_all

lemma re_message_checkpoints:
  assumes run: "re_HandleMessage env p q m = Inr (p', es)" and ok: "re_checkpoints_ok p" and mix: "1 \<le> re_MixingTime p"
  shows "re_checkpoints_ok p'"
  using run
proof (cases rule: re_HandleMessage_cases)
  case (reliable b rm)
  from reliable(2) show ?thesis
  proof (cases rule: re_reliable_cases)
    case (quiet p1 ms0 es0 ms' es1)
    then show ?thesis using re_checkpoints_ok_store[OF re_checkpoints_ok_register[OF quiet(2) ok]] by simp
  next
    case (delivers p1 ms0 es0 ms1 es1 bm p2 ms2 es2)
    have "re_MixingTime (re_store p1 b ms1) = re_MixingTime p"
      by (rule re_config_fields(9)) (use re_register_eq(3)[OF delivers(2)] in simp)
    then have "re_checkpoints_ok p2"
      using re_checkpoints_ok_deliver[OF re_checkpoints_ok_store[OF re_checkpoints_ok_register[OF delivers(2) ok]] delivers(6)] mix
      by simp
    then show ?thesis using re_checkpoints_ok_store by (simp add: delivers(7))
  qed (use ok in simp)
next
  case (commitment b cm t)
  from commitment(2) show ?thesis
  proof (cases rule: re_commitment_cases)
    case (handled p1 ms es0 ms' es1)
    show ?thesis by (rule re_checkpoints_ok_reveal[OF re_checkpoints_ok_register[OF handled(2) ok] handled(5)])
  qed (use ok in simp)
qed

lemma re_request_checkpoints:
  assumes run: "re_Broadcast env p v = Inr (p', es)" and ok: "re_checkpoints_ok p"
  shows "re_checkpoints_ok p'"
  using run
proof (cases rule: re_request_views)
  case (1 p1 ms shares x)
  note i = re_init_eq[OF 1(1)]
  have "re_books p' = re_books p" "re_config p' = re_config p" "re_state p' = re_state p1"
    using i(2,3) by (simp_all add: 1(2) re_books_def re_config_def re_state_def fun_eq_iff)
  then show ?thesis by (intro re_checkpoints_ok_books[OF ok]) (auto simp: i(1) split: if_splits)
qed

lemma re_reaches_checkpoints:
  assumes "re_reaches env p0 is p es" "re_checkpoints_ok p0" "1 \<le> re_MixingTime p0"
  shows "re_checkpoints_ok p"
  using assms
proof (induction rule: re_reaches.induct)
  case (message "is" p es q m p' es')
  then show ?case using re_message_checkpoints[OF message(2)] re_config_fields(9)[OF re_reaches_config[OF message(1)]] by simp
next
  case (request "is" p es v p' es')
  then show ?case using re_request_checkpoints[OF request(3)] by simp
qed simp

section \<open>The start\<close>

lemma re_start_histories:
  assumes init: "re_InitProcess env sha256 sha512 pubs priv mix i pids ps own = Inr p"
    and b: "0 < NumberOfBins ps" "NumberOfBins ps < 2 ^ 64"
    and c: "0 \<le> go_quot (NodeIdSize ps) (NumberOfBins ps)" "go_quot (NodeIdSize ps) (NumberOfBins ps) \<le> 62"
  shows "re_histories_ok (nat (re_processCount p)) (uint_pow2 (go_quot (NodeIdSize ps) (NumberOfBins ps)))
      (nat (NumberOfBins ps)) (re_historyHashes p)"
proof -
  let ?cap = "uint_pow2 (go_quot (NodeIdSize ps) (NumberOfBins ps))"
  have p: "re_processCount p = ProcessCount ps" "re_historyHashes p = map (\<lambda>i. NewHistoryHash (nat (NumberOfBins ps)) ?cap
      (if NodeIdSize ps = 256 then sha256 else sha512) (of_nat i)) [0..<nat (ProcessCount ps)]"
    using init by (auto simp: re_InitProcess_def Let_def split: if_splits)
  have cap: "?cap = 2 ^ nat (go_quot (NodeIdSize ps) (NumberOfBins ps))" using c by (simp add: uint_pow2_def)
  have "(2 :: nat) ^ nat (go_quot (NodeIdSize ps) (NumberOfBins ps)) \<le> 2 ^ 62"
    by (rule power_increasing) (use c in simp_all)
  then have "hh_wf (NewHistoryHash (nat (NumberOfBins ps)) ?cap h sd)" for h sd
    by (intro NewHistoryHash_wf) (use b cap in simp_all)
  then show ?thesis by (auto simp: re_histories_ok_def histories_ok_def list_all_iff p) (simp_all add: NewHistoryHash_def)
qed

lemma re_start_views:
  assumes init: "re_InitProcess env sha256 sha512 pubs priv mix i pids ps own = Inr p"
  shows "re_checkpoints_ok p" "re_pending_ok {} p" "\<not> re_finallyCommitted p b"
    "dom (re_deliveredMessages p) = set (procs (length pids))" "dom (re_messagesLog p) = set (procs (length pids))"
    "dom (re_finallyCommittedMessages p) = set (procs (length pids))"
    "dom (re_transactionToCheckpoint p) = set (procs (length pids))"
proof -
  have p: "re_deliveredMessages p = make_maps (length pids)" "re_messagesLog p = make_maps (length pids)"
    "re_finallyCommittedMessages p = make_maps (length pids)" "re_transactionToCheckpoint p = make_maps (length pids)"
    "re_checkpoints p = Map.empty"
    using init by (auto simp: re_InitProcess_def Let_def split: if_splits)
  show "re_checkpoints_ok p" "re_pending_ok {} p" "\<not> re_finallyCommitted p b"
    "dom (re_deliveredMessages p) = set (procs (length pids))" "dom (re_messagesLog p) = set (procs (length pids))"
    "dom (re_finallyCommittedMessages p) = set (procs (length pids))"
    "dom (re_transactionToCheckpoint p) = set (procs (length pids))"
    by (simp_all add: re_checkpoints_ok_def re_pending_ok_def re_state_def re_finallyCommitted_def p)
qed

end
