(* ===== verification/Reliable_System.thy ===== *)
theory Reliable_System
  imports Reliable_Run "HOL-Library.Char_ord" "HOL-Library.List_Lexorder"
begin

text \<open>
  The reliable protocol as a distributed system: what a system run of correct and faulty processes
  is, and a scheduler that plays concrete runs.
\<close>

section \<open>The processes\<close>

text \<open>
  A run of the whole system seen from its correct processes \<open>C\<close>: each is initialised with the same
  names and parameters and has handled its own inputs; what one correct process received from
  another was sent by it.
\<close>

record re_node =
  rn_env :: re_env
  rn_start :: re_Process
  rn_inputs :: "input list"
  rn_state :: re_Process
  rn_effects :: "effect list"

definition re_node_ok :: "string list \<Rightarrow> Parameters \<Rightarrow> ProcessId \<Rightarrow> re_node \<Rightarrow> bool" where
  "re_node_ok pids ps x N \<longleftrightarrow>
     (\<forall>A. finite A \<longrightarrow> set (env_order (rn_env N) A) = A) \<and>
     (\<exists>sha256 sha512 pubs priv mix own.
        re_InitProcess (rn_env N) sha256 sha512 pubs priv mix x pids ps own = Inr (rn_start N)) \<and>
     re_reaches (rn_env N) (rn_start N) (rn_inputs N) (rn_state N) (rn_effects N)"

definition re_system_ok :: "string list \<Rightarrow> Parameters \<Rightarrow> ProcessId set \<Rightarrow> (ProcessId \<Rightarrow> re_node) \<Rightarrow> bool" where
  "re_system_ok pids ps C S \<longleftrightarrow>
     (\<forall>x\<in>C. re_node_ok pids ps x (S x)) \<and>
     (\<forall>x\<in>C. \<forall>y\<in>C. \<forall>m. Received y m \<in> set (rn_inputs (S x)) \<longrightarrow> Send x m \<in> set (rn_effects (S y)))"

text \<open>The faulty processes are fewer than the witness threshold in every own witness set drawn for \<open>b\<close>.\<close>

definition re_witnesses_ok ::
  "string list \<Rightarrow> Parameters \<Rightarrow> ProcessId set \<Rightarrow> ProcessId set \<Rightarrow> (ProcessId \<Rightarrow> re_node) \<Rightarrow> BroadcastInstance \<Rightarrow> bool" where
  "re_witnesses_ok pids ps C F S b \<longleftrightarrow>
     (\<forall>x\<in>C. \<forall>ws. Log (OnWitnessSetSelected ''own'' b ws) \<in> set (rn_effects (S x)) \<longrightarrow>
        int (card {q \<in> F. re_name pids q \<in> set ws}) < WitnessThreshold ps)"

section \<open>The system\<close>

text \<open>
  The processes \<open>C\<close> follow the code and the processes \<open>F\<close> send what they like. A message may be
  received any number of times, in any order, or never.
\<close>

definition re_take :: "re_node \<Rightarrow> input \<Rightarrow> re_Process \<Rightarrow> effect list \<Rightarrow> re_node" where
  "re_take N i p es = N\<lparr>rn_inputs := rn_inputs N @ [i], rn_state := p, rn_effects := rn_effects N @ es\<rparr>"

inductive re_system_run ::
  "string list \<Rightarrow> Parameters \<Rightarrow> ProcessId set \<Rightarrow> ProcessId set \<Rightarrow> (ProcessId \<Rightarrow> re_node) \<Rightarrow> bool"
  for pids ps C F where
  start: "(\<And>x. x \<in> C \<Longrightarrow> re_node_ok pids ps x (S x) \<and> rn_inputs (S x) = []) \<Longrightarrow> re_system_run pids ps C F S"
| receive: "re_system_run pids ps C F S \<Longrightarrow> x \<in> C \<Longrightarrow> y \<in> C \<Longrightarrow> Send x m \<in> set (rn_effects (S y)) \<Longrightarrow>
    re_HandleMessage (rn_env (S x)) (rn_state (S x)) y m = Inr (p', es) \<Longrightarrow>
    re_system_run pids ps C F (S(x := re_take (S x) (Received y m) p' es))"
| fault: "re_system_run pids ps C F S \<Longrightarrow> x \<in> C \<Longrightarrow> y \<in> F \<Longrightarrow>
    re_HandleMessage (rn_env (S x)) (rn_state (S x)) y m = Inr (p', es) \<Longrightarrow>
    re_system_run pids ps C F (S(x := re_take (S x) (Received y m) p' es))"
| request: "re_system_run pids ps C F S \<Longrightarrow> x \<in> C \<Longrightarrow> re_unused (rn_state (S x)) (re_next (rn_state (S x))) \<Longrightarrow>
    re_Broadcast (rn_env (S x)) (rn_state (S x)) v = Inr (p', es) \<Longrightarrow>
    re_system_run pids ps C F (S(x := re_take (S x) (Request v) p' es))"

lemma re_take_fields [simp]:
  "rn_env (re_take N i p es) = rn_env N" "rn_start (re_take N i p es) = rn_start N"
  "rn_inputs (re_take N i p es) = rn_inputs N @ [i]" "rn_state (re_take N i p es) = p"
  "rn_effects (re_take N i p es) = rn_effects N @ es"
  by (simp_all add: re_take_def)

lemma re_node_ok_take:
  assumes "re_node_ok pids ps x N" "re_reaches (rn_env N) (rn_start N) (rn_inputs N @ [i]) p (rn_effects N @ es)"
  shows "re_node_ok pids ps x (re_take N i p es)"
  using assms unfolding re_node_ok_def re_take_fields by blast

lemma re_node_ok_reaches:
  "re_node_ok pids ps x N \<Longrightarrow> re_reaches (rn_env N) (rn_start N) (rn_inputs N) (rn_state N) (rn_effects N)"
  by (simp add: re_node_ok_def)

inductive_cases re_reaches_nil: "re_reaches env p0 [] p es"

lemma re_node_ok_idle:
  "re_node_ok pids ps x N \<Longrightarrow> rn_inputs N = [] \<Longrightarrow> rn_effects N = []"
  using re_node_ok_reaches[of pids ps x N] by (auto elim: re_reaches_nil)

lemma re_system_run_node: "re_system_run pids ps C F S \<Longrightarrow> x \<in> C \<Longrightarrow> re_node_ok pids ps x (S x)"
proof (induction arbitrary: x rule: re_system_run.induct)
  case (receive S z y m p' es)
  show ?case using receive.IH[OF receive.prems]
      re_node_ok_take[OF receive.IH[OF receive(2)] re_reaches.message[OF re_node_ok_reaches[OF receive.IH[OF receive(2)]] receive(5)]]
    by simp
next
  case (fault S z y m p' es)
  show ?case using fault.IH[OF fault.prems]
      re_node_ok_take[OF fault.IH[OF fault(2)] re_reaches.message[OF re_node_ok_reaches[OF fault.IH[OF fault(2)]] fault(4)]]
    by simp
next
  case (request S z v p' es)
  show ?case using request.IH[OF request.prems]
      re_node_ok_take[OF request.IH[OF request(2)] re_reaches.request[OF re_node_ok_reaches[OF request.IH[OF request(2)]] request(3,4)]]
    by simp
qed simp

text \<open>What a process received from a member of \<open>C\<close> that member had sent.\<close>

lemma re_system_run_received:
  assumes "re_system_run pids ps C F S" "C \<inter> F = {}" "x \<in> C" "Received y m \<in> set (rn_inputs (S x))"
  shows "y \<in> F \<or> y \<in> C \<and> Send x m \<in> set (rn_effects (S y))"
  using assms
proof (induction arbitrary: x y m rule: re_system_run.induct)
  case (receive S z q n p' es)
  have "y \<in> F \<or> y \<in> C \<and> Send x m \<in> set (rn_effects (S y))"
    using receive.IH[of x y m] receive.prems receive(3,4) by (cases "x = z") auto
  then show ?case by auto
next
  case (fault S z q n p' es)
  have "y \<in> F \<or> y \<in> C \<and> Send x m \<in> set (rn_effects (S y))"
    using fault.IH[of x y m] fault.prems fault(3) by (cases "x = z") auto
  then show ?case by auto
next
  case (request S z v p' es)
  have "y \<in> F \<or> y \<in> C \<and> Send x m \<in> set (rn_effects (S y))"
    using request.IH[of x y m] request.prems by (cases "x = z") auto
  then show ?case by auto
qed simp

text \<open>So the runs are systems in the sense of the agreement theorem.\<close>

lemma re_system_run_ok:
  assumes "re_system_run pids ps C F S" "C \<inter> F = {}"
  shows "re_system_ok pids ps C S"
  using re_system_run_node[OF assms(1)] re_system_run_received[OF assms] assms(2)
  unfolding re_system_ok_def by blast

text \<open>Everything the processes \<open>C\<close> have sent to the processes \<open>A\<close> has been received.\<close>

definition re_settled :: "ProcessId set \<Rightarrow> ProcessId set \<Rightarrow> (ProcessId \<Rightarrow> re_node) \<Rightarrow> bool" where
  "re_settled C A S \<longleftrightarrow>
     (\<forall>x\<in>A. \<forall>y\<in>C. \<forall>m. Send x m \<in> set (rn_effects (S y)) \<longrightarrow> Received y m \<in> set (rn_inputs (S x)))"

section \<open>Closed runs\<close>

text \<open>Parameters of the environment and of the simulation that evaluate.\<close>

definition re_sample_env :: re_env where
  "re_sample_env = \<lparr>env_order = sorted_list_of_set, env_sort = stable_sort,
     env_encoder_ok = (\<lambda>d p. 0 < d \<and> 0 \<le> p), env_encode = (\<lambda>_ _ shards. Some shards),
     env_reconstruct = (\<lambda>_ _ shards. Some shards), env_EncryptPKCS1v15 = (\<lambda>_ m. Some m),
     env_DecryptPKCS1v15 = (\<lambda>_ m. Some m), env_Int31 = (\<lambda>seed i. seed + of_nat i)\<rparr>"

definition re_sample_params :: Parameters where
  "re_sample_params = \<lparr>ProcessCount = 1, FaultyProcesses = 0, MinOwnWitnessSetSize_param = 1,
     MinPotWitnessSetSize_param = 1, OwnWitnessSetRadius_param = 0, PotWitnessSetRadius_param = 0,
     WitnessThreshold = 1, RecoverySwitchTimeoutNs = 0, NodeIdSize = 4, NumberOfBins = 1,
     GossipSampleSize = 0, EchoSampleSize = 0, EchoThreshold = 0, ReadySampleSize = 0, ReadyThreshold = 0,
     DeliverySampleSize = 0, DeliveryThreshold = 0, CleanUpTimeout = 0\<rparr>"

definition re_tx :: BroadcastInstance where
  "re_tx = \<lparr>Author = 0, SeqNumber = 0\<rparr>"

text \<open>A system of four with one faulty process.\<close>

definition re_four_params :: Parameters where
  "re_four_params = re_sample_params\<lparr>ProcessCount := 4, FaultyProcesses := 1, MinOwnWitnessSetSize_param := 4,
     MinPotWitnessSetSize_param := 4, WitnessThreshold := 2\<rparr>"

text \<open>A scheduler: an action that is not possible ends the play.\<close>

fun re_act :: "ProcessId set \<Rightarrow> ProcessId set \<Rightarrow> ProcessId \<times> input \<Rightarrow> (ProcessId \<Rightarrow> re_node) \<Rightarrow> (ProcessId \<Rightarrow> re_node) option" where
  "re_act C F (x, Received y m) S =
     (if x \<in> C \<and> (y \<in> F \<or> y \<in> C \<and> (x, m) \<in> set (sends (rn_effects (S y)))) then
        (case re_HandleMessage (rn_env (S x)) (rn_state (S x)) y m of
           Inl e \<Rightarrow> None
         | Inr (p', es) \<Rightarrow> Some (S(x := re_take (S x) (Received y m) p' es)))
      else None)"
| "re_act C F (x, Request v) S =
     (if x \<in> C \<and> re_unused (rn_state (S x)) (re_next (rn_state (S x))) then
        (case re_Broadcast (rn_env (S x)) (rn_state (S x)) v of
           Inl e \<Rightarrow> None
         | Inr (p', es) \<Rightarrow> Some (S(x := re_take (S x) (Request v) p' es)))
      else None)"

fun re_play :: "ProcessId set \<Rightarrow> ProcessId set \<Rightarrow> (ProcessId \<times> input) list \<Rightarrow> (ProcessId \<Rightarrow> re_node) \<Rightarrow> (ProcessId \<Rightarrow> re_node) option" where
  "re_play C F [] S = Some S"
| "re_play C F (a # as) S = (case re_act C F a S of None \<Rightarrow> None | Some S' \<Rightarrow> re_play C F as S')"

lemma re_act_run:
  assumes "re_system_run pids ps C F S" "re_act C F a S = Some S'"
  shows "re_system_run pids ps C F S'"
proof (cases a)
  case (Pair x i)
  show ?thesis
  proof (cases i)
    case (Received y m)
    then show ?thesis using assms(2) re_system_run.receive[OF assms(1), of x y m] re_system_run.fault[OF assms(1), of x y m]
      by (auto simp: Pair sends_mem split: if_splits sum.splits)
  next
    case (Request v)
    then show ?thesis using assms(2) re_system_run.request[OF assms(1), of x v]
      by (auto simp: Pair split: if_splits sum.splits)
  qed
qed

lemma re_play_run: "re_system_run pids ps C F S \<Longrightarrow> re_play C F as S = Some S' \<Longrightarrow> re_system_run pids ps C F S'"
  by (induction "as" arbitrary: S) (auto split: option.splits intro: re_act_run)

lemma re_settledI:
  assumes "\<And>x y. x \<in> A \<Longrightarrow> y \<in> C \<Longrightarrow>
    list_all (\<lambda>(z, m). z = x \<longrightarrow> Received y m \<in> set (rn_inputs (S x))) (sends (rn_effects (S y)))"
  shows "re_settled C A S"
  unfolding re_settled_def
proof (intro ballI allI impI)
  fix x y m assume "x \<in> A" "y \<in> C" "Send x m \<in> set (rn_effects (S y))"
  then show "Received y m \<in> set (rn_inputs (S x))"
    using assms[of x y] by (auto simp: list_all_iff sends_mem[symmetric])
qed

text \<open>The nodes of the closed runs before they have done anything.\<close>

definition re_idle_node :: "string list \<Rightarrow> Parameters \<Rightarrow> ProcessId \<Rightarrow> re_node go" where
  "re_idle_node pids ps i = go_bind (re_InitProcess re_sample_env (\<lambda>_. [1]) (\<lambda>_. [1]) (replicate (length pids) (0, 0))
     (Some (0, 0)) 1 i pids ps False) (\<lambda>p.
     Inr \<lparr>rn_env = re_sample_env, rn_start = p, rn_inputs = [], rn_state = p, rn_effects = []\<rparr>)"

lemma re_idle_node_ok:
  assumes "re_idle_node pids ps i = Inr N"
  shows "re_node_ok pids ps i N \<and> rn_inputs N = []"
proof -
  from assms obtain p where p: "re_InitProcess re_sample_env (\<lambda>_. [1]) (\<lambda>_. [1]) (replicate (length pids) (0, 0))
      (Some (0, 0)) 1 i pids ps False = Inr p"
    and N: "N = \<lparr>rn_env = re_sample_env, rn_start = p, rn_inputs = [], rn_state = p, rn_effects = []\<rparr>"
    unfolding re_idle_node_def go_bind_Inr by blast
  have "\<forall>A. finite A \<longrightarrow> set (env_order re_sample_env A) = A" by (simp add: re_sample_env_def)
  then show ?thesis using p re_reaches.start unfolding re_node_ok_def N re_node.select_convs by blast
qed

end
