(* ===== verification/Reliable_Theorems.thy ===== *)
theory Reliable_Theorems
  imports Reliable_History Reliable_System
begin

text \<open>
  The guarantees of the reliable protocol: agreement of the correct processes, deliveries backed by
  witnesses, at most one delivery per instance, and what breaks them.
\<close>

section \<open>Agreement\<close>

lemma re_init_config:
  assumes "re_InitProcess env sha256 sha512 pubs priv mix i pids ps own = Inr p"
  shows "re_pids p = pids" "re_quorumThreshold p = ceil_half (int (length pids) + FaultyProcesses ps + 1)"
    "re_witnessThreshold p = WitnessThreshold ps" "re_processIndex p = i" "re_MixingTime p = mix" "re_PrivateKey p = priv"
    "re_value p = Map.empty"
  using assms
  by (auto simp: re_InitProcess_def Let_def re_value_def re_delivered_def fun_eq_iff split: if_splits)

lemma re_node_views:
  assumes "re_node_ok pids ps x N"
  shows "re_run_inv (rn_env N) (rn_state N) (set (rn_inputs N)) (set (rn_effects N))"
    "re_pids (rn_state N) = pids" "re_quorumThreshold (rn_state N) = ceil_half (int (length pids) + FaultyProcesses ps + 1)"
    "re_witnessThreshold (rn_state N) = WitnessThreshold ps"
proof -
  from assms[unfolded re_node_ok_def] obtain sha256 sha512 pubs priv mix own
    where i: "re_InitProcess (rn_env N) sha256 sha512 pubs priv mix x pids ps own = Inr (rn_start N)"
    and r: "re_reaches (rn_env N) (rn_start N) (rn_inputs N) (rn_state N) (rn_effects N)"
    by (elim conjE exE) (rule that)
  show "re_run_inv (rn_env N) (rn_state N) (set (rn_inputs N)) (set (rn_effects N))"
    by (rule re_reaches_inv[OF r re_run_inv_start[OF i]])
  show "re_pids (rn_state N) = pids" "re_quorumThreshold (rn_state N) = ceil_half (int (length pids) + FaultyProcesses ps + 1)"
    "re_witnessThreshold (rn_state N) = WitnessThreshold ps"
    by (simp_all only: re_init_config[OF i] re_config_fields(3,4,6)[OF re_reaches_config[OF r]])
qed

lemma re_system_node: "re_system_ok pids ps C S \<Longrightarrow> x \<in> C \<Longrightarrow> re_node_ok pids ps x (S x)"
  by (simp add: re_system_ok_def)

text \<open>What a correct process said is what the others heard from it.\<close>

lemma re_heard_said:
  assumes "re_system_ok pids ps C S" "x \<in> C" "y \<in> C" "re_heard (set (rn_inputs (S x))) y b st v"
  shows "re_says (set (rn_effects (S y))) b st v"
  using assms unfolding re_system_ok_def re_heard_def re_says_def by blast

text \<open>A delivery at a correct process rests on a quorum of READY_FROM_PROCESS messages heard by a correct one.\<close>

lemma re_delivery_quorum:
  assumes sys: "re_system_ok pids ps C S" and C: "C = set (procs (length pids)) - F"
    and f: "int (card F) \<le> FaultyProcesses ps" "finite F" and w: "re_witnesses_ok pids ps C F S b"
    and x: "x \<in> C" "re_value (rn_state (S x)) b = Some v"
  shows "\<exists>z\<in>C. echo_majority (length pids) (nat (FaultyProcesses ps))
      {q. (q, v) \<in> re_heard_votes (rn_state (S z)) (set (rn_inputs (S z))) b Reliable_READY_FROM_PROCESS}"
proof -
  have nx: "re_node_ok pids ps x (S x)" using sys x(1) by (simp add: re_system_ok_def)
  note vx = re_node_views[OF nx]
  have "re_backed (rn_env (S x)) (rn_state (S x)) (set (rn_inputs (S x))) (set (rn_effects (S x))) b v"
    using vx(1) x(2) unfolding re_run_inv_def re_inst_ok_def by blast
  then obtain own where own: "finite own"
      "Log (OnWitnessSetSelected ''own'' b (env_order (rn_env (S x)) own)) \<in> set (rn_effects (S x))"
    and le: "WitnessThreshold ps \<le> int (card {q. (q, v) \<in> re_heard_votes (rn_state (S x)) (set (rn_inputs (S x))) b Reliable_VALIDATE
        \<and> re_name pids q \<in> own})"
    unfolding re_backed_def vx by blast
  let ?Q = "{q. (q, v) \<in> re_heard_votes (rn_state (S x)) (set (rn_inputs (S x))) b Reliable_VALIDATE \<and> re_name pids q \<in> own}"
  have "int (card {q \<in> F. re_name pids q \<in> set (env_order (rn_env (S x)) own)}) < WitnessThreshold ps"
    using w x(1) own(2) unfolding re_witnesses_ok_def by blast
  moreover have "set (env_order (rn_env (S x)) own) = own" using nx own(1) unfolding re_node_ok_def by blast
  ultimately have "int (card {q \<in> F. re_name pids q \<in> own}) < WitnessThreshold ps" by simp
  then have "card {q \<in> F. re_name pids q \<in> own} < card ?Q" using le by simp
  moreover have "finite {q \<in> F. re_name pids q \<in> own}" using f(2) by simp
  ultimately obtain z where z: "z \<in> ?Q" "z \<notin> {q \<in> F. re_name pids q \<in> own}" using card_exceeds by blast
  then have zC: "z \<in> C" and heard: "re_heard (set (rn_inputs (S x))) z b Reliable_VALIDATE v"
    using vx(2) by (auto simp: C re_heard_votes_def)
  have "re_says (set (rn_effects (S z))) b Reliable_VALIDATE v" by (rule re_heard_said[OF sys x(1) zC heard])
  moreover have nz: "re_node_ok pids ps z (S z)" using sys zC by (simp add: re_system_ok_def)
  ultimately have "ceil_half (int (length pids) + FaultyProcesses ps + 1) \<le>
      int (card {q. (q, v) \<in> re_heard_votes (rn_state (S z)) (set (rn_inputs (S z))) b Reliable_READY_FROM_PROCESS})"
    using re_node_views[OF nz] unfolding re_run_inv_def re_inst_ok_def re_said_ok_def by auto
  moreover have "0 \<le> FaultyProcesses ps" using f(1) by simp
  ultimately show ?thesis using zC re_node_views(2)[OF nz]
    by (intro bexI[OF _ zC]) (auto simp: echo_majority_def re_heard_votes_def)
qed

text \<open>
  C2: Agreement of the reliable protocol. In every run in which at most \<open>f\<close> processes are faulty,
  messages between correct processes are not forged, and every own witness set a correct process
  drew for the instance has fewer faulty members than the witness threshold, two correct processes
  never deliver different values of one instance. Faulty processes may send anything, and messages
  may be lost, repeated and reordered. Requests are made for instances the process has not heard of
  (\<open>re_unused\<close>); see \<open>Reliable_Requests.re_request_redelivers\<close> for the others.
\<close>

theorem re_agreement:
  assumes sys: "re_system_ok pids ps C S" and C: "C = set (procs (length pids)) - F" "finite F"
    and f: "int (card F) \<le> FaultyProcesses ps" and w: "re_witnesses_ok pids ps C F S b"
    and x: "x \<in> C" "re_value (rn_state (S x)) b = Some v"
    and y: "y \<in> C" "re_value (rn_state (S y)) b = Some u"
  shows "v = u"
proof -
  obtain z where z: "z \<in> C" "echo_majority (length pids) (nat (FaultyProcesses ps))
      {q. (q, v) \<in> re_heard_votes (rn_state (S z)) (set (rn_inputs (S z))) b Reliable_READY_FROM_PROCESS}"
    using re_delivery_quorum[OF sys C(1) f C(2) w x] by blast
  obtain z' where z': "z' \<in> C" "echo_majority (length pids) (nat (FaultyProcesses ps))
      {q. (q, u) \<in> re_heard_votes (rn_state (S z')) (set (rn_inputs (S z'))) b Reliable_READY_FROM_PROCESS}"
    using re_delivery_quorum[OF sys C(1) f C(2) w y] by blast
  have "card F \<le> nat (FaultyProcesses ps)" using f by simp
  moreover have "re_pids (rn_state (S z)) = pids" "re_pids (rn_state (S z')) = pids"
    by (rule re_node_views(2)[OF re_system_node[OF sys z(1)]], rule re_node_views(2)[OF re_system_node[OF sys z'(1)]])
  moreover note quorums.correct_in_both[OF z(2) z'(2)]
  ultimately
  obtain q where q: "q \<in> C" "re_heard (set (rn_inputs (S z))) q b Reliable_READY_FROM_PROCESS v"
    "re_heard (set (rn_inputs (S z'))) q b Reliable_READY_FROM_PROCESS u"
    by (fastforce simp: C re_heard_votes_def)
  have "re_says (set (rn_effects (S q))) b Reliable_READY_FROM_PROCESS v" "re_says (set (rn_effects (S q))) b Reliable_READY_FROM_PROCESS u"
    using re_heard_said[OF sys] z(1) z'(1) q by blast+
  moreover have "re_node_ok pids ps q (S q)" using sys q(1) by (simp add: re_system_ok_def)
  ultimately show ?thesis using re_node_views(1) unfolding re_run_inv_def re_inst_ok_def re_said_ok_def by blast
qed


section \<open>A closed run\<close>

text \<open>One process, its own request and the six messages it sends itself.\<close>

definition re_sample_start :: "re_Process go" where
  "re_sample_start = re_InitProcess re_sample_env (\<lambda>_. [1]) (\<lambda>_. [1]) [(0, 0)] (Some (0, 0)) 1 0 [''p0'']
     re_sample_params False"

definition re_sample_messages :: "input list" where
  "re_sample_messages = (let m = (\<lambda>st sh. Received 0 (re_rmsg re_tx st (Some \<lparr>Value = 5, XHash = 0\<rparr>) sh)) in
     [m Reliable_NOTIFY [Int32ToBytes 0], m Reliable_ECHO_FROM_WITNESS [Int32ToBytes 0],
      m Reliable_ECHO_FROM_PROCESS [], m Reliable_READY_FROM_WITNESS [], m Reliable_READY_FROM_PROCESS [],
      m Reliable_VALIDATE []])"

definition re_sample_run :: "(re_Process \<times> re_Process \<times> effect list) go" where
  "re_sample_run = go_bind re_sample_start (\<lambda>p0. go_bind (re_Broadcast re_sample_env p0 5) (\<lambda>(p1, es1).
     go_bind (run_inputs (re_HandleMessage re_sample_env) (re_Broadcast re_sample_env) p1 re_sample_messages) (\<lambda>(p2, es2).
       Inr (p0, p2, es1 @ es2))))"

fun re_sent_by :: "effect list \<Rightarrow> input \<Rightarrow> bool" where
  "re_sent_by es (Received q m) = (q = 0 \<and> (0, m) \<in> set (sends es))"
| "re_sent_by es (Request v) = True"

definition re_sample_check :: bool where
  "re_sample_check = (case re_sample_run of Inl e \<Rightarrow> False
     | Inr (p0, p, es) \<Rightarrow> re_unused p0 (re_next p0) \<and> re_value p re_tx = Some 5 \<and>
         deliveries es = [(re_tx, 5)] \<and> list_all (re_sent_by es) re_sample_messages)"

lemma re_sample_checked: re_sample_check
  by code_simp

lemma re_sample_obtain:
  obtains p0 p es where "re_InitProcess re_sample_env (\<lambda>_. [1]) (\<lambda>_. [1]) [(0, 0)] (Some (0, 0)) 1 0 [''p0'']
      re_sample_params False = Inr p0"
    "re_reaches re_sample_env p0 (Request 5 # re_sample_messages) p es" "re_value p re_tx = Some 5"
    "\<And>q m. Received q m \<in> set re_sample_messages \<Longrightarrow> q = 0 \<and> Send 0 m \<in> set es"
    "re_sample_run = Inr (p0, p, es)" "deliveries es = [(re_tx, 5)]"
proof -
  obtain p0 p es where run: "re_sample_run = Inr (p0, p, es)"
    and chk: "re_unused p0 (re_next p0)" "re_value p re_tx = Some 5" "list_all (re_sent_by es) re_sample_messages"
      "deliveries es = [(re_tx, 5)]"
    using re_sample_checked by (auto simp: re_sample_check_def split: sum.splits)
  obtain p1 es1 es2 where start: "re_sample_start = Inr p0" and b: "re_Broadcast re_sample_env p0 5 = Inr (p1, es1)"
    and ms: "run_inputs (re_HandleMessage re_sample_env) (re_Broadcast re_sample_env) p1 re_sample_messages = Inr (p, es2)"
    and es: "es = es1 @ es2"
    using run by (auto simp: re_sample_run_def go_simps)
  have "re_reaches re_sample_env p0 ([] @ [Request 5]) p1 ([] @ es1)"
    by (rule re_reaches.request[OF re_reaches.start chk(1) b])
  from re_reaches_messages[OF this ms] have "re_reaches re_sample_env p0 (Request 5 # re_sample_messages) p es"
    by (simp add: es re_sample_messages_def Let_def)
  moreover have "q = 0 \<and> Send 0 m \<in> set es" if "Received q m \<in> set re_sample_messages" for q m
  proof -
    have "re_sent_by es (Received q m)" using chk(3) that unfolding list_all_iff by (rule bspec)
    then show ?thesis by (simp add: sends_mem)
  qed
  ultimately show ?thesis using that start chk(2,4) run unfolding re_sample_start_def by blast
qed

theorem re_agreement_witness:
  "\<exists>S. re_system_ok [''p0''] re_sample_params {0} S \<and> re_value (rn_state (S 0)) re_tx = Some 5 \<and>
    (\<forall>u. re_value (rn_state (S 0)) re_tx = Some u \<longrightarrow> 5 = u)"
proof -
  obtain p0 p es where i: "re_InitProcess re_sample_env (\<lambda>_. [1]) (\<lambda>_. [1]) [(0, 0)] (Some (0, 0)) 1 0 [''p0'']
      re_sample_params False = Inr p0"
    and r: "re_reaches re_sample_env p0 (Request 5 # re_sample_messages) p es" and v: "re_value p re_tx = Some 5"
    and sent: "\<And>q m. Received q m \<in> set re_sample_messages \<Longrightarrow> q = 0 \<and> Send 0 m \<in> set es"
    by (rule re_sample_obtain) (rule that)
  let ?N = "\<lparr>rn_env = re_sample_env, rn_start = p0, rn_inputs = Request 5 # re_sample_messages, rn_state = p, rn_effects = es\<rparr>"
  let ?S = "\<lambda>_. ?N"
  have N: "re_node_ok [''p0''] re_sample_params 0 ?N"
    unfolding re_node_ok_def re_node.select_convs
    by (intro conjI exI, simp add: re_sample_env_def, rule i, rule r)
  have sys: "re_system_ok [''p0''] re_sample_params {0} ?S"
    using N sent by (simp add: re_system_ok_def)
  have w: "re_witnesses_ok [''p0''] re_sample_params {0} {} ?S re_tx"
    by (simp add: re_witnesses_ok_def re_sample_params_def)
  have C: "{0} = set (procs (length [''p0''])) - {}" by (simp add: procs_def)
  have f: "int (card ({} :: ProcessId set)) \<le> FaultyProcesses re_sample_params" by (simp add: re_sample_params_def)
  have "5 = u" if "re_value (rn_state (?S 0)) re_tx = Some u" for u
    by (rule re_agreement[OF sys C _ f w _ _ _ that, of 0]) (simp_all add: v)
  then show ?thesis using sys v by (intro exI[of _ ?S]) simp
qed

section \<open>Local guarantees\<close>

text \<open>
  C10: What one process of the reliable protocol promises whatever it receives, in every run whose
  requests are for instances it has not heard of: it
  sends READY_FROM_PROCESS for at most one value of an instance; VALIDATE for a value only after
  READY_FROM_PROCESS messages with this value from at least quorumThreshold different processes;
  and it delivers a value only after VALIDATE messages with this value from at least
  witnessThreshold different processes of an own witness set it has drawn (and logged) for the
  instance.
\<close>

theorem re_delivery_backed:
  assumes init: "re_InitProcess env sha256 sha512 pubs priv mix i pids ps sendOwn = Inr p0"
    and run: "re_reaches env p0 is p es"
  shows "(\<forall>v w. re_says (set es) b Reliable_READY_FROM_PROCESS v \<and> re_says (set es) b Reliable_READY_FROM_PROCESS w \<longrightarrow> v = w) \<and>
    (\<forall>v. re_says (set es) b Reliable_VALIDATE v \<longrightarrow>
       ceil_half (int (length pids) + FaultyProcesses ps + 1) \<le>
       int (card {q \<in> set (procs (length pids)). re_heard (set is) q b Reliable_READY_FROM_PROCESS v})) \<and>
    (\<forall>v. (b, v) \<in> set (deliveries es) \<longrightarrow> (\<exists>own. finite own \<and>
       Log (OnWitnessSetSelected ''own'' b (env_order env own)) \<in> set es \<and>
       WitnessThreshold ps \<le>
       int (card {q \<in> set (procs (length pids)). re_heard (set is) q b Reliable_VALIDATE v \<and> re_name pids q \<in> own})))"
proof -
  have inv: "re_run_inv env p (set is) (set es)" by (rule re_reaches_inv[OF run re_run_inv_start[OF init]])
  note cfg = re_init_config[OF init] re_config_fields(3,4,6)[OF re_reaches_config[OF run]]
  have ok: "re_inst_ok env p (set is) (set es) b" using inv by (simp add: re_run_inv_def)
  have sets: "{q. (q, v) \<in> re_heard_votes p (set is) b st} = {q \<in> set (procs (length pids)). re_heard (set is) q b st v}"
    "{q. (q, v) \<in> re_heard_votes p (set is) b st \<and> re_name pids q \<in> own} =
     {q \<in> set (procs (length pids)). re_heard (set is) q b st v \<and> re_name pids q \<in> own}" for v st own
    by (auto simp: re_heard_votes_def cfg)
  have said: "re_said_ok p (set is) (set es) b" using ok by (simp add: re_inst_ok_def)
  have backed: "re_backed env p (set is) (set es) b v" if "(b, v) \<in> set (deliveries es)" for v
  proof -
    have "re_value p b = Some v"
      by (rule delivery_step_value[OF re_reaches_delivers[OF run re_run_inv_start[OF init]] that])
    then show ?thesis using ok by (simp add: re_inst_ok_def)
  qed
  show ?thesis
    using said backed unfolding re_said_ok_def re_backed_def sets cfg by blast
qed

theorem re_delivery_backed_witness:
  "\<exists>p es. re_value p re_tx = Some 5 \<and> (re_tx, 5) \<in> set (deliveries es) \<and> (\<exists>own.
    Log (OnWitnessSetSelected ''own'' re_tx (sorted_list_of_set own)) \<in> set es \<and> finite own \<and>
    1 \<le> int (card {q \<in> set (procs 1). re_heard (set (Request 5 # re_sample_messages)) q re_tx Reliable_VALIDATE 5 \<and>
      re_name [''p0''] q \<in> own}))"
proof -
  obtain p0 p es where i: "re_InitProcess re_sample_env (\<lambda>_. [1]) (\<lambda>_. [1]) [(0, 0)] (Some (0, 0)) 1 0 [''p0'']
      re_sample_params False = Inr p0"
    and r: "re_reaches re_sample_env p0 (Request 5 # re_sample_messages) p es" and v: "re_value p re_tx = Some 5"
    by (rule re_sample_obtain) (rule that)
  have "re_value p0 = Map.empty" using re_init_config[OF i] by simp
  then have "map_of (deliveries es) re_tx = Some 5"
    using re_reaches_delivers[OF r re_run_inv_start[OF i]] v by (simp add: delivery_step_def)
  then have d: "(re_tx, 5) \<in> set (deliveries es)" by (rule map_of_SomeD)
  have "\<exists>own. finite own \<and> Log (OnWitnessSetSelected ''own'' re_tx (env_order re_sample_env own)) \<in> set es \<and>
      WitnessThreshold re_sample_params \<le>
      int (card {q \<in> set (procs (length [''p0''])). re_heard (set (Request 5 # re_sample_messages)) q re_tx Reliable_VALIDATE 5 \<and>
        re_name [''p0''] q \<in> own})"
    using re_delivery_backed[OF i r, of re_tx] d by blast
  then show ?thesis using v d by (auto simp: re_sample_env_def re_sample_params_def)
qed

text \<open>
  C15: No duplication in the reliable protocol. In every run whose requests are for instances the
  process has not heard of, whatever is received, the process
  delivers every instance at most once, the delivered map is exactly what it has delivered, and it
  never delivers an instance again after the transaction is committed and its state removed.
\<close>

theorem re_no_duplication:
  assumes init: "re_InitProcess env sha256 sha512 pubs priv mix i pids ps sendOwn = Inr p0"
    and run: "re_reaches env p0 is p es"
  shows "distinct (map fst (deliveries es)) \<and> re_value p = map_of (deliveries es) \<and>
    (re_finallyCommitted p b \<longrightarrow> b \<in> set (map fst (deliveries es)) \<and> re_state p b = None)"
proof -
  have d: "delivery_step (re_value p0) es (re_value p)" by (rule re_reaches_delivers[OF run re_run_inv_start[OF init]])
  then have v: "distinct (map fst (deliveries es))" "re_value p = map_of (deliveries es)"
    using re_init_config(7)[OF init] by (simp_all add: delivery_step_def)
  have "re_run_inv env p (set is) (set es)" by (rule re_reaches_inv[OF run re_run_inv_start[OF init]])
  then have "re_inst_ok env p (set is) (set es) b" by (simp add: re_run_inv_def)
  then have "re_value p b \<noteq> None \<and> re_state p b = None" if "re_finallyCommitted p b"
    using that by (simp add: re_inst_ok_def re_value_def)
  then show ?thesis using v by (auto simp: map_of_eq_None_iff)
qed

theorem re_no_duplication_witness:
  "\<exists>p es. deliveries es = [(re_tx, 5)] \<and> re_value p = [re_tx \<mapsto> 5] \<and> distinct (map fst (deliveries es))"
proof -
  obtain p0 p es where i: "re_InitProcess re_sample_env (\<lambda>_. [1]) (\<lambda>_. [1]) [(0, 0)] (Some (0, 0)) 1 0 [''p0'']
      re_sample_params False = Inr p0"
    and run: "re_sample_run = Inr (p0, p, es)" and d: "deliveries es = [(re_tx, 5)]"
    and r: "re_reaches re_sample_env p0 (Request 5 # re_sample_messages) p es"
    by (rule re_sample_obtain) (rule that)
  have "distinct (map fst (deliveries es)) \<and> re_value p = map_of (deliveries es)"
    using re_no_duplication[OF i r, of re_tx] by blast
  then show ?thesis using d by (intro exI[of _ p] exI[of _ es]) simp
qed

section \<open>The state of a process\<close>

text \<open>
  C16: The type of a process state, kept by every such run. The nested maps are made for exactly the
  processes of the system; there is one well-formed history per process, all of one shape; and, when
  MixingTime is at least 1, every checkpoint lies among the last MixingTime deliveries and its
  transaction still has its message state, so that the reveal phase starting there never reads
  through a nil pointer when the process has a private key.
\<close>

theorem re_process_type:
  assumes init: "re_InitProcess env sha256 sha512 pubs priv mix i pids ps sendOwn = Inr p0"
    and bins: "0 < NumberOfBins ps" "NumberOfBins ps < 2 ^ 64"
    and cap: "0 \<le> go_quot (NodeIdSize ps) (NumberOfBins ps)" "go_quot (NodeIdSize ps) (NumberOfBins ps) \<le> 62"
    and run: "re_reaches env p0 is p es"
  shows "dom (re_deliveredMessages p) = set (procs (length pids)) \<and> dom (re_messagesLog p) = set (procs (length pids)) \<and>
    dom (re_finallyCommittedMessages p) = set (procs (length pids)) \<and>
    dom (re_transactionToCheckpoint p) = set (procs (length pids)) \<and>
    re_histories_ok (nat (re_processCount p)) (uint_pow2 (go_quot (NodeIdSize ps) (NumberOfBins ps)))
      (nat (NumberOfBins ps)) (re_historyHashes p) \<and>
    (1 \<le> mix \<longrightarrow> re_checkpoints_ok p \<and> (priv \<noteq> None \<longrightarrow>
       (\<forall>k c. re_checkpoints p k = Some c \<longrightarrow> re_startRevealPhase env p c \<noteq> Inl NilDereference)))"
proof -
  note start = re_start_views[OF init]
  note cfg = re_config_fields[OF re_reaches_config[OF run]]
  have h0: "re_histories_ok (nat (re_processCount p0)) (uint_pow2 (go_quot (NodeIdSize ps) (NumberOfBins ps)))
      (nat (NumberOfBins ps)) (re_historyHashes p0)" by (rule re_start_histories[OF init bins cap])
  obtain cs where "re_committed_as (set is) p (re_historyHashes p0) cs"
    using re_reaches_commits[OF run re_run_inv_start[OF init] start(2,3)] by blast
  then have "go_fold (re_histories_add (nat (re_processCount p))) (re_historyHashes p0) (map snd cs) = Inr (re_historyHashes p)"
    by (simp add: re_committed_as_def)
  moreover have "re_processCount p = re_processCount p0" by (rule cfg(8))
  ultimately have hist: "re_histories_ok (nat (re_processCount p)) (uint_pow2 (go_quot (NodeIdSize ps) (NumberOfBins ps)))
      (nat (NumberOfBins ps)) (re_historyHashes p)"
    using re_histories.inserts_ok[OF h0, of "map snd cs"] by simp
  have "re_checkpoints_ok p \<and> (priv \<noteq> None \<longrightarrow>
       (\<forall>k c. re_checkpoints p k = Some c \<longrightarrow> re_startRevealPhase env p c \<noteq> Inl NilDereference))" if mix: "1 \<le> mix"
  proof -
    have ok: "re_checkpoints_ok p"
      by (rule re_reaches_checkpoints[OF run start(1)]) (use re_init_config(5)[OF init] mix in simp)
    have "re_startRevealPhase env p c \<noteq> Inl NilDereference" if k: "re_checkpoints p k = Some c" and key: "priv \<noteq> None" for k c
    proof -
      obtain ms where "re_state p c = Some ms" using ok k unfolding re_checkpoints_ok_def by blast
      moreover have "re_PrivateKey p \<noteq> None" using key re_init_config(6)[OF init] cfg(13) by simp
      ultimately show ?thesis
        by (auto simp: re_startRevealPhase_def go_deref_def go_bind_Inl decrypt_def split: option.splits)
    qed
    then show ?thesis using ok by blast
  qed
  moreover have "dom (re_deliveredMessages p) = set (procs (length pids))" "dom (re_messagesLog p) = set (procs (length pids))"
    "dom (re_finallyCommittedMessages p) = set (procs (length pids))" "dom (re_transactionToCheckpoint p) = set (procs (length pids))"
    by (simp_all only: cfg(15-18) start(4-7))
  ultimately show ?thesis using hist by blast
qed

theorem re_process_type_witness:
  "\<exists>p. re_value p re_tx = Some 5 \<and> dom (re_messagesLog p) = {0} \<and> re_checkpoints_ok p \<and>
    re_histories_ok (nat (re_processCount p)) 16 1 (re_historyHashes p)"
proof -
  obtain p0 p es where i: "re_InitProcess re_sample_env (\<lambda>_. [1]) (\<lambda>_. [1]) [(0, 0)] (Some (0, 0)) 1 0 [''p0'']
      re_sample_params False = Inr p0"
    and r: "re_reaches re_sample_env p0 (Request 5 # re_sample_messages) p es" and v: "re_value p re_tx = Some 5"
    by (rule re_sample_obtain) (rule that)
  have q: "go_quot (NodeIdSize re_sample_params) (NumberOfBins re_sample_params) = 4" by (simp add: re_sample_params_def)
  have b: "NumberOfBins re_sample_params = 1" by (simp add: re_sample_params_def)
  have "dom (re_messagesLog p) = set (procs (length [''p0'']))" "re_checkpoints_ok p"
    "re_histories_ok (nat (re_processCount p)) (uint_pow2 4) (nat 1) (re_historyHashes p)"
    using re_process_type[OF i _ _ _ _ r, unfolded q, unfolded b] by simp_all
  then show ?thesis using v by (auto simp: procs_def uint_pow2_def)
qed

section \<open>The histories\<close>

text \<open>Two lists of pairs that have the same keys and agree on their values are permutations of each other.\<close>

lemma same_pairs:
  assumes keys: "set (map fst cs) = set (map fst ds)" and agree: "\<And>b x y. (b, x) \<in> set cs \<Longrightarrow> (b, y) \<in> set ds \<Longrightarrow> x = y"
    and "distinct cs" "distinct ds"
  shows "mset cs = mset ds"
proof -
  have "(b, x) \<in> set cs \<longleftrightarrow> (b, x) \<in> set ds" for b x
  proof
    assume x: "(b, x) \<in> set cs"
    then have "b \<in> set (map fst ds)" unfolding keys[symmetric] by force
    then obtain y where "(b, y) \<in> set ds" by auto
    then show "(b, x) \<in> set ds" using agree[OF x] by simp
  next
    assume x: "(b, x) \<in> set ds"
    then have "b \<in> set (map fst cs)" unfolding keys by force
    then obtain y where "(b, y) \<in> set cs" by auto
    then show "(b, x) \<in> set cs" using agree[OF _ x] by simp
  qed
  then have "set cs = set ds" by auto
  then show ?thesis using assms(3,4) by (simp add: set_eq_iff_mset_eq_distinct)
qed

text \<open>
  C17: The histories do not depend on the order of the commitments: two processes of one system that
  have committed the same transactions, and whose accepted DONE messages carry the same secrets,
  have equal histories, whatever else they received and in whatever order, and therefore draw the
  same witness sets for the next instance; the drawing never fails.
\<close>

theorem re_same_history:
  assumes init: "re_InitProcess env sha256 sha512 pubs priv mix i pids ps own = Inr p0"
      "re_InitProcess env' sha256 sha512 pubs' priv' mix' j pids ps own' = Inr q0"
    and bins: "0 < NumberOfBins ps" "NumberOfBins ps < 2 ^ 64"
    and cap: "0 \<le> go_quot (NodeIdSize ps) (NumberOfBins ps)" "go_quot (NodeIdSize ps) (NumberOfBins ps) \<le> 62"
    and run: "re_reaches env p0 is p es" "re_reaches env' q0 js q es'"
    and same: "re_finallyCommitted p = re_finallyCommitted q"
    and unique: "\<And>b x y. re_accepted (set is) (re_delivered p) b x \<Longrightarrow> re_accepted (set js) (re_delivered q) b y \<Longrightarrow> x = y"
  shows "re_historyHashes p = re_historyHashes q \<and>
    (int (length pids) \<le> ProcessCount ps \<longrightarrow> (\<exists>sets.
       GetWitnessSet srt (re_wSelector p) (re_pids p) (re_historyHashes p) = Inr (Some sets) \<and>
       GetWitnessSet srt (re_wSelector q) (re_pids q) (re_historyHashes q) = Inr (Some sets)))"
proof -
  let ?n = "nat (ProcessCount ps)" and ?cap = "uint_pow2 (go_quot (NodeIdSize ps) (NumberOfBins ps))"
    and ?num = "nat (NumberOfBins ps)"
  note cp = re_config_fields[OF re_reaches_config[OF run(1)]] and cq = re_config_fields[OF re_reaches_config[OF run(2)]]
  have s: "re_processCount p0 = ProcessCount ps" "re_processCount q0 = ProcessCount ps" "re_historyHashes q0 = re_historyHashes p0"
    "re_wSelector q0 = re_wSelector p0"
    using init by (auto simp: re_InitProcess_def Let_def split: if_splits)
  obtain cs where cs: "re_committed_as (set is) p (re_historyHashes p0) cs"
    using re_reaches_commits[OF run(1) re_run_inv_start[OF init(1)] re_start_views(2,3)[OF init(1)]] by blast
  obtain ds where ds: "re_committed_as (set js) q (re_historyHashes q0) ds"
    using re_reaches_commits[OF run(2) re_run_inv_start[OF init(2)] re_start_views(2,3)[OF init(2)]] by blast
  have fst: "set (map fst cs) = set (map fst ds)" using cs ds same by (simp add: re_committed_as_def)
  have acc: "(b, x) \<in> set cs \<Longrightarrow> re_accepted (set is) (re_delivered p) b x"
    "(b, x) \<in> set ds \<Longrightarrow> re_accepted (set js) (re_delivered q) b x" for b x
    using cs ds by (auto simp: re_committed_as_def)
  have "distinct cs" "distinct ds" using cs ds by (auto simp: re_committed_as_def distinct_map)
  then have "mset cs = mset ds" by (intro same_pairs[OF fst]) (use unique acc in blast)+
  then have perm: "mset (map snd cs) = mset (map snd ds)" by simp
  have h0: "re_histories_ok ?n ?cap ?num (re_historyHashes p0)" using re_start_histories[OF init(1) bins cap] s(1) by simp
  have fold: "go_fold (re_histories_add ?n) (re_historyHashes p0) (map snd cs) = Inr (re_historyHashes p)"
    "go_fold (re_histories_add ?n) (re_historyHashes p0) (map snd ds) = Inr (re_historyHashes q)"
    using cs ds cp(8) cq(8) s by (simp_all add: re_committed_as_def)
  have eq: "re_historyHashes p = re_historyHashes q"
    using re_histories.inserts_permute[OF h0 perm] fold by simp
  have ok: "re_histories_ok ?n ?cap ?num (re_historyHashes p)"
    using re_histories.inserts_ok[OF h0, of "map snd cs"] fold(1) by simp
  have "\<exists>sets. GetWitnessSet srt (re_wSelector p) (re_pids p) (re_historyHashes p) = Inr (Some sets)"
    if "int (length pids) \<le> ProcessCount ps"
    using GetWitnessSet_wf[of ?cap ?num "re_historyHashes p" "re_pids p" srt "re_wSelector p"] ok that
      re_init_config(1)[OF init(1)] cp(3) by (auto simp: re_histories_ok_def)
  moreover have "re_pids q = re_pids p" using re_init_config(1)[OF init(1)] re_init_config(1)[OF init(2)] cp(3) cq(3) by simp
  moreover have "re_wSelector q = re_wSelector p" using cp(14) cq(14) s(4) by simp
  ultimately show ?thesis using eq by auto
qed

text \<open>A closed run that commits: the sample run, a second transaction, and the reveal of the first.\<close>

definition re_reveal_messages :: "input list" where
  "re_reveal_messages = (let tx = \<lparr>Author = 0, SeqNumber = 1\<rparr>;
       m = (\<lambda>st sh. Received 0 (re_rmsg tx st (Some \<lparr>Value = 6, XHash = 0\<rparr>) sh)) in
     [m Reliable_NOTIFY [Int32ToBytes 0], m Reliable_ECHO_FROM_WITNESS [Int32ToBytes 0],
      m Reliable_ECHO_FROM_PROCESS [], m Reliable_READY_FROM_WITNESS [], m Reliable_READY_FROM_PROCESS [],
      m Reliable_VALIDATE [],
      Received 0 (re_cmsg re_tx (re_commitment Commitment_REVEAL (Int32ToBytes 0) [])),
      Received 0 (re_cmsg re_tx (re_commitment Commitment_DONE [] [0]))])"

definition re_commit_run :: "(re_Process \<times> re_Process \<times> effect list) go" where
  "re_commit_run = go_bind re_sample_start (\<lambda>p0. go_bind (run_inputs (re_HandleMessage re_sample_env) (re_Broadcast re_sample_env) p0
     (re_sample_messages @ re_reveal_messages)) (\<lambda>(p, es). Inr (p0, p, es)))"

lemma re_commit_checked: "case re_commit_run of Inl e \<Rightarrow> False | Inr (p0, p, es) \<Rightarrow> re_finallyCommitted p re_tx"
  by code_simp

lemma re_commit_obtain:
  obtains p0 p es where "re_InitProcess re_sample_env (\<lambda>_. [1]) (\<lambda>_. [1]) [(0, 0)] (Some (0, 0)) 1 0 [''p0'']
      re_sample_params False = Inr p0"
    "re_reaches re_sample_env p0 (re_sample_messages @ re_reveal_messages) p es" "re_finallyCommitted p re_tx"
proof -
  obtain p0 p es where run: "re_commit_run = Inr (p0, p, es)" and c: "re_finallyCommitted p re_tx"
    using re_commit_checked by (auto split: sum.splits)
  then have start: "re_sample_start = Inr p0"
    and go: "run_inputs (re_HandleMessage re_sample_env) (re_Broadcast re_sample_env) p0 (re_sample_messages @ re_reveal_messages) = Inr (p, es)"
    by (auto simp: re_commit_run_def go_simps)
  have "list_all re_is_message (re_sample_messages @ re_reveal_messages)"
    by (simp add: re_sample_messages_def re_reveal_messages_def Let_def)
  from re_reaches_messages[OF re_reaches.start go this]
  show ?thesis using that start c unfolding re_sample_start_def by simp
qed

theorem re_same_history_witness:
  "\<exists>p q sets. re_finallyCommitted p re_tx \<and> re_finallyCommitted q re_tx \<and> re_historyHashes p = re_historyHashes q \<and>
    GetWitnessSet stable_sort (re_wSelector p) (re_pids p) (re_historyHashes p) = Inr (Some sets)"
proof -
  obtain p0 p es where i: "re_InitProcess re_sample_env (\<lambda>_. [1]) (\<lambda>_. [1]) [(0, 0)] (Some (0, 0)) 1 0 [''p0'']
      re_sample_params False = Inr p0"
    and r: "re_reaches re_sample_env p0 (re_sample_messages @ re_reveal_messages) p es" and c: "re_finallyCommitted p re_tx"
    by (rule re_commit_obtain)
  have unique: "x = y" if "re_accepted (set (re_sample_messages @ re_reveal_messages)) D b x"
    "re_accepted (set (re_sample_messages @ re_reveal_messages)) D b y" for D b x y
    using that by (auto simp: re_accepted_def re_sample_messages_def re_reveal_messages_def Let_def re_cmsg_def re_rmsg_def re_commitment_def)
  have q: "go_quot (NodeIdSize re_sample_params) (NumberOfBins re_sample_params) = 4" by (simp add: re_sample_params_def)
  have b: "NumberOfBins re_sample_params = 1" "ProcessCount re_sample_params = 1" by (simp_all add: re_sample_params_def)
  have "re_historyHashes p = re_historyHashes p \<and>
    (int (length [''p0'']) \<le> ProcessCount re_sample_params \<longrightarrow> (\<exists>sets.
       GetWitnessSet stable_sort (re_wSelector p) (re_pids p) (re_historyHashes p) = Inr (Some sets) \<and>
       GetWitnessSet stable_sort (re_wSelector p) (re_pids p) (re_historyHashes p) = Inr (Some sets)))"
    by (rule re_same_history[OF i i _ _ _ _ r r]) (simp_all add: q[unfolded b] b unique)
  then show ?thesis using c by (intro exI[of _ p]) (auto simp: b)
qed

end
