(* ===== verification/Reliable_Reveal.thy ===== *)
theory Reliable_Reveal
  imports Reliable_Theorems
begin

text \<open>
  The reveal phase of the reliable protocol, message by message, and the attacks it is open to: what
  a REVEAL, a DONE and a FAILED message do to a delivered transaction that is not committed.
\<close>

section \<open>Reveal messages of a delivered transaction\<close>

text \<open>\<open>re_revealing p b bm ms q\<close>: \<open>b\<close> is delivered with \<open>bm\<close>, not committed, and \<open>q\<close> names a process.\<close>

definition re_revealing :: "re_Process \<Rightarrow> BroadcastInstance \<Rightarrow> Broadcast_msg \<Rightarrow> re_messageState \<Rightarrow> ProcessId \<Rightarrow> bool" where
  "re_revealing p b bm ms q \<longleftrightarrow> re_state p b = Some ms \<and> re_delivered p b = Some bm \<and> \<not> re_finallyCommitted p b \<and>
     0 \<le> sint q \<and> sint q < int (length (re_pids p))"

definition re_counted :: "re_messageState \<Rightarrow> re_messageState" where
  "re_counted ms = ms\<lparr>re_receivedMessagesCnt := Suc (re_receivedMessagesCnt ms)\<rparr>"

lemma re_counted_fields [simp]:
  "re_core (re_counted ms) = re_core ms" "re_revealStage (re_counted ms) = re_revealStage ms"
  "re_ownWitnessSet (re_counted ms) = re_ownWitnessSet ms" "re_potWitnessSet (re_counted ms) = re_potWitnessSet ms"
  "re_revealFromProcesses (re_counted ms) = re_revealFromProcesses ms" "re_decryptedShares (re_counted ms) = re_decryptedShares ms"
  "re_encryptedShares (re_counted ms) = re_encryptedShares ms"
  by (simp_all add: re_counted_def)

lemma re_cmsg_handled:
  assumes "re_revealing p b bm ms q"
  shows "re_HandleMessage env p q (re_cmsg b m) =
    go_bind (re_commitmentStage env (re_store p b (re_counted ms)) q b m bm (re_counted ms)) (\<lambda>(p', _, es). Inr (p', es))"
proof -
  have st: "re_state p b = Some ms" and dl: "lookup2 (re_deliveredMessages p) (Author b) (SeqNumber b) = Some bm"
    and fc: "\<not> re_finallyCommitted p b" and q: "go_index (re_pids p) (sint q) = Inr (re_pids p ! nat (sint q))"
    using assms by (simp_all add: re_revealing_def re_delivered_def go_index_def)
  have "re_processCommitmentProtocolMessage env p q b m =
    go_bind (re_commitmentStage env (re_store p b (re_counted ms)) q b m bm (re_counted ms)) (\<lambda>(p', ms', es). Inr (p', Some ms', es))"
    using fc by (simp add: re_processCommitmentProtocolMessage_def re_registerMessage_def st q dl Let_def re_counted_def)
  then show ?thesis
    by (cases "re_commitmentStage env (re_store p b (re_counted ms)) q b m bm (re_counted ms)")
      (auto simp: re_HandleMessage_def re_cmsg_def go_deref_def)
qed

lemma re_store_fields [simp]:
  "re_pids (re_store p b ms) = re_pids p" "re_processIndex (re_store p b ms) = re_processIndex p"
  "re_MixingTime (re_store p b ms) = re_MixingTime p" "re_processCount (re_store p b ms) = re_processCount p"
  "re_deliveredMessagesCount (re_store p b ms) = re_deliveredMessagesCount p"
  "re_transactionToCheckpoint (re_store p b ms) = re_transactionToCheckpoint p"
  "re_faultyProcesses (re_store p b ms) = re_faultyProcesses p" "re_dataShares (re_store p b ms) = re_dataShares p"
  "re_parityShares (re_store p b ms) = re_parityShares p" "re_PublicKeys (re_store p b ms) = re_PublicKeys p"
  "re_finallyCommittedMessages (re_store p b ms) = re_finallyCommittedMessages p"
  "re_actorPids (re_store p b ms) = re_actorPids p"
  by (simp_all add: re_store_def)

lemma re_isWitness_views [simp]:
  "re_isWitness (re_store p b ms0) ms = re_isWitness p ms"
  "re_isWitness p (re_counted ms) = re_isWitness p ms"
  "re_isWitness p (ms\<lparr>re_revealStage := r\<rparr>) = re_isWitness p ms"
  by (simp_all add: re_isWitness_def)

lemma re_broadcast_views [simp]:
  "re_broadcastCommitmentMessage (re_store p b ms) = re_broadcastCommitmentMessage p"
  "re_broadcastCommitmentToWitnesses env (re_store p b ms0) = re_broadcastCommitmentToWitnesses env p"
  "re_broadcastCommitmentToWitnesses env p b c (re_counted ms) = re_broadcastCommitmentToWitnesses env p b c ms"
  "re_broadcastCommitmentToWitnesses env p b c (ms\<lparr>re_revealStage := r\<rparr>) = re_broadcastCommitmentToWitnesses env p b c ms"
  by (intro ext; simp add: re_broadcastCommitmentMessage_def)
    (simp_all add: re_broadcastCommitmentToWitnesses_def re_index_def fun_eq_iff)

section \<open>REVEAL\<close>

text \<open>What a pot witness answers once it has the shares of \<open>2f + 1\<close> processes.\<close>

definition re_reveal_answer :: "re_Process \<Rightarrow> BroadcastInstance \<Rightarrow> Broadcast_msg \<Rightarrow> int32 list \<Rightarrow> effect list" where
  "re_reveal_answer p b bm x = (if re_hash x = XHash bm
     then re_broadcastCommitmentMessage p b (re_commitment Commitment_DONE [] x)
     else Log (OnHashMismatch (XHash bm) (re_hash x)) #
       re_broadcastCommitmentMessage p b (re_commitment Commitment_FAILED [] []))"

text \<open>The share agrees with the encrypted share that NOTIFY brought, if it brought any.\<close>

definition re_share_matches :: "re_env \<Rightarrow> re_Process \<Rightarrow> ProcessId \<Rightarrow> byte list \<Rightarrow> re_messageState \<Rightarrow> bool" where
  "re_share_matches env p q share ms \<longleftrightarrow> re_encryptedShares ms = [] \<or>
     Encrypt env (re_PublicKeys p ! nat (sint q)) share = Inr (re_encryptedShares ms ! nat (sint q))"

definition re_shares :: "re_Process \<Rightarrow> re_messageState \<Rightarrow> byte list list" where
  "re_shares p ms = (case re_decryptedShares ms of None \<Rightarrow> replicate (nat (re_processCount p)) [] | Some shares \<Rightarrow> shares)"

lemma re_checkShare_cases:
  assumes "0 \<le> sint q" "nat (sint q) < length (re_PublicKeys p)"
    and "re_encryptedShares ms \<noteq> [] \<Longrightarrow> nat (sint q) < length (re_encryptedShares ms)"
  shows "re_checkShare env p q share ms = (if re_share_matches env p q share ms then Inr () else Inl FatalExit)"
proof (cases "re_encryptedShares ms = []")
  case False
  then have "go_index (re_PublicKeys p) (sint q) = Inr (re_PublicKeys p ! nat (sint q))"
    "go_index (re_encryptedShares ms) (sint q) = Inr (re_encryptedShares ms ! nat (sint q))"
    using assms by (simp_all add: go_index_def)
  then show ?thesis using False
    by (cases "Encrypt env (re_PublicKeys p ! nat (sint q)) share")
      (auto simp: re_checkShare_def re_share_matches_def AreEqual_eq Encrypt_def split: option.splits)
qed (simp add: re_checkShare_def re_share_matches_def)

lemma re_onReveal_eq:
  assumes wit: "re_isWitness p ms = Inr True" and new: "q \<notin> re_revealFromProcesses ms"
    and stage: "re_revealStage ms \<noteq> SentDoneToProcesses" "re_revealStage ms \<noteq> SentFailedToProcesses"
    and sz: "0 \<le> re_processCount p" "0 \<le> sint q" "nat (sint q) < length (re_shares p ms)"
    and ms1: "ms1 = ms\<lparr>re_revealFromProcesses := insert q (re_revealFromProcesses ms),
      re_decryptedShares := Some ((re_shares p ms)[nat (sint q) := share])\<rparr>"
  shows "re_onReveal env p q b share bm ms = go_bind (re_checkShare env p q share ms) (\<lambda>_.
     if 2 * re_faultyProcesses p + 1 \<le> int (card (insert q (re_revealFromProcesses ms)))
     then re_decodeSecret env p b bm ((re_shares p ms)[nat (sint q) := share]) ms1 else Inr (ms1, []))"
proof -
  have sh: "(case re_decryptedShares ms of Some shares \<Rightarrow> Inr shares
      | None \<Rightarrow> if re_processCount p < 0 then Inl LengthOutOfRange else Inr (replicate (nat (re_processCount p)) [])) =
      (Inr (re_shares p ms) :: byte list list go)"
    using sz(1) by (simp add: re_shares_def split: option.splits)
  have ix: "go_index (re_shares p ms) (sint q) = Inr (re_shares p ms ! nat (sint q))"
    using sz by (simp add: go_index_def)
  have c: "re_checkShare env p q share ms1 = re_checkShare env p q share ms" by (simp add: re_checkShare_def ms1)
  show ?thesis
    using new stage c unfolding re_onReveal_def wit sh go_bind.simps ix Let_def ms1[symmetric]
    by (simp add: ms1)
qed

text \<open>A REVEAL that is counted: the share is checked and stored, and with enough shares the secret decoded.\<close>

definition re_with_share :: "re_Process \<Rightarrow> ProcessId \<Rightarrow> byte list \<Rightarrow> re_messageState \<Rightarrow> re_messageState" where
  "re_with_share p q share ms = (re_counted ms)\<lparr>re_revealFromProcesses := insert q (re_revealFromProcesses ms),
     re_decryptedShares := Some ((re_shares p ms)[nat (sint q) := share])\<rparr>"

lemma re_reveal_run:
  assumes rv: "re_revealing p b bm ms q" and wit: "re_isWitness p ms = Inr True" and new: "q \<notin> re_revealFromProcesses ms"
    and stage: "re_revealStage ms \<noteq> SentDoneToProcesses" "re_revealStage ms \<noteq> SentFailedToProcesses"
    and sz: "0 \<le> re_processCount p" "nat (sint q) < length (re_shares p ms)" "nat (sint q) < length (re_PublicKeys p)"
    and enc: "re_encryptedShares ms \<noteq> [] \<longrightarrow> nat (sint q) < length (re_encryptedShares ms)"
  shows "re_HandleMessage env p q (re_cmsg b (re_commitment Commitment_REVEAL share [])) =
    (if \<not> re_share_matches env p q share ms then Inl FatalExit
     else go_bind (if 2 * re_faultyProcesses p + 1 \<le> int (card (insert q (re_revealFromProcesses ms)))
         then re_decodeSecret env (re_store p b (re_counted ms)) b bm ((re_shares p ms)[nat (sint q) := share]) (re_with_share p q share ms)
         else Inr (re_with_share p q share ms, []))
       (\<lambda>(ms', es). Inr (re_store (re_store p b (re_counted ms)) b ms', es)))"
proof -
  let ?ms = "re_counted ms" and ?p = "re_store p b (re_counted ms)"
  have q: "0 \<le> sint q" and ix: "go_index (re_pids p) (sint q) = Inr (re_pids p ! nat (sint q))"
    using rv by (simp_all add: re_revealing_def go_index_def)
  have sh: "re_shares ?p ?ms = re_shares p ms" by (simp add: re_shares_def split: option.splits)
  have m: "re_share_matches env ?p q share ?ms = re_share_matches env p q share ms" by (simp add: re_share_matches_def)
  have on: "re_onReveal env ?p q b share bm ?ms = go_bind (re_checkShare env ?p q share ?ms) (\<lambda>_.
     if 2 * re_faultyProcesses p + 1 \<le> int (card (insert q (re_revealFromProcesses ms)))
     then re_decodeSecret env ?p b bm ((re_shares p ms)[nat (sint q) := share]) (re_with_share p q share ms)
     else Inr (re_with_share p q share ms, []))"
    using re_onReveal_eq[of ?p ?ms q "re_with_share p q share ms" share env b bm] wit new stage sz q
    by (simp add: sh re_with_share_def)
  have chk: "re_checkShare env ?p q share ?ms = (if re_share_matches env p q share ms then Inr () else Inl FatalExit)"
    using re_checkShare_cases[of q ?p ?ms env share] q sz(3) enc m by simp
  show ?thesis
    by (cases "re_onReveal env ?p q b share bm ?ms")
      (auto simp: re_cmsg_handled[OF rv] re_commitmentStage_def ix Let_def re_commitment_def on chk)
qed

text \<open>
  C18: What a REVEAL message with a new share does at a pot witness that has not answered yet, the
  panics on decoded parts of the secret that are too short for a number left aside. A share
  that does not encrypt to the one NOTIFY brought stops the process with a fatal error; so does a
  failing reconstruction. With fewer than 2f+1 shares the share is only recorded. With enough of
  them the secret is decoded, and DONE with the secret goes to every process when its hash is the
  delivered one, otherwise the mismatch is logged and FAILED goes to every process.
\<close>

theorem re_reveal_outcome:
  assumes rv: "re_revealing p b bm ms q" and wit: "re_isWitness p ms = Inr True" and new: "q \<notin> re_revealFromProcesses ms"
    and stage: "re_revealStage ms \<noteq> SentDoneToProcesses" "re_revealStage ms \<noteq> SentFailedToProcesses"
    and sz: "0 \<le> re_processCount p" "nat (sint q) < length (re_shares p ms)" "nat (sint q) < length (re_PublicKeys p)"
    and enc: "re_encryptedShares ms \<noteq> [] \<longrightarrow> nat (sint q) < length (re_encryptedShares ms)"
  shows "let run = re_HandleMessage env p q (re_cmsg b (re_commitment Commitment_REVEAL share []));
      shares = (re_shares p ms)[nat (sint q) := share]; S = insert q (re_revealFromProcesses ms) in
    if \<not> re_share_matches env p q share ms then run = Inl FatalExit
    else if int (card S) < 2 * re_faultyProcesses p + 1
    then \<exists>p' ms'. run = Inr (p', []) \<and> re_state p' = (re_state p)(b \<mapsto> ms') \<and>
      re_revealFromProcesses ms' = S \<and> re_decryptedShares ms' = Some shares \<and> re_revealStage ms' = re_revealStage ms
    else case env_reconstruct env (re_dataShares p) (re_parityShares p) shares of
      None \<Rightarrow> run = Inl FatalExit
    | Some full \<Rightarrow> \<forall>x. 0 \<le> re_dataShares p \<and>
        go_map (\<lambda>i. go_bind (go_index full (int i)) ToInt32) [0..<nat (re_dataShares p)] = Inr x \<longrightarrow>
        (\<exists>p' ms'. run = Inr (p', re_reveal_answer p b bm x) \<and> re_state p' = (re_state p)(b \<mapsto> ms') \<and>
          re_revealStage ms' = (if re_hash x = XHash bm then SentDoneToProcesses else SentFailedToProcesses))"
proof -
  let ?run = "re_HandleMessage env p q (re_cmsg b (re_commitment Commitment_REVEAL share []))"
  let ?shares = "(re_shares p ms)[nat (sint q) := share]" and ?S = "insert q (re_revealFromProcesses ms)"
  let ?p = "re_store p b (re_counted ms)" and ?ms1 = "re_with_share p q share ms"
  note run = re_reveal_run[OF assms, of env share]
  have stored: "re_state (re_store ?p b ms') = (re_state p)(b \<mapsto> ms')" for ms'
    using rv re_store_views(1)[of ?p b "re_counted ms" ms'] by (simp add: re_revealing_def)
  have few: "\<exists>p' ms'. ?run = Inr (p', []) \<and> re_state p' = (re_state p)(b \<mapsto> ms') \<and>
      re_revealFromProcesses ms' = ?S \<and> re_decryptedShares ms' = Some ?shares \<and> re_revealStage ms' = re_revealStage ms"
    if "re_share_matches env p q share ms" "int (card ?S) < 2 * re_faultyProcesses p + 1"
    using that stored[of ?ms1] by (intro exI[of _ "re_store ?p b ?ms1"] exI[of _ ?ms1]) (simp add: run re_with_share_def)
  have decoded: "\<exists>p' ms'. ?run = Inr (p', re_reveal_answer p b bm x) \<and> re_state p' = (re_state p)(b \<mapsto> ms') \<and>
      re_revealStage ms' = (if re_hash x = XHash bm then SentDoneToProcesses else SentFailedToProcesses)"
    if match: "re_share_matches env p q share ms" "\<not> int (card ?S) < 2 * re_faultyProcesses p + 1"
      and full: "env_reconstruct env (re_dataShares p) (re_parityShares p) ?shares = Some full"
      and x: "0 \<le> re_dataShares p" "go_map (\<lambda>i. go_bind (go_index full (int i)) ToInt32) [0..<nat (re_dataShares p)] = Inr x" for full x
  proof -
    let ?ms2 = "(?ms1\<lparr>re_decryptedShares := Some full\<rparr>)\<lparr>re_revealStage :=
      (if re_hash x = XHash bm then SentDoneToProcesses else SentFailedToProcesses)\<rparr>"
    have "re_decodeSecret env ?p b bm ?shares ?ms1 = Inr (?ms2, re_reveal_answer p b bm x)"
      using x full by (simp add: re_decodeSecret_def re_reveal_answer_def Let_def)
    then have "?run = Inr (re_store ?p b ?ms2, re_reveal_answer p b bm x)" using match by (simp add: run)
    then show ?thesis using stored[of ?ms2] by (intro exI[of _ "re_store ?p b ?ms2"] exI[of _ ?ms2]) simp
  qed
  show ?thesis
  proof (cases "re_share_matches env p q share ms \<and> \<not> int (card ?S) < 2 * re_faultyProcesses p + 1")
    case True
    then have match: "re_share_matches env p q share ms" "\<not> int (card ?S) < 2 * re_faultyProcesses p + 1" by blast+
    show ?thesis
    proof (cases "env_reconstruct env (re_dataShares p) (re_parityShares p) ?shares")
      case None
      then show ?thesis using match by (simp add: run Let_def re_decodeSecret_def)
    next
      case (Some full)
      then show ?thesis unfolding Let_def Some option.case using match decoded[OF match Some] by (simp only: if_False simp_thms) blast
    qed
  next
    case False
    then show ?thesis using few by (cases "re_share_matches env p q share ms") (simp_all only: Let_def if_True if_False simp_thms, simp add: run)
  qed
qed

section \<open>DONE\<close>

text \<open>
  C23: The secret of a transaction is not bound to its hash. The hash is the sum of the secret's
  parts, so that the hash itself, as a list of one, is accepted as secret; and a single DONE message
  of one process of the own witness set, with any secret of this sum, commits a delivered
  transaction that is MixingTime deliveries old and writes that secret into all histories. One faulty
  own witness therefore makes the histories of correct processes differ.
\<close>

theorem re_done_forgeable:
  assumes rv: "re_revealing p b bm ms q" and own: "re_pids p ! nat (sint q) \<in> re_ownWitnessSet ms"
    and idx: "0 \<le> sint (re_processIndex p)" "sint (re_processIndex p) < int (length (re_pids p))"
    and old: "re_MixingTime p \<le> re_deliveredMessagesCount p - re_checkpoint_of p b"
    and hist: "re_histories_ok (nat (re_processCount p)) cap num (re_historyHashes p)"
    and author: "Author b \<in> dom (re_finallyCommittedMessages p)"
  shows "re_hash [XHash bm] = XHash bm \<and> (\<forall>x. re_hash x = XHash bm \<longrightarrow> (\<exists>p' es.
    re_HandleMessage env p q (re_cmsg b (re_commitment Commitment_DONE [] x)) = Inr (p', es) \<and>
    re_finallyCommitted p' b \<and> re_state p' b = None \<and>
    re_historyHashes p' = map (hh_inserted (re_secretBytes x)) (re_historyHashes p)))"
proof (intro conjI allI impI)
  show "re_hash [XHash bm] = XHash bm" by (simp add: re_hash_def)
  fix x assume x: "re_hash x = XHash bm"
  let ?m = "re_commitment Commitment_DONE [] x" and ?ms = "re_counted ms" and ?p = "re_store p b (re_counted ms)"
  have ix: "go_index (re_pids p) (sint q) = Inr (re_pids p ! nat (sint q))"
    using rv by (simp add: re_revealing_def go_index_def)
  obtain w where w: "re_isWitness p ms = Inr w" using idx by (auto simp: re_isWitness_def go_index_def)
  have "\<exists>ms' es. re_onDone env ?p (re_pids p ! nat (sint q)) b x bm ?ms = Inr (ms', es, True)"
    using old own x w
    by (cases w; cases "re_revealStage ms = SentDoneToProcesses"; cases "re_revealStage ms = SentDoneToWitnesses")
      (simp_all add: re_onDone_def re_checkpoint_of_def Let_def)
  then obtain ms' es where o: "re_onDone env ?p (re_pids p ! nat (sint q)) b x bm ?ms = Inr (ms', es, True)" by blast
  let ?p1 = "re_store ?p b ms'" and ?hs = "map (hh_inserted (re_secretBytes x)) (re_historyHashes p)"
  have a: "re_addSecret ?p1 x = Inr (?p1\<lparr>re_historyHashes := ?hs\<rparr>)"
    using re_histories_add_map[OF hist] by (simp add: re_addSecret_eq)
  have "re_finallyCommittedMessages (?p1\<lparr>re_historyHashes := ?hs\<rparr>) = re_finallyCommittedMessages p" by simp
  then obtain fc where "assign2 (re_finallyCommittedMessages (?p1\<lparr>re_historyHashes := ?hs\<rparr>)) (Author b) (SeqNumber b) (Value bm) = Inr fc"
    using assign2_ok[OF author] by metis
  then have "\<exists>p2. re_cleanUp (?p1\<lparr>re_historyHashes := ?hs\<rparr>) b (Value bm) = Inr p2" by (simp add: re_cleanUp_def Let_def)
  then obtain p2 where c: "re_cleanUp (?p1\<lparr>re_historyHashes := ?hs\<rparr>) b (Value bm) = Inr p2" by blast
  have "re_commitmentStage env ?p q b ?m bm ?ms = Inr (p2, ms', es)"
    using ix o a c by (simp add: re_commitmentStage_def re_commitment_def Let_def)
  then have "re_HandleMessage env p q (re_cmsg b ?m) = Inr (p2, es)" by (simp add: re_cmsg_handled[OF rv])
  then show "\<exists>p' es. re_HandleMessage env p q (re_cmsg b ?m) = Inr (p', es) \<and>
      re_finallyCommitted p' b \<and> re_state p' b = None \<and> re_historyHashes p' = ?hs"
    using re_cleanUp_views[OF c] by (intro exI[of _ p2] exI[of _ es]) simp
qed

section \<open>FAILED\<close>

lemma re_failed_once:
  assumes rv: "re_revealing p b bm ms q" and own: "re_pids p ! nat (sint q) \<in> re_ownWitnessSet ms"
    and wit: "re_isWitness p ms = Inr True" and stage: "re_revealStage ms \<noteq> SentFailedToWitnesses"
  defines "m \<equiv> re_commitment Commitment_FAILED [] []"
  shows "re_HandleMessage env p q (re_cmsg b m) =
    Inr (re_store (re_store p b (re_counted ms)) b (re_counted ms\<lparr>re_revealStage := SentFailedToProcesses\<rparr>),
      re_broadcastCommitmentToWitnesses env p b m ms @ re_broadcastCommitmentMessage p b m)"
proof -
  have ix: "go_index (re_pids p) (sint q) = Inr (re_pids p ! nat (sint q))"
    using rv by (simp add: re_revealing_def go_index_def)
  have "re_onFailed env (re_store p b (re_counted ms)) (re_pids p ! nat (sint q)) b (re_counted ms) =
      Inr (re_counted ms\<lparr>re_revealStage := SentFailedToProcesses\<rparr>,
        re_broadcastCommitmentToWitnesses env p b m ms @ re_broadcastCommitmentMessage p b m)"
    using own wit stage by (simp add: re_onFailed_def Let_def m_def)
  then show ?thesis
    using ix by (simp add: re_cmsg_handled[OF rv] re_commitmentStage_def m_def Let_def) (simp add: re_commitment_def)
qed

text \<open>
  C24: FAILED messages are answered without end. At a process that is a pot witness, every FAILED
  message from one process of its own witness set, the hundredth copy as well as the first, makes it
  send FAILED to all its pot witnesses and to every process, itself included: the two stages
  SentFailedToWitnesses and SentFailedToProcesses share one field and overwrite each other.
\<close>

theorem re_failed_storm:
  assumes rv: "re_revealing p b bm ms q" and own: "re_pids p ! nat (sint q) \<in> re_ownWitnessSet ms"
    and wit: "re_isWitness p ms = Inr True" and stage: "re_revealStage ms \<noteq> SentFailedToWitnesses"
  shows "\<exists>p' es. run_inputs (re_HandleMessage env) (re_Broadcast env) p
      (replicate k (Received q (re_cmsg b (re_commitment Commitment_FAILED [] [])))) = Inr (p', es) \<and>
    es = concat (replicate k (re_broadcastCommitmentToWitnesses env p b (re_commitment Commitment_FAILED [] []) ms @
      re_broadcastCommitmentMessage p b (re_commitment Commitment_FAILED [] []))) \<and>
    length (sends es) = k * (length (env_order env (re_potWitnessSet ms)) + length (re_pids p))"
  using assms
proof (induction k arbitrary: p ms)
  case (Suc k)
  let ?m = "re_commitment Commitment_FAILED [] []"
  let ?ms = "re_counted ms\<lparr>re_revealStage := SentFailedToProcesses\<rparr>"
  let ?p = "re_store (re_store p b (re_counted ms)) b ?ms"
  let ?out = "re_broadcastCommitmentToWitnesses env p b ?m ms @ re_broadcastCommitmentMessage p b ?m"
  note one = re_failed_once[OF Suc.prems, of env]
  have st: "re_state p b = Some ms" using Suc.prems(1) by (simp add: re_revealing_def)
  have "re_state ?p b = Some ?ms" using st by (simp add: re_store_views(1)[of "re_store p b (re_counted ms)"])
  then have rv: "re_revealing ?p b bm ?ms q" using Suc.prems(1) by (simp add: re_revealing_def)
  have "\<exists>p' es. run_inputs (re_HandleMessage env) (re_Broadcast env) ?p (replicate k (Received q (re_cmsg b ?m))) = Inr (p', es) \<and>
    es = concat (replicate k (re_broadcastCommitmentToWitnesses env ?p b ?m ?ms @ re_broadcastCommitmentMessage ?p b ?m)) \<and>
    length (sends es) = k * (length (env_order env (re_potWitnessSet ?ms)) + length (re_pids ?p))"
    by (rule Suc.IH[OF rv]) (use Suc.prems(2,3) in simp_all)
  then obtain p' where rest: "run_inputs (re_HandleMessage env) (re_Broadcast env) ?p (replicate k (Received q (re_cmsg b ?m))) =
      Inr (p', concat (replicate k ?out))"
    and len: "length (sends (concat (replicate k ?out))) = k * (length (env_order env (re_potWitnessSet ms)) + length (re_pids p))"
    by auto
  have "length (sends ?out) = length (env_order env (re_potWitnessSet ms)) + length (re_pids p)"
    by (simp add: re_broadcastCommitmentToWitnesses_def re_broadcastCommitmentMessage_def re_send_eq)
  then show ?case using one rest len by (intro exI[of _ p'] exI[of _ "concat (replicate (Suc k) ?out)"]) simp
qed simp

section \<open>A closed state\<close>

text \<open>One process after the deliveries of two transactions: the first one is due to be revealed.\<close>

definition re_due_run :: "(re_Process \<times> re_Process \<times> effect list) go" where
  "re_due_run = go_bind re_sample_start (\<lambda>p0. go_bind (run_inputs (re_HandleMessage re_sample_env) (re_Broadcast re_sample_env) p0
     (re_sample_messages @ take 6 re_reveal_messages)) (\<lambda>(p, es). Inr (p0, p, es)))"

definition re_due_check :: "re_Process \<Rightarrow> bool" where
  "re_due_check p \<longleftrightarrow> (case re_state p re_tx of None \<Rightarrow> False | Some ms \<Rightarrow>
     re_delivered p re_tx = Some \<lparr>Value = 5, XHash = 0\<rparr> \<and> \<not> re_finallyCommitted p re_tx \<and> re_pids p = [''p0''] \<and>
     re_processIndex p = 0 \<and> re_isWitness p ms = Inr True \<and> ''p0'' \<in> re_ownWitnessSet ms \<and> re_revealFromProcesses ms = {} \<and>
     re_revealStage ms = InitialRevealStage \<and> re_processCount p = 1 \<and> re_shares p ms = [[]] \<and>
     re_PublicKeys p = [(0, 0)] \<and> re_encryptedShares ms = [[0, 0, 0, 0]] \<and> re_faultyProcesses p = 0 \<and> re_dataShares p = 1 \<and>
     re_MixingTime p = 1 \<and> re_deliveredMessagesCount p = 2 \<and> re_checkpoint_of p re_tx = 1)"

lemma re_due_checked: "case re_due_run of Inl e \<Rightarrow> False | Inr (p0, p, es) \<Rightarrow> re_due_check p"
  by code_simp

lemma re_due_obtain:
  obtains p ms where "re_due_check p" "re_state p re_tx = Some ms" "re_revealing p re_tx \<lparr>Value = 5, XHash = 0\<rparr> ms 0"
    "re_histories_ok (nat (re_processCount p)) 16 1 (re_historyHashes p)" "0 \<in> dom (re_finallyCommittedMessages p)"
proof -
  obtain p0 p es where run: "re_due_run = Inr (p0, p, es)" and c: "re_due_check p"
    using re_due_checked by (auto split: sum.splits)
  then have i: "re_InitProcess re_sample_env (\<lambda>_. [1]) (\<lambda>_. [1]) [(0, 0)] (Some (0, 0)) 1 0 [''p0'']
      re_sample_params False = Inr p0"
    and go: "run_inputs (re_HandleMessage re_sample_env) (re_Broadcast re_sample_env) p0 (re_sample_messages @ take 6 re_reveal_messages) = Inr (p, es)"
    by (auto simp: re_due_run_def go_simps re_sample_start_def)
  have "list_all re_is_message (re_sample_messages @ take 6 re_reveal_messages)"
    by (simp add: re_sample_messages_def re_reveal_messages_def Let_def)
  note r = re_reaches_messages[OF re_reaches.start go this]
  note cfg = re_config_fields[OF re_reaches_config[OF r]]
  have q: "go_quot (NodeIdSize re_sample_params) (NumberOfBins re_sample_params) = 4"
    "0 < NumberOfBins re_sample_params" "NumberOfBins re_sample_params < 2 ^ 64" "nat (NumberOfBins re_sample_params) = 1"
    by (simp_all add: re_sample_params_def)
  have h0: "re_histories_ok (nat (re_processCount p0)) 16 1 (re_historyHashes p0)"
    using re_start_histories[OF i q(2,3)] by (simp add: q(1,4) uint_pow2_def)
  obtain cs where "re_committed_as (set ([] @ re_sample_messages @ take 6 re_reveal_messages)) p (re_historyHashes p0) cs"
    using re_reaches_commits[OF r re_run_inv_start[OF i] re_start_views(2,3)[OF i]] by blast
  then have "go_fold (re_histories_add (nat (re_processCount p0))) (re_historyHashes p0) (map snd cs) = Inr (re_historyHashes p)"
    by (simp add: re_committed_as_def cfg(8))
  then have "re_histories_ok (nat (re_processCount p)) 16 1 (re_historyHashes p)"
    using re_histories.inserts_ok[OF h0, of "map snd cs"] by (simp add: cfg(8))
  moreover have "dom (re_finallyCommittedMessages p) = set (procs (length [''p0'']))" using cfg(17) re_start_views(6)[OF i] by simp
  then have "0 \<in> dom (re_finallyCommittedMessages p)" by (simp add: procs_def)
  moreover obtain ms where "re_state p re_tx = Some ms" using c by (auto simp: re_due_check_def split: option.splits)
  moreover have "re_revealing p re_tx \<lparr>Value = 5, XHash = 0\<rparr> ms 0"
    using c calculation(3) by (simp add: re_due_check_def re_revealing_def)
  ultimately show ?thesis using that c by blast
qed

theorem re_reveal_outcome_witness:
  "\<exists>p p' x. re_HandleMessage re_sample_env p 0 (re_cmsg re_tx (re_commitment Commitment_REVEAL [0, 0, 0, 0] [])) =
      Inr (p', re_broadcastCommitmentMessage p re_tx (re_commitment Commitment_DONE [] x)) \<and> re_hash x = 0 \<and>
    re_HandleMessage re_sample_env p 0 (re_cmsg re_tx (re_commitment Commitment_REVEAL [1] [])) = Inl FatalExit"
proof -
  obtain p ms where c: "re_due_check p" "re_state p re_tx = Some ms" and rv: "re_revealing p re_tx \<lparr>Value = 5, XHash = 0\<rparr> ms 0"
    by (rule re_due_obtain)
  note c = c(1)[unfolded re_due_check_def c(2) option.case]
  have pre: "re_isWitness p ms = Inr True" "0 \<notin> re_revealFromProcesses ms" "re_revealStage ms \<noteq> SentDoneToProcesses"
    "re_revealStage ms \<noteq> SentFailedToProcesses" "0 \<le> re_processCount p" "nat (sint (0 :: int32)) < length (re_shares p ms)"
    "nat (sint (0 :: int32)) < length (re_PublicKeys p)"
    "re_encryptedShares ms \<noteq> [] \<longrightarrow> nat (sint (0 :: int32)) < length (re_encryptedShares ms)"
    using c by simp_all
  note outcome = re_reveal_outcome[OF rv pre, of re_sample_env]
  have good: "re_share_matches re_sample_env p 0 [0, 0, 0, 0] ms"
    using c by (simp add: re_share_matches_def Encrypt_def re_sample_env_def)
  have bad: "\<not> re_share_matches re_sample_env p 0 [1] ms"
    using c by (simp add: re_share_matches_def Encrypt_def re_sample_env_def)
  have x: "go_map (\<lambda>i. go_bind (go_index [[0, 0, 0, 0]] (int i)) ToInt32) [0..<nat (re_dataShares p)] = Inr [0]"
    using c by simp code_simp
  have "env_reconstruct re_sample_env (re_dataShares p) (re_parityShares p) [[0, 0, 0, 0]] = Some [[0, 0, 0, 0]]"
    by (simp add: re_sample_env_def)
  then obtain p' where "re_HandleMessage re_sample_env p 0 (re_cmsg re_tx (re_commitment Commitment_REVEAL [0, 0, 0, 0] [])) =
      Inr (p', re_reveal_answer p re_tx \<lparr>Value = 5, XHash = 0\<rparr> [0])"
    using outcome[of "[0, 0, 0, 0]"] good x c by (auto simp: Let_def)
  moreover have "re_reveal_answer p re_tx \<lparr>Value = 5, XHash = 0\<rparr> [0] =
      re_broadcastCommitmentMessage p re_tx (re_commitment Commitment_DONE [] [0])"
    by (simp add: re_reveal_answer_def re_hash_def)
  moreover have "re_hash [0] = 0" by (simp add: re_hash_def)
  moreover have "re_HandleMessage re_sample_env p 0 (re_cmsg re_tx (re_commitment Commitment_REVEAL [1] [])) = Inl FatalExit"
    using outcome[of "[1]"] bad by (simp add: Let_def)
  ultimately show ?thesis by metis
qed

theorem re_done_forgeable_witness:
  "\<exists>p p' es. re_HandleMessage re_sample_env p 0 (re_cmsg re_tx (re_commitment Commitment_DONE [] [1, - 1])) = Inr (p', es) \<and>
    re_finallyCommitted p' re_tx"
proof -
  obtain p ms where c: "re_due_check p" "re_state p re_tx = Some ms" and rv: "re_revealing p re_tx \<lparr>Value = 5, XHash = 0\<rparr> ms 0"
    and h: "re_histories_ok (nat (re_processCount p)) 16 1 (re_historyHashes p)" "0 \<in> dom (re_finallyCommittedMessages p)"
    by (rule re_due_obtain)
  note c = c(1)[unfolded re_due_check_def c(2) option.case]
  have pre: "re_pids p ! nat (sint (0 :: int32)) \<in> re_ownWitnessSet ms" "0 \<le> sint (re_processIndex p)"
    "sint (re_processIndex p) < int (length (re_pids p))"
    "re_MixingTime p \<le> re_deliveredMessagesCount p - re_checkpoint_of p re_tx"
    using c by simp_all
  have author: "Author re_tx \<in> dom (re_finallyCommittedMessages p)" using h(2) by (simp add: re_tx_def)
  have "re_hash [1, - 1] = XHash \<lparr>Value = 5, XHash = 0\<rparr>" by (simp add: re_hash_def)
  then show ?thesis
    using re_done_forgeable[OF rv pre h(1) author, of re_sample_env] by blast
qed

theorem re_failed_storm_witness:
  "\<exists>p p' es. run_inputs (re_HandleMessage re_sample_env) (re_Broadcast re_sample_env) p
      (replicate 100 (Received 0 (re_cmsg re_tx (re_commitment Commitment_FAILED [] [])))) = Inr (p', es) \<and>
    100 \<le> length (sends es)"
proof -
  obtain p ms where c: "re_due_check p" "re_state p re_tx = Some ms" and rv: "re_revealing p re_tx \<lparr>Value = 5, XHash = 0\<rparr> ms 0"
    by (rule re_due_obtain)
  note c = c(1)[unfolded re_due_check_def c(2) option.case]
  have pre: "re_pids p ! nat (sint (0 :: int32)) \<in> re_ownWitnessSet ms" "re_isWitness p ms = Inr True"
    "re_revealStage ms \<noteq> SentFailedToWitnesses" "length (re_pids p) = 1"
    using c by simp_all
  obtain p' es where "run_inputs (re_HandleMessage re_sample_env) (re_Broadcast re_sample_env) p
      (replicate 100 (Received 0 (re_cmsg re_tx (re_commitment Commitment_FAILED [] [])))) = Inr (p', es)"
    and "length (sends es) = 100 * (length (env_order re_sample_env (re_potWitnessSet ms)) + length (re_pids p))"
    using re_failed_storm[OF rv pre(1-3), of re_sample_env 100] by blast
  then show ?thesis using pre(4) by (intro exI[of _ p] exI[of _ p'] exI[of _ es]) simp
qed

end
