(* ===== verification/Reliable_Progress.thy ===== *)
theory Reliable_Progress
  imports Reliable_Theorems
begin

text \<open>
  What one process of the reliable protocol does when messages keep arriving: a message that calls
  for a step is followed by it, a threshold that is reached has acted, and a stage that is reached
  has sent its messages. These are the facts behind \<open>Reliable_Validity\<close>.
\<close>

section \<open>The outcomes of one stage\<close>

definition re_self :: "re_Process \<Rightarrow> re_messageState \<Rightarrow> bool" where
  "re_self p ms \<longleftrightarrow> re_name (re_pids p) (re_processIndex p) \<in> re_potWitnessSet ms"

lemma re_isWitness_Inr: "re_isWitness p ms = Inr w \<Longrightarrow> w = re_self p ms"
  by (auto simp: re_isWitness_def re_self_def re_name_def go_simps)

lemma re_onNotify_out:
  assumes "re_onNotify p b m ms = Inr (ms', es)"
  obtains (ignored) "\<not> re_self p ms \<or> SentEchoFromWitness \<le> re_witnessStage ms" "ms' = ms" "es = []"
  | (echoes) sh own where "re_self p ms" "re_witnessStage ms = InitialWitnessStage"
      "ms' = ms\<lparr>re_encryptedShares := sh, re_ownEncryptedShare := own, re_witnessStage := SentEchoFromWitness\<rparr>"
      "\<And>i. i < nat (re_processCount p) \<Longrightarrow> Send (of_nat i) (re_rmsg b Reliable_ECHO_FROM_WITNESS (BroadcastMessage m) [EncryptedShares m ! i]) \<in> set es"
      "\<And>to c st bm sh. Send to (re_rmsg c st bm sh) \<in> set es \<Longrightarrow> c = b \<and> st = Reliable_ECHO_FROM_WITNESS \<and> bm = BroadcastMessage m"
proof -
  obtain w where w: "re_isWitness p ms = Inr w" using assms by (auto simp: re_onNotify_def elim: go_bindE)
  note self = re_isWitness_Inr[OF w]
  show ?thesis
  proof (cases "\<not> w \<or> SentEchoFromWitness \<le> re_witnessStage ms")
    case True
    have "ms' = ms" "es = []" using assms True by (simp_all add: re_onNotify_def w)
    with True[unfolded self] show ?thesis by (rule ignored)
  next
    case False
    have shares: "es = map (\<lambda>i. Send (of_nat i) (re_rmsg b Reliable_ECHO_FROM_WITNESS (BroadcastMessage m) [EncryptedShares m ! i])) is"
      if "go_map (\<lambda>i. go_bind (go_index (EncryptedShares m) (int i)) (\<lambda>share.
         Inr (re_sendProtocolMessage (of_nat i) b (re_msg Reliable_ECHO_FROM_WITNESS (BroadcastMessage m) [share])))) is = Inr es"
      for "is" es
      using that
    proof (induction "is" arbitrary: es)
      case (Cons i "is")
      then show ?case by (auto simp: go_simps re_send_eq)
    qed simp
    from assms False obtain own es0 where sh: "ms' = ms\<lparr>re_encryptedShares := EncryptedShares m, re_ownEncryptedShare := own, re_witnessStage := SentEchoFromWitness\<rparr>"
      "go_map (\<lambda>i. go_bind (go_index (EncryptedShares m) (int i)) (\<lambda>share.
         Inr (re_sendProtocolMessage (of_nat i) b (re_msg Reliable_ECHO_FROM_WITNESS (BroadcastMessage m) [share])))) [0..<nat (re_processCount p)] = Inr es"
      by (auto simp: re_onNotify_def w elim!: go_bindE)
    then have es: "ms' = ms\<lparr>re_encryptedShares := EncryptedShares m, re_ownEncryptedShare := own, re_witnessStage := SentEchoFromWitness\<rparr>"
      "es = map (\<lambda>i. Send (of_nat i) (re_rmsg b Reliable_ECHO_FROM_WITNESS (BroadcastMessage m) [EncryptedShares m ! i])) [0..<nat (re_processCount p)]"
      using shares by blast+
    have "re_witnessStage ms = InitialWitnessStage" using False by (cases "re_witnessStage ms") (simp_all add: re_stage_order)
    then show ?thesis using False self by (intro echoes[OF _ _ es(1)]) (auto simp: es(2))
  qed
qed

lemma re_onEchoFromWitness_out:
  assumes "re_onEchoFromWitness env p pid b m ms = Inr (ms', es)"
  obtains (ignored) "pid \<notin> re_ownWitnessSet ms \<or> SentEchoFromProcess \<le> re_stage ms" "ms' = ms" "es = []"
  | (echoes) share where "pid \<in> re_ownWitnessSet ms" "re_stage ms = InitialStage"
      "ms' = ms\<lparr>re_ownEncryptedShare := share, re_stage := SentEchoFromProcess\<rparr>"
      "es = re_broadcastToWitnesses env p b (re_msg Reliable_ECHO_FROM_PROCESS (BroadcastMessage m) []) ms"
proof (cases "pid \<notin> re_ownWitnessSet ms \<or> SentEchoFromProcess \<le> re_stage ms")
  case True
  have "ms' = ms" "es = []" using assms True by (simp_all add: re_onEchoFromWitness_def)
  with True show ?thesis by (rule ignored)
next
  case False
  then have "re_stage ms = InitialStage" by (cases "re_stage ms") (simp_all add: re_stage_order)
  moreover obtain share where "ms' = ms\<lparr>re_ownEncryptedShare := share, re_stage := SentEchoFromProcess\<rparr>"
    "es = re_broadcastToWitnesses env p b (re_msg Reliable_ECHO_FROM_PROCESS (BroadcastMessage m) []) ms"
    using assms False by (auto simp: re_onEchoFromWitness_def elim!: go_bindE)
  ultimately show ?thesis using False echoes by blast
qed

lemma re_onEchoFromProcess_out:
  assumes "re_onEchoFromProcess p q b m ms = Inr (ms', es)"
  obtains (ignored) "\<not> re_self p ms \<or> SentReadyFromWitness \<le> re_witnessStage ms \<or> re_echoFromProcesses ms q" "ms' = ms" "es = []"
  | (counted) bm ready where "re_witnessStage ms < SentReadyFromWitness" "BroadcastMessage m = Some bm"
      "ready \<longleftrightarrow> re_quorumThreshold p \<le> int (re_echoFromProcessesStat (re_vote_echo q (Value bm) ms) (Value bm))"
      "re_echoFromProcesses (re_vote_echo q (Value bm) ms) q"
      "ms' = (re_vote_echo q (Value bm) ms)\<lparr>re_witnessStage := if ready then SentReadyFromWitness else re_witnessStage ms\<rparr>"
      "es = (if ready then re_broadcastProtocolMessage p b (re_msg Reliable_READY_FROM_WITNESS (Some bm) []) else [])"
proof -
  obtain w where w: "re_isWitness p ms = Inr w" using assms by (auto simp: re_onEchoFromProcess_def elim: go_bindE)
  note self = re_isWitness_Inr[OF w]
  show ?thesis
  proof (cases "\<not> w \<or> SentReadyFromWitness \<le> re_witnessStage ms \<or> re_echoFromProcesses ms q")
    case True
    have "ms' = ms" "es = []" using assms True by (simp_all add: re_onEchoFromProcess_def w)
    with True[unfolded self] show ?thesis by (rule ignored)
  next
    case False
    obtain bm where bm: "BroadcastMessage m = Some bm"
      using assms False by (auto simp: re_onEchoFromProcess_def w go_simps go_deref_def split: option.splits)
    define ms1 where "ms1 = re_vote_echo q (Value bm) ms"
    have e: "ms\<lparr>re_echoFromProcesses := (re_echoFromProcesses ms)(q := True),
        re_echoFromProcessesStat := (re_echoFromProcessesStat ms)(Value bm := Suc (re_echoFromProcessesStat ms (Value bm)))\<rparr> = ms1"
      using False by (simp add: ms1_def re_vote_echo_def)
    have "re_onEchoFromProcess p q b m ms = (if re_quorumThreshold p \<le> int (re_echoFromProcessesStat ms1 (Value bm))
        then Inr (re_broadcastReadyFromWitness p b bm ms1) else Inr (ms1, []))"
      using False by (simp only: re_onEchoFromProcess_def w bm go_deref_def go_bind.simps option.case Let_def e if_False)
    moreover have f: "re_echoFromProcesses ms1 q" "ms1\<lparr>re_witnessStage := re_witnessStage ms\<rparr> = ms1" "re_witnessStage ms < SentReadyFromWitness"
      using False by (simp_all add: ms1_def re_vote_echo_def not_le)
    moreover define ready where "ready \<longleftrightarrow> re_quorumThreshold p \<le> int (re_echoFromProcessesStat ms1 (Value bm))"
    ultimately have "ms' = ms1\<lparr>re_witnessStage := if ready then SentReadyFromWitness else re_witnessStage ms\<rparr>"
      "es = (if ready then re_broadcastProtocolMessage p b (re_msg Reliable_READY_FROM_WITNESS (Some bm) []) else [])"
      using assms by (simp_all add: re_broadcastReadyFromWitness_def split: if_splits)
    then show ?thesis by (rule counted[OF f(3) bm ready_def[unfolded ms1_def] f(1)[unfolded ms1_def], folded ms1_def])
  qed
qed

lemma re_onReadyFromWitness_out:
  assumes "re_onReadyFromWitness env p q pid b m ms = Inr (ms', es)"
  obtains (ignored) "pid \<notin> re_ownWitnessSet ms \<or> SentReadyFromProcess \<le> re_stage ms \<or> re_readyFromWitnesses ms q" "ms' = ms" "es = []"
  | (counted) bm ready where "pid \<in> re_ownWitnessSet ms" "re_stage ms < SentReadyFromProcess" "BroadcastMessage m = Some bm"
      "ready \<longleftrightarrow> re_witnessThreshold p \<le> int (re_readyFromWitnessesStat (re_vote_witness q (Value bm) ms) (Value bm))"
      "re_readyFromWitnesses (re_vote_witness q (Value bm) ms) q"
      "ms' = (re_vote_witness q (Value bm) ms)\<lparr>re_stage := if ready then SentReadyFromProcess else re_stage ms\<rparr>"
      "es = (if ready then re_broadcastToWitnesses env p b (re_msg Reliable_READY_FROM_PROCESS (Some bm) []) ms else [])"
proof (cases "pid \<notin> re_ownWitnessSet ms \<or> SentReadyFromProcess \<le> re_stage ms \<or> re_readyFromWitnesses ms q")
  case True
  have "ms' = ms" "es = []" using assms True by (simp_all add: re_onReadyFromWitness_def)
  with True show ?thesis by (rule ignored)
next
  case False
  obtain bm where bm: "BroadcastMessage m = Some bm"
    using assms False by (auto simp: re_onReadyFromWitness_def go_simps go_deref_def split: option.splits)
  define ms1 where "ms1 = re_vote_witness q (Value bm) ms"
  have e: "ms\<lparr>re_readyFromWitnesses := (re_readyFromWitnesses ms)(q := True),
      re_readyFromWitnessesStat := (re_readyFromWitnessesStat ms)(Value bm := Suc (re_readyFromWitnessesStat ms (Value bm)))\<rparr> = ms1"
    using False by (simp add: ms1_def re_vote_witness_def)
  have "re_onReadyFromWitness env p q pid b m ms =
      (if re_witnessThreshold p \<le> int (re_readyFromWitnessesStat ms1 (Value bm))
       then Inr (ms1\<lparr>re_stage := SentReadyFromProcess\<rparr>,
         re_broadcastToWitnesses env p b (re_msg Reliable_READY_FROM_PROCESS (Some bm) []) ms1)
       else Inr (ms1, []))"
    using False by (simp only: re_onReadyFromWitness_def bm go_deref_def go_bind.simps option.case Let_def e if_False)
  moreover have f: "re_readyFromWitnesses ms1 q" "ms1\<lparr>re_stage := re_stage ms\<rparr> = ms1" "pid \<in> re_ownWitnessSet ms" "re_stage ms < SentReadyFromProcess"
    using False by (simp_all add: ms1_def re_vote_witness_def not_le)
  moreover have "re_broadcastToWitnesses env p b x ms1 = re_broadcastToWitnesses env p b x ms" for x
    by (simp add: ms1_def re_broadcastToWitnesses_def)
  moreover define ready where "ready \<longleftrightarrow> re_witnessThreshold p \<le> int (re_readyFromWitnessesStat ms1 (Value bm))"
  ultimately have "ms' = ms1\<lparr>re_stage := if ready then SentReadyFromProcess else re_stage ms\<rparr>"
    "es = (if ready then re_broadcastToWitnesses env p b (re_msg Reliable_READY_FROM_PROCESS (Some bm) []) ms else [])"
    using assms by (simp_all split: if_splits)
  then show ?thesis by (rule counted[OF f(3,4) bm ready_def[unfolded ms1_def] f(1)[unfolded ms1_def], folded ms1_def])
qed

lemma re_onReadyFromProcess_out:
  assumes "re_onReadyFromProcess p q b m ms = Inr (ms', es)"
  obtains (ignored) "\<not> re_self p ms \<or> re_readyFromProcesses ms q" "ms' = ms" "es = []"
  | (counted) bm ready validate where "BroadcastMessage m = Some bm" "re_self p ms"
      "ready \<longleftrightarrow> re_witnessStage ms < SentReadyFromWitness \<and>
         re_readyMessagesThreshold p \<le> int (re_readyFromProcessesStat (re_vote_ready q (Value bm) ms) (Value bm))"
      "validate \<longleftrightarrow> re_witnessStage ms < SentValidate \<and>
         re_quorumThreshold p \<le> int (re_readyFromProcessesStat (re_vote_ready q (Value bm) ms) (Value bm))"
      "re_readyFromProcesses (re_vote_ready q (Value bm) ms) q"
      "ms' = (re_vote_ready q (Value bm) ms)\<lparr>re_witnessStage :=
         if validate then SentValidate else if ready then SentReadyFromWitness else re_witnessStage ms\<rparr>"
      "es = (if ready then re_broadcastProtocolMessage p b (re_msg Reliable_READY_FROM_WITNESS (Some bm) []) else []) @
         (if validate then re_broadcastProtocolMessage p b (re_msg Reliable_VALIDATE (Some bm) []) else [])"
proof -
  obtain w where w: "re_isWitness p ms = Inr w" using assms by (auto simp: re_onReadyFromProcess_def elim: go_bindE)
  note self = re_isWitness_Inr[OF w]
  show ?thesis
  proof (cases "\<not> w \<or> re_readyFromProcesses ms q")
    case True
    have "ms' = ms" "es = []" using assms True by (simp_all add: re_onReadyFromProcess_def w)
    with True[unfolded self] show ?thesis by (rule ignored)
  next
    case False
    obtain bm where bm: "BroadcastMessage m = Some bm"
      using assms False by (auto simp: re_onReadyFromProcess_def w go_simps go_deref_def split: option.splits)
    define ms1 where "ms1 = re_vote_ready q (Value bm) ms"
    have e: "ms\<lparr>re_readyFromProcesses := (re_readyFromProcesses ms)(q := True),
        re_readyFromProcessesStat := (re_readyFromProcessesStat ms)(Value bm := Suc (re_readyFromProcessesStat ms (Value bm)))\<rparr> = ms1"
      using False by (simp add: ms1_def re_vote_ready_def)
    have ws: "re_witnessStage ms1 = re_witnessStage ms" by (simp add: ms1_def)
    define ready where "ready \<longleftrightarrow> re_witnessStage ms < SentReadyFromWitness \<and>
        re_readyMessagesThreshold p \<le> int (re_readyFromProcessesStat ms1 (Value bm))"
    define ms2 where "ms2 = ms1\<lparr>re_witnessStage := if ready then SentReadyFromWitness else re_witnessStage ms\<rparr>"
    define validate where "validate \<longleftrightarrow> re_witnessStage ms < SentValidate \<and>
        re_quorumThreshold p \<le> int (re_readyFromProcessesStat ms1 (Value bm))"
    have two: "(if ready then re_broadcastReadyFromWitness p b bm ms1 else (ms1, [])) =
        (ms2, if ready then re_broadcastProtocolMessage p b (re_msg Reliable_READY_FROM_WITNESS (Some bm) []) else [])"
      using ws by (simp add: ms2_def re_broadcastReadyFromWitness_def)
    have v: "re_witnessStage ms2 < SentValidate \<and> re_quorumThreshold p \<le> int (re_readyFromProcessesStat ms2 (Value bm)) \<longleftrightarrow> validate"
      by (cases "re_witnessStage ms") (auto simp: ms2_def validate_def ready_def re_stage_order)
    have "re_onReadyFromProcess p q b m ms =
        (let (ms2, es1) = (if ready then re_broadcastReadyFromWitness p b bm ms1 else (ms1, [])) in
         if re_witnessStage ms2 < SentValidate \<and> re_quorumThreshold p \<le> int (re_readyFromProcessesStat ms2 (Value bm))
         then Inr (ms2\<lparr>re_witnessStage := SentValidate\<rparr>,
           es1 @ re_broadcastProtocolMessage p b (re_msg Reliable_VALIDATE (Some bm) []))
         else Inr (ms2, es1))"
      unfolding ready_def ws[symmetric] using False
      by (simp only: re_onReadyFromProcess_def w bm go_deref_def go_bind.simps option.case Let_def e if_False)
    then have r: "ms' = (if validate then ms2\<lparr>re_witnessStage := SentValidate\<rparr> else ms2)"
      "es = (if ready then re_broadcastProtocolMessage p b (re_msg Reliable_READY_FROM_WITNESS (Some bm) []) else []) @
         (if validate then re_broadcastProtocolMessage p b (re_msg Reliable_VALIDATE (Some bm) []) else [])"
      using assms by (simp_all add: two v Let_def split: if_splits)
    have f: "re_readyFromProcesses ms1 q" using False by (simp add: ms1_def re_vote_ready_def)
    have "ms' = ms1\<lparr>re_witnessStage := if validate then SentValidate else if ready then SentReadyFromWitness else re_witnessStage ms\<rparr>"
      by (simp add: r(1) ms2_def)
    from counted[OF bm _ ready_def[unfolded ms1_def] validate_def[unfolded ms1_def] f[unfolded ms1_def], folded ms1_def, OF _ this r(2)]
    show ?thesis using False self by simp
  qed
qed

lemma re_onValidate_out:
  assumes "re_onValidate p q pid m ms = Inr (ms', d)"
  obtains (ignored) "pid \<notin> re_ownWitnessSet ms \<or> re_stage ms = Delivered \<or> re_validateFromWitnesses ms q" "ms' = ms" "d = None"
  | (counted) bm where "pid \<in> re_ownWitnessSet ms" "re_stage ms \<noteq> Delivered" "BroadcastMessage m = Some bm"
      "ms' = re_vote_validate q (Value bm) ms" "re_validateFromWitnesses ms' q"
      "d = (if re_witnessThreshold p \<le> int (re_validatesStat ms' (Value bm)) then Some bm else None)"
proof -
  have st: "Delivered \<le> s \<longleftrightarrow> s = Delivered" for s by (cases s) (simp_all add: re_stage_order)
  show ?thesis
  proof (cases "pid \<notin> re_ownWitnessSet ms \<or> Delivered \<le> re_stage ms \<or> re_validateFromWitnesses ms q")
    case True
    have "ms' = ms" "d = None" using assms True by (simp_all add: re_onValidate_def st)
    with True[unfolded st] show ?thesis by (rule ignored)
  next
    case False
    obtain bm where bm: "BroadcastMessage m = Some bm"
      using assms False by (auto simp: re_onValidate_def go_simps go_deref_def split: option.splits)
    define ms1 where "ms1 = re_vote_validate q (Value bm) ms"
    have e: "ms\<lparr>re_validateFromWitnesses := (re_validateFromWitnesses ms)(q := True),
        re_validatesStat := (re_validatesStat ms)(Value bm := Suc (re_validatesStat ms (Value bm)))\<rparr> = ms1"
      using False by (simp add: ms1_def re_vote_validate_def)
    have "re_onValidate p q pid m ms =
        Inr (ms1, if re_witnessThreshold p \<le> int (re_validatesStat ms1 (Value bm)) then Some bm else None)"
      using False by (simp only: re_onValidate_def bm go_deref_def go_bind.simps option.case Let_def e if_False)
    then have r: "ms' = ms1" "d = (if re_witnessThreshold p \<le> int (re_validatesStat ms' (Value bm)) then Some bm else None)"
      using assms by simp_all
    have "re_validateFromWitnesses ms' q" "pid \<in> re_ownWitnessSet ms" "re_stage ms \<noteq> Delivered"
      using False by (simp_all add: r(1) ms1_def re_vote_validate_def st)
    then show ?thesis using counted[OF _ _ bm r(1)[unfolded ms1_def] _ r(2)] by blast
  qed
qed

section \<open>What a message state owes\<close>

text \<open>A message from \<open>q\<close> has been answered: what it calls for has been done, or its vote is counted.\<close>

fun re_answered :: "re_Process \<Rightarrow> re_messageState \<Rightarrow> ProcessId \<Rightarrow> ReliableProtocolMessage_Stage \<Rightarrow> bool" where
  "re_answered p ms q Reliable_NOTIFY = (re_self p ms \<longrightarrow> SentEchoFromWitness \<le> re_witnessStage ms)"
| "re_answered p ms q Reliable_ECHO_FROM_WITNESS =
     (re_name (re_pids p) q \<in> re_ownWitnessSet ms \<longrightarrow> SentEchoFromProcess \<le> re_stage ms)"
| "re_answered p ms q Reliable_ECHO_FROM_PROCESS =
     (re_self p ms \<longrightarrow> SentReadyFromWitness \<le> re_witnessStage ms \<or> re_echoFromProcesses ms q)"
| "re_answered p ms q Reliable_READY_FROM_WITNESS =
     (re_name (re_pids p) q \<in> re_ownWitnessSet ms \<longrightarrow> SentReadyFromProcess \<le> re_stage ms \<or> re_readyFromWitnesses ms q)"
| "re_answered p ms q Reliable_READY_FROM_PROCESS = (re_self p ms \<longrightarrow> re_readyFromProcesses ms q)"
| "re_answered p ms q Reliable_VALIDATE =
     (re_name (re_pids p) q \<in> re_ownWitnessSet ms \<longrightarrow> re_stage ms = Delivered \<or> re_validateFromWitnesses ms q)"
| "re_answered p ms q (Reliable_OTHER k) = True"

definition re_noticed :: "re_Process \<Rightarrow> input set \<Rightarrow> BroadcastInstance \<Rightarrow> re_messageState \<Rightarrow> bool" where
  "re_noticed p R b ms \<longleftrightarrow> (\<forall>q st v. re_heard R q b st v \<longrightarrow> re_answered p ms q st)"

text \<open>No threshold is reached without its consequence.\<close>

definition re_triggered :: "re_Process \<Rightarrow> re_messageState \<Rightarrow> bool" where
  "re_triggered p ms \<longleftrightarrow> (\<forall>v.
     (re_quorumThreshold p \<le> int (re_echoFromProcessesStat ms v) \<longrightarrow> SentReadyFromWitness \<le> re_witnessStage ms) \<and>
     (re_quorumThreshold p \<le> int (re_readyFromProcessesStat ms v) \<longrightarrow> re_witnessStage ms = SentValidate) \<and>
     (re_witnessThreshold p \<le> int (re_readyFromWitnessesStat ms v) \<longrightarrow> SentReadyFromProcess \<le> re_stage ms) \<and>
     (re_witnessThreshold p \<le> int (re_validatesStat ms v) \<longrightarrow> re_stage ms = Delivered))"

definition re_counts :: "re_Process \<Rightarrow> input set \<Rightarrow> BroadcastInstance \<Rightarrow> re_messageState \<Rightarrow> bool" where
  "re_counts p R b ms \<longleftrightarrow>
     tally (re_echoFromProcesses ms) (re_echoFromProcessesStat ms) (re_heard_votes p R b Reliable_ECHO_FROM_PROCESS) \<and>
     tally (re_readyFromWitnesses ms) (re_readyFromWitnessesStat ms) (re_heard_votes p R b Reliable_READY_FROM_WITNESS) \<and>
     tally (re_readyFromProcesses ms) (re_readyFromProcessesStat ms) (re_heard_votes p R b Reliable_READY_FROM_PROCESS)"

text \<open>A stage that is reached has sent its messages to all its receivers \<open>T\<close>.\<close>

definition re_sent_to :: "effect set \<Rightarrow> ProcessId set \<Rightarrow> BroadcastInstance \<Rightarrow> ReliableProtocolMessage_Stage \<Rightarrow> bool" where
  "re_sent_to E T b st \<longleftrightarrow> (\<forall>to\<in>T. \<exists>bm sh. Send to (re_rmsg b st bm sh) \<in> E)"

definition re_potWitnesses :: "re_Process \<Rightarrow> re_messageState \<Rightarrow> ProcessId set" where
  "re_potWitnesses p ms = re_index p ` re_potWitnessSet ms"

definition re_witness_sent :: "re_Process \<Rightarrow> effect set \<Rightarrow> BroadcastInstance \<Rightarrow> re_WitnessStage \<Rightarrow> bool" where
  "re_witness_sent p E b w \<longleftrightarrow>
     (w = SentEchoFromWitness \<longrightarrow> re_sent_to E (set (procs (nat (re_processCount p)))) b Reliable_ECHO_FROM_WITNESS) \<and>
     (SentReadyFromWitness \<le> w \<longrightarrow> re_sent_to E (set (procs (length (re_pids p)))) b Reliable_READY_FROM_WITNESS) \<and>
     (w = SentValidate \<longrightarrow> re_sent_to E (set (procs (length (re_pids p)))) b Reliable_VALIDATE)"

definition re_process_sent :: "effect set \<Rightarrow> ProcessId set \<Rightarrow> BroadcastInstance \<Rightarrow> re_Stage \<Rightarrow> bool" where
  "re_process_sent E T b s \<longleftrightarrow>
     (s = SentEchoFromProcess \<longrightarrow> re_sent_to E T b Reliable_ECHO_FROM_PROCESS) \<and>
     (s = SentReadyFromProcess \<longrightarrow> re_sent_to E T b Reliable_READY_FROM_PROCESS)"

text \<open>The stages whose messages go to the potential witnesses: all of them get what one gets.\<close>

definition re_to_witnesses :: "ReliableProtocolMessage_Stage set" where
  "re_to_witnesses = {Reliable_NOTIFY, Reliable_ECHO_FROM_PROCESS, Reliable_READY_FROM_PROCESS}"

definition re_has_sent :: "re_Process \<Rightarrow> effect set \<Rightarrow> BroadcastInstance \<Rightarrow> re_messageState \<Rightarrow> bool" where
  "re_has_sent p E b ms \<longleftrightarrow> re_witness_sent p E b (re_witnessStage ms) \<and>
     re_process_sent E (re_potWitnesses p ms) b (re_stage ms) \<and>
     (\<forall>st v. st \<in> re_to_witnesses \<longrightarrow> re_says E b st v \<longrightarrow> re_sent_to E (re_potWitnesses p ms) b st)"

definition re_live :: "re_Process \<Rightarrow> input set \<Rightarrow> effect set \<Rightarrow> BroadcastInstance \<Rightarrow> re_messageState \<Rightarrow> bool" where
  "re_live p R E b ms \<longleftrightarrow> finite (re_potWitnessSet ms) \<and> re_noticed p R b ms \<and> re_triggered p ms \<and>
     re_counts p R b ms \<and> re_has_sent p E b ms"

text \<open>What a process has said is justified by what it has received.\<close>

definition re_justified :: "re_Process \<Rightarrow> input set \<Rightarrow> effect set \<Rightarrow> BroadcastInstance \<Rightarrow> bool" where
  "re_justified p R E b \<longleftrightarrow>
     (\<forall>v. re_says E b Reliable_READY_FROM_WITNESS v \<longrightarrow>
        re_quorumThreshold p \<le> int (card {q. (q, v) \<in> re_heard_votes p R b Reliable_ECHO_FROM_PROCESS}) \<or>
        re_readyMessagesThreshold p \<le> int (card {q. (q, v) \<in> re_heard_votes p R b Reliable_READY_FROM_PROCESS})) \<and>
     (\<forall>v. re_says E b Reliable_READY_FROM_PROCESS v \<longrightarrow>
        re_witnessThreshold p \<le> int (card {q. (q, v) \<in> re_heard_votes p R b Reliable_READY_FROM_WITNESS})) \<and>
     (\<forall>to st bm sh. Send to (re_rmsg b st bm sh) \<in> E \<longrightarrow> (if st = Reliable_NOTIFY then bm \<noteq> None
        else \<exists>q st' sh'. Received q (re_rmsg b st' bm sh') \<in> R)) \<and>
     (\<forall>v w. re_says E b Reliable_NOTIFY v \<longrightarrow> re_says E b Reliable_NOTIFY w \<longrightarrow> v = w) \<and>
     (\<forall>v. re_says E b Reliable_NOTIFY v \<longrightarrow> Author b = re_processIndex p)"

text \<open>The thresholds a system of at least \<open>f\<close> processes configures.\<close>

definition re_thresholds_ok :: "re_Process \<Rightarrow> bool" where
  "re_thresholds_ok p \<longleftrightarrow> 0 < re_readyMessagesThreshold p \<and> re_readyMessagesThreshold p \<le> re_quorumThreshold p \<and>
     0 < re_witnessThreshold p"

section \<open>More messages\<close>

lemma re_heard_insert:
  "re_heard (insert (Received q (re_rmsg b st bm sh)) R) q' c st' v \<longleftrightarrow>
     re_heard R q' c st' v \<or> q' = q \<and> c = b \<and> st' = st \<and> map_option Value bm = Some v"
  by (auto simp: re_heard_def)

lemma re_heard_insert_other:
  "re_heard (insert (Received q (re_cmsg b m)) R) q' c st v = re_heard R q' c st v"
  "re_heard (insert (Request w) R) q' c st v = re_heard R q' c st v"
  by (auto simp: re_heard_def)

lemma re_send_broadcast:
  "Send to (re_rmsg c st bm sh) \<in> set (re_broadcastProtocolMessage p b (re_msg st' bm' sh')) \<longleftrightarrow>
     to \<in> set (procs (length (re_pids p))) \<and> c = b \<and> st = st' \<and> bm = bm' \<and> sh = sh'"
  by (auto simp: re_broadcastProtocolMessage_def re_send_eq procs_def)

lemma re_send_witnesses:
  "Send to (re_rmsg c st bm sh) \<in> set (re_broadcastToWitnesses env p b (re_msg st' bm' sh') ms) \<longleftrightarrow>
     to \<in> re_index p ` set (env_order env (re_potWitnessSet ms)) \<and> c = b \<and> st = st' \<and> bm = bm' \<and> sh = sh'"
  by (auto simp: re_broadcastToWitnesses_def re_send_eq)

lemma re_says_send: "re_says E b st v \<longleftrightarrow> (\<exists>to bm sh. Send to (re_rmsg b st (Some bm) sh) \<in> E \<and> Value bm = v)"
  by (auto simp: re_says_def re_about_def)

lemma re_sent_to_mono: "re_sent_to E T b st \<Longrightarrow> E \<subseteq> E' \<Longrightarrow> re_sent_to E' T b st"
  unfolding re_sent_to_def by blast

lemma re_counts_mono: "re_counts p R b ms \<Longrightarrow> R \<subseteq> R' \<Longrightarrow> re_counts p R' b ms"
  unfolding re_counts_def by (intro conjI; elim conjE; erule tally_mono, rule re_heard_votes_mono)

text \<open>Message states only move forward.\<close>

definition re_forward :: "re_messageState \<Rightarrow> re_messageState \<Rightarrow> bool" where
  "re_forward ms ms' \<longleftrightarrow> re_ownWitnessSet ms' = re_ownWitnessSet ms \<and> re_potWitnessSet ms' = re_potWitnessSet ms \<and>
     re_stage ms \<le> re_stage ms' \<and> re_witnessStage ms \<le> re_witnessStage ms' \<and>
     (\<forall>q. (re_echoFromProcesses ms q \<longrightarrow> re_echoFromProcesses ms' q) \<and>
          (re_readyFromWitnesses ms q \<longrightarrow> re_readyFromWitnesses ms' q) \<and>
          (re_readyFromProcesses ms q \<longrightarrow> re_readyFromProcesses ms' q) \<and>
          (re_validateFromWitnesses ms q \<longrightarrow> re_validateFromWitnesses ms' q))"

lemma re_stage_top [simp]: "Delivered \<le> s \<longleftrightarrow> s = Delivered" "s \<le> Delivered"
  by (cases s; simp add: re_stage_order)+

lemma re_witnessStage_top [simp]: "w \<le> SentValidate" "InitialWitnessStage \<le> w"
  by (cases w; simp add: re_stage_order)+

lemma re_stage_bottom [simp]: "InitialStage \<le> s"
  by (cases s) (simp_all add: re_stage_order)

lemma re_forward_answered:
  assumes "re_forward ms ms'" "re_answered p ms q st"
  shows "re_answered p ms' q st"
proof -
  have "re_stage ms = Delivered \<Longrightarrow> re_stage ms' = Delivered" using assms(1) by (simp add: re_forward_def)
  then show ?thesis using assms
    by (cases st) (auto simp: re_forward_def re_self_def intro: order_trans)
qed

lemma re_noticed_step:
  assumes "re_noticed p R b ms" "re_forward ms ms'"
    and "\<And>bm. BroadcastMessage rm = Some bm \<Longrightarrow> re_answered p ms' q (ReliableStage rm)"
  shows "re_noticed p (insert (Received q (re_rmsg b (ReliableStage rm) (BroadcastMessage rm) (EncryptedShares rm))) R) b ms'"
  unfolding re_noticed_def
proof (intro allI impI)
  fix q' st v
  assume "re_heard (insert (Received q (re_rmsg b (ReliableStage rm) (BroadcastMessage rm) (EncryptedShares rm))) R) q' b st v"
  then consider "re_heard R q' b st v"
    | bm where "q' = q" "st = ReliableStage rm" "BroadcastMessage rm = Some bm" unfolding re_heard_insert by blast
  then show "re_answered p ms' q' st"
  proof cases
    case 1
    then show ?thesis using assms(1) re_forward_answered[OF assms(2)] unfolding re_noticed_def by blast
  next
    case (2 bm)
    then show ?thesis using assms(3) by simp
  qed
qed

lemma re_justified_step:
  assumes j: "re_justified p R E b" and R: "R \<subseteq> R'"
    and send: "\<And>to st bm sh. Send to (re_rmsg b st bm sh) \<in> E' \<Longrightarrow>
      st \<noteq> Reliable_NOTIFY \<and> (\<exists>q st' sh'. Received q (re_rmsg b st' bm sh') \<in> R')"
    and witness: "\<And>v. re_says E' b Reliable_READY_FROM_WITNESS v \<Longrightarrow>
        re_quorumThreshold p \<le> int (card {q. (q, v) \<in> re_heard_votes p R' b Reliable_ECHO_FROM_PROCESS}) \<or>
        re_readyMessagesThreshold p \<le> int (card {q. (q, v) \<in> re_heard_votes p R' b Reliable_READY_FROM_PROCESS})"
    and process: "\<And>v. re_says E' b Reliable_READY_FROM_PROCESS v \<Longrightarrow>
        re_witnessThreshold p \<le> int (card {q. (q, v) \<in> re_heard_votes p R' b Reliable_READY_FROM_WITNESS})"
  shows "re_justified p R' (E \<union> E') b"
proof -
  have mono: "k \<le> int (card {q. (q, v) \<in> re_heard_votes p R' b st})"
    if "k \<le> int (card {q. (q, v) \<in> re_heard_votes p R b st})" for k v st
    using that re_heard_votes_card_mono[OF R, of v p b st] by linarith
  have no: "\<not> re_says E' b Reliable_NOTIFY v" for v using send unfolding re_says_send by blast
  have "if st = Reliable_NOTIFY then bm \<noteq> None else \<exists>q st' sh'. Received q (re_rmsg b st' bm sh') \<in> R'"
    if "Send to (re_rmsg b st bm sh) \<in> E \<union> E'" for to st bm sh
  proof (cases "Send to (re_rmsg b st bm sh) \<in> E")
    case True
    then show ?thesis using j R unfolding re_justified_def by (metis (no_types, lifting) subsetD)
  next
    case False
    then show ?thesis using that send[of to st bm sh] by simp
  qed
  then show ?thesis using j mono witness process no unfolding re_justified_def re_says_Un by blast
qed

section \<open>One stage keeps what a message state owes\<close>

text \<open>
  The message state after a stage that delivers is given the stage \<open>Delivered\<close> by the caller;
  \<open>re_settle d ms\<close> is the message state it ends with.
\<close>

definition re_settle :: "'a option \<Rightarrow> re_messageState \<Rightarrow> re_messageState" where
  "re_settle d ms = (if d = None then ms else ms\<lparr>re_stage := Delivered\<rparr>)"

lemma re_settle_None [simp]: "re_settle None ms = ms"
  by (simp add: re_settle_def)

text \<open>Received from a member of the system, with thresholds that make sense.\<close>

definition re_setting :: "re_env \<Rightarrow> re_Process \<Rightarrow> ProcessId \<Rightarrow> bool" where
  "re_setting env p q \<longleftrightarrow> (\<forall>A. finite A \<longrightarrow> set (env_order env A) = A) \<and> re_thresholds_ok p \<and>
     0 \<le> sint q \<and> sint q < int (length (re_pids p))"

text \<open>\<open>re_owed\<close> is what the next lemmas keep: the debts of the message state and the justifications.\<close>

definition re_owed :: "re_Process \<Rightarrow> input set \<Rightarrow> effect set \<Rightarrow> BroadcastInstance \<Rightarrow> re_messageState \<Rightarrow> bool" where
  "re_owed p R E b ms \<longleftrightarrow> re_live p R E b ms \<and> re_justified p R E b"

abbreviation re_input :: "ProcessId \<Rightarrow> BroadcastInstance \<Rightarrow> ReliableProtocolMessage \<Rightarrow> input" where
  "re_input q b rm \<equiv> Received q (re_rmsg b (ReliableStage rm) (BroadcastMessage rm) (EncryptedShares rm))"

lemma re_owed_step:
  assumes o: "re_owed p R E b ms" and fw: "re_forward ms ms'"
    and ans: "\<And>bm. BroadcastMessage rm = Some bm \<Longrightarrow> re_answered p ms' q (ReliableStage rm)"
    and tr: "re_triggered p ms'" and co: "re_counts p (insert (re_input q b rm) R) b ms'"
    and sent: "re_has_sent p (E \<union> set es) b ms'"
    and send: "\<And>to c st bm sh. Send to (re_rmsg c st bm sh) \<in> set es \<Longrightarrow> st \<noteq> Reliable_NOTIFY \<and> c = b \<and> bm = BroadcastMessage rm"
    and witness: "\<And>v. re_says (set es) b Reliable_READY_FROM_WITNESS v \<Longrightarrow>
        re_quorumThreshold p \<le> int (re_echoFromProcessesStat ms' v) \<or>
        re_readyMessagesThreshold p \<le> int (re_readyFromProcessesStat ms' v)"
    and process: "\<And>v. re_says (set es) b Reliable_READY_FROM_PROCESS v \<Longrightarrow>
        re_witnessThreshold p \<le> int (re_readyFromWitnessesStat ms' v)"
  shows "re_owed p (insert (re_input q b rm) R) (E \<union> set es) b ms'"
proof -
  let ?R = "insert (re_input q b rm) R"
  have R: "R \<subseteq> ?R" by blast
  have le: "int (re_echoFromProcessesStat ms' v) \<le> int (card {q. (q, v) \<in> re_heard_votes p ?R b Reliable_ECHO_FROM_PROCESS})"
    "int (re_readyFromWitnessesStat ms' v) \<le> int (card {q. (q, v) \<in> re_heard_votes p ?R b Reliable_READY_FROM_WITNESS})"
    "int (re_readyFromProcessesStat ms' v) \<le> int (card {q. (q, v) \<in> re_heard_votes p ?R b Reliable_READY_FROM_PROCESS})" for v
    using co unfolding re_counts_def of_nat_le_iff by (blast intro: tally_le)+
  have "re_justified p ?R (E \<union> set es) b"
  proof (rule re_justified_step[OF _ R])
    show "re_justified p R E b" using o by (simp add: re_owed_def)
    show "st \<noteq> Reliable_NOTIFY \<and> (\<exists>q st' sh'. Received q (re_rmsg b st' bm sh') \<in> ?R)"
      if "Send to (re_rmsg b st bm sh) \<in> set es" for to st bm sh using send[OF that] by blast
    show "re_quorumThreshold p \<le> int (card {q. (q, v) \<in> re_heard_votes p ?R b Reliable_ECHO_FROM_PROCESS}) \<or>
        re_readyMessagesThreshold p \<le> int (card {q. (q, v) \<in> re_heard_votes p ?R b Reliable_READY_FROM_PROCESS})"
      if "re_says (set es) b Reliable_READY_FROM_WITNESS v" for v using witness[OF that] le(1,3)[of v] by linarith
    show "re_witnessThreshold p \<le> int (card {q. (q, v) \<in> re_heard_votes p ?R b Reliable_READY_FROM_WITNESS})"
      if "re_says (set es) b Reliable_READY_FROM_PROCESS v" for v using process[OF that] le(2)[of v] by linarith
  qed
  moreover have "re_noticed p ?R b ms'"
    by (rule re_noticed_step[OF _ fw ans]) (use o in \<open>simp_all add: re_owed_def re_live_def\<close>)
  ultimately show ?thesis using o fw tr co sent by (simp add: re_owed_def re_live_def re_forward_def)
qed

text \<open>A message that changes nothing.\<close>

lemma re_owed_ignored:
  assumes o: "re_owed p R E b ms" and "\<And>bm. BroadcastMessage rm = Some bm \<Longrightarrow> re_answered p ms q (ReliableStage rm)"
  shows "re_owed p (insert (re_input q b rm) R) (E \<union> set []) b ms"
proof (rule re_owed_step[OF o])
  show "re_forward ms ms" by (simp add: re_forward_def)
  show "re_counts p (insert (re_input q b rm) R) b ms"
    by (rule re_counts_mono[of _ R]) (use o in \<open>auto simp: re_owed_def re_live_def\<close>)
qed (use o assms(2) in \<open>auto simp: re_owed_def re_live_def\<close>)

lemma re_sent_mono:
  "re_witness_sent p E b w \<Longrightarrow> E \<subseteq> E' \<Longrightarrow> re_witness_sent p E' b w"
  "re_process_sent E T b s \<Longrightarrow> E \<subseteq> E' \<Longrightarrow> re_process_sent E' T b s"
  unfolding re_witness_sent_def re_process_sent_def by (meson re_sent_to_mono)+

lemma re_has_sent_step:
  assumes "re_has_sent p E b ms" "re_potWitnessSet ms' = re_potWitnessSet ms"
    and new: "\<And>st v. st \<in> re_to_witnesses \<Longrightarrow> re_says E' b st v \<Longrightarrow> re_sent_to (E \<union> E') (re_potWitnesses p ms) b st"
    and "re_witnessStage ms' = re_witnessStage ms \<or> re_witness_sent p (E \<union> E') b (re_witnessStage ms')"
    and "re_stage ms' = re_stage ms \<or> re_process_sent (E \<union> E') (re_potWitnesses p ms) b (re_stage ms')"
  shows "re_has_sent p (E \<union> E') b ms'"
proof -
  have pot: "re_potWitnesses p ms' = re_potWitnesses p ms" using assms(2) by (simp add: re_potWitnesses_def)
  have "re_witness_sent p (E \<union> E') b (re_witnessStage ms')"
    using assms(1,4) re_sent_mono(1)[of p E b _ "E \<union> E'"] unfolding re_has_sent_def by auto
  moreover have "re_process_sent (E \<union> E') (re_potWitnesses p ms) b (re_stage ms')"
    using assms(1,5) re_sent_mono(2)[of E _ b _ "E \<union> E'"] unfolding re_has_sent_def by auto
  moreover have "re_sent_to (E \<union> E') (re_potWitnesses p ms) b st"
    if "st \<in> re_to_witnesses" "re_says (E \<union> E') b st v" for st v
  proof (cases "re_says E b st v")
    case True
    then have "re_sent_to E (re_potWitnesses p ms) b st" using assms(1) that(1) unfolding re_has_sent_def by blast
    then show ?thesis by (rule re_sent_to_mono) blast
  next
    case False
    then have "re_says E' b st v" using that(2) by simp
    then show ?thesis by (rule new[OF that(1)])
  qed
  ultimately show ?thesis unfolding re_has_sent_def pot by blast
qed

lemma re_onNotify_owed:
  assumes run: "re_onNotify p b rm ms = Inr (ms', es)" and o: "re_owed p R E b ms"
    and st: "ReliableStage rm = Reliable_NOTIFY"
  shows "re_owed p (insert (re_input q b rm) R) (E \<union> set es) b ms'"
  using run
proof (cases rule: re_onNotify_out)
  case ignored
  then show ?thesis using re_owed_ignored[OF o, of rm q] by (simp add: st)
next
  case (echoes sh own)
  note l = o[unfolded re_owed_def re_live_def]
  have says: "\<not> re_says (set es) b st' v" if "st' \<noteq> Reliable_ECHO_FROM_WITNESS" for st' v
    using echoes(5) that unfolding re_says_send by blast
  have no: "\<not> re_says (set es) b st v" if "st \<in> re_to_witnesses" for st v
    by (rule says) (use that in \<open>auto simp: re_to_witnesses_def\<close>)
  show ?thesis
  proof (rule re_owed_step[OF o])
    show "re_forward ms ms'" by (simp add: echoes(3) re_forward_def echoes(2))
    show "re_answered p ms' q (ReliableStage rm)" by (simp add: st echoes(3))
    show "re_triggered p ms'" using l by (auto simp: re_triggered_def echoes(3,2) re_stage_order)
    have "re_counts p (insert (re_input q b rm) R) b ms" by (rule re_counts_mono[of _ R]) (use l in auto)
    then show "re_counts p (insert (re_input q b rm) R) b ms'" by (simp add: re_counts_def echoes(3))
    have "re_sent_to (E \<union> set es) (set (procs (nat (re_processCount p)))) b Reliable_ECHO_FROM_WITNESS"
      using echoes(4) unfolding re_sent_to_def set_procs by blast
    then have "re_witness_sent p (E \<union> set es) b (re_witnessStage ms')"
      by (simp add: re_witness_sent_def echoes(3) re_stage_order)
    then show "re_has_sent p (E \<union> set es) b ms'"
      by (intro re_has_sent_step[of p E b ms]) (use l no in \<open>auto simp: echoes(3)\<close>)
    show "st \<noteq> Reliable_NOTIFY \<and> c = b \<and> bm = BroadcastMessage rm"
      if "Send to (re_rmsg c st bm sh) \<in> set es" for to c st bm sh using echoes(5)[OF that] by simp
  qed (use says in simp_all)
qed

lemma re_vote_more [simp]:
  "re_echoFromProcesses (re_vote_ready q v ms) = re_echoFromProcesses ms"
  "re_echoFromProcesses (re_vote_witness q v ms) = re_echoFromProcesses ms"
  "re_echoFromProcesses (re_vote_validate q v ms) = re_echoFromProcesses ms"
  "re_echoFromProcessesStat (re_vote_ready q v ms) = re_echoFromProcessesStat ms"
  "re_echoFromProcessesStat (re_vote_witness q v ms) = re_echoFromProcessesStat ms"
  "re_echoFromProcessesStat (re_vote_validate q v ms) = re_echoFromProcessesStat ms"
  "re_readyFromWitnesses (re_vote_echo q v ms) = re_readyFromWitnesses ms"
  "re_readyFromWitnesses (re_vote_ready q v ms) = re_readyFromWitnesses ms"
  "re_readyFromWitnesses (re_vote_validate q v ms) = re_readyFromWitnesses ms"
  "re_readyFromWitnessesStat (re_vote_echo q v ms) = re_readyFromWitnessesStat ms"
  "re_readyFromWitnessesStat (re_vote_ready q v ms) = re_readyFromWitnessesStat ms"
  "re_readyFromWitnessesStat (re_vote_validate q v ms) = re_readyFromWitnessesStat ms"
  by (simp_all add: re_vote_echo_def re_vote_ready_def re_vote_witness_def re_vote_validate_def)

lemma re_vote_keeps:
  "re_echoFromProcesses ms x \<Longrightarrow> re_echoFromProcesses (re_vote_echo q v ms) x"
  "re_readyFromProcesses ms x \<Longrightarrow> re_readyFromProcesses (re_vote_ready q v ms) x"
  "re_readyFromWitnesses ms x \<Longrightarrow> re_readyFromWitnesses (re_vote_witness q v ms) x"
  "re_validateFromWitnesses ms x \<Longrightarrow> re_validateFromWitnesses (re_vote_validate q v ms) x"
  by (simp_all add: re_vote_echo_def re_vote_ready_def re_vote_witness_def re_vote_validate_def)

text \<open>A vote raises the count of its own value only.\<close>

lemma re_vote_other:
  "w \<noteq> v \<Longrightarrow> re_echoFromProcessesStat (re_vote_echo q v ms) w = re_echoFromProcessesStat ms w"
  "w \<noteq> v \<Longrightarrow> re_readyFromProcessesStat (re_vote_ready q v ms) w = re_readyFromProcessesStat ms w"
  "w \<noteq> v \<Longrightarrow> re_readyFromWitnessesStat (re_vote_witness q v ms) w = re_readyFromWitnessesStat ms w"
  "w \<noteq> v \<Longrightarrow> re_validatesStat (re_vote_validate q v ms) w = re_validatesStat ms w"
  by (simp_all add: re_vote_echo_def re_vote_ready_def re_vote_witness_def re_vote_validate_def)

lemma re_input_heard:
  assumes "re_setting env p q" "BroadcastMessage rm = Some bm"
  shows "(q, Value bm) \<in> re_heard_votes p (insert (re_input q b rm) R) b (ReliableStage rm)"
  using assms by (simp add: re_setting_def re_heard_rmsg)

lemma re_sent_to_broadcast:
  "re_sent_to (E \<union> set (re_broadcastProtocolMessage p b (re_msg st bm sh))) (set (procs (length (re_pids p)))) b st"
  unfolding re_sent_to_def Un_iff re_send_broadcast by blast

lemma re_sent_to_witnesses:
  assumes "re_setting env p q" "finite (re_potWitnessSet ms)"
  shows "re_sent_to (E \<union> set (re_broadcastToWitnesses env p b (re_msg st bm sh) ms)) (re_potWitnesses p ms) b st"
  using assms unfolding re_sent_to_def Un_iff re_send_witnesses re_potWitnesses_def re_setting_def by blast

lemma re_onEchoFromWitness_owed:
  assumes run: "re_onEchoFromWitness env p (re_name (re_pids p) q) b rm ms = Inr (ms', es)" and o: "re_owed p R E b ms"
    and st: "ReliableStage rm = Reliable_ECHO_FROM_WITNESS" and set: "re_setting env p q"
  shows "re_owed p (insert (re_input q b rm) R) (E \<union> set es) b ms'"
  using run
proof (cases rule: re_onEchoFromWitness_out)
  case ignored
  then show ?thesis using re_owed_ignored[OF o, of rm q] by (simp add: st)
next
  case (echoes share)
  note l = o[unfolded re_owed_def re_live_def]
  have says: "\<not> re_says (set es) b st' v" if "st' \<noteq> Reliable_ECHO_FROM_PROCESS" for st' v
    using that unfolding echoes(4) re_says_witnesses by simp
  show ?thesis
  proof (rule re_owed_step[OF o])
    show "re_forward ms ms'" by (simp add: echoes(3) re_forward_def echoes(2))
    show "re_answered p ms' q (ReliableStage rm)" by (simp add: st echoes(3))
    show "re_triggered p ms'" using l by (auto simp: re_triggered_def echoes(3,2) re_stage_order)
    have "re_counts p (insert (re_input q b rm) R) b ms" by (rule re_counts_mono[of _ R]) (use l in auto)
    then show "re_counts p (insert (re_input q b rm) R) b ms'" by (simp add: re_counts_def echoes(3))
    have sent: "re_sent_to (E \<union> set es) (re_potWitnesses p ms) b Reliable_ECHO_FROM_PROCESS"
      unfolding echoes(4) by (rule re_sent_to_witnesses[OF set]) (use l in blast)
    then have "re_process_sent (E \<union> set es) (re_potWitnesses p ms) b (re_stage ms')"
      by (simp add: re_process_sent_def echoes(3))
    moreover have "st = Reliable_ECHO_FROM_PROCESS" if "re_says (set es) b st v" for st v using says that by blast
    ultimately show "re_has_sent p (E \<union> set es) b ms'"
      using sent by (intro re_has_sent_step[of p E b ms]) (use l in \<open>auto simp: echoes(3)\<close>)
    show "st \<noteq> Reliable_NOTIFY \<and> c = b \<and> bm = BroadcastMessage rm"
      if "Send to (re_rmsg c st bm sh) \<in> set es" for to c st bm sh
      using that unfolding echoes(4) re_send_witnesses by simp
  qed (use says in simp_all)
qed

lemma re_onEchoFromProcess_owed:
  assumes run: "re_onEchoFromProcess p q b rm ms = Inr (ms', es)" and o: "re_owed p R E b ms"
    and st: "ReliableStage rm = Reliable_ECHO_FROM_PROCESS" and set: "re_setting env p q"
  shows "re_owed p (insert (re_input q b rm) R) (E \<union> set es) b ms'"
  using run
proof (cases rule: re_onEchoFromProcess_out)
  case ignored
  then show ?thesis using re_owed_ignored[OF o, of rm q] by (auto simp: st)
next
  case (counted bm ready)
  note l = o[unfolded re_owed_def re_live_def]
  have says: "re_says (set es) b st' v \<Longrightarrow> st' = Reliable_READY_FROM_WITNESS \<and> v = Value bm \<and> ready" for st' v
    unfolding counted(6) by (cases ready) simp_all
  then have no: "\<not> re_says (set es) b st v" if "st \<in> re_to_witnesses" for st v
    using that by (fastforce simp: re_to_witnesses_def)
  have up: "re_witnessStage ms \<le> re_witnessStage ms'" using counted(1) by (auto simp: counted(5))
  show ?thesis
  proof (rule re_owed_step[OF o])
    show "re_forward ms ms'" using up by (simp add: counted(5) re_forward_def re_vote_keeps)
    show "re_answered p ms' q (ReliableStage rm)" using counted(4) by (simp add: st counted(5))
    show "re_triggered p ms'" unfolding re_triggered_def
    proof (intro allI conjI impI)
      fix v
      show "SentReadyFromWitness \<le> re_witnessStage ms'" if "re_quorumThreshold p \<le> int (re_echoFromProcessesStat ms' v)"
        using that l counted(1,3) re_vote_other(1)[of v "Value bm" q ms]
        by (cases "v = Value bm") (auto simp: counted(5) re_triggered_def split: if_splits)
      show "re_witnessStage ms' = SentValidate" if "re_quorumThreshold p \<le> int (re_readyFromProcessesStat ms' v)"
        using that l counted(1) by (auto simp: counted(5) re_triggered_def re_stage_order)
    qed (use l in \<open>auto simp: counted(5) re_triggered_def\<close>)
    have "re_counts p (insert (re_input q b rm) R) b ms" by (rule re_counts_mono[of _ R]) (use l in auto)
    then show "re_counts p (insert (re_input q b rm) R) b ms'"
      using re_echo_box.vote_tally re_input_heard[OF set counted(2)] st by (simp add: re_counts_def counted(5))
    have "re_witnessStage ms' = re_witnessStage ms \<or> re_witness_sent p (E \<union> set es) b (re_witnessStage ms')"
      using re_sent_to_broadcast by (simp add: re_witness_sent_def counted(5,6))
    then show "re_has_sent p (E \<union> set es) b ms'"
      by (intro re_has_sent_step[of p E b ms]) (use l no in \<open>auto simp: counted(5)\<close>)
    show "st \<noteq> Reliable_NOTIFY \<and> c = b \<and> bm = BroadcastMessage rm"
      if "Send to (re_rmsg c st bm sh) \<in> set es" for to c st bm sh
      using that counted(2) unfolding counted(6) by (cases ready) (simp_all add: re_send_broadcast)
  qed (use says counted(3) in \<open>auto simp: counted(5)\<close>)
qed

lemma re_onReadyFromWitness_owed:
  assumes run: "re_onReadyFromWitness env p q (re_name (re_pids p) q) b rm ms = Inr (ms', es)" and o: "re_owed p R E b ms"
    and st: "ReliableStage rm = Reliable_READY_FROM_WITNESS" and set: "re_setting env p q"
  shows "re_owed p (insert (re_input q b rm) R) (E \<union> set es) b ms'"
  using run
proof (cases rule: re_onReadyFromWitness_out)
  case ignored
  then show ?thesis using re_owed_ignored[OF o, of rm q] by (auto simp: st)
next
  case (counted bm ready)
  note l = o[unfolded re_owed_def re_live_def]
  have says: "re_says (set es) b st' v \<Longrightarrow> st' = Reliable_READY_FROM_PROCESS \<and> v = Value bm \<and> ready" for st' v
    unfolding counted(7) by (cases ready) (simp_all add: re_says_witnesses)
  have up: "re_stage ms \<le> re_stage ms'" using counted(2) by (auto simp: counted(6))
  show ?thesis
  proof (rule re_owed_step[OF o])
    show "re_forward ms ms'" using up by (simp add: counted(6) re_forward_def re_vote_keeps)
    show "re_answered p ms' q (ReliableStage rm)" using counted(5) by (simp add: st counted(6))
    show "re_triggered p ms'" unfolding re_triggered_def
    proof (intro allI conjI impI)
      fix v
      show "SentReadyFromProcess \<le> re_stage ms'" if "re_witnessThreshold p \<le> int (re_readyFromWitnessesStat ms' v)"
        using that l counted(2,4) re_vote_other(3)[of v "Value bm" q ms]
        by (cases "v = Value bm") (auto simp: counted(6) re_triggered_def split: if_splits)
      show "re_stage ms' = Delivered" if "re_witnessThreshold p \<le> int (re_validatesStat ms' v)"
        using that l counted(2) by (auto simp: counted(6) re_triggered_def re_stage_order)
    qed (use l in \<open>auto simp: counted(6) re_triggered_def\<close>)
    have "re_counts p (insert (re_input q b rm) R) b ms" by (rule re_counts_mono[of _ R]) (use l in auto)
    then show "re_counts p (insert (re_input q b rm) R) b ms'"
      using re_witness_box.vote_tally re_input_heard[OF set counted(3)] st by (simp add: re_counts_def counted(6))
    have sent: "re_sent_to (E \<union> set es) (re_potWitnesses p ms) b Reliable_READY_FROM_PROCESS" if ready
      using re_sent_to_witnesses[OF set] l that by (simp add: counted(7))
    then have "re_stage ms' = re_stage ms \<or> re_process_sent (E \<union> set es) (re_potWitnesses p ms) b (re_stage ms')"
      by (simp add: re_process_sent_def counted(6))
    then show "re_has_sent p (E \<union> set es) b ms'"
      using sent by (intro re_has_sent_step[of p E b ms]) (use l says in \<open>auto simp: counted(6)\<close>)
    show "st \<noteq> Reliable_NOTIFY \<and> c = b \<and> bm = BroadcastMessage rm"
      if "Send to (re_rmsg c st bm sh) \<in> set es" for to c st bm sh
      using that counted(3) unfolding counted(7) by (cases ready) (simp_all add: re_send_witnesses)
  qed (use says counted(4) in \<open>auto simp: counted(6)\<close>)
qed

lemma re_onReadyFromProcess_owed:
  assumes run: "re_onReadyFromProcess p q b rm ms = Inr (ms', es)" and o: "re_owed p R E b ms"
    and st: "ReliableStage rm = Reliable_READY_FROM_PROCESS" and set: "re_setting env p q"
  shows "re_owed p (insert (re_input q b rm) R) (E \<union> set es) b ms'"
  using run
proof (cases rule: re_onReadyFromProcess_out)
  case ignored
  then show ?thesis using re_owed_ignored[OF o, of rm q] by (auto simp: st)
next
  case (counted bm ready validate)
  note l = o[unfolded re_owed_def re_live_def]
  let ?n = "re_readyFromProcessesStat (re_vote_ready q (Value bm) ms) (Value bm)"
  have says: "re_says (set es) b st' v \<Longrightarrow> v = Value bm \<and> (st' = Reliable_READY_FROM_WITNESS \<and> ready \<or> st' = Reliable_VALIDATE \<and> validate)" for st' v
    unfolding counted(7) by (cases ready; cases validate) auto
  then have no: "\<not> re_says (set es) b st v" if "st \<in> re_to_witnesses" for st v
    using that by (fastforce simp: re_to_witnesses_def)
  have up: "re_witnessStage ms \<le> re_witnessStage ms'" using counted(3) by (auto simp: counted(6))
  have le: "re_readyMessagesThreshold p \<le> re_quorumThreshold p" using set by (simp add: re_setting_def re_thresholds_ok_def)
  have first: "ready \<or> SentReadyFromWitness \<le> re_witnessStage ms" if validate
    using that counted(3,4) le by (auto simp: not_less)
  show ?thesis
  proof (rule re_owed_step[OF o])
    show "re_forward ms ms'" using up by (simp add: counted(6) re_forward_def re_vote_keeps)
    show "re_answered p ms' q (ReliableStage rm)" using counted(5) by (simp add: st counted(6))
    show "re_triggered p ms'" unfolding re_triggered_def
    proof (intro allI conjI impI)
      fix v
      have top: "\<not> w < SentValidate \<longleftrightarrow> w = SentValidate" for w by (cases w) (simp_all add: re_stage_order)
      show "re_witnessStage ms' = SentValidate" if "re_quorumThreshold p \<le> int (re_readyFromProcessesStat ms' v)"
      proof (cases "v = Value bm")
        case True
        then have "validate \<or> re_witnessStage ms = SentValidate"
          using that counted(4) top[of "re_witnessStage ms"] by (simp add: counted(6)) blast
        then show ?thesis using counted(3) by (auto simp: counted(6) re_stage_order)
      next
        case False
        then have "re_witnessStage ms = SentValidate"
          using that l re_vote_other(2)[OF False, of q ms] by (simp add: counted(6) re_triggered_def)
        then show ?thesis using counted(3,4) by (simp add: counted(6) re_stage_order)
      qed
      show "SentReadyFromWitness \<le> re_witnessStage ms'" if "re_quorumThreshold p \<le> int (re_echoFromProcessesStat ms' v)"
      proof -
        have "SentReadyFromWitness \<le> re_witnessStage ms" using that l by (simp add: counted(6) re_triggered_def)
        then show ?thesis using up by simp
      qed
    qed (use l in \<open>auto simp: counted(6) re_triggered_def\<close>)
    have "re_counts p (insert (re_input q b rm) R) b ms" by (rule re_counts_mono[of _ R]) (use l in auto)
    then show "re_counts p (insert (re_input q b rm) R) b ms'"
      using re_ready_box.vote_tally re_input_heard[OF set counted(1)] st by (simp add: re_counts_def counted(6))
    have rdy: "re_sent_to (E \<union> set es) (set (procs (length (re_pids p)))) b Reliable_READY_FROM_WITNESS"
      if "ready \<or> SentReadyFromWitness \<le> re_witnessStage ms"
    proof (cases ready)
      case True
      show ?thesis
        by (rule re_sent_to_mono[OF re_sent_to_broadcast[of "{}" p b _ "Some bm" "[]"]]) (use True in \<open>auto simp: counted(7)\<close>)
    next
      case False
      then show ?thesis using that l re_sent_to_mono[of E _ b _ "E \<union> set es"] by (simp add: re_has_sent_def re_witness_sent_def)
    qed
    have vld: "re_sent_to (E \<union> set es) (set (procs (length (re_pids p)))) b Reliable_VALIDATE" if validate
      by (rule re_sent_to_mono[OF re_sent_to_broadcast[of "{}" p b _ "Some bm" "[]"]]) (use that in \<open>auto simp: counted(7)\<close>)
    have "re_witnessStage ms' = re_witnessStage ms \<or> re_witness_sent p (E \<union> set es) b (re_witnessStage ms')"
      using rdy vld first by (auto simp: re_witness_sent_def counted(6))
    then show "re_has_sent p (E \<union> set es) b ms'"
      by (intro re_has_sent_step[of p E b ms]) (use l no in \<open>auto simp: counted(6)\<close>)
    show "st \<noteq> Reliable_NOTIFY \<and> c = b \<and> bm = BroadcastMessage rm"
      if "Send to (re_rmsg c st bm sh) \<in> set es" for to c st bm sh
      using that counted(1) unfolding counted(7) by (cases ready; cases validate) (auto simp: re_send_broadcast)
  qed (use says counted(3) in \<open>auto simp: counted(6)\<close>)
qed

lemma re_onValidate_owed:
  assumes run: "re_onValidate p q (re_name (re_pids p) q) rm ms = Inr (ms', d)" and o: "re_owed p R E b ms"
    and st: "ReliableStage rm = Reliable_VALIDATE" and set: "re_setting env p q"
  shows "re_owed p (insert (re_input q b rm) R) E b (re_settle d ms')"
  using run
proof (cases rule: re_onValidate_out)
  case ignored
  then show ?thesis using re_owed_ignored[OF o, of rm q] by (auto simp: st)
next
  case (counted bm)
  note l = o[unfolded re_owed_def re_live_def]
  define ms2 where "ms2 = re_settle d ms'"
  have ms2: "re_echoFromProcessesStat ms2 = re_echoFromProcessesStat ms" "re_readyFromProcessesStat ms2 = re_readyFromProcessesStat ms"
    "re_readyFromWitnessesStat ms2 = re_readyFromWitnessesStat ms" "re_validatesStat ms2 = re_validatesStat ms'"
    "re_witnessStage ms2 = re_witnessStage ms" "re_stage ms2 = (if d = None then re_stage ms else Delivered)"
    "re_ownWitnessSet ms2 = re_ownWitnessSet ms" "re_potWitnessSet ms2 = re_potWitnessSet ms"
    "re_echoFromProcesses ms2 = re_echoFromProcesses ms" "re_readyFromProcesses ms2 = re_readyFromProcesses ms"
    "re_readyFromWitnesses ms2 = re_readyFromWitnesses ms" "re_validateFromWitnesses ms2 = re_validateFromWitnesses ms'"
    by (simp_all add: ms2_def re_settle_def counted(4))
  have up: "re_stage ms \<le> re_stage ms2" by (simp add: ms2)
  have "re_owed p (insert (re_input q b rm) R) (E \<union> set []) b ms2"
  proof (rule re_owed_step[OF o])
    show "re_forward ms ms2" using up by (auto simp: ms2 re_forward_def counted(4) intro: re_vote_keeps)
    show "re_answered p ms2 q (ReliableStage rm)" using counted(5) by (simp add: st ms2)
    show "re_triggered p ms2" unfolding re_triggered_def
    proof (intro allI conjI impI)
      fix v
      show "re_stage ms2 = Delivered" if "re_witnessThreshold p \<le> int (re_validatesStat ms2 v)"
        using that l counted(2,6) re_vote_other(4)[of v "Value bm" q ms]
        by (cases "v = Value bm") (auto simp: ms2 counted(4) re_triggered_def)
      show "SentReadyFromProcess \<le> re_stage ms2" if "re_witnessThreshold p \<le> int (re_readyFromWitnessesStat ms2 v)"
        using that l up by (auto simp: ms2 re_triggered_def)
    qed (use l in \<open>auto simp: ms2 re_triggered_def\<close>)
    have "re_counts p (insert (re_input q b rm) R) b ms" by (rule re_counts_mono[of _ R]) (use l in auto)
    then show "re_counts p (insert (re_input q b rm) R) b ms2" by (simp add: re_counts_def ms2)
    show "re_has_sent p (E \<union> set []) b ms2"
      by (rule re_has_sent_step[of p E b ms]) (use l in \<open>auto simp: ms2 re_process_sent_def\<close>)
  qed simp_all
  then show ?thesis by (simp add: ms2_def)
qed

text \<open>The stages together.\<close>

lemma re_reliableStage_owed:
  assumes run: "re_reliableStage env p q (re_name (re_pids p) q) b rm ms = Inr (ms', es, d)"
    and o: "re_owed p R E b ms" and set: "re_setting env p q"
  shows "re_owed p (insert (re_input q b rm) R) (E \<union> set es) b (re_settle d ms')"
proof (cases "ReliableStage rm")
  case Reliable_NOTIFY
  then show ?thesis using run re_onNotify_owed[OF _ o, of rm ms' es q]
    by (auto simp: re_reliableStage_def Let_def go_simps)
next
  case Reliable_ECHO_FROM_WITNESS
  then show ?thesis using run re_onEchoFromWitness_owed[OF _ o _ set, of rm ms' es]
    by (auto simp: re_reliableStage_def Let_def go_simps)
next
  case Reliable_ECHO_FROM_PROCESS
  then show ?thesis using run re_onEchoFromProcess_owed[OF _ o _ set, of rm ms' es]
    by (auto simp: re_reliableStage_def Let_def go_simps)
next
  case Reliable_READY_FROM_WITNESS
  then show ?thesis using run re_onReadyFromWitness_owed[OF _ o _ set, of rm ms' es]
    by (auto simp: re_reliableStage_def Let_def go_simps)
next
  case Reliable_READY_FROM_PROCESS
  then show ?thesis using run re_onReadyFromProcess_owed[OF _ o _ set, of rm ms' es]
    by (auto simp: re_reliableStage_def Let_def go_simps)
next
  case Reliable_VALIDATE
  then show ?thesis using run re_onValidate_owed[OF _ o _ set, of rm ms' d]
    by (auto simp: re_reliableStage_def Let_def go_simps)
next
  case (Reliable_OTHER k)
  then show ?thesis using run re_owed_ignored[OF o, of rm q] by (simp add: re_reliableStage_def Let_def)
qed

end
