(* ===== verification/Reliable_Owed.thy ===== *)
theory Reliable_Owed
  imports Reliable_Progress
begin

text \<open>
  The debts of \<open>Reliable_Progress\<close> over the runs of one process: they are kept by every message and
  every request.
\<close>

section \<open>One instance\<close>

definition re_inst_owed :: "re_Process \<Rightarrow> input set \<Rightarrow> effect set \<Rightarrow> BroadcastInstance \<Rightarrow> bool" where
  "re_inst_owed p R E b \<longleftrightarrow>
     (\<forall>ms. re_state p b = Some ms \<longrightarrow> re_live p R E b ms) \<and>
     (re_state p b = None \<longrightarrow> \<not> re_finallyCommitted p b \<longrightarrow>
        (\<forall>q st v. \<not> re_heard R q b st v) \<and> (\<forall>to st bm sh. Send to (re_rmsg b st bm sh) \<notin> E)) \<and>
     re_justified p R E b"

definition re_run_owed :: "re_Process \<Rightarrow> input set \<Rightarrow> effect set \<Rightarrow> bool" where
  "re_run_owed p R E \<longleftrightarrow> (\<forall>b. re_inst_owed p R E b)"

text \<open>What is not about the instance does not matter.\<close>

definition re_no_sends :: "effect set \<Rightarrow> BroadcastInstance \<Rightarrow> bool" where
  "re_no_sends E b \<longleftrightarrow> (\<forall>to st bm sh. Send to (re_rmsg b st bm sh) \<notin> E)"

definition re_same_heard :: "input set \<Rightarrow> input set \<Rightarrow> BroadcastInstance \<Rightarrow> bool" where
  "re_same_heard R R' b \<longleftrightarrow> R \<subseteq> R' \<and> (\<forall>q st v. re_heard R' q b st v \<longleftrightarrow> re_heard R q b st v)"

lemma re_no_sends_says: "re_no_sends E b \<Longrightarrow> \<not> re_says E b st v"
  by (auto simp: re_no_sends_def re_says_send)

lemma re_same_heard_refl [simp]: "re_same_heard R R b"
  by (simp add: re_same_heard_def)

lemma re_config_thresholds:
  assumes "re_config p' = re_config p"
  shows "re_thresholds_ok p' = re_thresholds_ok p"
  by (simp only: re_thresholds_ok_def re_config_fields[OF assms])

lemma re_answered_frame:
  assumes "re_core ms' = re_core ms" "re_config p' = re_config p"
  shows "re_answered p' ms' q st = re_answered p ms q st"
  using assms(1) re_config_fields[OF assms(2)] by (cases st) (simp_all add: re_core_def re_self_def)

lemma re_live_frame:
  assumes l: "re_live p R E b ms" and c: "re_core ms' = re_core ms" and cfg: "re_config p' = re_config p"
    and R: "re_same_heard R R' b" and Y: "re_no_sends Y b"
  shows "re_live p' R' (E \<union> Y) b ms'"
proof -
  note f = re_config_fields[OF cfg]
  have i: "re_index p' = re_index p" by (simp add: fun_eq_iff re_index_def f(2))
  have votes: "re_heard_votes p' R' b st = re_heard_votes p R b st" for st
    using R by (simp add: re_heard_votes_def f(3) re_same_heard_def)
  have "re_noticed p' R' b ms'"
    using l R unfolding re_live_def re_noticed_def re_answered_frame[OF c cfg] re_same_heard_def by blast
  moreover have "re_triggered p' ms'" using l c by (simp add: re_live_def re_triggered_def f(4,6) re_core_def)
  moreover have "re_counts p' R' b ms'" using l c by (simp add: re_live_def re_counts_def votes re_core_def)
  moreover have "re_has_sent p' (E \<union> Y) b ms'"
  proof -
    have "re_has_sent p (E \<union> Y) b ms'"
      by (rule re_has_sent_step[of p E b ms]) (use l c re_no_sends_says[OF Y] in \<open>simp_all add: re_live_def re_core_def\<close>)
    then show ?thesis by (simp add: re_has_sent_def re_witness_sent_def f(3,8) re_potWitnesses_def i)
  qed
  moreover have "finite (re_potWitnessSet ms')" using l c by (simp add: re_live_def re_core_def)
  ultimately show ?thesis by (simp add: re_live_def)
qed

lemma re_justified_frame:
  assumes j: "re_justified p R E b" and cfg: "re_config p' = re_config p" and R: "R \<subseteq> R'" and Y: "re_no_sends Y b"
  shows "re_justified p' R' (E \<union> Y) b"
proof -
  have "re_justified p R' (E \<union> Y) b"
    by (rule re_justified_step[OF j R]) (use Y re_no_sends_says[OF Y] in \<open>auto simp: re_no_sends_def\<close>)
  then show ?thesis
    by (simp add: re_justified_def re_heard_votes_config[OF cfg] re_config_fields[OF cfg])
qed

lemma re_owed_frame:
  assumes "re_owed p R E b ms" "re_core ms' = re_core ms" "re_config p' = re_config p"
    "re_same_heard R R' b" "re_no_sends Y b"
  shows "re_owed p' R' (E \<union> Y) b ms'"
proof -
  have R: "R \<subseteq> R'" using assms(4) by (simp add: re_same_heard_def)
  have l: "re_live p R E b ms" and j: "re_justified p R E b" using assms(1) by (simp_all add: re_owed_def)
  show ?thesis unfolding re_owed_def
    using re_live_frame[OF l assms(2-5)] re_justified_frame[OF j assms(3) R assms(5)] ..
qed

lemma re_inst_owed_silent:
  assumes i: "re_inst_owed p R E b" and cfg: "re_config p' = re_config p"
    and same: "re_state p' b = re_state p b" "re_finallyCommitted p' b = re_finallyCommitted p b"
    and R: "re_same_heard R R' b" and Y: "re_no_sends Y b"
  shows "re_inst_owed p' R' (E \<union> Y) b"
proof -
  have sub: "R \<subseteq> R'" using R by (simp add: re_same_heard_def)
  have "re_justified p R E b" using i by (simp add: re_inst_owed_def)
  note re_justified_frame[OF this cfg sub Y]
  moreover have "re_live p' R' (E \<union> Y) b ms" if "re_state p b = Some ms" for ms
    by (rule re_live_frame[OF _ refl cfg R Y]) (use i that in \<open>simp add: re_inst_owed_def\<close>)
  ultimately show ?thesis using i R Y unfolding re_inst_owed_def same re_same_heard_def re_no_sends_def by auto
qed

section \<open>Registration and reveal messages\<close>

lemma re_selected_no_sends [simp]: "re_no_sends (set (re_selected env b ms)) c"
  by (simp add: re_no_sends_def re_selected_def)

lemma re_only_reveals_no_sends: "re_only_reveals es \<Longrightarrow> re_no_sends (set es) c"
  by (simp add: re_no_sends_def re_only_reveals_no_rmsg)

text \<open>A fresh message state of an instance nobody has mentioned owes nothing.\<close>

lemma re_owed_fresh:
  assumes thr: "re_thresholds_ok p" and "finite pot"
    and none: "\<And>q st v. \<not> re_heard R q b st v" "re_no_sends E b" and j: "re_justified p R E b"
  shows "re_owed p R E b (re_newMessageState\<lparr>re_ownWitnessSet := own, re_potWitnessSet := pot\<rparr>)"
  using assms re_no_sends_says[OF none(2)]
  by (simp add: re_owed_def re_live_def re_noticed_def re_triggered_def re_counts_def re_has_sent_def re_witness_sent_def
      re_process_sent_def re_newMessageState_def tally_empty re_thresholds_ok_def re_stage_order)

lemma re_register_owed:
  assumes r: "re_registerMessage env p b = Inr (p1, ms, es)" and i: "re_inst_owed p R E b"
    and fc: "\<not> re_finallyCommitted p b" and thr: "re_thresholds_ok p"
  shows "re_owed p1 R (E \<union> set es) b ms" "re_no_sends (set es) c"
proof -
  have "re_owed p1 R (E \<union> set es) b ms \<and> re_no_sends (set es) c"
    using r
  proof (cases rule: re_register_cases)
    case known
    then show ?thesis using i by (simp add: re_inst_owed_def re_owed_def re_no_sends_def)
  next
    case (fresh own pot)
    have "re_owed p R E b ms" unfolding fresh(3)
      by (rule re_owed_fresh) (use i fc fresh thr in \<open>simp_all add: re_inst_owed_def re_no_sends_def\<close>)
    then show ?thesis using re_owed_frame[OF _ refl re_register_eq(3)[OF r], of R E b ms R "set es"]
      by (simp add: fresh(6))
  qed
  then show "re_owed p1 R (E \<union> set es) b ms" "re_no_sends (set es) c" by simp_all
qed

lemma re_inst_owed_live:
  "re_state p b = Some ms \<Longrightarrow> re_owed p R E b ms \<Longrightarrow> re_inst_owed p R E b"
  by (simp add: re_inst_owed_def re_owed_def)

lemma re_inst_owed_committed:
  "re_state p b = None \<Longrightarrow> re_finallyCommitted p b \<Longrightarrow> re_justified p R E b \<Longrightarrow> re_inst_owed p R E b"
  by (simp add: re_inst_owed_def)

lemma re_run_owed_step:
  assumes inv: "re_run_owed p R E" and cfg: "re_config p' = re_config p"
    and others: "\<And>c. c \<noteq> b \<Longrightarrow> re_state p' c = re_state p c \<and> re_finallyCommitted p' c = re_finallyCommitted p c \<and>
      re_same_heard R R' c \<and> re_no_sends Y c"
    and b: "re_inst_owed p' R' (E \<union> Y) b"
  shows "re_run_owed p' R' (E \<union> Y)"
  unfolding re_run_owed_def
proof
  fix c
  show "re_inst_owed p' R' (E \<union> Y) c"
  proof (cases "c = b")
    case False
    then show ?thesis using inv re_inst_owed_silent[OF _ cfg, of R E c R' Y] others[OF False] by (simp add: re_run_owed_def)
  qed (use b in simp)
qed

section \<open>Messages\<close>

lemma re_same_heard_insert: "c \<noteq> b \<Longrightarrow> re_same_heard R (insert (Received q (re_rmsg b st bm sh)) R) c"
  by (auto simp: re_same_heard_def re_heard_insert)

lemma re_same_heard_other [simp]:
  "re_same_heard R (insert (Received q (re_cmsg b m)) R) c" "re_same_heard R (insert (Request v) R) c"
  by (auto simp: re_same_heard_def re_heard_insert_other)

lemma re_stage_sends:
  assumes "re_reliableStage env p q pid b rm ms = Inr (ms', es, d)" "c \<noteq> b"
  shows "re_no_sends (set es) c"
proof -
  have "Send to (re_rmsg c st bm sh) \<notin> set es" for to st bm sh
  proof (cases "ReliableStage rm")
    case Reliable_NOTIFY
    then obtain "re_onNotify p b rm ms = Inr (ms', es)" using assms(1) by (auto simp: re_reliableStage_def Let_def go_simps)
    then show ?thesis by (cases rule: re_onNotify_out) (use assms(2) in auto)
  next
    case Reliable_ECHO_FROM_WITNESS
    then obtain "re_onEchoFromWitness env p pid b rm ms = Inr (ms', es)" using assms(1) by (auto simp: re_reliableStage_def Let_def go_simps)
    then show ?thesis by (cases rule: re_onEchoFromWitness_out) (use assms(2) in \<open>auto simp: re_send_witnesses\<close>)
  next
    case Reliable_ECHO_FROM_PROCESS
    then obtain "re_onEchoFromProcess p q b rm ms = Inr (ms', es)" using assms(1) by (auto simp: re_reliableStage_def Let_def go_simps)
    then show ?thesis by (cases rule: re_onEchoFromProcess_out) (use assms(2) in \<open>simp_all add: re_send_broadcast\<close>)
  next
    case Reliable_READY_FROM_WITNESS
    then obtain "re_onReadyFromWitness env p q pid b rm ms = Inr (ms', es)" using assms(1) by (auto simp: re_reliableStage_def Let_def go_simps)
    then show ?thesis by (cases rule: re_onReadyFromWitness_out) (use assms(2) in \<open>simp_all add: re_send_witnesses\<close>)
  next
    case Reliable_READY_FROM_PROCESS
    then obtain "re_onReadyFromProcess p q b rm ms = Inr (ms', es)" using assms(1) by (auto simp: re_reliableStage_def Let_def go_simps)
    then show ?thesis by (cases rule: re_onReadyFromProcess_out) (use assms(2) in \<open>simp_all add: re_send_broadcast\<close>)
  qed (use assms in \<open>auto simp: re_reliableStage_def Let_def go_simps\<close>)
  then show ?thesis by (simp add: re_no_sends_def)
qed

lemma re_owed_count:
  "re_owed p R E b (ms\<lparr>re_receivedMessagesCnt := k\<rparr>) = re_owed p R E b ms"
  using re_owed_frame[of p R E b ms "ms\<lparr>re_receivedMessagesCnt := k\<rparr>" p R "{}"]
    re_owed_frame[of p R E b "ms\<lparr>re_receivedMessagesCnt := k\<rparr>" ms p R "{}"] by (auto simp: re_no_sends_def)

lemma re_reliable_owed:
  assumes run: "re_processReliableProtocolMessage env p q b rm = Inr (p', es)"
    and inv: "re_run_owed p R E" and ok: "re_run_inv env p R E"
    and order: "\<And>A. finite A \<Longrightarrow> set (env_order env A) = A" and thr: "re_thresholds_ok p"
  shows "re_run_owed p' (insert (re_input q b rm) R) (E \<union> set es)"
proof -
  let ?R = "insert (re_input q b rm) R"
  have i: "re_inst_owed p R E b" using inv by (simp add: re_run_owed_def)
  have st: "re_finallyCommitted p b \<Longrightarrow> re_state p b = None" using ok by (simp add: re_run_inv_def re_inst_ok_def)
  from run show ?thesis
  proof (cases rule: re_reliable_cases)
    case ignored
    have "re_justified p ?R (E \<union> set es) b"
      by (rule re_justified_frame[OF _ refl]) (use i in \<open>auto simp: re_inst_owed_def ignored re_no_sends_def\<close>)
    then have "re_inst_owed p' ?R (E \<union> set es) b"
      using ignored st by (intro re_inst_owed_committed) simp_all
    then show ?thesis
      by (intro re_run_owed_step[OF inv, of p' b]) (simp_all add: ignored re_same_heard_insert re_no_sends_def)
  next
    case (quiet p1 ms0 es0 ms' es1)
    note reg = re_register_owed[OF quiet(2) i quiet(1) thr] and eq = re_register_eq[OF quiet(2)]
    obtain k where stage: "re_reliableStage env p1 q (re_name (re_pids p1) q) b rm (ms0\<lparr>re_receivedMessagesCnt := k\<rparr>) = Inr (ms', es1, None)"
      using quiet(8) by (auto simp: re_name_def re_config_fields(3)[OF eq(3)])
    have set: "re_setting env p1 q"
      using order thr quiet(3,4) by (simp add: re_setting_def re_config_thresholds[OF eq(3)] re_config_fields(3)[OF eq(3)])
    have "re_owed p1 ?R (E \<union> set es) b ms'"
      using re_reliableStage_owed[OF stage _ set, of R "E \<union> set es0"] reg(1) by (simp add: re_owed_count quiet(7) Un_assoc)
    moreover have st1: "re_state p1 b = Some ms0" using eq(1) by simp
    ultimately have "re_owed p' ?R (E \<union> set es) b ms'" "re_state p' b = Some ms'"
      using re_owed_frame[of p1 ?R "E \<union> set es" b ms' ms' p' ?R "{}"] by (simp_all add: quiet(6) re_no_sends_def)
    then have "re_inst_owed p' ?R (E \<union> set es) b" using re_inst_owed_live by blast
    moreover have "re_state p' c = re_state p c \<and> re_finallyCommitted p' c = re_finallyCommitted p c \<and>
        re_same_heard R ?R c \<and> re_no_sends (set es) c" if "c \<noteq> b" for c
      using that st1 eq(1,4) reg(2)[of c] re_stage_sends[OF stage that]
      by (simp add: quiet(6,7) re_same_heard_insert re_no_sends_def)
    ultimately show ?thesis using eq(3) by (intro re_run_owed_step[OF inv, of p' b]) (simp_all add: quiet(6))
  next
    case (delivers p1 ms0 es0 ms1 es1 bm p2 ms2 es2)
    note reg = re_register_owed[OF delivers(2) i delivers(1) thr] and eq = re_register_eq[OF delivers(2)]
    note dl = delivers(6)[unfolded re_delivery_def]
    obtain k where stage: "re_reliableStage env p1 q (re_name (re_pids p1) q) b rm (ms0\<lparr>re_receivedMessagesCnt := k\<rparr>) = Inr (ms1, es1, Some bm)"
      using delivers(9) by (auto simp: re_name_def re_config_fields(3)[OF eq(3)])
    have set: "re_setting env p1 q"
      using order thr delivers(3,4) by (simp add: re_setting_def re_config_thresholds[OF eq(3)] re_config_fields(3)[OF eq(3)])
    let ?ms = "ms2\<lparr>re_stage := Delivered\<rparr>"
    have o1: "re_owed p1 ?R (E \<union> set es0 \<union> set es1) b (re_settle (Some bm) ms1)"
      using re_reliableStage_owed[OF stage _ set, of R "E \<union> set es0"] reg(1) by (simp add: re_owed_count)
    have core: "re_core ?ms = re_core (re_settle (Some bm) ms1)" using dl by (simp add: re_settle_def re_core_def)
    have cfg: "re_config p' = re_config p1" using dl by (simp add: delivers(7))
    have nos: "re_no_sends (set es2) c" for c using dl by (simp add: re_no_sends_def)
    have E: "E \<union> set es = E \<union> set es0 \<union> set es1 \<union> set es2" by (auto simp: delivers(8))
    have o2: "re_owed p' ?R (E \<union> set es) b ?ms" unfolding E
      by (rule re_owed_frame[OF o1 core cfg re_same_heard_refl nos])
    have live: "re_live_or_committed b p' ?ms" unfolding delivers(7) by (rule re_live_store) (use dl in blast)
    then have "re_inst_owed p' ?R (E \<union> set es) b"
      using o2 re_inst_owed_live re_inst_owed_committed unfolding re_live_or_committed_def re_owed_def by blast
    moreover have "re_state p' c = re_state p c \<and> re_finallyCommitted p' c = re_finallyCommitted p c \<and>
        re_same_heard R ?R c \<and> re_no_sends (set es) c" if "c \<noteq> b" for c
    proof -
      have "re_state p' c = re_state p2 c" unfolding delivers(7)
        by (rule re_live_store_other[OF _ that]) (use dl in blast)
      moreover have "re_state p2 c = re_state p1 c \<and> re_finallyCommitted p2 c = re_finallyCommitted p1 c"
        using dl that eq(1) by simp
      ultimately show ?thesis
        using that eq(1,4) reg(2)[of c] re_stage_sends[OF stage that] nos[of c]
        by (simp add: delivers(7,8) re_same_heard_insert re_no_sends_def)
    qed
    ultimately show ?thesis using eq(3) cfg by (intro re_run_owed_step[OF inv, of p' b]) simp_all
  qed
qed

lemma re_commitment_owed:
  assumes run: "re_processCommitmentProtocolMessage env p q b cm = Inr (p', t, es)"
    and inv: "re_run_owed p R E" and ok: "re_run_inv env p R E" and thr: "re_thresholds_ok p"
  shows "re_run_owed p' (insert (Received q (re_cmsg b cm)) R) (E \<union> set es)"
proof -
  let ?R = "insert (Received q (re_cmsg b cm)) R"
  have i: "re_inst_owed p R E b" using inv by (simp add: re_run_owed_def)
  from run show ?thesis
  proof (cases rule: re_commitment_cases)
    case ignored
    have "re_inst_owed p' ?R (E \<union> set es) b"
      by (rule re_inst_owed_silent[OF i]) (simp_all add: ignored re_no_sends_def)
    then show ?thesis
      by (intro re_run_owed_step[OF inv, of p' b]) (simp_all add: ignored re_no_sends_def)
  next
    case (handled p1 ms es0 ms' es1)
    note reg = re_register_owed[OF handled(2) i handled(1) thr] and eq = re_register_eq[OF handled(2)]
    have fc: "\<not> re_finallyCommitted p1 b" using eq(4) handled(1) by simp
    note s = re_reveal_step_same[OF handled(5) fc]
    have cfg: "re_config p' = re_config p1" using s(1) by (simp add: re_same_but_def)
    have nos: "re_no_sends (set es1) c" for c by (rule re_only_reveals_no_sends[OF s(4)])
    have E: "E \<union> set es = E \<union> set es0 \<union> set es1" by (auto simp: handled(4))
    have o: "re_owed p' ?R (E \<union> set es) b ms'" unfolding E
      by (rule re_owed_frame[OF reg(1) s(3) cfg _ nos]) simp
    then have "re_inst_owed p' ?R (E \<union> set es) b"
      using s(2) re_inst_owed_live re_inst_owed_committed unfolding re_live_or_committed_def re_owed_def by blast
    moreover have "re_state p' c = re_state p c \<and> re_finallyCommitted p' c = re_finallyCommitted p c \<and>
        re_same_heard R ?R c \<and> re_no_sends (set es) c" if "c \<noteq> b" for c
      using that s(1) eq(1,4) reg(2)[of c] nos[of c] by (simp add: re_same_but_def handled(4) re_no_sends_def)
    ultimately show ?thesis using eq(3) cfg by (intro re_run_owed_step[OF inv, of p' b]) simp_all
  qed
qed

lemma re_message_owed:
  assumes run: "re_HandleMessage env p q m = Inr (p', es)"
    and inv: "re_run_owed p R E" and ok: "re_run_inv env p R E"
    and order: "\<And>A. finite A \<Longrightarrow> set (env_order env A) = A" and thr: "re_thresholds_ok p"
  shows "re_run_owed p' (insert (Received q m) R) (E \<union> set es)"
  using run
proof (cases rule: re_HandleMessage_cases)
  case (reliable b rm)
  show ?thesis using re_reliable_owed[OF reliable(2) inv ok order thr] by (simp add: reliable(1))
next
  case (commitment b cm t)
  show ?thesis using re_commitment_owed[OF commitment(2) inv ok thr] by (simp add: commitment(1))
qed

section \<open>Requests\<close>

lemma re_request_owed:
  assumes run: "re_Broadcast env p v = Inr (p', es)"
    and inv: "re_run_owed p R E" and ok: "re_run_inv env p R E" and new: "re_unused p (re_next p)"
    and order: "\<And>A. finite A \<Longrightarrow> set (env_order env A) = A" and thr: "re_thresholds_ok p"
  shows "re_run_owed p' (insert (Request v) R) (E \<union> set es)"
  using run
proof (cases rule: re_request_views)
  case (1 p1 ms shares x)
  let ?b = "re_next p" and ?R = "insert (Request v) R"
  let ?n = "re_broadcastToWitnesses env p1 ?b (re_msg Reliable_NOTIFY (Some \<lparr>Value = v, XHash = re_hash x\<rparr>) shares) ms"
  note init = re_init_eq[OF 1(1)]
  have fc: "\<not> re_finallyCommitted p ?b" and st: "re_state p ?b = None"
    using new ok by (auto simp: re_unused_def re_run_inv_def re_inst_ok_def)
  have i: "re_inst_owed p R E ?b" using inv by (simp add: re_run_owed_def)
  then have none: "\<And>q st v. \<not> re_heard R q ?b st v" "re_no_sends E ?b" and j: "re_justified p R E ?b"
    using st fc by (simp_all add: re_inst_owed_def re_no_sends_def)
  obtain own pot where ms: "ms = re_newMessageState\<lparr>re_ownWitnessSet := own, re_potWitnessSet := pot\<rparr>" "finite pot"
    using init(8) by blast
  have "re_owed p R E ?b ms" unfolding ms(1) by (rule re_owed_fresh[OF thr ms(2) none j])
  then have o1: "re_owed p1 R (E \<union> set (re_selected env ?b ms)) ?b ms"
    by (rule re_owed_frame[OF _ refl init(3)]) simp_all
  let ?E = "E \<union> set (re_selected env ?b ms)"
  have sends: "Send to (re_rmsg c st bm sh) \<in> set ?n \<longleftrightarrow> to \<in> re_potWitnesses p1 ms \<and> c = ?b \<and> st = Reliable_NOTIFY \<and>
      bm = Some \<lparr>Value = v, XHash = re_hash x\<rparr> \<and> sh = shares" for to c st bm sh
    using order[of pot] ms unfolding re_send_witnesses by (auto simp: re_potWitnesses_def re_newMessageState_def)
  have says: "re_says (?E \<union> set ?n) ?b st w \<Longrightarrow> st = Reliable_NOTIFY \<and> w = v" for st w
    using re_no_sends_says[OF none(2)] by (simp add: re_says_witnesses)
  have "re_justified p1 ?R (?E \<union> set ?n) ?b"
  proof -
    have idx: "re_processIndex p1 = Author ?b" using re_config_fields(1)[OF init(3)] by (simp add: re_next_def)
    have no: "Send to (re_rmsg ?b st bm sh) \<notin> ?E" for to st bm sh using none(2) by (simp add: re_no_sends_def re_selected_def)
    have snd: "st = Reliable_NOTIFY \<and> bm \<noteq> None" if "Send to (re_rmsg ?b st bm sh) \<in> ?E \<union> set ?n" for to st bm sh
      using that no[of to st bm sh] sends[of to ?b st bm sh] by simp
    have silent: "\<not> re_says (?E \<union> set ?n) ?b Reliable_READY_FROM_WITNESS w"
      "\<not> re_says (?E \<union> set ?n) ?b Reliable_READY_FROM_PROCESS w" for w
      using says[of Reliable_READY_FROM_WITNESS w] says[of Reliable_READY_FROM_PROCESS w] by blast+
    have "if st = Reliable_NOTIFY then bm \<noteq> None else \<exists>q st' sh'. Received q (re_rmsg ?b st' bm sh') \<in> ?R"
      if "Send to (re_rmsg ?b st bm sh) \<in> ?E \<union> set ?n" for to st bm sh
      using snd[OF that] by simp
    moreover have "w = u" if "re_says (?E \<union> set ?n) ?b Reliable_NOTIFY w" "re_says (?E \<union> set ?n) ?b Reliable_NOTIFY u" for w u
      using says[OF that(1)] says[OF that(2)] by (elim conjE) (simp only:)
    ultimately show ?thesis using silent idx[symmetric] unfolding re_justified_def by blast
  qed
  moreover have "re_live p1 ?R (?E \<union> set ?n) ?b ms"
  proof -
    have l: "re_live p1 ?R ?E ?b ms"
      using re_live_frame[OF _ refl refl, of p1 R ?E ?b ms ?R "{}"] o1 by (simp add: re_owed_def re_no_sends_def)
    have "re_sent_to (?E \<union> set ?n) (re_potWitnesses p1 ms) ?b Reliable_NOTIFY"
      unfolding re_sent_to_def Un_iff sends by blast
    then have "re_has_sent p1 (?E \<union> set ?n) ?b ms"
      using says by (auto simp: re_has_sent_def re_witness_sent_def re_process_sent_def ms re_newMessageState_def re_stage_order)
    then show ?thesis using l by (simp add: re_live_def)
  qed
  ultimately have o2: "re_owed p1 ?R (?E \<union> set ?n) ?b ms" by (simp add: re_owed_def)
  have cfg: "re_config p' = re_config p1" and st': "re_state p' = re_state p1" and fc': "re_finallyCommitted p' = re_finallyCommitted p1"
    by (simp_all add: 1(2) re_config_def re_state_def re_finallyCommitted_def fun_eq_iff)
  have E: "E \<union> set es = (?E \<union> set ?n) \<union> {Log (OnTransactionInit ?b)}" by (auto simp: 1(4))
  have "re_owed p' ?R (E \<union> set es) ?b ms" unfolding E
    by (rule re_owed_frame[OF o2 refl cfg]) (simp_all add: re_no_sends_def)
  then have "re_inst_owed p' ?R (E \<union> set es) ?b" using re_inst_owed_live[of p' ?b ms] init(1) st' by simp
  moreover have "re_no_sends (set es) c" if "c \<noteq> ?b" for c
    using that sends re_selected_no_sends[of env ?b ms c] by (auto simp: re_no_sends_def 1(4))
  ultimately show ?thesis using cfg st' fc' init
    by (intro re_run_owed_step[OF inv, of p' ?b]) simp_all
qed

section \<open>Runs\<close>

lemma re_run_owed_start:
  assumes "re_InitProcess env sha256 sha512 pubs priv mix i pids ps own = Inr p"
  shows "re_run_owed p {} {}"
proof -
  have "re_messagesLog p = make_maps (length pids)"
    using assms by (auto simp: re_InitProcess_def Let_def split: if_splits)
  then show ?thesis by (simp add: re_run_owed_def re_inst_owed_def re_state_def re_heard_def re_justified_def)
qed

lemma re_reaches_owed:
  assumes "re_reaches env p0 is p es" "re_run_inv env p0 {} {}" "re_run_owed p0 {} {}" "re_thresholds_ok p0"
    and order: "\<And>A. finite A \<Longrightarrow> set (env_order env A) = A"
  shows "re_run_owed p (set is) (set es)"
  using assms(1-4)
proof (induction rule: re_reaches.induct)
  case (message "is" p es q m p' es')
  have thr: "re_thresholds_ok p" using message.prems re_config_thresholds[OF re_reaches_config[OF message(1)]] by simp
  show ?case using re_message_owed[OF message(2) _ _ order thr] message(3) message.prems
      re_reaches_inv[OF message(1)] by simp
next
  case (request "is" p es v p' es')
  have thr: "re_thresholds_ok p" using request.prems re_config_thresholds[OF re_reaches_config[OF request(1)]] by simp
  show ?case using re_request_owed[OF request(3) _ _ request(2) order thr] request(4) request.prems
      re_reaches_inv[OF request(1)] by simp
qed simp

end
