(* ===== verification/Reliable_Validity.thy ===== *)
theory Reliable_Validity
  imports Reliable_Owed
begin

text \<open>
  What the processes of a system run of the reliable protocol achieve when they only crash:
  once the messages that were sent have been received, a delivery by one is a delivery by all that
  are alive, and the transaction of a process that asked for it is delivered.
\<close>

section \<open>Causality without faults\<close>

text \<open>
  One step later: the processes have taken more inputs, had more effects, and what they have received
  was sent before the step.
\<close>

definition re_later :: "ProcessId set \<Rightarrow> (ProcessId \<Rightarrow> re_node) \<Rightarrow> (ProcessId \<Rightarrow> re_node) \<Rightarrow> bool" where
  "re_later C S S' \<longleftrightarrow> (\<forall>x\<in>C. set (rn_inputs (S x)) \<subseteq> set (rn_inputs (S' x)) \<and>
     set (rn_effects (S x)) \<subseteq> set (rn_effects (S' x)) \<and>
     (\<forall>y m. Received y m \<in> set (rn_inputs (S' x)) \<longrightarrow> y \<in> C \<and> Send x m \<in> set (rn_effects (S y))))"

lemma re_later_take:
  assumes run: "re_system_run pids ps C {} S" and "x \<in> C"
    and "\<And>y m. i = Received y m \<Longrightarrow> y \<in> C \<and> Send x m \<in> set (rn_effects (S y))"
  shows "re_later C S (S(x := re_take (S x) i p es))"
  using re_system_run_received[OF run] assms(2,3) unfolding re_later_def by auto

lemma re_system_run_later [consumes 1, case_names start step]:
  assumes run: "re_system_run pids ps C {} S"
    and start: "\<And>S. (\<And>x. x \<in> C \<Longrightarrow> rn_inputs (S x) = [] \<and> rn_effects (S x) = []) \<Longrightarrow> P S"
    and step: "\<And>S S'. re_system_run pids ps C {} S \<Longrightarrow> re_system_run pids ps C {} S' \<Longrightarrow> re_later C S S' \<Longrightarrow> P S \<Longrightarrow> P S'"
  shows "P S"
  using run
proof (induction rule: re_system_run.induct)
  case (start S)
  then show ?case using assms(2) re_node_ok_idle by blast
next
  case (receive S x y m p' es)
  note next_run = re_system_run.receive[OF receive(1-5)]
  have "re_later C S (S(x := re_take (S x) (Received y m) p' es))"
    by (rule re_later_take[OF receive(1,2)]) (use receive(3,4) in auto)
  then show ?case by (rule step[OF receive(1) next_run _ receive.IH])
next
  case (request S x v p' es)
  note next_run = re_system_run.request[OF request(1-4)]
  have "re_later C S (S(x := re_take (S x) (Request v) p' es))"
    by (rule re_later_take[OF request(1,2)]) auto
  then show ?case by (rule step[OF request(1) next_run _ request.IH])
qed simp

section \<open>Names, thresholds and the invariants of every node\<close>

text \<open>The names differ, the indices fit \<open>int32\<close>, and the parameters describe the system.\<close>

definition re_wellposed :: "string list \<Rightarrow> Parameters \<Rightarrow> bool" where
  "re_wellposed pids ps \<longleftrightarrow> distinct pids \<and> length pids < 2 ^ 31 \<and> ProcessCount ps = int (length pids) \<and>
     0 \<le> FaultyProcesses ps \<and> FaultyProcesses ps \<le> int (length pids) \<and> 0 < WitnessThreshold ps"

lemma pid_map_fold:
  "x \<notin> set xs \<Longrightarrow> fold (\<lambda>(i, pid) m. m(pid \<mapsto> of_nat i)) (enumerate k xs) m x = m x"
  by (induction xs arbitrary: k m) auto

lemma pid_map_nth:
  assumes "distinct pids" "i < length pids"
  shows "pid_map pids (pids ! i) = Some (of_nat i)"
proof -
  have "fold (\<lambda>(i, pid) m. m(pid \<mapsto> of_nat i)) (enumerate k xs) m (xs ! i) = Some (of_nat (k + i))"
    if "distinct xs" "i < length xs" for k xs and m :: "string \<rightharpoonup> ProcessId" and i
    using that
  proof (induction xs arbitrary: k m i)
    case (Cons a xs)
    show ?case
    proof (cases i)
      case 0
      then show ?thesis using Cons.prems by (simp add: pid_map_fold fun_upd_same del: fun_upd_apply)
    next
      case (Suc j)
      then show ?thesis using Cons.prems Cons.IH[of j "Suc k"] by simp
    qed
  qed simp
  from this[OF assms, of 0 Map.empty] show ?thesis by (simp add: pid_map_def)
qed

lemma re_init_more:
  assumes "re_InitProcess env sha256 sha512 pubs priv mix i pids ps own = Inr p"
  shows "re_actorPids p = pid_map pids" "re_processCount p = ProcessCount ps"
    "re_readyMessagesThreshold p = FaultyProcesses ps + 1"
  using assms by (auto simp: re_InitProcess_def Let_def split: if_splits)

lemma re_node_facts:
  assumes ok: "re_node_ok pids ps x N" and w: "re_wellposed pids ps"
  shows "re_run_owed (rn_state N) (set (rn_inputs N)) (set (rn_effects N))"
    "re_run_inv (rn_env N) (rn_state N) (set (rn_inputs N)) (set (rn_effects N))"
    "re_pids (rn_state N) = pids" "re_processIndex (rn_state N) = x" "re_processCount (rn_state N) = int (length pids)"
    "re_quorumThreshold (rn_state N) = ceil_half (int (length pids) + FaultyProcesses ps + 1)"
    "re_witnessThreshold (rn_state N) = WitnessThreshold ps"
    "re_readyMessagesThreshold (rn_state N) = FaultyProcesses ps + 1" "re_actorPids (rn_state N) = pid_map pids"
proof -
  from ok[unfolded re_node_ok_def] obtain sha256 sha512 pubs priv mix own
    where i: "re_InitProcess (rn_env N) sha256 sha512 pubs priv mix x pids ps own = Inr (rn_start N)"
    and r: "re_reaches (rn_env N) (rn_start N) (rn_inputs N) (rn_state N) (rn_effects N)"
    and order: "\<And>A. finite A \<Longrightarrow> set (env_order (rn_env N) A) = A"
    by (elim conjE exE) blast
  note c = re_config_fields[OF re_reaches_config[OF r]] and k = re_init_config[OF i] re_init_more[OF i]
  have "re_thresholds_ok (rn_start N)"
    using w ceil_half_bounds[of "int (length pids) + FaultyProcesses ps + 1"]
    by (simp add: re_thresholds_ok_def k re_wellposed_def)
  then show "re_run_owed (rn_state N) (set (rn_inputs N)) (set (rn_effects N))"
    by (rule re_reaches_owed[OF r re_run_inv_start[OF i] re_run_owed_start[OF i] _ order])
  show "re_run_inv (rn_env N) (rn_state N) (set (rn_inputs N)) (set (rn_effects N))"
    by (rule re_node_views(1)[OF ok])
  show "re_pids (rn_state N) = pids" "re_processIndex (rn_state N) = x" "re_processCount (rn_state N) = int (length pids)"
    "re_quorumThreshold (rn_state N) = ceil_half (int (length pids) + FaultyProcesses ps + 1)"
    "re_witnessThreshold (rn_state N) = WitnessThreshold ps"
    "re_readyMessagesThreshold (rn_state N) = FaultyProcesses ps + 1" "re_actorPids (rn_state N) = pid_map pids"
    using w by (simp_all only: c k re_wellposed_def)
qed

text \<open>A member of the system is the process its name leads to.\<close>

lemma re_index_name:
  assumes "re_wellposed pids ps" "re_actorPids p = pid_map pids" "q \<in> set (procs (length pids))"
  shows "re_index p (re_name pids q) = q" "0 \<le> sint q" "sint q < int (length pids)"
proof -
  obtain i where i: "i < length pids" "q = of_nat i" using assms(3) by (auto simp: set_procs)
  have "sint q = int i"
    using i assms(1) by (simp add: re_wellposed_def i(2) signed_of_nat signed_take_bit_int_eq_self)
  then show "re_index p (re_name pids q) = q" "0 \<le> sint q" "sint q < int (length pids)"
    using i assms(1,2) pid_map_nth[of pids i] by (simp_all add: re_index_def re_name_def re_wellposed_def)
qed

section \<open>Where messages come from\<close>

lemma re_inst_justified: "re_run_owed p R E \<Longrightarrow> re_justified p R E b"
  by (simp add: re_run_owed_def re_inst_owed_def)

lemma re_later_says: "re_later C S S' \<Longrightarrow> x \<in> C \<Longrightarrow> re_says (set (rn_effects (S x))) b st v \<Longrightarrow> re_says (set (rn_effects (S' x))) b st v"
  unfolding re_later_def re_says_def by blast

lemma re_later_heard:
  "re_later C S S' \<Longrightarrow> x \<in> C \<Longrightarrow> re_heard (set (rn_inputs (S' x))) q b st v \<Longrightarrow>
   q \<in> C \<and> re_says (set (rn_effects (S q))) b st v"
  unfolding re_later_def re_heard_def re_says_def by blast

text \<open>Every message of the protocol goes back to a NOTIFY of the same instance and value.\<close>

lemma re_source:
  assumes run: "re_system_run pids ps C {} S" and w: "re_wellposed pids ps"
    and x: "x \<in> C" "Send to (re_rmsg b st bm sh) \<in> set (rn_effects (S x))"
  shows "\<exists>bm'. bm = Some bm' \<and> (\<exists>z\<in>C. re_says (set (rn_effects (S z))) b Reliable_NOTIFY (Value bm'))"
  using run x
proof (induction arbitrary: x to st sh rule: re_system_run_later)
  case (start S)
  then show ?case by simp
next
  case (step S S')
  have j: "re_justified (rn_state (S' x)) (set (rn_inputs (S' x))) (set (rn_effects (S' x))) b"
    by (rule re_inst_justified[OF re_node_facts(1)[OF re_system_run_node[OF step(2) step(5)] w]])
  show ?case
  proof (cases "st = Reliable_NOTIFY")
    case True
    then obtain bm' where bm: "bm = Some bm'" using j step(6) unfolding re_justified_def by fastforce
    then have "re_says (set (rn_effects (S' x))) b Reliable_NOTIFY (Value bm')"
      using step(6) True by (auto simp: re_says_send)
    then show ?thesis using bm step(5) by blast
  next
    case False
    then obtain q st' sh' where "Received q (re_rmsg b st' bm sh') \<in> set (rn_inputs (S' x))"
      using j step(6) unfolding re_justified_def by meson
    then have "q \<in> C" "Send x (re_rmsg b st' bm sh') \<in> set (rn_effects (S q))"
      using step(3,5) unfolding re_later_def by blast+
    then obtain bm' z where "bm = Some bm'" "z \<in> C" "re_says (set (rn_effects (S z))) b Reliable_NOTIFY (Value bm')"
      using step(4)[of q x st' sh'] by blast
    then show ?thesis using re_later_says[OF step(3)] by blast
  qed
qed

text \<open>The first READY of any kind rests on a quorum of ECHO_FROM_PROCESS messages.\<close>

definition re_quorum_heard ::
  "string list \<Rightarrow> Parameters \<Rightarrow> (ProcessId \<Rightarrow> re_node) \<Rightarrow> ProcessId \<Rightarrow> BroadcastInstance \<Rightarrow> ReliableProtocolMessage_Stage \<Rightarrow> bool" where
  "re_quorum_heard pids ps S z b st \<longleftrightarrow> (\<exists>u. ceil_half (int (length pids) + FaultyProcesses ps + 1) \<le>
     int (card {q. (q, u) \<in> re_heard_votes (rn_state (S z)) (set (rn_inputs (S z))) b st}))"

lemma re_quorum_later:
  assumes "re_system_run pids ps C {} S" "re_system_run pids ps C {} S'" "re_later C S S'" "z \<in> C" "re_wellposed pids ps"
    and "re_quorum_heard pids ps S z b st"
  shows "re_quorum_heard pids ps S' z b st"
proof -
  have "re_pids (rn_state (S z)) = re_pids (rn_state (S' z))"
    using re_node_facts(3)[OF re_system_run_node[OF assms(1,4)] assms(5)] re_node_facts(3)[OF re_system_run_node[OF assms(2,4)] assms(5)]
    by simp
  then have eq: "re_heard_votes (rn_state (S z)) R b st = re_heard_votes (rn_state (S' z)) R b st" for R
    by (simp add: re_heard_votes_def)
  have R: "set (rn_inputs (S z)) \<subseteq> set (rn_inputs (S' z))" using assms(3,4) by (simp add: re_later_def)
  obtain u where "ceil_half (int (length pids) + FaultyProcesses ps + 1) \<le>
     int (card {q. (q, u) \<in> re_heard_votes (rn_state (S' z)) (set (rn_inputs (S z))) b st})"
    using assms(6) by (auto simp: re_quorum_heard_def eq)
  then show ?thesis using re_heard_votes_card_mono[OF R, of u "rn_state (S' z)" b st]
    unfolding re_quorum_heard_def by (intro exI[of _ u]) linarith
qed

lemma re_card_heard: "0 < card {q. (q, v) \<in> re_heard_votes p R b st} \<Longrightarrow> \<exists>q. re_heard R q b st v"
  by (auto simp: card_gt_0_iff re_heard_votes_def)

lemma re_first_quorum:
  assumes run: "re_system_run pids ps C {} S" and w: "re_wellposed pids ps"
    and x: "x \<in> C" "st = Reliable_READY_FROM_WITNESS \<or> st = Reliable_READY_FROM_PROCESS" "re_says (set (rn_effects (S x))) b st v"
  shows "\<exists>z\<in>C. re_quorum_heard pids ps S z b Reliable_ECHO_FROM_PROCESS"
  using run x
proof (induction arbitrary: x st v rule: re_system_run_later)
  case (start S)
  then show ?case by simp
next
  case (step S S')
  note f = re_node_facts[OF re_system_run_node[OF step(2) step(5)] w]
  have earlier: "\<exists>z\<in>C. re_quorum_heard pids ps S' z b Reliable_ECHO_FROM_PROCESS"
    if "re_heard (set (rn_inputs (S' x))) q b st' u" "st' = Reliable_READY_FROM_WITNESS \<or> st' = Reliable_READY_FROM_PROCESS" for q st' u
  proof -
    have "q \<in> C" "re_says (set (rn_effects (S q))) b st' u" using re_later_heard[OF step(3) step(5) that(1)] by simp_all
    from step(4)[OF this(1) that(2) this(2)]
    obtain z where "z \<in> C" "re_quorum_heard pids ps S z b Reliable_ECHO_FROM_PROCESS" by blast
    then show ?thesis using re_quorum_later[OF step(1-3) _ w] by blast
  qed
  note j = re_inst_justified[OF f(1), of b]
  from step(6) show ?case
  proof
    assume "st = Reliable_READY_FROM_WITNESS"
    then have "ceil_half (int (length pids) + FaultyProcesses ps + 1) \<le>
        int (card {q. (q, v) \<in> re_heard_votes (rn_state (S' x)) (set (rn_inputs (S' x))) b Reliable_ECHO_FROM_PROCESS}) \<or>
      FaultyProcesses ps + 1 \<le>
        int (card {q. (q, v) \<in> re_heard_votes (rn_state (S' x)) (set (rn_inputs (S' x))) b Reliable_READY_FROM_PROCESS})"
      using j step(7) by (simp add: re_justified_def f(6,8))
    then show ?thesis
    proof
      assume r: "FaultyProcesses ps + 1 \<le>
        int (card {q. (q, v) \<in> re_heard_votes (rn_state (S' x)) (set (rn_inputs (S' x))) b Reliable_READY_FROM_PROCESS})"
      moreover have "0 \<le> FaultyProcesses ps" using w by (simp add: re_wellposed_def)
      ultimately have "0 < card {q. (q, v) \<in> re_heard_votes (rn_state (S' x)) (set (rn_inputs (S' x))) b Reliable_READY_FROM_PROCESS}"
        by linarith
      from re_card_heard[OF this] show ?thesis using earlier by blast
    qed (use step(5) in \<open>auto simp: re_quorum_heard_def\<close>)
  next
    assume "st = Reliable_READY_FROM_PROCESS"
    then have "WitnessThreshold ps \<le>
        int (card {q. (q, v) \<in> re_heard_votes (rn_state (S' x)) (set (rn_inputs (S' x))) b Reliable_READY_FROM_WITNESS})"
      using j step(7) by (simp add: re_justified_def f(7))
    moreover have "0 < WitnessThreshold ps" using w by (simp add: re_wellposed_def)
    ultimately have "0 < card {q. (q, v) \<in> re_heard_votes (rn_state (S' x)) (set (rn_inputs (S' x))) b Reliable_READY_FROM_WITNESS}"
      by linarith
    from re_card_heard[OF this] show ?thesis using earlier by blast
  qed
qed

section \<open>Runs in which processes only crash\<close>

text \<open>
  The processes \<open>A\<close> are alive at the end: they have received everything that was sent to them. Nobody
  has committed the transaction (its message state would be gone), the message states for it agree on
  the potential witnesses \<open>P\<close>, and every own witness set has enough members that are alive.
\<close>

definition re_witnesses_alive ::
  "string list \<Rightarrow> Parameters \<Rightarrow> ProcessId set \<Rightarrow> ProcessId set \<Rightarrow> (ProcessId \<Rightarrow> re_node) \<Rightarrow> BroadcastInstance \<Rightarrow> string set \<Rightarrow> bool" where
  "re_witnesses_alive pids ps C A S b P \<longleftrightarrow> (\<forall>x\<in>C. \<not> re_finallyCommitted (rn_state (S x)) b \<and>
     (\<forall>ms. re_state (rn_state (S x)) b = Some ms \<longrightarrow> re_potWitnessSet ms = P \<and> re_ownWitnessSet ms \<subseteq> P \<and>
        WitnessThreshold ps \<le> int (card {q \<in> A. re_name pids q \<in> re_ownWitnessSet ms})))"

definition re_crash_run ::
  "string list \<Rightarrow> Parameters \<Rightarrow> ProcessId set \<Rightarrow> ProcessId set \<Rightarrow> (ProcessId \<Rightarrow> re_node) \<Rightarrow> BroadcastInstance \<Rightarrow> string set \<Rightarrow> bool" where
  "re_crash_run pids ps C A S b P \<longleftrightarrow> re_wellposed pids ps \<and> A \<subseteq> C \<and> C \<subseteq> set (procs (length pids)) \<and>
     re_system_run pids ps C {} S \<and> re_settled C A S \<and> re_witnesses_alive pids ps C A S b P"

lemma re_crash_parts:
  assumes "re_crash_run pids ps C A S b P"
  shows "re_wellposed pids ps" "A \<subseteq> C" "C \<subseteq> set (procs (length pids))" "re_system_run pids ps C {} S"
    "re_settled C A S" "re_witnesses_alive pids ps C A S b P" "0 < WitnessThreshold ps" "finite A"
  using assms finite_subset[of A "set (procs (length pids))"] by (auto simp: re_crash_run_def re_wellposed_def)

lemma re_crash_node:
  assumes "re_crash_run pids ps C A S b P" "x \<in> C"
  shows "re_node_ok pids ps x (S x)"
  using re_system_run_node[OF re_crash_parts(4)[OF assms(1)] assms(2)] .

lemmas re_crash_facts = re_node_facts[OF re_crash_node re_crash_parts(1)]

text \<open>Only one value is ever mentioned.\<close>

lemma re_crash_value:
  assumes c: "re_crash_run pids ps C A S b P"
    and x: "x \<in> C" "re_says (set (rn_effects (S x))) b st v" and y: "y \<in> C" "re_says (set (rn_effects (S y))) b st' u"
  shows "v = u"
proof -
  have src: "\<exists>z\<in>C. re_says (set (rn_effects (S z))) b Reliable_NOTIFY v"
    if "x \<in> C" "re_says (set (rn_effects (S x))) b st v" for x st v
    using re_source[OF re_crash_parts(4,1)[OF c] that(1)] that(2) unfolding re_says_send by blast
  obtain z z' where z: "z \<in> C" "re_says (set (rn_effects (S z))) b Reliable_NOTIFY v"
    "z' \<in> C" "re_says (set (rn_effects (S z'))) b Reliable_NOTIFY u" using src[OF x] src[OF y] by blast
  have author: "Author b = z" if "z \<in> C" "re_says (set (rn_effects (S z))) b Reliable_NOTIFY v" for z v
  proof -
    have "Author b = re_processIndex (rn_state (S z))"
      using re_inst_justified[OF re_crash_facts(1)[OF c that(1) c], of b] that(2) unfolding re_justified_def by blast
    then show ?thesis by (simp only: re_crash_facts(4)[OF c that(1) c])
  qed
  have "z = z'" using author[OF z(1,2)] author[OF z(3,4)] by simp
  then show ?thesis using re_inst_justified[OF re_crash_facts(1)[OF c z(1) c], of b] z(2,4) unfolding re_justified_def by blast
qed

lemma re_crash_heard_said:
  assumes c: "re_crash_run pids ps C A S b P" and "x \<in> C" "re_heard (set (rn_inputs (S x))) q b' st v"
  shows "q \<in> C" "re_says (set (rn_effects (S q))) b' st v"
  using re_system_run_received[OF re_crash_parts(4)[OF c] _ assms(2)] assms(3) unfolding re_heard_def re_says_def by blast+

text \<open>Who said or heard anything about the instance has a message state for it.\<close>

lemma re_crash_state:
  assumes c: "re_crash_run pids ps C A S b P" and x: "x \<in> C"
    and "re_heard (set (rn_inputs (S x))) q b st v \<or> re_says (set (rn_effects (S x))) b st v"
  obtains ms where "re_state (rn_state (S x)) b = Some ms"
proof -
  have "\<not> re_finallyCommitted (rn_state (S x)) b" using re_crash_parts(6)[OF c] x by (simp add: re_witnesses_alive_def)
  then have "re_state (rn_state (S x)) b \<noteq> None"
    using re_crash_facts(1)[OF c x c] assms(3) unfolding re_run_owed_def re_inst_owed_def re_says_send by blast
  then show ?thesis using that by blast
qed

lemma re_crash_live:
  assumes c: "re_crash_run pids ps C A S b P" and x: "x \<in> C" and st: "re_state (rn_state (S x)) b = Some ms"
  shows "re_live (rn_state (S x)) (set (rn_inputs (S x))) (set (rn_effects (S x))) b ms"
    "re_entry_ok (rn_env (S x)) (rn_state (S x)) (set (rn_inputs (S x))) (set (rn_effects (S x))) b ms"
    "re_stage ms = Delivered \<longleftrightarrow> re_delivered (rn_state (S x)) b \<noteq> None"
    "re_potWitnessSet ms = P" "re_ownWitnessSet ms \<subseteq> P"
    "WitnessThreshold ps \<le> int (card {q \<in> A. re_name pids q \<in> re_ownWitnessSet ms})"
    "\<exists>q\<in>A. re_name pids q \<in> re_ownWitnessSet ms"
proof -
  show "re_live (rn_state (S x)) (set (rn_inputs (S x))) (set (rn_effects (S x))) b ms"
    using re_crash_facts(1)[OF c x c] st by (simp add: re_run_owed_def re_inst_owed_def)
  show "re_entry_ok (rn_env (S x)) (rn_state (S x)) (set (rn_inputs (S x))) (set (rn_effects (S x))) b ms"
    "re_stage ms = Delivered \<longleftrightarrow> re_delivered (rn_state (S x)) b \<noteq> None"
    using re_crash_facts(2)[OF c x c] st by (simp_all add: re_run_inv_def re_inst_ok_def)
  show w: "re_potWitnessSet ms = P" "re_ownWitnessSet ms \<subseteq> P"
    "WitnessThreshold ps \<le> int (card {q \<in> A. re_name pids q \<in> re_ownWitnessSet ms})"
    using re_crash_parts(6)[OF c] x st by (simp_all add: re_witnesses_alive_def)
  have "card {q \<in> A. re_name pids q \<in> re_ownWitnessSet ms} \<noteq> 0" using w(3) re_crash_parts(7)[OF c] by linarith
  then have "{q \<in> A. re_name pids q \<in> re_ownWitnessSet ms} \<noteq> {}" by (metis card.empty)
  then show "\<exists>q\<in>A. re_name pids q \<in> re_ownWitnessSet ms" by blast
qed

text \<open>A message sent to a process that is alive is heard by it.\<close>

lemma re_crash_heard:
  assumes c: "re_crash_run pids ps C A S b P" and y: "y \<in> C" and x: "x \<in> A"
    and sent: "re_sent_to (set (rn_effects (S y))) T b st" "x \<in> T"
  shows "\<exists>v. re_heard (set (rn_inputs (S x))) y b st v"
proof -
  obtain bm sh where m: "Send x (re_rmsg b st bm sh) \<in> set (rn_effects (S y))" using sent by (auto simp: re_sent_to_def)
  then obtain bm' where "bm = Some bm'" using re_source[OF re_crash_parts(4,1)[OF c] y] by blast
  moreover have "Received y (re_rmsg b st bm sh) \<in> set (rn_inputs (S x))"
    using re_crash_parts(5)[OF c] x y m by (simp add: re_settled_def)
  moreover have "re_about b st (Value bm') (re_rmsg b st (Some bm') sh)" by simp
  ultimately show ?thesis unfolding re_heard_def by blast
qed

lemma re_crash_answered:
  assumes c: "re_crash_run pids ps C A S b P" and x: "x \<in> C" "re_heard (set (rn_inputs (S x))) q b st v"
    and st: "re_state (rn_state (S x)) b = Some ms"
  shows "re_answered (rn_state (S x)) ms q st"
  using re_crash_live(1)[OF c x(1) st] x(2) unfolding re_live_def re_noticed_def by blast

text \<open>The witnesses that are alive, and their part in the sets and messages.\<close>

lemma re_crash_witness:
  assumes c: "re_crash_run pids ps C A S b P" and y: "y \<in> C" "re_state (rn_state (S y)) b = Some ms"
    and w: "w \<in> A" "re_name pids w \<in> P"
  shows "w \<in> re_potWitnesses (rn_state (S y)) ms" "w = y \<Longrightarrow> re_self (rn_state (S y)) ms"
proof -
  have "w \<in> set (procs (length pids))" using re_crash_parts(2,3)[OF c] w(1) by blast
  note i = re_index_name[OF re_crash_parts(1)[OF c] re_crash_facts(9)[OF c y(1) c] this]
  show "w \<in> re_potWitnesses (rn_state (S y)) ms"
    unfolding re_potWitnesses_def re_crash_live(4)[OF c y] using i(1) w(2) by (metis imageI)
  show "re_self (rn_state (S y)) ms" if "w = y"
    using w(2) that by (simp add: re_self_def re_crash_live(4)[OF c y] re_crash_facts(3,4)[OF c y(1) c])
qed

lemma re_crash_everyone:
  assumes c: "re_crash_run pids ps C A S b P" and "x \<in> C" "y \<in> C"
  shows "x \<in> set (procs (length (re_pids (rn_state (S y)))))"
    "x \<in> set (procs (nat (re_processCount (rn_state (S y)))))"
  using re_crash_parts(3)[OF c] assms(2) re_crash_facts(3,5)[OF c assms(3) c] by auto

text \<open>What one process said to some potential witness, every witness that is alive has heard.\<close>

lemma re_crash_to_witness:
  assumes c: "re_crash_run pids ps C A S b P" and y: "y \<in> C" "re_says (set (rn_effects (S y))) b st v"
    and st: "st \<in> re_to_witnesses" and w: "w \<in> A" "re_name pids w \<in> P"
  shows "re_heard (set (rn_inputs (S w))) y b st v"
proof -
  obtain ms where ms: "re_state (rn_state (S y)) b = Some ms" using re_crash_state[OF c y(1)] y(2) by blast
  have "re_sent_to (set (rn_effects (S y))) (re_potWitnesses (rn_state (S y)) ms) b st"
    using re_crash_live(1)[OF c y(1) ms] st y(2) unfolding re_live_def re_has_sent_def by blast
  then obtain u where u: "re_heard (set (rn_inputs (S w))) y b st u"
    using re_crash_heard[OF c y(1) w(1)] re_crash_witness(1)[OF c y(1) ms w] by blast
  have "w \<in> C" using re_crash_parts(2)[OF c] w(1) by blast
  then have "u = v" using re_crash_value[OF c y(1) _ y] re_crash_heard_said(2)[OF c _ u] by blast
  then show ?thesis using u by simp
qed

section \<open>Quorums spread\<close>

lemma re_crash_tally:
  assumes c: "re_crash_run pids ps C A S b P" and x: "x \<in> C" and t: "tally seen counted V"
    and V: "V \<subseteq> re_heard_votes (rn_state (S x)) (set (rn_inputs (S x))) b st"
    and Q: "\<And>q. q \<in> Q \<Longrightarrow> seen q" and z: "z \<in> C" "re_says (set (rn_effects (S z))) b st' v"
  shows "card Q \<le> counted v"
proof (rule tally_ge[OF t Q])
  fix q u assume "(q, u) \<in> V"
  then have "re_heard (set (rn_inputs (S x))) q b st u" using V by (auto simp: re_heard_votes_def)
  then show "u = v" using re_crash_value[OF c _ _ z] re_crash_heard_said[OF c x] by blast
qed

lemma re_quorum_spreads:
  assumes c: "re_crash_run pids ps C A S b P" and z: "z \<in> C" "re_quorum_heard pids ps S z b st"
    and w: "w \<in> A" "re_name pids w \<in> P" and st: "st \<in> {Reliable_ECHO_FROM_PROCESS, Reliable_READY_FROM_PROCESS}"
  obtains ms where "re_state (rn_state (S w)) b = Some ms"
    "st = Reliable_ECHO_FROM_PROCESS \<Longrightarrow> SentReadyFromWitness \<le> re_witnessStage ms"
    "st = Reliable_READY_FROM_PROCESS \<Longrightarrow> re_witnessStage ms = SentValidate"
proof -
  have wC: "w \<in> C" using re_crash_parts(2)[OF c] w(1) by blast
  obtain u where u: "ceil_half (int (length pids) + FaultyProcesses ps + 1) \<le>
      int (card {q. (q, u) \<in> re_heard_votes (rn_state (S z)) (set (rn_inputs (S z))) b st})" (is "_ \<le> int (card ?Q)")
    using z(2) by (auto simp: re_quorum_heard_def)
  from st have tw: "st \<in> re_to_witnesses" by (auto simp: re_to_witnesses_def)
  have said: "q \<in> C \<and> re_says (set (rn_effects (S q))) b st u" if "q \<in> ?Q" for q
    using re_crash_heard_said[OF c z(1)] that by (auto simp: re_heard_votes_def)
  have heard: "re_heard (set (rn_inputs (S w))) q b st u" if "q \<in> ?Q" for q
    using re_crash_to_witness[OF c _ _ tw w] said[OF that] by blast
  have "0 < card ?Q"
    using u ceil_half_bounds[of "int (length pids) + FaultyProcesses ps + 1"] re_crash_parts(1)[OF c]
    unfolding re_wellposed_def by linarith
  then obtain q0 where q0: "q0 \<in> ?Q" by (metis card_gt_0_iff ex_in_conv)
  obtain ms where ms: "re_state (rn_state (S w)) b = Some ms" using re_crash_state[OF c wC] heard[OF q0] by blast
  note l = re_crash_live(1)[OF c wC ms] and f = re_crash_facts[OF c wC c] and self = re_crash_witness(2)[OF c wC ms w refl]
  have ans: "re_answered (rn_state (S w)) ms q st" if "q \<in> ?Q" for q
    by (rule re_crash_answered[OF c wC heard[OF that] ms])
  show ?thesis
  proof (rule that[OF ms])
    assume st: "st = Reliable_ECHO_FROM_PROCESS"
    show "SentReadyFromWitness \<le> re_witnessStage ms"
    proof (rule ccontr)
      assume no: "\<not> SentReadyFromWitness \<le> re_witnessStage ms"
      have "card ?Q \<le> re_echoFromProcessesStat ms u"
      proof (rule re_crash_tally[OF c wC _ subset_refl])
        show "tally (re_echoFromProcesses ms) (re_echoFromProcessesStat ms)
          (re_heard_votes (rn_state (S w)) (set (rn_inputs (S w))) b Reliable_ECHO_FROM_PROCESS)"
          using l by (simp add: re_live_def re_counts_def)
        show "re_echoFromProcesses ms q" if "q \<in> ?Q" for q using ans[OF that] no self by (simp add: st)
      qed (use said[OF q0] in auto)
      then have "re_quorumThreshold (rn_state (S w)) \<le> int (re_echoFromProcessesStat ms u)" using u unfolding f(6) by linarith
      then show False using l no unfolding re_live_def re_triggered_def by blast
    qed
  next
    assume st: "st = Reliable_READY_FROM_PROCESS"
    have "card ?Q \<le> re_readyFromProcessesStat ms u"
    proof (rule re_crash_tally[OF c wC _ subset_refl])
      show "tally (re_readyFromProcesses ms) (re_readyFromProcessesStat ms)
        (re_heard_votes (rn_state (S w)) (set (rn_inputs (S w))) b Reliable_READY_FROM_PROCESS)"
        using l by (simp add: re_live_def re_counts_def)
      show "re_readyFromProcesses ms q" if "q \<in> ?Q" for q using ans[OF that] self by (simp add: st)
    qed (use said[OF q0] in auto)
    then have "re_quorumThreshold (rn_state (S w)) \<le> int (re_readyFromProcessesStat ms u)" using u unfolding f(6) by linarith
    then show "re_witnessStage ms = SentValidate" using l unfolding re_live_def re_triggered_def by blast
  qed
qed

section \<open>Totality and validity\<close>

text \<open>A delivery rests on a VALIDATE of somebody.\<close>

lemma re_crash_delivered_validate:
  assumes c: "re_crash_run pids ps C A S b P" and x: "x \<in> C" "re_value (rn_state (S x)) b = Some v"
  shows "\<exists>y\<in>C. re_says (set (rn_effects (S y))) b Reliable_VALIDATE v"
proof -
  have "re_backed (rn_env (S x)) (rn_state (S x)) (set (rn_inputs (S x))) (set (rn_effects (S x))) b v"
    using re_crash_facts(2)[OF c x(1) c] x(2) unfolding re_run_inv_def re_inst_ok_def by blast
  then obtain own where "WitnessThreshold ps \<le> int (card {q. (q, v) \<in> re_heard_votes (rn_state (S x)) (set (rn_inputs (S x))) b
      Reliable_VALIDATE \<and> re_name (re_pids (rn_state (S x))) q \<in> own})"
    unfolding re_backed_def re_crash_facts(7)[OF c x(1) c] by blast
  then have "0 < card {q. (q, v) \<in> re_heard_votes (rn_state (S x)) (set (rn_inputs (S x))) b
      Reliable_VALIDATE \<and> re_name (re_pids (rn_state (S x))) q \<in> own}" using re_crash_parts(7)[OF c] by linarith
  then obtain q where "re_heard (set (rn_inputs (S x))) q b Reliable_VALIDATE v"
    by (auto simp: card_gt_0_iff re_heard_votes_def)
  then show ?thesis using re_crash_heard_said[OF c x(1)] by blast
qed

text \<open>A VALIDATE rests on a quorum of READY_FROM_PROCESS messages.\<close>

lemma re_validate_quorum:
  assumes c: "re_crash_run pids ps C A S b P" and z: "z \<in> C" "re_says (set (rn_effects (S z))) b Reliable_VALIDATE v"
  shows "re_quorum_heard pids ps S z b Reliable_READY_FROM_PROCESS"
proof -
  have "re_said_ok (rn_state (S z)) (set (rn_inputs (S z))) (set (rn_effects (S z))) b"
    using re_crash_facts(2)[OF c z(1) c] by (simp add: re_run_inv_def re_inst_ok_def)
  then show ?thesis using z(2) unfolding re_said_ok_def re_quorum_heard_def re_crash_facts(6)[OF c z(1) c] by blast
qed

lemma re_quorum_heard_some:
  assumes "re_wellposed pids ps" "re_quorum_heard pids ps S z b st"
  shows "\<exists>q u. re_heard (set (rn_inputs (S z))) q b st u"
proof -
  obtain u where "ceil_half (int (length pids) + FaultyProcesses ps + 1) \<le>
      int (card {q. (q, u) \<in> re_heard_votes (rn_state (S z)) (set (rn_inputs (S z))) b st})"
    using assms(2) by (auto simp: re_quorum_heard_def)
  then have "0 < card {q. (q, u) \<in> re_heard_votes (rn_state (S z)) (set (rn_inputs (S z))) b st}"
    using assms(1) ceil_half_bounds[of "int (length pids) + FaultyProcesses ps + 1"] unfolding re_wellposed_def by linarith
  from re_card_heard[OF this] show ?thesis by blast
qed

text \<open>A VALIDATE of anybody makes everybody alive deliver.\<close>

lemma re_validate_delivers:
  assumes c: "re_crash_run pids ps C A S b P" and z: "z \<in> C" "re_says (set (rn_effects (S z))) b Reliable_VALIDATE v"
    and x: "x \<in> A"
  shows "re_value (rn_state (S x)) b = Some v"
proof -
  have AC: "A \<subseteq> C" by (rule re_crash_parts(2)[OF c])
  then have xC: "x \<in> C" using x by blast
  have heard: "\<exists>u. re_heard (set (rn_inputs (S x))) w b Reliable_VALIDATE u" if w: "w \<in> A" "re_name pids w \<in> P" for w
  proof (rule re_quorum_spreads[OF c z(1) re_validate_quorum[OF c z] w])
    fix ms assume ms: "re_state (rn_state (S w)) b = Some ms"
      and "Reliable_READY_FROM_PROCESS = Reliable_READY_FROM_PROCESS \<Longrightarrow> re_witnessStage ms = SentValidate"
    moreover have wC: "w \<in> C" using AC w(1) by blast
    ultimately have "re_sent_to (set (rn_effects (S w))) (set (procs (length (re_pids (rn_state (S w)))))) b Reliable_VALIDATE"
      using re_crash_live(1)[OF c wC ms] by (simp add: re_live_def re_has_sent_def re_witness_sent_def)
    then show ?thesis using re_crash_heard[OF c wC x] re_crash_everyone(1)[OF c xC wC] by blast
  qed simp
  obtain msz where msz: "re_state (rn_state (S z)) b = Some msz" using re_crash_state[OF c z(1)] z(2) by blast
  obtain w0 where w0: "w0 \<in> A" "re_name pids w0 \<in> P" using re_crash_live(5,7)[OF c z(1) msz] by blast
  obtain ms where ms: "re_state (rn_state (S x)) b = Some ms" using re_crash_state[OF c xC] heard[OF w0] by blast
  note l = re_crash_live[OF c xC ms] and f = re_crash_facts[OF c xC c]
  have "re_stage ms = Delivered"
  proof (rule ccontr)
    assume no: "re_stage ms \<noteq> Delivered"
    have "card {q \<in> A. re_name pids q \<in> re_ownWitnessSet ms} \<le> re_validatesStat ms v"
    proof (rule re_crash_tally[OF c xC])
      show "tally (re_validateFromWitnesses ms) (re_validatesStat ms) {(q, v) \<in> re_heard_votes (rn_state (S x)) (set (rn_inputs (S x))) b
          Reliable_VALIDATE. re_name (re_pids (rn_state (S x))) q \<in> re_ownWitnessSet ms}"
        using l(2) by (simp add: re_entry_ok_def)
      fix q assume q: "q \<in> {q \<in> A. re_name pids q \<in> re_ownWitnessSet ms}"
      then have "\<exists>u. re_heard (set (rn_inputs (S x))) q b Reliable_VALIDATE u" using heard l(5) by blast
      then show "re_validateFromWitnesses ms q"
        using re_crash_answered[OF c xC _ ms] q no by (fastforce simp: f(3))
    qed (use z in auto)
    then have "re_witnessThreshold (rn_state (S x)) \<le> int (re_validatesStat ms v)" using l(6) unfolding f(7) by linarith
    then show False using l(1) no unfolding re_live_def re_triggered_def by blast
  qed
  then obtain bm where "re_delivered (rn_state (S x)) b = Some bm" using l(3) by auto
  then have val: "re_value (rn_state (S x)) b = Some (Value bm)" by (simp add: re_value_def)
  obtain y where "y \<in> C" "re_says (set (rn_effects (S y))) b Reliable_VALIDATE (Value bm)"
    using re_crash_delivered_validate[OF c xC val] by blast
  then show ?thesis using val re_crash_value[OF c _ _ z] by simp
qed

text \<open>Something sent is something said, and what is heard from everybody alive is a quorum.\<close>

lemma re_crash_sent_says:
  assumes "re_crash_run pids ps C A S b P" "y \<in> C" "re_sent_to (set (rn_effects (S y))) T b st" "x \<in> T"
  shows "\<exists>u. re_says (set (rn_effects (S y))) b st u"
proof -
  obtain bm sh where m: "Send x (re_rmsg b st bm sh) \<in> set (rn_effects (S y))" using assms(3,4) by (auto simp: re_sent_to_def)
  then show ?thesis using re_source[OF re_crash_parts(4,1)[OF assms(1)] assms(2)] unfolding re_says_send by blast
qed

lemma re_crash_quorum:
  assumes c: "re_crash_run pids ps C A S b P" and w: "w \<in> C"
    and heard: "\<And>x. x \<in> A \<Longrightarrow> \<exists>u. re_heard (set (rn_inputs (S w))) x b st u"
    and z: "z \<in> C" "re_says (set (rn_effects (S z))) b st' v"
    and quorum: "ceil_half (int (length pids) + FaultyProcesses ps + 1) \<le> int (card A)"
  shows "re_quorum_heard pids ps S w b st"
proof -
  let ?Q = "{q. (q, v) \<in> re_heard_votes (rn_state (S w)) (set (rn_inputs (S w))) b st}"
  have "A \<subseteq> ?Q"
  proof
    fix x assume x: "x \<in> A"
    then obtain u where u: "re_heard (set (rn_inputs (S w))) x b st u" using heard by blast
    have "u = v" using re_crash_value[OF c _ _ z] re_crash_heard_said[OF c w u] by blast
    then show "x \<in> ?Q" using u x re_crash_parts(2,3)[OF c] re_crash_facts(3)[OF c w c] by (auto simp: re_heard_votes_def)
  qed
  then have "card A \<le> card ?Q" by (rule card_mono[OF finite_re_heard_votes])
  then show ?thesis using quorum unfolding re_quorum_heard_def by (intro exI[of _ v]) linarith
qed

text \<open>With a quorum alive, a NOTIFY leads to a quorum of ECHO_FROM_PROCESS at some witness.\<close>

lemma re_notify_echoes:
  assumes c: "re_crash_run pids ps C A S b P" and a: "a \<in> C" "re_says (set (rn_effects (S a))) b Reliable_NOTIFY v"
    and w0: "w0 \<in> A" "re_name pids w0 \<in> P"
    and quorum: "ceil_half (int (length pids) + FaultyProcesses ps + 1) \<le> int (card A)"
  shows "\<exists>z\<in>C. re_quorum_heard pids ps S z b Reliable_ECHO_FROM_PROCESS"
proof (rule ccontr)
  assume none: "\<not> (\<exists>z\<in>C. re_quorum_heard pids ps S z b Reliable_ECHO_FROM_PROCESS)"
  have AC: "A \<subseteq> C" by (rule re_crash_parts(2)[OF c])
  have quiet: "\<not> re_says (set (rn_effects (S x))) b st u"
    if "x \<in> C" "st = Reliable_READY_FROM_WITNESS \<or> st = Reliable_READY_FROM_PROCESS" for x st u
    using re_first_quorum[OF re_crash_parts(4,1)[OF c] that] none by blast
  have echoed: "\<exists>u. re_heard (set (rn_inputs (S x))) w b Reliable_ECHO_FROM_WITNESS u"
    if w: "w \<in> A" "re_name pids w \<in> P" and x: "x \<in> A" for w x
  proof -
    have wC: "w \<in> C" and xC: "x \<in> C" using AC w(1) x by blast+
    have heard: "re_heard (set (rn_inputs (S w))) a b Reliable_NOTIFY v"
      by (rule re_crash_to_witness[OF c a _ w]) (simp add: re_to_witnesses_def)
    obtain ms where ms: "re_state (rn_state (S w)) b = Some ms" using re_crash_state[OF c wC] heard by blast
    note l = re_crash_live(1)[OF c wC ms]
    have sent: "re_witness_sent (rn_state (S w)) (set (rn_effects (S w))) b (re_witnessStage ms)"
      using l by (simp add: re_live_def re_has_sent_def)
    have "SentEchoFromWitness \<le> re_witnessStage ms"
      using re_crash_answered[OF c wC heard ms] re_crash_witness(2)[OF c wC ms w refl] by simp
    moreover have "\<not> SentReadyFromWitness \<le> re_witnessStage ms"
      using sent re_crash_sent_says[OF c wC] re_crash_everyone(1)[OF c wC wC] quiet[OF wC] unfolding re_witness_sent_def by blast
    ultimately have "re_witnessStage ms = SentEchoFromWitness" by (cases "re_witnessStage ms") (simp_all add: re_stage_order)
    then show ?thesis
      using sent re_crash_heard[OF c wC x] re_crash_everyone(2)[OF c xC wC] unfolding re_witness_sent_def by blast
  qed
  have "re_quorum_heard pids ps S w0 b Reliable_ECHO_FROM_PROCESS"
  proof (rule re_crash_quorum[OF c _ _ a quorum])
    show w0C: "w0 \<in> C" using AC w0 by blast
    fix x assume x: "x \<in> A"
    then have xC: "x \<in> C" using AC by blast
    obtain ms where ms: "re_state (rn_state (S x)) b = Some ms" using re_crash_state[OF c xC] echoed[OF w0 x] by blast
    note l = re_crash_live[OF c xC ms] and pot = re_crash_witness(1)[OF c xC ms w0]
    have sent: "re_process_sent (set (rn_effects (S x))) (re_potWitnesses (rn_state (S x)) ms) b (re_stage ms)"
      using l(1) by (simp add: re_live_def re_has_sent_def)
    obtain q where q: "q \<in> A" "re_name pids q \<in> re_ownWitnessSet ms" using l(7) by blast
    then obtain u where "re_heard (set (rn_inputs (S x))) q b Reliable_ECHO_FROM_WITNESS u" using echoed[OF _ _ x] l(5) by blast
    then have "SentEchoFromProcess \<le> re_stage ms"
      using re_crash_answered[OF c xC _ ms] q(2) by (fastforce simp: re_crash_facts(3)[OF c xC c])
    moreover have "re_stage ms \<noteq> SentReadyFromProcess"
      using sent re_crash_sent_says[OF c xC _ pot] quiet[OF xC] unfolding re_process_sent_def by blast
    moreover have "re_stage ms \<noteq> Delivered"
    proof
      assume "re_stage ms = Delivered"
      then obtain u where "re_value (rn_state (S x)) b = Some u" using l(3) by (auto simp: re_value_def)
      then obtain y where y: "y \<in> C" "re_says (set (rn_effects (S y))) b Reliable_VALIDATE u"
        using re_crash_delivered_validate[OF c xC] by blast
      obtain k q where "re_heard (set (rn_inputs (S y))) q b Reliable_READY_FROM_PROCESS k"
        using re_validate_quorum[OF c y] re_quorum_heard_some[OF re_crash_parts(1)[OF c]] by blast
      then show False using re_crash_heard_said[OF c y(1)] quiet by blast
    qed
    ultimately have "re_stage ms = SentEchoFromProcess" by (cases "re_stage ms") (simp_all add: re_stage_order)
    then show "\<exists>u. re_heard (set (rn_inputs (S w0))) x b Reliable_ECHO_FROM_PROCESS u"
      using sent re_crash_heard[OF c xC w0(1) _ pot] unfolding re_process_sent_def by blast
  qed
  then show False using none AC w0(1) by blast
qed

text \<open>From there to a VALIDATE.\<close>

lemma re_echoes_validate:
  assumes c: "re_crash_run pids ps C A S b P" and z: "z \<in> C" "re_quorum_heard pids ps S z b Reliable_ECHO_FROM_PROCESS"
    and a: "a \<in> C" "re_says (set (rn_effects (S a))) b Reliable_NOTIFY v" and w0: "w0 \<in> A" "re_name pids w0 \<in> P"
    and quorum: "ceil_half (int (length pids) + FaultyProcesses ps + 1) \<le> int (card A)"
  shows "\<exists>y\<in>C. \<exists>u. re_says (set (rn_effects (S y))) b Reliable_VALIDATE u"
proof (rule ccontr)
  assume none: "\<not> (\<exists>y\<in>C. \<exists>u. re_says (set (rn_effects (S y))) b Reliable_VALIDATE u)"
  have AC: "A \<subseteq> C" by (rule re_crash_parts(2)[OF c])
  then have w0C: "w0 \<in> C" using w0(1) by blast
  have ready: "\<exists>u. re_heard (set (rn_inputs (S x))) w b Reliable_READY_FROM_WITNESS u"
    if w: "w \<in> A" "re_name pids w \<in> P" and x: "x \<in> A" for w x
  proof (rule re_quorum_spreads[OF c z w])
    fix ms assume ms: "re_state (rn_state (S w)) b = Some ms"
      and "Reliable_ECHO_FROM_PROCESS = Reliable_ECHO_FROM_PROCESS \<Longrightarrow> SentReadyFromWitness \<le> re_witnessStage ms"
    moreover have wC: "w \<in> C" and xC: "x \<in> C" using AC w(1) x by blast+
    ultimately have "re_sent_to (set (rn_effects (S w))) (set (procs (length (re_pids (rn_state (S w)))))) b Reliable_READY_FROM_WITNESS"
      using re_crash_live(1)[OF c wC ms] by (simp add: re_live_def re_has_sent_def re_witness_sent_def)
    then show ?thesis using re_crash_heard[OF c wC x] re_crash_everyone(1)[OF c xC wC] by blast
  qed simp
  have "re_quorum_heard pids ps S w0 b Reliable_READY_FROM_PROCESS"
  proof (rule re_crash_quorum[OF c w0C _ a quorum])
    fix x assume x: "x \<in> A"
    then have xC: "x \<in> C" using AC by blast
    obtain ms where ms: "re_state (rn_state (S x)) b = Some ms" using re_crash_state[OF c xC] ready[OF w0 x] by blast
    note l = re_crash_live[OF c xC ms] and f = re_crash_facts[OF c xC c]
    have "SentReadyFromProcess \<le> re_stage ms"
    proof (rule ccontr)
      assume no: "\<not> SentReadyFromProcess \<le> re_stage ms"
      have "card {q \<in> A. re_name pids q \<in> re_ownWitnessSet ms} \<le> re_readyFromWitnessesStat ms v"
      proof (rule re_crash_tally[OF c xC _ subset_refl _ a])
        show "tally (re_readyFromWitnesses ms) (re_readyFromWitnessesStat ms)
            (re_heard_votes (rn_state (S x)) (set (rn_inputs (S x))) b Reliable_READY_FROM_WITNESS)"
          using l(1) by (simp add: re_live_def re_counts_def)
        fix q assume q: "q \<in> {q \<in> A. re_name pids q \<in> re_ownWitnessSet ms}"
        then have "\<exists>u. re_heard (set (rn_inputs (S x))) q b Reliable_READY_FROM_WITNESS u" using ready[OF _ _ x] l(5) by blast
        then show "re_readyFromWitnesses ms q"
          using re_crash_answered[OF c xC _ ms] q no by (fastforce simp: f(3))
      qed
      then have "re_witnessThreshold (rn_state (S x)) \<le> int (re_readyFromWitnessesStat ms v)" using l(6) unfolding f(7) by linarith
      then show False using l(1) no unfolding re_live_def re_triggered_def by blast
    qed
    moreover have "re_stage ms \<noteq> Delivered"
    proof
      assume "re_stage ms = Delivered"
      then obtain u where "re_value (rn_state (S x)) b = Some u" using l(3) by (auto simp: re_value_def)
      then show False using re_crash_delivered_validate[OF c xC] none by blast
    qed
    ultimately have "re_stage ms = SentReadyFromProcess" by (cases "re_stage ms") (simp_all add: re_stage_order)
    then show "\<exists>u. re_heard (set (rn_inputs (S w0))) x b Reliable_READY_FROM_PROCESS u"
      using l(1) re_crash_heard[OF c xC w0(1) _ re_crash_witness(1)[OF c xC ms w0]]
      unfolding re_live_def re_has_sent_def re_process_sent_def by blast
  qed
  then show False
  proof (rule re_quorum_spreads[OF c w0C _ w0])
    fix ms assume ms: "re_state (rn_state (S w0)) b = Some ms"
      and "Reliable_READY_FROM_PROCESS = Reliable_READY_FROM_PROCESS \<Longrightarrow> re_witnessStage ms = SentValidate"
    then have "re_sent_to (set (rn_effects (S w0))) (set (procs (length (re_pids (rn_state (S w0)))))) b Reliable_VALIDATE"
      using re_crash_live(1)[OF c w0C ms] by (simp add: re_live_def re_has_sent_def re_witness_sent_def)
    then show False using none re_crash_sent_says[OF c w0C] re_crash_everyone(1)[OF c w0C w0C] w0C by blast
  qed simp
qed

section \<open>A closed run\<close>

text \<open>
  Three processes, all of them witnesses of everybody, two of them needed; process 2 never starts.
\<close>

definition re_three_pids :: "string list" where
  "re_three_pids = [''p0'', ''p1'', ''p2'']"

definition re_three_params :: Parameters where
  "re_three_params = re_sample_params\<lparr>ProcessCount := 3, MinOwnWitnessSetSize_param := 3, MinPotWitnessSetSize_param := 3,
     WitnessThreshold := 2\<rparr>"

definition re_three_shares :: "byte list list" where
  "re_three_shares = [Int32ToBytes 0, replicate 4 0, replicate 4 0]"

definition re_three_message :: "ReliableProtocolMessage_Stage \<Rightarrow> byte list list \<Rightarrow> ProcessId \<Rightarrow> input" where
  "re_three_message st shares q = Received q (re_rmsg re_tx st (Some \<lparr>Value = 5, XHash = 0\<rparr>) shares)"

definition re_three_round :: "ReliableProtocolMessage_Stage \<Rightarrow> (nat \<Rightarrow> byte list list) \<Rightarrow> (ProcessId \<times> input) list" where
  "re_three_round st shares =
     concat (map (\<lambda>x. map (\<lambda>y. (of_nat x, re_three_message st (shares x) y)) [0, 1]) [0, 1])"

definition re_three_actions :: "(ProcessId \<times> input) list" where
  "re_three_actions = (0, Request 5) #
     map (\<lambda>x. (x, re_three_message Reliable_NOTIFY re_three_shares 0)) [0, 1] @
     re_three_round Reliable_ECHO_FROM_WITNESS (\<lambda>x. [re_three_shares ! x]) @
     concat (map (\<lambda>st. re_three_round st (\<lambda>x. []))
       [Reliable_ECHO_FROM_PROCESS, Reliable_READY_FROM_WITNESS, Reliable_READY_FROM_PROCESS, Reliable_VALIDATE])"

definition re_three_end :: "(ProcessId \<Rightarrow> re_node) option" where
  "re_three_end = (case (re_idle_node re_three_pids re_three_params 0, re_idle_node re_three_pids re_three_params 1) of
     (Inr N0, Inr N1) \<Rightarrow> re_play {0, 1} {} re_three_actions (\<lambda>i. if i = 0 then N0 else N1)
   | _ \<Rightarrow> None)"

definition re_three_checks :: "(ProcessId \<Rightarrow> re_node) \<Rightarrow> bool" where
  "re_three_checks S \<longleftrightarrow> list_all (\<lambda>x.
     list_all (\<lambda>y. list_all (\<lambda>(z, m). z = x \<longrightarrow> Received y m \<in> set (rn_inputs (S x))) (sends (rn_effects (S y)))) [0, 1] \<and>
     \<not> re_finallyCommitted (rn_state (S x)) re_tx \<and>
     (case re_state (rn_state (S x)) re_tx of None \<Rightarrow> True
      | Some ms \<Rightarrow> re_potWitnessSet ms = set re_three_pids \<and> re_ownWitnessSet ms = set re_three_pids)) [0, 1] \<and>
   (0, re_rmsg re_tx Reliable_NOTIFY (Some \<lparr>Value = 5, XHash = 0\<rparr>) re_three_shares) \<in> set (sends (rn_effects (S 0))) \<and>
   re_value (rn_state (S 0)) re_tx = Some 5"

lemma re_three_checked: "case re_three_end of None \<Rightarrow> False | Some S \<Rightarrow> re_three_checks S"
  by code_simp

lemma re_three_crash_run:
  obtains S where "re_crash_run re_three_pids re_three_params {0, 1} {0, 1} S re_tx (set re_three_pids)"
    "re_says (set (rn_effects (S 0))) re_tx Reliable_NOTIFY 5" "re_value (rn_state (S 0)) re_tx = Some 5"
proof -
  obtain N0 N1 S where n: "re_idle_node re_three_pids re_three_params 0 = Inr N0" "re_idle_node re_three_pids re_three_params 1 = Inr N1"
    and play: "re_play {0, 1} {} re_three_actions (\<lambda>i. if i = 0 then N0 else N1) = Some S" and chk: "re_three_checks S"
  proof -
    obtain S where S: "re_three_end = Some S" "re_three_checks S" using re_three_checked by (auto split: option.splits)
    then obtain N0 N1 where "re_idle_node re_three_pids re_three_params 0 = Inr N0" "re_idle_node re_three_pids re_three_params 1 = Inr N1"
      unfolding re_three_end_def by (cases "re_idle_node re_three_pids re_three_params 0"; cases "re_idle_node re_three_pids re_three_params 1") (simp_all only: prod.case sum.case option.distinct)
    then show thesis using that S unfolding re_three_end_def by (simp only: prod.case sum.case)
  qed
  have run: "re_system_run re_three_pids re_three_params {0, 1} {} S"
    by (rule re_play_run[OF re_system_run.start play]) (use re_idle_node_ok n in auto)
  have wp: "re_wellposed re_three_pids re_three_params"
    by (simp add: re_wellposed_def re_three_pids_def re_three_params_def re_sample_params_def)
  have "length re_three_pids = 3" by (simp add: re_three_pids_def)
  moreover have "procs 3 = [0, 1, 2]" by (simp add: procs_def upt_rec)
  ultimately have sub: "{0, 1} \<subseteq> set (procs (length re_three_pids))" by simp
  have settled: "re_settled {0, 1} {0, 1} S"
    by (rule re_settledI) (use chk in \<open>auto simp: re_three_checks_def\<close>)
  have "re_name re_three_pids 0 = ''p0''" "re_name re_three_pids 1 = ''p1''" by (simp_all add: re_name_def re_three_pids_def)
  then have "{q \<in> {0, 1}. re_name re_three_pids q \<in> set re_three_pids} = {0, 1}" by (auto simp: re_three_pids_def)
  then have "card {q \<in> {0, 1}. re_name re_three_pids q \<in> set re_three_pids} = 2" by simp
  then have "re_witnesses_alive re_three_pids re_three_params {0, 1} {0, 1} S re_tx (set re_three_pids)" using chk
    by (auto simp: re_witnesses_alive_def re_three_checks_def re_three_params_def)
  then have "re_crash_run re_three_pids re_three_params {0, 1} {0, 1} S re_tx (set re_three_pids)"
    using wp sub run settled by (simp add: re_crash_run_def)
  moreover have "Send 0 (re_rmsg re_tx Reliable_NOTIFY (Some \<lparr>Value = 5, XHash = 0\<rparr>) re_three_shares) \<in> set (rn_effects (S 0))"
    and "re_value (rn_state (S 0)) re_tx = Some 5"
    using chk by (simp_all add: re_three_checks_def sends_mem)
  moreover from this(1) have "re_says (set (rn_effects (S 0))) re_tx Reliable_NOTIFY 5"
    unfolding re_says_send by (metis Broadcast_msg.select_convs(1))
  ultimately show ?thesis using that by blast
qed

section \<open>Properties\<close>

text \<open>
  C8: Totality when processes only crash. The hypothesis \<open>re_crash_run pids ps C A S b P\<close> says: there are
  fewer than \<open>2^31\<close> processes, as many as configured, with different names, \<open>0 \<le> f \<le> n\<close> and a positive
  witness threshold; \<open>S\<close> is reached by the processes of \<open>C\<close>, which all follow the code, from their
  start, with no faulty sender and with requests for unused instances only; the processes of \<open>A\<close>, those
  that are alive, have received everything that was sent to them; no process of \<open>C\<close> has committed the
  instance \<open>b\<close>; and all message states for \<open>b\<close> agree on one set \<open>P\<close> of potential witnesses, contain their
  own witnesses in it, and have at least \<open>WitnessThreshold\<close> living ones among them. Then a value of \<open>b\<close>
  that one process of \<open>C\<close> has delivered has been delivered by every living process.
  The condition on the witness sets is not for granted: it holds when the histories of the processes
  are equal, as they are before anything is committed, and can fail when they are not.
\<close>

theorem re_crash_totality:
  assumes "re_crash_run pids ps C A S b P" "x \<in> C" "re_value (rn_state (S x)) b = Some v" "y \<in> A"
  shows "re_value (rn_state (S y)) b = Some v"
  using re_crash_delivered_validate[OF assms(1-3)] re_validate_delivers[OF assms(1) _ _ assms(4)] by blast

theorem re_crash_totality_witness:
  "\<exists>S. re_crash_run re_three_pids re_three_params {0, 1} {0, 1} S re_tx (set re_three_pids) \<and>
    re_value (rn_state (S 1)) re_tx = Some 5"
proof -
  obtain S where S: "re_crash_run re_three_pids re_three_params {0, 1} {0, 1} S re_tx (set re_three_pids)"
    "re_value (rn_state (S 0)) re_tx = Some 5" by (rule re_three_crash_run) (rule that)
  then show ?thesis using re_crash_totality[OF S(1) _ S(2), of 1] by auto
qed

text \<open>
  C7: Validity when processes only crash. Under the hypothesis \<open>re_crash_run\<close> of C8 (only crashes, settled
  for the living processes, the instance not committed, one set of potential witnesses for it at all
  processes, enough living members in every own witness set), and with at least a quorum of
  \<open>(n + f + 1) / 2\<close>, rounded up, of living processes: every value some process has announced for the
  instance with NOTIFY, whether or not that process is still alive, has been delivered by every living
  process.
\<close>

theorem re_crash_validity:
  assumes c: "re_crash_run pids ps C A S b P"
    and quorum: "ceil_half (int (length pids) + FaultyProcesses ps + 1) \<le> int (card A)"
    and a: "a \<in> C" "re_says (set (rn_effects (S a))) b Reliable_NOTIFY v" and x: "x \<in> A"
  shows "re_value (rn_state (S x)) b = Some v"
proof -
  obtain ms where ms: "re_state (rn_state (S a)) b = Some ms" using re_crash_state[OF c a(1)] a(2) by blast
  obtain w0 where w0: "w0 \<in> A" "re_name pids w0 \<in> P" using re_crash_live(5,7)[OF c a(1) ms] by blast
  obtain z where z: "z \<in> C" "re_quorum_heard pids ps S z b Reliable_ECHO_FROM_PROCESS"
    using re_notify_echoes[OF c a w0 quorum] by blast
  obtain y u where y: "y \<in> C" "re_says (set (rn_effects (S y))) b Reliable_VALIDATE u"
    using re_echoes_validate[OF c z a w0 quorum] by blast
  have "u = v" by (rule re_crash_value[OF c y a])
  then show ?thesis using re_validate_delivers[OF c y x] by simp
qed

theorem re_crash_validity_witness:
  "\<exists>S. re_crash_run re_three_pids re_three_params {0, 1} {0, 1} S re_tx (set re_three_pids) \<and>
    re_value (rn_state (S 0)) re_tx = Some 5 \<and> re_value (rn_state (S 1)) re_tx = Some 5"
proof -
  obtain S where S: "re_crash_run re_three_pids re_three_params {0, 1} {0, 1} S re_tx (set re_three_pids)"
    "re_says (set (rn_effects (S 0))) re_tx Reliable_NOTIFY 5" by (rule re_three_crash_run) (rule that)
  have "ceil_half (int (length re_three_pids) + FaultyProcesses re_three_params + 1) \<le> int (card {0 :: ProcessId, 1})"
    by (simp add: re_three_pids_def re_three_params_def re_sample_params_def ceil_half_def)
  from re_crash_validity[OF S(1) this _ S(2)] S(1) show ?thesis by auto
qed

end
