(* ===== verification/Reliable_Totality.thy ===== *)
theory Reliable_Totality
  imports Reliable_System
begin

text \<open>
  Whether everybody delivers. The process part and the witness part of the reliable protocol each
  move through stages, and a process that delivers before it has sent READY_FROM_PROCESS never sends
  it. With one faulty process this can leave a single correct process with the delivery.
\<close>

section \<open>A run that splits\<close>

text \<open>
  Four processes, all of them witnesses of everybody, two VALIDATE messages needed. Process 3 is
  faulty: it sends READY_FROM_PROCESS to process 0 only and VALIDATE to process 2 only. The two
  VALIDATE messages reach process 2 before the READY_FROM_WITNESS messages do.
\<close>

definition re_split_pids :: "string list" where
  "re_split_pids = [''p0'', ''p1'', ''p2'', ''p3'']"

definition re_split_shares :: "byte list list" where
  "re_split_shares = [Int32ToBytes 0, Int32ToBytes 1, replicate 4 0, replicate 4 0]"

definition re_split_message :: "ReliableProtocolMessage_Stage \<Rightarrow> byte list list \<Rightarrow> ProcessId \<Rightarrow> input" where
  "re_split_message st shares q = Received q (re_rmsg re_tx st (Some \<lparr>Value = 5, XHash = 1\<rparr>) shares)"

definition re_split_round ::
  "ReliableProtocolMessage_Stage \<Rightarrow> (nat \<Rightarrow> byte list list) \<Rightarrow> nat list \<Rightarrow> ProcessId list \<Rightarrow> (ProcessId \<times> input) list" where
  "re_split_round st shares xs ys = concat (map (\<lambda>x. map (\<lambda>y. (of_nat x, re_split_message st (shares x) y)) ys) xs)"

definition re_split_actions :: "(ProcessId \<times> input) list" where
  "re_split_actions = (0, Request 5) #
     re_split_round Reliable_NOTIFY (\<lambda>x. re_split_shares) [0, 1, 2] [0] @
     re_split_round Reliable_ECHO_FROM_WITNESS (\<lambda>x. [re_split_shares ! x]) [0, 1, 2] [0, 1, 2] @
     re_split_round Reliable_ECHO_FROM_PROCESS (\<lambda>x. []) [0, 1, 2] [0, 1, 2] @
     re_split_round Reliable_READY_FROM_WITNESS (\<lambda>x. []) [0, 1] [0, 1, 2] @
     re_split_round Reliable_READY_FROM_PROCESS (\<lambda>x. []) [0] [0, 1, 3] @
     re_split_round Reliable_READY_FROM_PROCESS (\<lambda>x. []) [1] [0, 1] @
     re_split_round Reliable_VALIDATE (\<lambda>x. []) [0, 1] [0] @
     re_split_round Reliable_VALIDATE (\<lambda>x. []) [2] [0, 3] @
     re_split_round Reliable_READY_FROM_WITNESS (\<lambda>x. []) [2] [0, 1, 2] @
     re_split_round Reliable_READY_FROM_PROCESS (\<lambda>x. []) [2] [0, 1]"

definition re_split_end :: "(ProcessId \<Rightarrow> re_node) option" where
  "re_split_end = (case (re_idle_node re_split_pids re_four_params 0, re_idle_node re_split_pids re_four_params 1,
       re_idle_node re_split_pids re_four_params 2) of
     (Inr N0, Inr N1, Inr N2) \<Rightarrow> re_play {0, 1, 2} {3} re_split_actions (\<lambda>i. if i = 0 then N0 else if i = 1 then N1 else N2)
   | _ \<Rightarrow> None)"

definition re_split_checks :: "(ProcessId \<Rightarrow> re_node) \<Rightarrow> bool" where
  "re_split_checks S \<longleftrightarrow> list_all (\<lambda>x. list_all (\<lambda>y.
     list_all (\<lambda>(z, m). z = x \<longrightarrow> Received y m \<in> set (rn_inputs (S x))) (sends (rn_effects (S y)))) [0, 1, 2]) [0, 1, 2] \<and>
   Request 5 \<in> set (rn_inputs (S 0)) \<and>
   re_value (rn_state (S 2)) re_tx = Some 5 \<and> re_value (rn_state (S 0)) re_tx = None \<and> re_value (rn_state (S 1)) re_tx = None"

lemma re_split_checked: "case re_split_end of None \<Rightarrow> False | Some S \<Rightarrow> re_split_checks S"
  by code_simp

lemma re_split_run:
  obtains S where "re_system_run re_split_pids re_four_params {0, 1, 2} {3} S" "re_split_checks S"
proof -
  obtain S where S: "re_split_end = Some S" "re_split_checks S" using re_split_checked by (auto split: option.splits)
  then obtain N0 N1 N2 where n: "re_idle_node re_split_pids re_four_params 0 = Inr N0" "re_idle_node re_split_pids re_four_params 1 = Inr N1"
      "re_idle_node re_split_pids re_four_params 2 = Inr N2"
    unfolding re_split_end_def
    by (cases "re_idle_node re_split_pids re_four_params 0"; cases "re_idle_node re_split_pids re_four_params 1";
        cases "re_idle_node re_split_pids re_four_params 2") (simp_all only: prod.case sum.case option.distinct)
  have play: "re_play {0, 1, 2} {3} re_split_actions (\<lambda>i. if i = 0 then N0 else if i = 1 then N1 else N2) = Some S"
    using S(1) unfolding re_split_end_def n by (simp only: prod.case sum.case)
  have "re_system_run re_split_pids re_four_params {0, 1, 2} {3} S"
    by (rule re_play_run[OF re_system_run.start play]) (use re_idle_node_ok n in auto)
  then show ?thesis using that S(2) by blast
qed

text \<open>
  C22: One faulty process can keep a transaction from everybody but one. In a system of four with one
  faulty process, where every process has all four as witnesses and needs two of them, there is a run
  in which the correct process 0 requests a transaction, everything the correct processes send each
  other is received, a correct process delivers, and neither the author nor the third correct process
  ever does: the reliable protocol guarantees neither totality nor validity. A process that delivers
  before two READY_FROM_WITNESS messages have reached it is at stage Delivered, which is past the
  stage in which it would send READY_FROM_PROCESS.
\<close>

theorem re_totality_fails:
  "\<exists>S. re_system_run re_split_pids re_four_params {0, 1, 2} {3} S \<and> re_settled {0, 1, 2} {0, 1, 2} S \<and>
     set (procs (length re_split_pids)) = {0, 1, 2} \<union> {3} \<and> FaultyProcesses re_four_params = 1 \<and>
     re_witnesses_ok re_split_pids re_four_params {0, 1, 2} {3} S re_tx \<and>
     Author re_tx = 0 \<and> Request 5 \<in> set (rn_inputs (S 0)) \<and>
     re_value (rn_state (S 2)) re_tx = Some 5 \<and>
     re_value (rn_state (S 0)) re_tx = None \<and> re_value (rn_state (S 1)) re_tx = None"
proof -
  obtain S where run: "re_system_run re_split_pids re_four_params {0, 1, 2} {3} S" and chk: "re_split_checks S"
    by (rule re_split_run)
  have settled: "re_settled {0, 1, 2} {0, 1, 2} S"
    by (rule re_settledI) (use chk in \<open>auto simp: re_split_checks_def\<close>)
  have "card {q \<in> {3 :: ProcessId}. re_name re_split_pids q \<in> set ws} \<le> card {3 :: ProcessId}" for ws
    by (rule card_mono) auto
  then have wit: "re_witnesses_ok re_split_pids re_four_params {0, 1, 2} {3} S re_tx"
    by (force simp: re_witnesses_ok_def re_four_params_def intro: le_less_trans)
  have four: "length re_split_pids = 4" by (simp add: re_split_pids_def)
  have "procs 4 = [0, 1, 2, 3]" by (simp add: procs_def upt_rec)
  then have "set (procs (length re_split_pids)) = {0, 1, 2} \<union> {3}" unfolding four by auto
  then show ?thesis using run settled wit chk
    by (intro exI[of _ S]) (simp add: re_split_checks_def re_four_params_def re_tx_def re_sample_params_def)
qed

end
