(* ===== verification/Reliable_Requests.thy ===== *)
theory Reliable_Requests
  imports Reliable_Totality
begin

text \<open>
  Requests for an instance that is already in use. The author named in a message is not checked, so the
  system can run the reliable protocol for the next instance of a process before this process has made
  its request. \<open>re_system_run\<close> leaves such requests out; the runs of this theory have them.
\<close>

section \<open>Runs with every request\<close>

inductive re_open_run ::
  "string list \<Rightarrow> Parameters \<Rightarrow> ProcessId set \<Rightarrow> ProcessId set \<Rightarrow> (ProcessId \<Rightarrow> re_node) \<Rightarrow> bool"
  for pids ps C F where
  start: "(\<And>x. x \<in> C \<Longrightarrow> re_node_ok pids ps x (S x) \<and> rn_inputs (S x) = []) \<Longrightarrow> re_open_run pids ps C F S"
| message: "re_open_run pids ps C F S \<Longrightarrow> x \<in> C \<Longrightarrow> y \<in> F \<or> y \<in> C \<and> Send x m \<in> set (rn_effects (S y)) \<Longrightarrow>
    re_HandleMessage (rn_env (S x)) (rn_state (S x)) y m = Inr (p', es) \<Longrightarrow>
    re_open_run pids ps C F (S(x := re_take (S x) (Received y m) p' es))"
| request: "re_open_run pids ps C F S \<Longrightarrow> x \<in> C \<Longrightarrow>
    re_Broadcast (rn_env (S x)) (rn_state (S x)) v = Inr (p', es) \<Longrightarrow>
    re_open_run pids ps C F (S(x := re_take (S x) (Request v) p' es))"

text \<open>The runs of the agreement theorem are among them, and so is one more request after such a run.\<close>

lemma re_system_run_open: "re_system_run pids ps C F S \<Longrightarrow> re_open_run pids ps C F S"
  by (induction rule: re_system_run.induct) (blast intro: re_open_run.intros)+

text \<open>A scheduler, as that of \<open>Reliable_System\<close> but for the guard of a request.\<close>

fun re_open_act :: "ProcessId set \<Rightarrow> ProcessId set \<Rightarrow> ProcessId \<times> input \<Rightarrow> (ProcessId \<Rightarrow> re_node) \<Rightarrow> (ProcessId \<Rightarrow> re_node) option" where
  "re_open_act C F (x, Received y m) S = re_act C F (x, Received y m) S"
| "re_open_act C F (x, Request v) S =
     (if x \<in> C then
        (case re_Broadcast (rn_env (S x)) (rn_state (S x)) v of
           Inl e \<Rightarrow> None
         | Inr (p', es) \<Rightarrow> Some (S(x := re_take (S x) (Request v) p' es)))
      else None)"

fun re_open_play :: "ProcessId set \<Rightarrow> ProcessId set \<Rightarrow> (ProcessId \<times> input) list \<Rightarrow> (ProcessId \<Rightarrow> re_node) \<Rightarrow> (ProcessId \<Rightarrow> re_node) option" where
  "re_open_play C F [] S = Some S"
| "re_open_play C F (a # as) S = (case re_open_act C F a S of None \<Rightarrow> None | Some S' \<Rightarrow> re_open_play C F as S')"

lemma re_open_act_run:
  assumes "re_open_run pids ps C F S" "re_open_act C F a S = Some S'"
  shows "re_open_run pids ps C F S'"
proof -
  obtain x i where a: "a = (x, i)" by (cases a)
  show ?thesis
  proof (cases i)
    case (Received y m)
    then show ?thesis using assms(2) re_open_run.message[OF assms(1), of x y m]
      by (auto simp: a sends_mem split: if_splits sum.splits)
  next
    case (Request v)
    then show ?thesis using assms(2) re_open_run.request[OF assms(1), of x v]
      by (auto simp: a split: if_splits sum.splits)
  qed
qed

lemma re_open_play_run:
  "re_open_run pids ps C F S \<Longrightarrow> re_open_play C F as S = Some S' \<Longrightarrow> re_open_run pids ps C F S'"
  by (induction "as" arbitrary: S) (auto split: option.splits intro: re_open_act_run)

section \<open>An instance delivered twice\<close>

text \<open>
  Four processes, process 3 faulty. It sends the NOTIFY of an instance of process 0, which the correct
  processes then carry through. VALIDATE messages of processes 1 and 3 make process 0 deliver; then
  process 0 makes its first request, and those of processes 2 and 0 are still to come.
\<close>

definition re_early_actions :: "(ProcessId \<times> input) list" where
  "re_early_actions =
     re_split_round Reliable_NOTIFY (\<lambda>x. re_split_shares) [0, 1, 2] [3] @
     re_split_round Reliable_ECHO_FROM_WITNESS (\<lambda>x. [re_split_shares ! x]) [0, 1, 2] [0, 1, 2] @
     re_split_round Reliable_ECHO_FROM_PROCESS (\<lambda>x. []) [0, 1, 2] [0, 1, 2] @
     re_split_round Reliable_READY_FROM_WITNESS (\<lambda>x. []) [0, 1, 2] [0, 1, 2] @
     re_split_round Reliable_READY_FROM_PROCESS (\<lambda>x. []) [0, 1, 2] [0, 1, 2]"

definition re_late_actions :: "(ProcessId \<times> input) list" where
  "re_late_actions = re_split_round Reliable_VALIDATE (\<lambda>x. []) [0] [1, 3] @ [(0, Request 7)] @
     re_split_round Reliable_VALIDATE (\<lambda>x. []) [0] [2, 0]"

definition re_twice_end :: "(ProcessId \<Rightarrow> re_node) option" where
  "re_twice_end = (case (re_idle_node re_split_pids re_four_params 0, re_idle_node re_split_pids re_four_params 1,
       re_idle_node re_split_pids re_four_params 2) of
     (Inr N0, Inr N1, Inr N2) \<Rightarrow> re_open_play {0, 1, 2} {3} (re_early_actions @ re_late_actions)
       (\<lambda>i. if i = 0 then N0 else if i = 1 then N1 else N2)
   | _ \<Rightarrow> None)"

definition re_twice_checks :: "(ProcessId \<Rightarrow> re_node) \<Rightarrow> bool" where
  "re_twice_checks S \<longleftrightarrow> deliveries (rn_effects (S 0)) = [(re_tx, 5), (re_tx, 5)] \<and>
     re_deliveredMessagesCount (rn_state (S 0)) = 2 \<and> distinct (rn_inputs (S 0)) \<and> Request 7 \<in> set (rn_inputs (S 0))"

lemma re_twice_checked: "case re_twice_end of None \<Rightarrow> False | Some S \<Rightarrow> re_twice_checks S"
  by code_simp

lemma re_twice_run:
  obtains S where "re_open_run re_split_pids re_four_params {0, 1, 2} {3} S" "re_twice_checks S"
proof -
  obtain S where S: "re_twice_end = Some S" "re_twice_checks S" using re_twice_checked by (auto split: option.splits)
  then obtain N0 N1 N2 where n: "re_idle_node re_split_pids re_four_params 0 = Inr N0" "re_idle_node re_split_pids re_four_params 1 = Inr N1"
      "re_idle_node re_split_pids re_four_params 2 = Inr N2"
    unfolding re_twice_end_def
    by (cases "re_idle_node re_split_pids re_four_params 0"; cases "re_idle_node re_split_pids re_four_params 1";
        cases "re_idle_node re_split_pids re_four_params 2") (simp_all only: prod.case sum.case option.distinct)
  have play: "re_open_play {0, 1, 2} {3} (re_early_actions @ re_late_actions) (\<lambda>i. if i = 0 then N0 else if i = 1 then N1 else N2) = Some S"
    using S(1) unfolding re_twice_end_def n by (simp only: prod.case sum.case)
  have "re_open_run re_split_pids re_four_params {0, 1, 2} {3} S"
    by (rule re_open_play_run[OF re_open_run.start play]) (use re_idle_node_ok n in auto)
  then show ?thesis using that S(2) by blast
qed

text \<open>
  C21: A request can deliver twice. There is a run of four processes, one of them faulty, that meets
  the fault bound and the witness condition of the agreement property, in which the correct process 0,
  receiving every message once, delivers the same instance two times. The faulty process begins the
  first instance of process 0 by a NOTIFY in its name, the correct processes carry it through and
  process 0 delivers; its own first request then replaces the message state of the delivered instance
  by a fresh one, and the VALIDATE messages that are still to come deliver it again. So the hypothesis
  of C15 that no request meets a used instance cannot be left out.
\<close>

theorem re_request_redelivers:
  "\<exists>S. re_open_run re_split_pids re_four_params {0, 1, 2} {3} S \<and>
     set (procs (length re_split_pids)) = {0, 1, 2} \<union> {3} \<and> FaultyProcesses re_four_params = 1 \<and>
     re_witnesses_ok re_split_pids re_four_params {0, 1, 2} {3} S re_tx \<and>
     Author re_tx = 0 \<and> Request 7 \<in> set (rn_inputs (S 0)) \<and> distinct (rn_inputs (S 0)) \<and>
     deliveries (rn_effects (S 0)) = [(re_tx, 5), (re_tx, 5)] \<and> re_deliveredMessagesCount (rn_state (S 0)) = 2"
proof -
  obtain S where run: "re_open_run re_split_pids re_four_params {0, 1, 2} {3} S" and chk: "re_twice_checks S"
    by (rule re_twice_run)
  have "card {q \<in> {3 :: ProcessId}. re_name re_split_pids q \<in> set ws} \<le> card {3 :: ProcessId}" for ws
    by (rule card_mono) auto
  then have wit: "re_witnesses_ok re_split_pids re_four_params {0, 1, 2} {3} S re_tx"
    by (force simp: re_witnesses_ok_def re_four_params_def intro: le_less_trans)
  have four: "length re_split_pids = 4" by (simp add: re_split_pids_def)
  have "procs 4 = [0, 1, 2, 3]" by (simp add: procs_def upt_rec)
  then have "set (procs (length re_split_pids)) = {0, 1, 2} \<union> {3}" unfolding four by auto
  then show ?thesis using run wit chk
    by (intro exI[of _ S]) (simp add: re_twice_checks_def re_four_params_def re_tx_def re_sample_params_def)
qed

end
