(* ===== verification/Hashes.thy ===== *)
theory Hashes
  imports History_Hash
begin

text \<open>
  \<open>impl/hashing/hashes.go\<close>: the two hashers. Each hands the bytes to the standard library,
  \<open>crypto/sha256\<close> and \<open>crypto/sha512\<close>, whose result is the hash of FIPS 180-4: the message is padded
  to whole blocks with a one bit, zeros and its length, and every block is mixed into a state of
  eight words. The two functions differ in the width of the words and in their constants. The
  other theories leave the hash function open; here it is the one the program uses.
\<close>

unbundle bit_operations_syntax

section \<open>The standard's functions\<close>

definition rotr :: "nat \<Rightarrow> 'a::len word \<Rightarrow> 'a word" where
  "rotr k w = drop_bit k w OR push_bit (LENGTH('a) - k) w"

definition Ch :: "'a::len word \<Rightarrow> 'a word \<Rightarrow> 'a word \<Rightarrow> 'a word" where
  "Ch x y z = (x AND y) XOR (NOT x AND z)"

definition Maj :: "'a::len word \<Rightarrow> 'a word \<Rightarrow> 'a word \<Rightarrow> 'a word" where
  "Maj x y z = (x AND y) XOR (x AND z) XOR (y AND z)"

text \<open>What the two functions differ in: the four mixing functions, the round constants, the first state.\<close>

record 'a sha2 =
  Sum0 :: "'a \<Rightarrow> 'a"
  Sum1 :: "'a \<Rightarrow> 'a"
  sigma0 :: "'a \<Rightarrow> 'a"
  sigma1 :: "'a \<Rightarrow> 'a"
  sha_K :: "'a list"
  sha_H0 :: "'a list"

text \<open>
  The constants are the leading fractional bits of square and cube roots of the first primes: as many
  as fit into a word. \<open>iroot\<close> finds the integer part of a root bit by bit.
\<close>

definition iroot :: "nat \<Rightarrow> nat \<Rightarrow> int \<Rightarrow> int" where
  "iroot k bits n = foldr (\<lambda>i r. if (r + 2 ^ i) ^ k \<le> n then r + 2 ^ i else r) [0..<bits] 0"

definition primes80 :: "int list" where
  "primes80 =
    [2, 3, 5, 7, 11, 13, 17, 19, 23, 29, 31, 37, 41, 43, 47, 53, 59, 61, 67, 71, 73, 79, 83, 89, 97,
     101, 103, 107, 109, 113, 127, 131, 137, 139, 149, 151, 157, 163, 167, 173, 179, 181, 191, 193,
     197, 199, 211, 223, 227, 229, 233, 239, 241, 251, 257, 263, 269, 271, 277, 281, 283, 293, 307,
     311, 313, 317, 331, 337, 347, 349, 353, 359, 367, 373, 379, 383, 389, 397, 401, 409]"

definition sha_root :: "nat \<Rightarrow> int \<Rightarrow> 'a::len word" where
  "sha_root k p = of_int (iroot k (LENGTH('a) + 5) (p * 2 ^ (k * LENGTH('a))))"

definition sha256_consts :: "32 word sha2" where
  "sha256_consts = \<lparr>
    Sum0 = (\<lambda>x. rotr 2 x XOR rotr 13 x XOR rotr 22 x), Sum1 = (\<lambda>x. rotr 6 x XOR rotr 11 x XOR rotr 25 x),
    sigma0 = (\<lambda>x. rotr 7 x XOR rotr 18 x XOR drop_bit 3 x), sigma1 = (\<lambda>x. rotr 17 x XOR rotr 19 x XOR drop_bit 10 x),
    sha_K = map (sha_root 3) (take 64 primes80), sha_H0 = map (sha_root 2) (take 8 primes80)\<rparr>"

definition sha512_consts :: "64 word sha2" where
  "sha512_consts = \<lparr>
    Sum0 = (\<lambda>x. rotr 28 x XOR rotr 34 x XOR rotr 39 x), Sum1 = (\<lambda>x. rotr 14 x XOR rotr 18 x XOR rotr 41 x),
    sigma0 = (\<lambda>x. rotr 1 x XOR rotr 8 x XOR drop_bit 7 x), sigma1 = (\<lambda>x. rotr 19 x XOR rotr 61 x XOR drop_bit 6 x),
    sha_K = map (sha_root 3) primes80, sha_H0 = map (sha_root 2) (take 8 primes80)\<rparr>"

section \<open>Blocks\<close>

text \<open>The \<open>k\<close> low bytes of a word in big-endian order, and the word of big-endian bytes.\<close>

definition be_bytes :: "nat \<Rightarrow> 'a::len word \<Rightarrow> byte list" where
  "be_bytes k w = map (\<lambda>i. ucast (drop_bit (8 * (k - 1 - i)) w)) [0..<k]"

definition be_word :: "byte list \<Rightarrow> 'a::len word" where
  "be_word bs = fold (\<lambda>b w. push_bit 8 w OR ucast b) bs 0"

text \<open>\<open>b\<close> is the number of bytes of a word; a block has 16 words, and the length field two.\<close>

definition sha_pad :: "nat \<Rightarrow> byte list \<Rightarrow> byte list" where
  "sha_pad b data = data @ [0x80] @ replicate ((16 * b - (length data + 1 + 2 * b) mod (16 * b)) mod (16 * b)) 0 @
     be_bytes (2 * b) (of_nat (8 * length data) :: 128 word)"

fun chunks :: "nat \<Rightarrow> nat \<Rightarrow> 'a list \<Rightarrow> 'a list list" where
  "chunks k 0 xs = []"
| "chunks k (Suc n) xs = take k xs # chunks k n (drop k xs)"

text \<open>The message schedule, the latest word first; and the rounds on the state \<open>[a, b, c, d, e, f, g, h]\<close>.\<close>

fun sha_schedule :: "'a::len word sha2 \<Rightarrow> nat \<Rightarrow> 'a word list \<Rightarrow> 'a word list" where
  "sha_schedule c 0 ws = rev ws"
| "sha_schedule c (Suc n) ws =
     sha_schedule c n ((sigma1 c (ws ! 1) + ws ! 6 + sigma0 c (ws ! 14) + ws ! 15) # ws)"

fun sha_round :: "'a::len word sha2 \<Rightarrow> 'a word list \<Rightarrow> 'a word \<times> 'a word \<Rightarrow> 'a word list" where
  "sha_round cs [a, b, c, d, e, f, g, h] (k, w) =
     (let t1 = h + Sum1 cs e + Ch e f g + k + w; t2 = Sum0 cs a + Maj a b c
      in [t1 + t2, a, b, c, d + t1, e, f, g])"
| "sha_round cs st kw = st"

definition sha_block :: "'a::len word sha2 \<Rightarrow> 'a word list \<Rightarrow> 'a word list \<Rightarrow> 'a word list" where
  "sha_block cs st ws =
     (let schedule = sha_schedule cs (length (sha_K cs) - 16) (rev ws)
      in map2 (+) st (foldl (sha_round cs) st (zip (sha_K cs) schedule)))"

definition sha2 :: "'a::len word sha2 \<Rightarrow> byte list \<Rightarrow> byte list" where
  "sha2 cs data =
     (let b = LENGTH('a) div 8; padded = sha_pad b data;
          blocks = chunks (16 * b) (length padded div (16 * b)) padded;
          st = foldl (\<lambda>st blk. sha_block cs st (map be_word (chunks b 16 blk))) (sha_H0 cs) blocks
      in concat (map (\<lambda>w. be_bytes b w) st))"

section \<open>The hashers\<close>

definition HashSHA256_Hash :: "byte list \<Rightarrow> byte list" where
  "HashSHA256_Hash data = sha2 sha256_consts data"

definition HashSHA512_Hash :: "byte list \<Rightarrow> byte list" where
  "HashSHA512_Hash data = sha2 sha512_consts data"

section \<open>Roots\<close>

lemma iroot_from:
  fixes r n :: int
  assumes "0 \<le> r" "r ^ k \<le> n" "n < (r + 2 ^ bits) ^ k"
  defines "q \<equiv> foldr (\<lambda>i r. if (r + 2 ^ i) ^ k \<le> n then r + 2 ^ i else r) [0..<bits] r"
  shows "0 \<le> q \<and> q ^ k \<le> n \<and> n < (q + 1) ^ k"
  using assms(1-3) unfolding q_def
proof (induction bits arbitrary: r)
  case (Suc bits)
  show ?case
  proof (cases "(r + 2 ^ bits) ^ k \<le> n")
    case True
    have "r + 2 ^ bits + 2 ^ bits = r + 2 ^ Suc bits" by simp
    then have "n < (r + 2 ^ bits + 2 ^ bits) ^ k" using Suc.prems(3) by (simp only:)
    then show ?thesis using Suc.IH[of "r + 2 ^ bits"] Suc.prems(1) True by simp
  next
    case False
    then show ?thesis using Suc.IH[of r] Suc.prems by simp
  qed
qed simp

text \<open>The root is exact: the largest integer whose power does not exceed the number.\<close>

lemma iroot_correct:
  assumes "0 < k" "0 \<le> n" "n < 2 ^ (bits * k)"
  shows "0 \<le> iroot k bits n \<and> iroot k bits n ^ k \<le> n \<and> n < (iroot k bits n + 1) ^ k"
  unfolding iroot_def by (rule iroot_from) (use assms in \<open>simp_all add: power_mult zero_power\<close>)

lemma sha_consts_length:
  "length (sha_K sha256_consts) = 64" "length (sha_H0 sha256_consts) = 8"
  "length (sha_K sha512_consts) = 80" "length (sha_H0 sha512_consts) = 8"
  by (simp_all add: sha256_consts_def sha512_consts_def primes80_def)

section \<open>Sizes\<close>

lemma length_be_bytes [simp]: "length (be_bytes k v) = k"
  by (simp add: be_bytes_def)

lemma length_sha_round [simp]: "length (sha_round cs st kw) = length st"
  by (induction cs st kw rule: sha_round.induct) (simp_all add: Let_def)

lemma length_sha_rounds [simp]: "length (foldl (sha_round cs) st kws) = length st"
  by (induction kws arbitrary: st) simp_all

lemma length_sha_block [simp]: "length (sha_block cs st ws) = length st"
  by (simp add: sha_block_def Let_def)

lemma length_sha_blocks [simp]: "length (foldl (\<lambda>st blk. sha_block cs st (f blk)) st blks) = length st"
  by (induction blks arbitrary: st) simp_all

lemma length_sha2: "length (sha2 (cs :: 'a::len word sha2) data) = length (sha_H0 cs) * (LENGTH('a) div 8)"
  by (simp add: sha2_def Let_def length_concat sum_list_triv comp_def)

lemma length_hashes: "length (HashSHA256_Hash data) = 32" "length (HashSHA512_Hash data) = 64"
  by (simp_all add: HashSHA256_Hash_def HashSHA512_Hash_def length_sha2 sha_consts_length)

text \<open>Padding fills whole blocks, so that no byte of the message is left out.\<close>

lemma sha_pad_blocks:
  assumes "0 < b"
  shows "16 * b dvd length (sha_pad b data)" "take (length data) (sha_pad b data) = data"
proof -
  let ?n = "length data + 1 + 2 * b" and ?B = "16 * b"
  have "(?n + (?B - ?n mod ?B) mod ?B) mod ?B = 0"
  proof (cases "?n mod ?B = 0")
    case False
    then have "(?B - ?n mod ?B) mod ?B = ?B - ?n mod ?B" using assms by simp
    moreover have "?n mod ?B < ?B" using assms by simp
    ultimately have "?n + (?B - ?n mod ?B) mod ?B = ?n div ?B * ?B + ?B"
      using mod_div_mult_eq[of ?n ?B] by linarith
    then show ?thesis by (metis mod_mult_self2_is_0 mod_add_self2)
  qed (use assms in simp)
  moreover have "length (sha_pad b data) = ?n + (?B - ?n mod ?B) mod ?B" by (simp add: sha_pad_def)
  ultimately show "?B dvd length (sha_pad b data)" by (simp only: dvd_eq_mod_eq_0)
qed (simp add: sha_pad_def)

end
