(* ===== verification/Key_Files.thy ===== *)
theory Key_Files
  imports Reliable Topology
begin

text \<open>
  The files with the private keys: \<open>generate.go\<close> writes them, \<open>reader.go\<close> prints their public keys,
  and \<open>simulation/node/main.go\<close> reads one per process. The file system is a map from paths to
  contents. \<open>rsa.GenerateKey\<close>, whose result is random, and the two functions of \<open>crypto/x509\<close> are
  parameters, with \<open>None\<close> for an error; so is whether a file can be written.
\<close>

section \<open>The programs\<close>

definition key_file :: "string \<Rightarrow> nat \<Rightarrow> string" where
  "key_file dir i = dir @ ''/'' @ Itoa (int i) @ ''.txt''"

text \<open>\<open>generate i\<close> is the key of the \<open>i\<close>-th call; a file is created before its key is made.\<close>

definition generate_main ::
  "(nat \<Rightarrow> 'key option) \<Rightarrow> ('key \<Rightarrow> byte list) \<Rightarrow> (string \<Rightarrow> bool) \<Rightarrow> (string \<rightharpoonup> byte list) \<Rightarrow> (string \<rightharpoonup> byte list) go" where
  "generate_main generate marshal writable files =
     go_fold (\<lambda>files i.
       if \<not> writable (key_file ''keys'' i) then Inl FatalExit
       else case generate i of
           None \<Rightarrow> Inl FatalExit
         | Some privateKey \<Rightarrow> Inr (files(key_file ''keys'' i \<mapsto> marshal privateKey)))
       files [0..<260]"

text \<open>\<open>os.ReadFile\<close> and \<open>x509.ParsePKCS1PrivateKey\<close>; the key comes with its public part.\<close>

definition read_key ::
  "(byte list \<Rightarrow> (rsa_key \<times> rsa_key) option) \<Rightarrow> (string \<rightharpoonup> byte list) \<Rightarrow> string \<Rightarrow> nat \<Rightarrow> (rsa_key \<times> rsa_key) go" where
  "read_key parse files dir i = (case files (key_file dir i) of
     None \<Rightarrow> Inl FatalExit
   | Some privateKeyBytes \<Rightarrow> (case parse privateKeyBytes of None \<Rightarrow> Inl FatalExit | Some key \<Rightarrow> Inr key))"

text \<open>What \<open>reader.go\<close> prints.\<close>

definition reader_main ::
  "(byte list \<Rightarrow> (rsa_key \<times> rsa_key) option) \<Rightarrow> (string \<rightharpoonup> byte list) \<Rightarrow> rsa_key list go" where
  "reader_main parse files = go_map (\<lambda>i. go_bind (read_key parse files ''keys'' i) (\<lambda>key. Inr (fst key))) [0..<260]"

text \<open>The loop of a node: all public keys, and the own private key when \<open>idx\<close> is among them.\<close>

definition node_keys ::
  "(byte list \<Rightarrow> (rsa_key \<times> rsa_key) option) \<Rightarrow> (string \<rightharpoonup> byte list) \<Rightarrow> string \<Rightarrow> int \<Rightarrow> int \<Rightarrow>
   (rsa_key list \<times> rsa_key option) go" where
  "node_keys parse files dir processCount idx =
     (if processCount < 0 then Inl LengthOutOfRange
      else go_fold (\<lambda>(publicKeys, own) i. go_bind (read_key parse files dir i) (\<lambda>(pub, priv).
          Inr (publicKeys @ [pub], if int i = idx then Some priv else own)))
        ([], None) [0..<nat processCount])"

section \<open>Reading back what was generated\<close>

lemma key_file_inject:
  assumes "i < 2 ^ 63" "j < 2 ^ 63"
  shows "key_file dir i = key_file dir j \<longleftrightarrow> i = j"
proof -
  have "- (2 ^ 63) \<le> int k \<and> int k < 2 ^ 63" if "k < 2 ^ 63" for k :: nat
    using that by simp
  then have at: "Atoi (Itoa (int i)) = Some (int i)" "Atoi (Itoa (int j)) = Some (int j)"
    using assms by (blast intro: Atoi_Itoa)+
  have "i = j" if "key_file dir i = key_file dir j"
  proof -
    from that have "Itoa (int i) = Itoa (int j)" unfolding key_file_def append_same_eq same_append_eq .
    then have "Some (int i) = Some (int j)" unfolding at[symmetric] by (rule arg_cong)
    then show ?thesis by simp
  qed
  then show ?thesis by blast
qed

lemma generate_main_files:
  assumes "generate_main generate marshal writable files = Inr files'"
  shows "i < 260 \<Longrightarrow> \<exists>k. generate i = Some k \<and> files' (key_file ''keys'' i) = Some (marshal k)"
    and "(\<And>i. i < 260 \<Longrightarrow> path \<noteq> key_file ''keys'' i) \<Longrightarrow> files' path = files path"
proof -
  let ?step = "\<lambda>files i. if \<not> writable (key_file ''keys'' i) then Inl FatalExit else case generate i of
      None \<Rightarrow> Inl FatalExit | Some privateKey \<Rightarrow> Inr (files(key_file ''keys'' i \<mapsto> marshal privateKey))"
  have "(\<forall>i<n. \<exists>k. generate i = Some k \<and> fs (key_file ''keys'' i) = Some (marshal k)) \<and>
      ((\<forall>i<n. path \<noteq> key_file ''keys'' i) \<longrightarrow> fs path = files path)"
    if "n < 2 ^ 63" "go_fold ?step files [0..<n] = Inr fs" for n fs
    using that
  proof (induction n arbitrary: fs)
    case (Suc n)
    obtain fs1 k where g: "go_fold ?step files [0..<n] = Inr fs1" "generate n = Some k"
      "fs = fs1(key_file ''keys'' n \<mapsto> marshal k)"
      using Suc.prems(2) by (auto simp: go_fold_append go_simps split: if_splits option.splits)
    have "key_file ''keys'' i \<noteq> key_file ''keys'' n" if "i < n" for i
      using key_file_inject[of i n] that Suc.prems(1) by simp
    then show ?case using Suc.IH[OF _ g(1)] g(2,3) Suc.prems(1) by (auto simp: less_Suc_eq)
  qed simp
  from this[of 260 files'] assms
  show "i < 260 \<Longrightarrow> \<exists>k. generate i = Some k \<and> files' (key_file ''keys'' i) = Some (marshal k)"
    "(\<And>i. i < 260 \<Longrightarrow> path \<noteq> key_file ''keys'' i) \<Longrightarrow> files' path = files path"
    by (simp_all add: generate_main_def del: upt_rec_numeral)
qed

lemma node_keys_all:
  assumes "\<And>i. i < n \<Longrightarrow> read_key parse files dir i = Inr (pub i, priv i)"
  shows "node_keys parse files dir (int n) idx =
    Inr (map pub [0..<n], if 0 \<le> idx \<and> idx < int n then Some (priv (nat idx)) else None)"
  using assms
proof (induction n)
  case (Suc n)
  then have "node_keys parse files dir (int n) idx = Inr (map pub [0..<n], if 0 \<le> idx \<and> idx < int n then Some (priv (nat idx)) else None)"
    and "read_key parse files dir n = Inr (pub n, priv n)" by simp_all
  moreover have "nat (1 + int n) = Suc n" by simp
  ultimately show ?case by (auto simp: node_keys_def go_fold_append)
qed (simp add: node_keys_def)

lemma node_keys_missing:
  assumes "k < n" "read_key parse files dir k = Inl e" "\<And>i. i < k \<Longrightarrow> read_key parse files dir i = Inr (pub i, priv i)"
  shows "node_keys parse files dir (int n) idx = Inl e"
proof -
  have "[0..<n] = [0..<k] @ k # [Suc k..<n]" using assms(1) by (metis le_add_same_cancel1 less_imp_add_positive upt_add_eq_append upt_conv_Cons zero_le add_0 less_or_eq_imp_le)
  then show ?thesis using node_keys_all[of k parse files dir pub priv idx] assms(2,3) by (auto simp: node_keys_def go_fold_append)
qed

text \<open>
  C39: Keys survive the round trip through the files. When the generator has run on an empty key
  directory and parsing undoes marshalling, the reader prints the public keys of all 260 keys in
  order; a node of a system of at most 260 processes gets the public keys of all processes in order
  and its own private key (none when its index is not a process); and with more than 260 processes,
  the number fixed in the generator, every node stops with a fatal error.
\<close>

theorem keys_roundtrip:
  assumes gen: "generate_main generate marshal writable files0 = Inr files"
    and fresh: "\<And>i. files0 (key_file ''keys'' i) = None"
    and parse: "\<And>i k. generate i = Some k \<Longrightarrow> parse (marshal k) = Some (pub k, priv k)"
  shows "reader_main parse files = Inr (map (\<lambda>i. pub (the (generate i))) [0..<260]) \<and>
    (n \<le> 260 \<longrightarrow> node_keys parse files ''keys'' (int n) idx =
       Inr (map (\<lambda>i. pub (the (generate i))) [0..<n],
         if 0 \<le> idx \<and> idx < int n then Some (priv (the (generate (nat idx)))) else None)) \<and>
    (260 < n \<longrightarrow> node_keys parse files ''keys'' (int n) idx = Inl FatalExit)"
proof -
  have read: "read_key parse files ''keys'' i = Inr (pub (the (generate i)), priv (the (generate i)))" if "i < 260" for i
    using generate_main_files(1)[OF gen that] parse by (auto simp: read_key_def)
  have "files (key_file ''keys'' 260) = None"
    by (subst generate_main_files(2)[OF gen]) (simp_all add: fresh key_file_inject)
  then have miss: "read_key parse files ''keys'' 260 = Inl FatalExit" by (simp add: read_key_def)
  have "reader_main parse files = Inr (map (\<lambda>i. pub (the (generate i))) [0..<260])"
    unfolding reader_main_def by (rule go_map_Inr_I) (simp add: read)
  then show ?thesis using node_keys_all[of n parse files "''keys''"] node_keys_missing[OF _ miss, of n] read by (simp del: upt_rec_numeral)
qed

text \<open>Keys of one byte, which is the modulus of both parts.\<close>

definition byte_key :: "byte list \<Rightarrow> (rsa_key \<times> rsa_key) option" where
  "byte_key bs = (case bs of [b] \<Rightarrow> Some ((unat b, 3), (unat b, 7)) | _ \<Rightarrow> None)"

theorem keys_roundtrip_witness:
  "\<exists>files. generate_main (\<lambda>i. Some (of_nat i)) (\<lambda>k. [k]) (\<lambda>_. True) Map.empty = Inr files \<and>
     node_keys byte_key files ''keys'' 3 1 = Inr ([(0, 3), (1, 3), (2, 3)], Some (1, 7)) \<and>
     node_keys byte_key files ''keys'' 261 2 = Inl FatalExit"
proof -
  let ?step = "\<lambda>files i. Inr (files(key_file ''keys'' i \<mapsto> [of_nat i :: byte])) :: (string \<rightharpoonup> byte list) go"
  have "\<exists>files. go_fold ?step fs is = Inr files" for fs "is"
    by (induction "is" arbitrary: fs) simp_all
  then obtain files where gen: "generate_main (\<lambda>i. Some (of_nat i)) (\<lambda>k. [k]) (\<lambda>_. True) Map.empty = Inr files"
    by (auto simp: generate_main_def simp del: upt_rec_numeral)
  have u: "[0..<3] = [0, 1, 2 :: nat]" by (simp add: upt_rec)
  show ?thesis
    using keys_roundtrip[OF gen, of byte_key "\<lambda>b. (unat b, 3)" "\<lambda>b. (unat b, 7)" 3 1]
      keys_roundtrip[OF gen, of byte_key "\<lambda>b. (unat b, 3)" "\<lambda>b. (unat b, 7)" 261 2] gen
    by (simp add: byte_key_def u del: upt_rec_numeral)
qed

end
