(* ===== verification/Simulation_Network.thy ===== *)
theory Simulation_Network
  imports Main_Server Node
begin

text \<open>
  The nodes and the main server of one simulation, down to the datagrams between them, and the
  system of protocol processes they implement. A datagram that a correct actor has written may
  arrive any number of times, in any order, or never; a faulty process writes what it likes, except
  that a message of it names a faulty process as its sender. The actors do not check this.
\<close>

section \<open>Processes that exchange protocol messages\<close>

text \<open>The specification: processes, what they have taken in and what they have done.\<close>

record 'p sys_node =
  sn_process :: 'p
  sn_inputs :: "input list"
  sn_effects :: "effect list"

definition sn_idle :: "'p \<Rightarrow> 'p sys_node" where
  "sn_idle p = \<lparr>sn_process = p, sn_inputs = [], sn_effects = []\<rparr>"

definition sn_take :: "'p sys_node \<Rightarrow> input \<Rightarrow> 'p \<times> effect list \<Rightarrow> 'p sys_node" where
  "sn_take N i r = \<lparr>sn_process = fst r, sn_inputs = sn_inputs N @ [i], sn_effects = sn_effects N @ snd r\<rparr>"

inductive sys_run ::
  "('p \<Rightarrow> int32 \<Rightarrow> BroadcastInstanceMessage \<Rightarrow> ('p \<times> effect list) go) \<Rightarrow> ('p \<Rightarrow> int32 \<Rightarrow> ('p \<times> effect list) go) \<Rightarrow>
   int32 set \<Rightarrow> int32 set \<Rightarrow> (int32 \<Rightarrow> 'p) \<Rightarrow> (int32 \<Rightarrow> 'p sys_node) \<Rightarrow> bool"
  for handle broadcast C F init where
  start: "sys_run handle broadcast C F init (\<lambda>x. sn_idle (init x))"
| message: "sys_run handle broadcast C F init S \<Longrightarrow> x \<in> C \<Longrightarrow>
    q \<in> F \<or> q \<in> C \<and> Send x m \<in> set (sn_effects (S q)) \<Longrightarrow> handle (sn_process (S x)) q m = Inr r \<Longrightarrow>
    sys_run handle broadcast C F init (S(x := sn_take (S x) (Received q m) r))"
| request: "sys_run handle broadcast C F init S \<Longrightarrow> x \<in> C \<Longrightarrow> broadcast (sn_process (S x)) v = Inr r \<Longrightarrow>
    sys_run handle broadcast C F init (S(x := sn_take (S x) (Request v) r))"

text \<open>Everything the processes have sent to each other has been received.\<close>

definition sys_settled :: "int32 set \<Rightarrow> (int32 \<Rightarrow> 'p sys_node) \<Rightarrow> bool" where
  "sys_settled C S \<longleftrightarrow>
     (\<forall>x\<in>C. \<forall>y\<in>C. \<forall>m. Send x m \<in> set (sn_effects (S y)) \<longrightarrow> Received y m \<in> set (sn_inputs (S x)))"

section \<open>The actors and the network\<close>

record 'p world =
  wd_nodes :: "int32 \<Rightarrow> 'p Node Actor"
  wd_server :: "MainServer Actor"

abbreviation wd_node :: "'p world \<Rightarrow> int32 \<Rightarrow> 'p Node" where
  "wd_node W x \<equiv> ac_instance (wd_nodes W x)"

abbreviation wd_sent :: "'p world \<Rightarrow> int32 \<Rightarrow> (int32 \<times> byte list) list" where
  "wd_sent W x \<equiv> cx_writeChan (nd_context (wd_node W x))"

definition wd_wire :: "int32 set \<Rightarrow> 'p world \<Rightarrow> (int32 \<times> byte list) set" where
  "wd_wire C W = (\<Union>y\<in>C. set (wd_sent W y)) \<union> set (cx_writeChan (ms_context (ac_instance (wd_server W))))"

text \<open>What a faulty process can have written: it names a faulty sender, if it can be read at all.\<close>

definition wd_faulty :: "(byte list \<Rightarrow> Message option) \<Rightarrow> int32 set \<Rightarrow> byte list \<Rightarrow> bool" where
  "wd_faulty unmarshal F data \<longleftrightarrow> (\<forall>m. unmarshal data = Some m \<longrightarrow> Sender m \<in> F)"

definition wd_set :: "'p world \<Rightarrow> int32 \<Rightarrow> 'p Node Actor \<Rightarrow> 'p world" where
  "wd_set W x a = W\<lparr>wd_nodes := (wd_nodes W)(x := a)\<rparr>"

text \<open>A turn of the goroutine \<open>simulate\<close>, which runs once the node has been told to start.\<close>

definition nd_turn :: "(Message \<Rightarrow> byte list option) \<Rightarrow> nat \<Rightarrow> 'p Node \<Rightarrow> 'p Node \<Rightarrow> bool" where
  "nd_turn marshal draw nd nd' \<longleftrightarrow> 0 < nd_simulations nd \<and>
     (nd' = nd_doBroadcast marshal draw nd \<or> nd_onOwnDelivered marshal draw nd = Some nd')"

inductive wd_run ::
  "(Message \<Rightarrow> byte list option) \<Rightarrow> (byte list \<Rightarrow> Message option) \<Rightarrow>
   ('p \<Rightarrow> int32 \<Rightarrow> BroadcastInstanceMessage \<Rightarrow> ('p \<times> effect list) go) \<Rightarrow> ('p \<Rightarrow> int32 \<Rightarrow> ('p \<times> effect list) go) \<Rightarrow>
   int32 set \<Rightarrow> int32 set \<Rightarrow> 'p world \<Rightarrow> 'p world \<Rightarrow> bool"
  for marshal unmarshal handle broadcast C F W0 where
  start: "wd_run marshal unmarshal handle broadcast C F W0 W0"
| node: "wd_run marshal unmarshal handle broadcast C F W0 W \<Longrightarrow> x \<in> C \<Longrightarrow>
    (x, data) \<in> wd_wire C W \<or> wd_faulty unmarshal F (take BufferSize data) \<Longrightarrow>
    ac_receive unmarshal (nd_ProcessMessage marshal handle broadcast) (wd_nodes W x) (take BufferSize data) = Inr (a, h) \<Longrightarrow>
    wd_run marshal unmarshal handle broadcast C F W0 (wd_set W x a)"
| server: "wd_run marshal unmarshal handle broadcast C F W0 W \<Longrightarrow>
    ac_receive unmarshal (ms_ProcessMessage marshal) (wd_server W) (take BufferSize data) = Inr (s, h) \<Longrightarrow>
    wd_run marshal unmarshal handle broadcast C F W0 (W\<lparr>wd_server := s\<rparr>)"
| simulate: "wd_run marshal unmarshal handle broadcast C F W0 W \<Longrightarrow> x \<in> C \<Longrightarrow> nd_turn marshal draw (wd_node W x) nd \<Longrightarrow>
    wd_run marshal unmarshal handle broadcast C F W0 (wd_set W x ((wd_nodes W x)\<lparr>ac_instance := nd\<rparr>))"

text \<open>
  The actors as \<open>InitActor\<close> leaves them. Process \<open>n\<close> is the main server; \<open>init\<close> gives the process of
  every node.
\<close>

definition wd_fresh ::
  "(Message \<Rightarrow> byte list option) \<Rightarrow> int32 set \<Rightarrow> int32 \<Rightarrow> (int32 \<Rightarrow> 'p) \<Rightarrow> 'p world \<Rightarrow> bool" where
  "wd_fresh marshal C n init W \<longleftrightarrow>
     (\<forall>x\<in>C. nd_process (wd_node W x) = init x \<and> nd_effects (wd_node W x) = [] \<and> nd_processIndex (wd_node W x) = x \<and>
        ac_seen (wd_nodes W x) = {} \<and>
        (\<exists>t. cx_extends marshal [(n, StartedContent)] (NewReliableContext x t) (nd_context (wd_node W x)))) \<and>
     (\<exists>t. cx_extends marshal [] (NewReliableContext n t) (ms_context (ac_instance (wd_server W))))"

text \<open>
  The wire format: what the program sends fits a datagram and is read as it was written, if the
  protocol messages in it are \<open>small\<close>.
\<close>

definition wd_codec ::
  "(Message \<Rightarrow> byte list option) \<Rightarrow> (byte list \<Rightarrow> Message option) \<Rightarrow> (BroadcastInstanceMessage \<Rightarrow> bool) \<Rightarrow> bool" where
  "wd_codec marshal unmarshal small \<longleftrightarrow> (\<forall>m d. marshal m = Some d \<longrightarrow>
     (\<forall>bm. Content m = BroadcastInstanceContent bm \<longrightarrow> small bm) \<longrightarrow> unmarshal (take BufferSize d) = Some m)"

text \<open>Everything the nodes have written to each other has been received, at least once.\<close>

definition wd_settled :: "(byte list \<Rightarrow> Message option) \<Rightarrow> int32 set \<Rightarrow> 'p world \<Rightarrow> bool" where
  "wd_settled unmarshal C W \<longleftrightarrow> (\<forall>x\<in>C. \<forall>y\<in>C. \<forall>d. (x, d) \<in> set (wd_sent W y) \<longrightarrow>
     (\<exists>m. unmarshal (take BufferSize d) = Some m \<and> msg_key m \<in> ac_seen (wd_nodes W x)))"

text \<open>No message fails to be written, and no 32-bit stamp has been used twice.\<close>

definition wd_lossless ::
  "(Message \<Rightarrow> byte list option) \<Rightarrow> (BroadcastInstanceMessage \<Rightarrow> bool) \<Rightarrow> int32 set \<Rightarrow> 'p world \<Rightarrow> bool" where
  "wd_lossless marshal small C W \<longleftrightarrow>
     (\<forall>m. (\<forall>bm. Content m = BroadcastInstanceContent bm \<longrightarrow> small bm) \<longrightarrow> marshal m \<noteq> None) \<and>
     (\<forall>y\<in>C. length (wd_sent W y) \<le> 2 ^ 32)"

section \<open>Facts about stamped messages and turns\<close>

lemma stamped_mem:
  "(to, m) \<in> set (stamped i k cs) \<Longrightarrow> Sender m = i \<and> (to, Content m) \<in> set cs"
  by (induction i k cs rule: stamped.induct) auto

lemma stamped_content:
  assumes "(to, c) \<in> set cs"
  shows "\<exists>m. (to, m) \<in> set (stamped i k cs) \<and> Content m = c"
  using assms
proof (induction i k cs rule: stamped.induct)
  case (2 i k to' c' cs)
  show ?case
  proof (cases "(to, c) = (to', c')")
    case True
    then show ?thesis by (intro exI[of _ "\<lparr>Sender = i, Stamp = k, RetransmissionStamp = 0, Content = c\<rparr>"]) simp
  next
    case False
    then obtain m where "(to, m) \<in> set (stamped i (k + 1) cs)" "Content m = c" using 2 by auto
    then show ?thesis by auto
  qed
qed simp

lemma packets_mem: "(to, d) \<in> set (packets marshal ms) \<longleftrightarrow> (\<exists>m. (to, m) \<in> set ms \<and> marshal m = Some d)"
  by (induction ms) (auto simp: packets_def split: option.splits)

lemma cx_extends_new:
  "cx_extends marshal cs (NewReliableContext x t) c \<Longrightarrow> cx_writeChan c = packets marshal (stamped x 0 cs)"
  by (simp add: cx_extends_def NewReliableContext_def)

lemma stamped_key_inj:
  assumes "length cs \<le> 2 ^ 32" "(to, m) \<in> set (stamped i k cs)" "(to', m') \<in> set (stamped i k cs)" "msg_key m = msg_key m'"
  shows "to = to' \<and> m = m'"
proof -
  have "inj_on (\<lambda>(to, m). (Sender m, Stamp m)) (set (stamped i k cs))"
    using stamped_distinct[OF assms(1), of i k] by (simp add: distinct_map)
  from inj_onD[OF this _ assms(2,3)] show ?thesis using assms(4) by (simp add: msg_key_def)
qed

lemma stamped_length [simp]: "length (stamped i k cs) = length cs"
  by (induction i k cs rule: stamped.induct) auto

lemma packets_length: "(\<And>to m. (to, m) \<in> set ms \<Longrightarrow> marshal m \<noteq> None) \<Longrightarrow> length (packets marshal ms) = length ms"
  by (induction ms) (fastforce simp: packets_def split: option.splits)+

text \<open>A turn of the goroutine posts one request to the node itself.\<close>

lemma nd_doBroadcast_posts:
  "\<exists>v. cx_extends marshal [(nd_processIndex nd, BroadcastContent v)] (nd_context nd) (nd_context (nd_doBroadcast marshal draw nd))"
  unfolding nd_doBroadcast_def by (simp, rule exI, rule cx_post_extends)

lemma nd_turn_posts:
  assumes "nd_turn marshal draw nd nd'"
  shows "\<exists>v. cx_extends marshal [(nd_processIndex nd, BroadcastContent v)] (nd_context nd) (nd_context nd')"
    and "nd_process nd' = nd_process nd" "nd_effects nd' = nd_effects nd" "nd_processIndex nd' = nd_processIndex nd"
proof -
  obtain k where "nd' = nd_doBroadcast marshal draw (nd\<lparr>nd_ownDelivered := k\<rparr>)"
    using assms that[of "nd_ownDelivered nd"] by (auto simp: nd_turn_def nd_onOwnDelivered_def split: if_splits)
  then show "\<exists>v. cx_extends marshal [(nd_processIndex nd, BroadcastContent v)] (nd_context nd) (nd_context nd')"
    "nd_process nd' = nd_process nd" "nd_effects nd' = nd_effects nd" "nd_processIndex nd' = nd_processIndex nd"
    using nd_doBroadcast_posts[of marshal "nd\<lparr>nd_ownDelivered := k\<rparr>" draw] by (simp_all add: nd_doBroadcast_def)
qed

text \<open>The main server posts nothing but Simulate.\<close>

lemma ms_ProcessMessage_posts:
  assumes "ms_ProcessMessage marshal s m = Inr s'"
  shows "\<exists>cs. cx_extends marshal cs (ms_context s) (ms_context s') \<and> snd ` set cs \<subseteq> {SimulateContent}"
  using ms_ProcessMessage_extends[of marshal s m] assms by (fastforce simp: ms_round_def split: if_splits)

text \<open>What a node does with a message: nothing to its process, or one step of it.\<close>

lemma nd_ProcessMessage_cases:
  assumes "nd_ProcessMessage marshal handle broadcast nd m = Inr nd'"
  obtains (other) "nd_process nd' = nd_process nd" "nd_effects nd' = nd_effects nd" "nd_context nd' = nd_context nd"
      "nd_processIndex nd' = nd_processIndex nd" "\<And>bm. Content m \<noteq> BroadcastInstanceContent bm"
  | (request) bc r where "Content m = BroadcastContent bc" "broadcast (nd_process nd) (Value bc) = Inr r" "nd' = nd_apply marshal nd r"
  | (message) bm r where "Content m = BroadcastInstanceContent bm" "handle (nd_process nd) (Sender m) bm = Inr r"
      "nd' = nd_apply marshal nd r"
proof (cases "Content m")
  case (BroadcastInstanceContent bm)
  then show ?thesis using assms message by (auto simp: nd_ProcessMessage_def go_simps)
next
  case (BroadcastContent bc)
  then show ?thesis using assms request by (auto simp: nd_ProcessMessage_def go_simps)
qed (use assms other in \<open>auto simp: nd_ProcessMessage_def\<close>)

section \<open>Refinement\<close>

text \<open>
  \<open>P y\<close> is what process \<open>y\<close> has posted so far. The processes inside the nodes are those of the
  specification; a datagram of \<open>y\<close> carries a protocol message exactly if the process of \<open>y\<close> sent it;
  and a node has marked as received only what was posted to it, and has handed that to its process.
\<close>

definition wd_node_sim ::
  "(Message \<Rightarrow> byte list option) \<Rightarrow> (int32 \<times> Message_Content) list \<Rightarrow> int32 \<Rightarrow> 'p Node \<Rightarrow> 'p sys_node \<Rightarrow> bool" where
  "wd_node_sim marshal cs x nd N \<longleftrightarrow> nd_process nd = sn_process N \<and> nd_effects nd = sn_effects N \<and>
     nd_processIndex nd = x \<and> (\<exists>t. cx_extends marshal cs (NewReliableContext x t) (nd_context nd)) \<and>
     (\<forall>to bm. (to, BroadcastInstanceContent bm) \<in> set cs \<longleftrightarrow> Send to bm \<in> set (sn_effects N)) \<and>
     length (sends (sn_effects N)) \<le> length cs"

definition wd_server_sim ::
  "(Message \<Rightarrow> byte list option) \<Rightarrow> (int32 \<times> Message_Content) list \<Rightarrow> int32 \<Rightarrow> MainServer \<Rightarrow> bool" where
  "wd_server_sim marshal cs n ms \<longleftrightarrow>
     (\<exists>t. cx_extends marshal cs (NewReliableContext n t) (ms_context ms)) \<and> snd ` set cs \<subseteq> {SimulateContent}"

definition wd_heard_sim ::
  "int32 set \<Rightarrow> (int32 \<Rightarrow> (int32 \<times> Message_Content) list) \<Rightarrow> int32 \<Rightarrow> 'p Node Actor \<Rightarrow> 'p sys_node \<Rightarrow> bool" where
  "wd_heard_sim C P x a N \<longleftrightarrow> (\<forall>y\<in>C. length (P y) \<le> 2 ^ 32 \<longrightarrow>
     (\<forall>k. (y, k) \<in> ac_seen a \<longrightarrow> (\<exists>m. (x, m) \<in> set (stamped y 0 (P y)) \<and> msg_key m = (y, k) \<and>
        (\<forall>bm. Content m = BroadcastInstanceContent bm \<longrightarrow> Received y bm \<in> set (sn_inputs N)))))"

definition wd_sim where
  "wd_sim marshal C n W S P \<longleftrightarrow>
     (\<forall>x\<in>C. wd_node_sim marshal (P x) x (wd_node W x) (S x) \<and> wd_heard_sim C P x (wd_nodes W x) (S x)) \<and>
     wd_server_sim marshal (P n) n (ac_instance (wd_server W))"

text \<open>A process that takes a step: what its node posts.\<close>

lemma posted_mem:
  "(to, BroadcastInstanceContent bm) \<in> set (map (\<lambda>(to, bm). (to, BroadcastInstanceContent bm)) xs) \<longleftrightarrow> (to, bm) \<in> set xs"
  by (induction xs) auto

lemma wd_node_sim_apply:
  assumes "wd_node_sim marshal cs x nd N"
  shows "wd_node_sim marshal (cs @ map (\<lambda>(to, bm). (to, BroadcastInstanceContent bm)) (sends (snd r))) x
    (nd_apply marshal nd r) (sn_take N i r)"
proof -
  obtain t where t: "cx_extends marshal cs (NewReliableContext x t) (nd_context nd)" using assms by (auto simp: wd_node_sim_def)
  have "cx_extends marshal (map (\<lambda>(to, bm). (to, BroadcastInstanceContent bm)) (sends (snd r))) (nd_context nd)
      (nd_context (nd_apply marshal nd r))"
    using cx_perform_extends[of marshal "snd r" "nd_context nd"] by (cases r) (simp add: nd_apply_def)
  from cx_extends_trans[OF t this] show ?thesis using assms
    by (cases r) (auto simp: wd_node_sim_def nd_apply_def sn_take_def sends_mem posted_mem simp del: set_map)
qed

lemma wd_node_sim_post:
  assumes "wd_node_sim marshal cs x nd N" "cx_extends marshal [(x, BroadcastContent v)] (nd_context nd) (nd_context nd')"
    "nd_process nd' = nd_process nd" "nd_effects nd' = nd_effects nd" "nd_processIndex nd' = nd_processIndex nd"
  shows "wd_node_sim marshal (cs @ [(x, BroadcastContent v)]) x nd' N"
  using assms cx_extends_trans[OF _ assms(2)] by (auto simp: wd_node_sim_def)

text \<open>Posting more does not disturb what was heard, as long as stamps do not wrap around.\<close>

lemma wd_heard_sim_post:
  assumes "wd_heard_sim C P x a N" "ac_seen a' = ac_seen a" "set (sn_inputs N) \<subseteq> set (sn_inputs N')"
    "\<And>y. y \<in> C \<Longrightarrow> \<exists>ds. P' y = P y @ ds"
  shows "wd_heard_sim C P' x a' N'"
  unfolding wd_heard_sim_def
proof (intro ballI impI allI)
  fix y k assume y: "y \<in> C" and len: "length (P' y) \<le> 2 ^ 32" and k: "(y, k) \<in> ac_seen a'"
  obtain ds where ds: "P' y = P y @ ds" using assms(4)[OF y] by blast
  then have "length (P y) \<le> 2 ^ 32" using len by simp
  then obtain m where m: "(x, m) \<in> set (stamped y 0 (P y))" "msg_key m = (y, k)"
    "\<forall>bm. Content m = BroadcastInstanceContent bm \<longrightarrow> Received y bm \<in> set (sn_inputs N)"
    using assms(1) y k unfolding wd_heard_sim_def assms(2) by blast
  moreover have "(x, m) \<in> set (stamped y 0 (P' y))" using m(1) unfolding ds stamped_append by simp
  ultimately show "\<exists>m. (x, m) \<in> set (stamped y 0 (P' y)) \<and> msg_key m = (y, k) \<and>
      (\<forall>bm. Content m = BroadcastInstanceContent bm \<longrightarrow> Received y bm \<in> set (sn_inputs N'))"
    using assms(3) by blast
qed

text \<open>A message that arrives: from a faulty process, from the main server, or posted to this node.\<close>

lemma wd_source:
  assumes sim: "wd_sim marshal C n W S P" and codec: "wd_codec marshal unmarshal small"
    and small: "\<And>y to bm. y \<in> C \<Longrightarrow> Send to bm \<in> set (sn_effects (S y)) \<Longrightarrow> small bm"
    and data: "(x, data) \<in> wd_wire C W \<or> wd_faulty unmarshal F (take BufferSize data)"
    and m: "unmarshal (take BufferSize data) = Some m"
  shows "Sender m \<in> F \<or> Sender m = n \<and> Content m = SimulateContent \<or>
    Sender m \<in> C \<and> (x, m) \<in> set (stamped (Sender m) 0 (P (Sender m)))"
proof -
  have from_list: "(x, m) \<in> set (stamped i 0 cs)"
    if "(x, data) \<in> set (packets marshal (stamped i 0 cs))" "\<And>to bm. (to, BroadcastInstanceContent bm) \<in> set cs \<Longrightarrow> small bm"
    for i cs
  proof -
    from that(1) obtain m' where m': "(x, m') \<in> set (stamped i 0 cs)" "marshal m' = Some data" unfolding packets_mem by blast
    moreover have "small bm" if "Content m' = BroadcastInstanceContent bm" for bm
      using stamped_mem[OF m'(1)] that \<open>\<And>to bm. (to, BroadcastInstanceContent bm) \<in> set cs \<Longrightarrow> small bm\<close> by metis
    ultimately have "unmarshal (take BufferSize data) = Some m'" using codec unfolding wd_codec_def by blast
    then show ?thesis using m m'(1) by simp
  qed
  consider (faulty) "wd_faulty unmarshal F (take BufferSize data)"
    | (node) y where "y \<in> C" "(x, data) \<in> set (wd_sent W y)"
    | (server) "(x, data) \<in> set (cx_writeChan (ms_context (ac_instance (wd_server W))))"
    using data by (auto simp: wd_wire_def)
  then show ?thesis
  proof cases
    case faulty
    then show ?thesis using m by (simp add: wd_faulty_def)
  next
    case (node y)
    have ns: "wd_node_sim marshal (P y) y (wd_node W y) (S y)" using sim node(1) by (simp add: wd_sim_def)
    then have chan: "wd_sent W y = packets marshal (stamped y 0 (P y))" by (auto simp: wd_node_sim_def cx_extends_new)
    have "(x, m) \<in> set (stamped y 0 (P y))"
      by (rule from_list) (use node(2) chan ns small[OF node(1)] in \<open>auto simp: wd_node_sim_def\<close>)
    then show ?thesis using stamped_mem node(1) by fastforce
  next
    case server
    have ss: "wd_server_sim marshal (P n) n (ac_instance (wd_server W))" using sim by (simp add: wd_sim_def)
    then have chan: "cx_writeChan (ms_context (ac_instance (wd_server W))) = packets marshal (stamped n 0 (P n))"
      by (auto simp: wd_server_sim_def cx_extends_new)
    have "(x, m) \<in> set (stamped n 0 (P n))"
      by (rule from_list) (use server chan ss in \<open>force simp: wd_server_sim_def\<close>)+
    then show ?thesis using stamped_mem ss by (fastforce simp: wd_server_sim_def)
  qed
qed

text \<open>The specification's actions.\<close>

lemma wd_heard_sim_message:
  assumes h: "wd_heard_sim C P x a N"
    and seen: "ac_seen a' = insert (msg_key m) (ac_seen a)" and sub: "set (sn_inputs N) \<subseteq> set (sn_inputs N')"
    and src: "Sender m \<in> C \<Longrightarrow> (x, m) \<in> set (stamped (Sender m) 0 (P (Sender m)))"
    and new: "\<And>bm. Content m = BroadcastInstanceContent bm \<Longrightarrow> Received (Sender m) bm \<in> set (sn_inputs N')"
  shows "wd_heard_sim C P x a' N'"
  unfolding wd_heard_sim_def
proof (intro ballI impI allI)
  fix y k assume y: "y \<in> C" "length (P y) \<le> 2 ^ 32" "(y, k) \<in> ac_seen a'"
  show "\<exists>m. (x, m) \<in> set (stamped y 0 (P y)) \<and> msg_key m = (y, k) \<and>
      (\<forall>bm. Content m = BroadcastInstanceContent bm \<longrightarrow> Received y bm \<in> set (sn_inputs N'))"
  proof (cases "(y, k) = msg_key m")
    case True
    then have "y = Sender m" by (simp add: msg_key_def)
    then show ?thesis using True src new y(1) by (intro exI[of _ m]) simp
  next
    case False
    then show ?thesis using h y sub unfolding wd_heard_sim_def seen by blast
  qed
qed

text \<open>One node moves.\<close>

lemma wd_sim_set:
  assumes sim: "wd_sim marshal C n W S P" and n: "n \<notin> C" and x: "x \<in> C"
    and node: "wd_node_sim marshal (P x @ ds) x (ac_instance a) N" and heard: "wd_heard_sim C P x a N"
  shows "wd_sim marshal C n (wd_set W x a) (S(x := N)) (P(x := P x @ ds))"
proof -
  let ?P = "P(x := P x @ ds)"
  have ext: "\<exists>es. ?P y = P y @ es" for y by auto
  have "wd_heard_sim C ?P x a N" by (rule wd_heard_sim_post[OF heard refl order_refl ext])
  moreover have "wd_heard_sim C ?P y (wd_nodes W y) (S y)" if "y \<in> C" for y
    by (rule wd_heard_sim_post[OF _ refl order_refl ext]) (use sim that in \<open>simp add: wd_sim_def\<close>)
  ultimately show ?thesis using sim n x node by (auto simp: wd_sim_def wd_set_def)
qed

text \<open>
  What the simulation needs of a protocol: from the states \<open>inv\<close>, a step keeps them and sends small
  messages only.
\<close>

locale simulated_protocol =
  fixes handle :: "'p \<Rightarrow> int32 \<Rightarrow> BroadcastInstanceMessage \<Rightarrow> ('p \<times> effect list) go"
    and broadcast :: "'p \<Rightarrow> int32 \<Rightarrow> ('p \<times> effect list) go"
    and small :: "BroadcastInstanceMessage \<Rightarrow> bool"
    and inv :: "'p \<Rightarrow> bool"
  assumes handle_small: "inv p \<Longrightarrow> handle p q m = Inr (p', es) \<Longrightarrow> inv p' \<and> (\<forall>(to, bm)\<in>set (sends es). small bm)"
    and broadcast_small: "inv p \<Longrightarrow> broadcast p v = Inr (p', es) \<Longrightarrow> inv p' \<and> (\<forall>(to, bm)\<in>set (sends es). small bm)"
begin

lemma sys_run_small:
  assumes "sys_run handle broadcast C F init S" "\<And>x. x \<in> C \<Longrightarrow> inv (init x)" "x \<in> C"
  shows "inv (sn_process (S x)) \<and> (\<forall>to bm. Send to bm \<in> set (sn_effects (S x)) \<longrightarrow> small bm)"
  using assms
proof (induction arbitrary: x rule: sys_run.induct)
  case (message S z q m r)
  obtain p' es where r: "r = (p', es)" by (cases r)
  have "inv p' \<and> (\<forall>(to, bm)\<in>set (sends es). small bm)"
    using handle_small[of "sn_process (S z)"] message.IH[OF message.prems(1) message(2)] message(4) r by blast
  then show ?case using message.IH[OF message.prems] by (auto simp: sn_take_def r sends_mem[symmetric])
next
  case (request S z v r)
  obtain p' es where r: "r = (p', es)" by (cases r)
  have "inv p' \<and> (\<forall>(to, bm)\<in>set (sends es). small bm)"
    using broadcast_small[of "sn_process (S z)"] request.IH[OF request.prems(1) request(2)] request(3) r by blast
  then show ?case using request.IH[OF request.prems] by (auto simp: sn_take_def r sends_mem[symmetric])
qed (simp add: sn_idle_def)

text \<open>A datagram at a node.\<close>

lemma wd_sim_node:
  assumes run: "sys_run handle broadcast C F init S" and init: "\<And>x. x \<in> C \<Longrightarrow> inv (init x)"
    and sim: "wd_sim marshal C n W S P" and codec: "wd_codec marshal unmarshal small" and sep: "n \<notin> C" "C \<inter> F = {}"
    and x: "x \<in> C" and data: "(x, data) \<in> wd_wire C W \<or> wd_faulty unmarshal F (take BufferSize data)"
    and a: "ac_receive unmarshal (nd_ProcessMessage marshal handle broadcast) (wd_nodes W x) (take BufferSize data) = Inr (a, h)"
  shows "\<exists>S' P'. sys_run handle broadcast C F init S' \<and> wd_sim marshal C n (wd_set W x a) S' P'"
proof -
  have small: "\<And>y to bm. y \<in> C \<Longrightarrow> Send to bm \<in> set (sn_effects (S y)) \<Longrightarrow> small bm"
    using sys_run_small[OF run init] by blast
  have node: "wd_node_sim marshal (P y) y (wd_node W y) (S y)" and heard: "wd_heard_sim C P y (wd_nodes W y) (S y)" if "y \<in> C" for y
    using sim that by (auto simp: wd_sim_def)
  note frame = wd_sim_set[OF sim sep(1) x]
  note same = frame[of "[]" a "S x"]
  from a show ?thesis
  proof (cases rule: ac_receive_cases)
    case garbage
    then have "wd_sim marshal C n (wd_set W x a) S P" using sim by (simp add: wd_set_def)
    then show ?thesis using run by blast
  next
    case (again m)
    have "wd_sim marshal C n (wd_set W x a) (S(x := S x)) (P(x := P x @ []))"
      by (rule same) (use node[OF x] again wd_heard_sim_post[OF heard[OF x] again(5) order_refl, of P] in auto)
    then show ?thesis using run by (metis fun_upd_triv)
  next
    case (fresh m)
    have src: "Sender m \<in> F \<or> Sender m = n \<and> Content m = SimulateContent \<or>
        Sender m \<in> C \<and> (x, m) \<in> set (stamped (Sender m) 0 (P (Sender m)))"
      by (rule wd_source[OF sim codec small data fresh(1)])
    have heard': "wd_heard_sim C P x a N"
      if "set (sn_inputs (S x)) \<subseteq> set (sn_inputs N)"
        "\<And>bm. Content m = BroadcastInstanceContent bm \<Longrightarrow> Received (Sender m) bm \<in> set (sn_inputs N)" for N
      by (rule wd_heard_sim_message[OF heard[OF x] fresh(5) that(1)]) (use src sep that(2) in auto)
    have applied: "wd_sim marshal C n (wd_set W x a) (S(x := sn_take (S x) i r)) (P(x := P x @
        map (\<lambda>(to, bm). (to, BroadcastInstanceContent bm)) (sends (snd r))))"
      if "ac_instance a = nd_apply marshal (wd_node W x) r"
        "\<And>bm. Content m = BroadcastInstanceContent bm \<Longrightarrow> i = Received (Sender m) bm" for i r
      by (rule frame) (use wd_node_sim_apply[OF node[OF x]] that in \<open>auto intro!: heard' simp: sn_take_def\<close>)
    have process: "nd_process (wd_node W x) = sn_process (S x)" using node[OF x] by (simp add: wd_node_sim_def)
    from fresh(4) show ?thesis
    proof (cases rule: nd_ProcessMessage_cases)
      case other
      have "wd_sim marshal C n (wd_set W x a) (S(x := S x)) (P(x := P x @ []))"
        by (rule same) (use node[OF x] other heard'[of "S x"] in \<open>auto simp: wd_node_sim_def\<close>)
      then show ?thesis using run by (metis fun_upd_triv)
    next
      case (request bc r)
      have "sys_run handle broadcast C F init (S(x := sn_take (S x) (Request (Value bc)) r))"
        by (rule sys_run.request[OF run x]) (use request(2) process in simp)
      then show ?thesis using applied[OF request(3)] request(1) by auto
    next
      case (message bm r)
      have "Send x bm \<in> set (sn_effects (S (Sender m)))"
        if "Sender m \<in> C" "(x, m) \<in> set (stamped (Sender m) 0 (P (Sender m)))"
        using stamped_mem[OF that(2)] node[OF that(1)] message(1) by (simp add: wd_node_sim_def)
      then have "Sender m \<in> F \<or> Sender m \<in> C \<and> Send x bm \<in> set (sn_effects (S (Sender m)))"
        using src message(1) by auto
      then have "sys_run handle broadcast C F init (S(x := sn_take (S x) (Received (Sender m) bm) r))"
        by (rule sys_run.message[OF run x]) (use message(2) process in simp)
      then show ?thesis using applied[OF message(3)] message(1) by auto
    qed
  qed
qed

text \<open>Every run of the actors is a run of the specification.\<close>

lemma wd_refines:
  assumes fresh: "wd_fresh marshal C n init W0" and codec: "wd_codec marshal unmarshal small"
    and init: "\<And>x. x \<in> C \<Longrightarrow> inv (init x)" and sep: "n \<notin> C" "C \<inter> F = {}"
    and run: "wd_run marshal unmarshal handle broadcast C F W0 W"
  shows "\<exists>S P. sys_run handle broadcast C F init S \<and> wd_sim marshal C n W S P"
  using run
proof (induction rule: wd_run.induct)
  case start
  let ?S = "\<lambda>x. sn_idle (init x)" and ?P = "\<lambda>y. if y \<in> C then [(n, StartedContent)] else []"
  have "wd_sim marshal C n W0 ?S ?P"
    using fresh sep(1) by (auto simp: wd_fresh_def wd_sim_def wd_node_sim_def wd_server_sim_def wd_heard_sim_def sn_idle_def)
  then show ?case using sys_run.start by blast
next
  case (node W x data a h)
  then obtain S P where S: "sys_run handle broadcast C F init S" and sim: "wd_sim marshal C n W S P" by blast
  show ?case by (rule wd_sim_node[OF S init sim codec sep node(2,3,4)])
next
  case (server W data s h)
  then obtain S P where S: "sys_run handle broadcast C F init S" and sim: "wd_sim marshal C n W S P" by blast
  have ms: "wd_server_sim marshal (P n) n (ac_instance (wd_server W))" using sim by (simp add: wd_sim_def)
  from server(2) obtain cs where cs: "cx_extends marshal cs (ms_context (ac_instance (wd_server W))) (ms_context (ac_instance s))"
    "snd ` set cs \<subseteq> {SimulateContent}"
  proof (cases rule: ac_receive_cases)
    case (fresh m)
    then show ?thesis using that ms_ProcessMessage_posts by blast
  qed (use that[of "[]"] cx_extends_refl in auto)
  then have "wd_server_sim marshal (P n @ cs) n (ac_instance s)"
    using ms cs(2) cx_extends_trans[OF _ cs(1)] unfolding wd_server_sim_def by (metis image_Un le_sup_iff set_append)
  then have "wd_sim marshal C n (W\<lparr>wd_server := s\<rparr>) S (P(n := P n @ cs))"
    using sim sep(1) by (auto simp: wd_sim_def wd_heard_sim_def)
  then show ?case using S by blast
next
  case (simulate W x draw nd)
  then obtain S P where S: "sys_run handle broadcast C F init S" and sim: "wd_sim marshal C n W S P" by blast
  have node: "wd_node_sim marshal (P x) x (wd_node W x) (S x)" and heard: "wd_heard_sim C P x (wd_nodes W x) (S x)"
    using sim simulate(2) by (auto simp: wd_sim_def)
  note turn = nd_turn_posts[OF simulate(3)]
  obtain v where "cx_extends marshal [(x, BroadcastContent v)] (nd_context (wd_node W x)) (nd_context nd)"
    using turn(1) node by (auto simp: wd_node_sim_def)
  from wd_sim_set[OF sim sep(1) simulate(2), of "[(x, BroadcastContent v)]" "(wd_nodes W x)\<lparr>ac_instance := nd\<rparr>" "S x"]
    wd_node_sim_post[OF node this turn(2-4)] wd_heard_sim_post[OF heard, of "(wd_nodes W x)\<lparr>ac_instance := nd\<rparr>" "S x" P]
  show ?case using S by (auto simp: ac_seen_def)
qed

text \<open>Nothing fails to be written: the datagrams are as many as the messages.\<close>

lemma wd_lossless_sent:
  assumes sim: "wd_sim marshal C n W S P" and run: "sys_run handle broadcast C F init S" and init: "\<And>x. x \<in> C \<Longrightarrow> inv (init x)"
    and loss: "wd_lossless marshal small C W" and y: "y \<in> C"
  shows "wd_sent W y = packets marshal (stamped y 0 (P y))" "length (P y) \<le> 2 ^ 32"
    "(to, m) \<in> set (stamped y 0 (P y)) \<Longrightarrow> Content m = BroadcastInstanceContent bm \<Longrightarrow> small bm"
proof -
  have node: "wd_node_sim marshal (P y) y (wd_node W y) (S y)" using sim y by (simp add: wd_sim_def)
  then show chan: "wd_sent W y = packets marshal (stamped y 0 (P y))" by (auto simp: wd_node_sim_def cx_extends_new)
  have ok: "small bm'" if "(to, m) \<in> set (stamped y 0 (P y))" "Content m = BroadcastInstanceContent bm'" for to m bm'
    using sys_run_small[OF run init y] node stamped_mem[OF that(1)] that(2) unfolding wd_node_sim_def by metis
  then show "(to, m) \<in> set (stamped y 0 (P y)) \<Longrightarrow> Content m = BroadcastInstanceContent bm \<Longrightarrow> small bm" .
  have "length (packets marshal (stamped y 0 (P y))) = length (stamped y 0 (P y))"
    using ok loss by (intro packets_length) (auto simp: wd_lossless_def)
  moreover have "length (wd_sent W y) \<le> 2 ^ 32" using loss y by (simp add: wd_lossless_def)
  ultimately show "length (P y) \<le> 2 ^ 32" unfolding chan stamped_length by simp
qed

text \<open>And what has arrived at the nodes has arrived at the processes.\<close>

lemma wd_settles:
  assumes sim: "wd_sim marshal C n W S P" and run: "sys_run handle broadcast C F init S" and init: "\<And>x. x \<in> C \<Longrightarrow> inv (init x)"
    and codec: "wd_codec marshal unmarshal small" and loss: "wd_lossless marshal small C W" and settled: "wd_settled unmarshal C W"
  shows "sys_settled C S"
  unfolding sys_settled_def
proof (intro ballI allI impI)
  fix x y bm assume x: "x \<in> C" and y: "y \<in> C" and sent: "Send x bm \<in> set (sn_effects (S y))"
  have node: "wd_node_sim marshal (P y) y (wd_node W y) (S y)" using sim y by (simp add: wd_sim_def)
  note chan = wd_lossless_sent(1)[OF sim run init loss y] and len = wd_lossless_sent(2)[OF sim run init loss y]
    and ok = wd_lossless_sent(3)[OF sim run init loss y]
  have "(x, BroadcastInstanceContent bm) \<in> set (P y)" using node sent by (simp add: wd_node_sim_def)
  then obtain m where m: "(x, m) \<in> set (stamped y 0 (P y))" "Content m = BroadcastInstanceContent bm"
    using stamped_content by blast
  have small: "\<forall>bm. Content m = BroadcastInstanceContent bm \<longrightarrow> small bm" using ok m by blast
  then obtain d where d: "marshal m = Some d" using loss by (auto simp: wd_lossless_def)
  have "(x, d) \<in> set (wd_sent W y)" using m(1) d by (auto simp: chan packets_mem)
  moreover have "unmarshal (take BufferSize d) = Some m" using codec d small by (simp add: wd_codec_def)
  ultimately have "msg_key m \<in> ac_seen (wd_nodes W x)" using settled x y unfolding wd_settled_def by fastforce
  moreover have "msg_key m = (y, Stamp m)" using stamped_mem[OF m(1)] by (simp add: msg_key_def)
  ultimately obtain m' where m': "(x, m') \<in> set (stamped y 0 (P y))" "msg_key m' = msg_key m"
    "\<forall>bm. Content m' = BroadcastInstanceContent bm \<longrightarrow> Received y bm \<in> set (sn_inputs (S x))"
    using sim x y len unfolding wd_sim_def wd_heard_sim_def by metis
  then show "Received y bm \<in> set (sn_inputs (S x))" using stamped_key_inj[OF len m'(1) m(1) m'(2)] m(2) by blast
qed

end

text \<open>The processes of a run deliver every instance once and record what they deliver.\<close>

context broadcast_process
begin

lemma sys_run_delivers:
  assumes "sys_run handle broadcast C F init S" "\<forall>x\<in>C. invar (init x) \<and> delivered_value (init x) = Map.empty" "x \<in> C"
  shows "invar (sn_process (S x)) \<and> delivery_step Map.empty (sn_effects (S x)) (delivered_value (sn_process (S x)))"
  using assms
proof (induction arbitrary: x rule: sys_run.induct)
  case start
  then show ?case by (simp add: sn_idle_def delivery_step_none)
next
  case (message S z q m r)
  note ih = message.IH[OF message.prems(1)]
  obtain p' es where r: "r = (p', es)" by (cases r)
  have "invar p' \<and> delivery_step (delivered_value (sn_process (S z))) es (delivered_value p')"
    by (rule handle_ok) (use ih[OF message(2)] message(4) r in auto)
  then show ?case using ih[OF message.prems(2)] by (auto simp: sn_take_def r intro: delivery_step_trans)
next
  case (request S z v r)
  note ih = request.IH[OF request.prems(1)]
  obtain p' es where r: "r = (p', es)" by (cases r)
  have "invar p' \<and> delivery_step (delivered_value (sn_process (S z))) es (delivered_value p')"
    by (rule broadcast_ok) (use ih[OF request(2)] request(3) r in auto)
  then show ?case using ih[OF request.prems(2)] by (auto simp: sn_take_def r intro: delivery_step_trans)
qed

lemma sys_run_delivered:
  assumes "sys_run handle broadcast C F init S" "\<forall>x\<in>C. invar (init x) \<and> delivered_value (init x) = Map.empty" "x \<in> C"
  shows "(b, v) \<in> set (deliveries (sn_effects (S x))) \<longleftrightarrow> delivered_value (sn_process (S x)) b = Some v"
  using sys_run_delivers[OF assms] by (simp add: delivery_step_def)

end

section \<open>A scheduler\<close>

text \<open>
  \<open>Deliver y x k\<close> hands the \<open>k\<close>-th datagram of node \<open>y\<close> to node \<open>x\<close>, \<open>FromServer\<close> and \<open>ToServer\<close> those
  of the main server and to it; \<open>Turn\<close> lets the goroutine of a node make a request, and \<open>Forge\<close> is a
  datagram of a faulty process. An action that is not possible ends the play.
\<close>

datatype wd_action =
    Deliver int32 int32 nat
  | FromServer int32 nat
  | ToServer int32 nat
  | Turn int32 nat
  | Forge int32 "byte list"

definition wd_arrive where
  "wd_arrive marshal unmarshal handle broadcast x data W =
     (case ac_receive unmarshal (nd_ProcessMessage marshal handle broadcast) (wd_nodes W x) (take BufferSize data) of
        Inl e \<Rightarrow> None
      | Inr (a, h) \<Rightarrow> Some (wd_set W x a))"

definition wd_act where
  "wd_act marshal unmarshal handle broadcast C F act W = (case act of
     Deliver y x k \<Rightarrow>
       if x \<in> C \<and> y \<in> C \<and> k < length (wd_sent W y) \<and> fst (wd_sent W y ! k) = x
       then wd_arrive marshal unmarshal handle broadcast x (snd (wd_sent W y ! k)) W else None
   | FromServer x k \<Rightarrow>
       let sent = cx_writeChan (ms_context (ac_instance (wd_server W))) in
       if x \<in> C \<and> k < length sent \<and> fst (sent ! k) = x
       then wd_arrive marshal unmarshal handle broadcast x (snd (sent ! k)) W else None
   | ToServer y k \<Rightarrow>
       if k < length (wd_sent W y) then
         (case ac_receive unmarshal (ms_ProcessMessage marshal) (wd_server W) (take BufferSize (snd (wd_sent W y ! k))) of
            Inl e \<Rightarrow> None
          | Inr (s, h) \<Rightarrow> Some (W\<lparr>wd_server := s\<rparr>))
       else None
   | Turn x draw \<Rightarrow>
       if x \<in> C \<and> 0 < nd_simulations (wd_node W x)
       then Some (wd_set W x ((wd_nodes W x)\<lparr>ac_instance := nd_doBroadcast marshal draw (wd_node W x)\<rparr>)) else None
   | Forge x data \<Rightarrow>
       if x \<in> C \<and> (case unmarshal (take BufferSize data) of None \<Rightarrow> True | Some m \<Rightarrow> Sender m \<in> F)
       then wd_arrive marshal unmarshal handle broadcast x data W else None)"

fun wd_play where
  "wd_play marshal unmarshal handle broadcast C F [] W = Some W"
| "wd_play marshal unmarshal handle broadcast C F (act # acts) W =
     (case wd_act marshal unmarshal handle broadcast C F act W of
        None \<Rightarrow> None
      | Some W' \<Rightarrow> wd_play marshal unmarshal handle broadcast C F acts W')"

lemma wd_arrive_run:
  assumes "wd_run marshal unmarshal handle broadcast C F W0 W" "x \<in> C"
    "(x, data) \<in> wd_wire C W \<or> wd_faulty unmarshal F (take BufferSize data)"
    "wd_arrive marshal unmarshal handle broadcast x data W = Some W'"
  shows "wd_run marshal unmarshal handle broadcast C F W0 W'"
  using assms(4) wd_run.node[OF assms(1-3)] by (auto simp: wd_arrive_def split: sum.splits)

lemma wd_act_run:
  assumes "wd_run marshal unmarshal handle broadcast C F W0 W" "wd_act marshal unmarshal handle broadcast C F act W = Some W'"
  shows "wd_run marshal unmarshal handle broadcast C F W0 W'"
proof (cases act)
  case (Deliver y x k)
  then have y: "x \<in> C" "y \<in> C" "k < length (wd_sent W y)" "fst (wd_sent W y ! k) = x"
    and arrive: "wd_arrive marshal unmarshal handle broadcast x (snd (wd_sent W y ! k)) W = Some W'"
    using assms(2) by (auto simp: wd_act_def split: if_splits)
  have "(x, snd (wd_sent W y ! k)) \<in> set (wd_sent W y)" using nth_mem[OF y(3)] y(4) by (metis prod.collapse)
  then have "(x, snd (wd_sent W y ! k)) \<in> wd_wire C W" using y(2) unfolding wd_wire_def by blast
  then show ?thesis using wd_arrive_run[OF assms(1) y(1) _ arrive] by blast
next
  case (FromServer x k)
  let ?sent = "cx_writeChan (ms_context (ac_instance (wd_server W)))"
  have x: "x \<in> C" "k < length ?sent" "fst (?sent ! k) = x"
    and arrive: "wd_arrive marshal unmarshal handle broadcast x (snd (?sent ! k)) W = Some W'"
    using assms(2) FromServer by (auto simp: wd_act_def Let_def split: if_splits)
  have "(x, snd (?sent ! k)) \<in> set ?sent" using nth_mem[OF x(2)] x(3) by (metis prod.collapse)
  then have "(x, snd (?sent ! k)) \<in> wd_wire C W" unfolding wd_wire_def by blast
  then show ?thesis using wd_arrive_run[OF assms(1) x(1) _ arrive] by blast
next
  case (ToServer y k)
  then show ?thesis using assms(2) wd_run.server[OF assms(1)] by (auto simp: wd_act_def split: if_splits sum.splits)
next
  case (Turn x draw)
  then show ?thesis using assms(2) wd_run.simulate[OF assms(1)] by (auto simp: wd_act_def nd_turn_def split: if_splits)
next
  case (Forge x data)
  then have x: "x \<in> C" "wd_faulty unmarshal F (take BufferSize data)"
    and arrive: "wd_arrive marshal unmarshal handle broadcast x data W = Some W'"
    using assms(2) by (auto simp: wd_act_def wd_faulty_def split: if_splits option.splits)
  then show ?thesis using wd_arrive_run[OF assms(1) x(1) _ arrive] by blast
qed

lemma wd_play_run:
  "wd_run marshal unmarshal handle broadcast C F W0 W \<Longrightarrow> wd_play marshal unmarshal handle broadcast C F acts W = Some W' \<Longrightarrow>
   wd_run marshal unmarshal handle broadcast C F W0 W'"
  by (induction acts arbitrary: W) (auto split: option.splits intro: wd_act_run)

end
