(* ===== verification/Simulation.thy ===== *)
theory Simulation
  imports Bracha_Theorems Consistent Scalable_Theorems Hashes Key_Files Simulation_Network
begin

text \<open>
  The two programs, \<open>simulation/node/main.go\<close> and \<open>simulation/mainserver/main.go\<close>: the command line,
  the choice of the topology and of the protocol, and the actor that runs. Reading and parsing the
  input file is a parameter: \<open>None\<close> stands for every error. The key files are those of \<open>Key_Files\<close>.
\<close>

section \<open>The protocols behind the interface\<close>

datatype protocol_Process =
    ReliableProcess re_Process
  | ConsistentProcess co_Process
  | BrachaProcess br_Process
  | ScalableProcess sc_Process

text \<open>What the program makes before the node starts: the reliable process has its keys already.\<close>

datatype new_Process =
    NewReliable "rsa_key list" "rsa_key option" int
  | NewConsistent
  | NewBracha
  | NewScalable

text \<open>The parameters of the protocol models: map orders, sorting, randomness, encryption and coding.\<close>

record protocol_env =
  pe_reliable :: re_env
  pe_sort :: "dist list \<Rightarrow> dist list"
  pe_co_order :: co_order
  pe_sc_order :: sc_order
  pe_random :: "nat \<Rightarrow> sc_randomness"

definition pr_InitProcess ::
  "protocol_env \<Rightarrow> new_Process \<Rightarrow> int32 \<Rightarrow> string list \<Rightarrow> Parameters \<Rightarrow> bool \<Rightarrow> protocol_Process go" where
  "pr_InitProcess env np processIndex pids parameters sendOwn = (case np of
     NewReliable publicKeys privateKey mixingTime \<Rightarrow>
       go_bind (re_InitProcess (pe_reliable env) HashSHA256_Hash HashSHA512_Hash publicKeys privateKey mixingTime
         processIndex pids parameters sendOwn) (\<lambda>p. Inr (ReliableProcess p))
   | NewConsistent \<Rightarrow>
       go_bind (co_InitProcess HashSHA256_Hash HashSHA512_Hash processIndex pids parameters sendOwn) (\<lambda>p. Inr (ConsistentProcess p))
   | NewBracha \<Rightarrow> Inr (BrachaProcess (br_InitProcess processIndex pids parameters sendOwn))
   | NewScalable \<Rightarrow> Inr (ScalableProcess (sc_InitProcess processIndex pids parameters sendOwn)))"

definition pr_HandleMessage ::
  "protocol_env \<Rightarrow> protocol_Process \<Rightarrow> int32 \<Rightarrow> BroadcastInstanceMessage \<Rightarrow> (protocol_Process \<times> effect list) go" where
  "pr_HandleMessage env pr q m = (case pr of
     ReliableProcess p \<Rightarrow> go_bind (re_HandleMessage (pe_reliable env) p q m) (\<lambda>(p', es). Inr (ReliableProcess p', es))
   | ConsistentProcess p \<Rightarrow> go_bind (co_HandleMessage (pe_sort env) (pe_co_order env) p q m) (\<lambda>(p', es). Inr (ConsistentProcess p', es))
   | BrachaProcess p \<Rightarrow> go_bind (br_HandleMessage p q m) (\<lambda>(p', es). Inr (BrachaProcess p', es))
   | ScalableProcess p \<Rightarrow> go_bind (sc_HandleMessage (pe_sc_order env) (pe_random env) p q m) (\<lambda>(p', es). Inr (ScalableProcess p', es)))"

definition pr_Broadcast :: "protocol_env \<Rightarrow> protocol_Process \<Rightarrow> int32 \<Rightarrow> (protocol_Process \<times> effect list) go" where
  "pr_Broadcast env pr v = (case pr of
     ReliableProcess p \<Rightarrow> go_bind (re_Broadcast (pe_reliable env) p v) (\<lambda>(p', es). Inr (ReliableProcess p', es))
   | ConsistentProcess p \<Rightarrow> go_bind (co_Broadcast (pe_sort env) (pe_co_order env) p v) (\<lambda>(p', es). Inr (ConsistentProcess p', es))
   | BrachaProcess p \<Rightarrow> go_bind (br_Broadcast p v) (\<lambda>(p', es). Inr (BrachaProcess p', es))
   | ScalableProcess p \<Rightarrow> go_bind (sc_Broadcast (pe_sc_order env) (pe_random env) p v) (\<lambda>(p', es). Inr (ScalableProcess p', es)))"

section \<open>The command lines\<close>

text \<open>The flags both programs have, and those of a node.\<close>

record sim_flags =
  fl_nodes :: int
  fl_base_ip :: string
  fl_base_port :: int
  fl_retransmission_timeout_ns :: int
  fl_topo :: string
  fl_number_of_children :: int
  fl_message_delay :: int

record node_flags = sim_flags +
  fl_i :: int
  fl_transactions :: int
  fl_stress_test :: bool
  fl_mixing_time :: int
  fl_keys_dir :: string

record Input =
  in_protocol :: string
  in_parameters :: Parameters

definition sim_topology :: "'a sim_flags_scheme \<Rightarrow> string list go" where
  "sim_topology fl =
     (if fl_topo fl = ''star'' then GenerateStarTopology (fl_nodes fl) (fl_base_ip fl)
      else if fl_topo fl = ''tree'' then GenerateTreeTopology (fl_number_of_children fl) (fl_nodes fl) (fl_base_ip fl)
      else Inl FatalExit)"

definition node_process ::
  "(byte list \<Rightarrow> (rsa_key \<times> rsa_key) option) \<Rightarrow> (string \<rightharpoonup> byte list) \<Rightarrow> node_flags \<Rightarrow> Input \<Rightarrow> new_Process go" where
  "node_process parse files fl inp =
     (if in_protocol inp = ''reliable_accountability'' then
        go_bind (node_keys parse files (fl_keys_dir fl) (ProcessCount (in_parameters inp)) (fl_i fl)) (\<lambda>(publicKeys, own).
          Inr (NewReliable publicKeys own (fl_mixing_time fl)))
      else if in_protocol inp = ''consistent_accountability'' then Inr NewConsistent
      else if in_protocol inp = ''bracha'' then Inr NewBracha
      else if in_protocol inp = ''scalable'' then Inr NewScalable
      else Inl FatalExit)"

definition node_main ::
  "sockets \<Rightarrow> (Message \<Rightarrow> byte list option) \<Rightarrow> protocol_env \<Rightarrow> (byte list \<Rightarrow> (rsa_key \<times> rsa_key) option) \<Rightarrow>
   (string \<rightharpoonup> byte list) \<Rightarrow> node_flags \<Rightarrow> Input option \<Rightarrow> protocol_Process Node Actor go" where
  "node_main sk marshal env parse files fl input_file = (case input_file of
     None \<Rightarrow> Inl FatalExit
   | Some inp \<Rightarrow>
       if in_protocol inp = '''' then Inl FatalExit
       else go_bind (sim_topology fl) (\<lambda>nodeIps.
         go_bind (GeneratePids nodeIps (fl_base_port fl) (ProcessCount (in_parameters inp) + 1)) (\<lambda>pids.
         go_bind (node_process parse files fl inp) (\<lambda>process.
           ac_InitActor sk (of_int (fl_i fl)) pids
             (nd_Start marshal (pr_InitProcess env process) (of_int (fl_i fl)) pids (in_parameters inp)
               (fl_transactions fl) (fl_stress_test fl))
             (fl_retransmission_timeout_ns fl) (fl_message_delay fl)))))"

definition server_main :: "sockets \<Rightarrow> sim_flags \<Rightarrow> int \<Rightarrow> MainServer Actor go" where
  "server_main sk fl n =
     go_bind (sim_topology fl) (\<lambda>nodeIps.
     go_bind (GeneratePids nodeIps (fl_base_port fl) (n + 1)) (\<lambda>pids.
       ac_InitActor sk (of_int n) pids (\<lambda>c. Inr (ms_Start n c)) (fl_retransmission_timeout_ns fl) (fl_message_delay fl)))"

section \<open>The contract of the protocols\<close>

definition pr_value :: "protocol_Process \<Rightarrow> BroadcastInstance \<Rightarrow> int32 option" where
  "pr_value pr = (case pr of
     ReliableProcess p \<Rightarrow> (\<lambda>b. map_option Value (lookup2 (re_deliveredMessages p) (Author b) (SeqNumber b)))
   | ConsistentProcess p \<Rightarrow> co_value p | BrachaProcess p \<Rightarrow> br_value p | ScalableProcess p \<Rightarrow> sc_value p)"

text \<open>
  The states that honour the contract. The reliable protocol is not among them: a request can
  deliver an instance again (\<open>Reliable_Requests.re_request_redelivers\<close>).
\<close>

definition pr_wf :: "protocol_Process \<Rightarrow> bool" where
  "pr_wf pr = (case pr of ReliableProcess p \<Rightarrow> False | ConsistentProcess p \<Rightarrow> co_wf p
     | BrachaProcess p \<Rightarrow> br_wf p | ScalableProcess p \<Rightarrow> sc_wf p)"

interpretation protocols: broadcast_process "pr_HandleMessage env" "pr_Broadcast env" pr_value pr_wf for env
proof unfold_locales
  fix pr pr' q m es v
  show "pr_wf pr' \<and> delivery_step (pr_value pr) es (pr_value pr')"
    if "pr_wf pr" "pr_HandleMessage env pr q m = Inr (pr', es)"
    using that consistent.handle_ok bracha.handle_ok scalable.handle_ok
    by (cases pr) (fastforce simp: pr_HandleMessage_def pr_value_def pr_wf_def go_simps)+
  show "pr_wf pr' \<and> delivery_step (pr_value pr) es (pr_value pr')"
    if "pr_wf pr" "pr_Broadcast env pr v = Inr (pr', es)"
    using that consistent.broadcast_ok bracha.broadcast_ok scalable.broadcast_ok
    by (cases pr) (fastforce simp: pr_Broadcast_def pr_value_def pr_wf_def go_simps)+
qed

section \<open>A node while its program runs\<close>

text \<open>
  The goroutine that a delivery of the scalable protocol starts: after \<open>cleanUpTimeout\<close> it deletes the
  message state of the instance. The other protocols have none.
\<close>

definition pr_cleanUp :: "protocol_Process \<Rightarrow> BroadcastInstance \<Rightarrow> protocol_Process" where
  "pr_cleanUp pr b = (case pr of ScalableProcess p \<Rightarrow> ScalableProcess (sc_cleanUp p b) | _ \<Rightarrow> pr)"

text \<open>
  The steps of the goroutines of one node, in any order: the receive loop takes a datagram, \<open>simulate\<close>
  makes a request, and a clean-up goroutine wakes up (at any time and for any instance, which allows
  more than the code does).
\<close>

inductive node_run ::
  "(Message \<Rightarrow> byte list option) \<Rightarrow> (byte list \<Rightarrow> Message option) \<Rightarrow> protocol_env \<Rightarrow>
   protocol_Process Node Actor \<Rightarrow> protocol_Process Node Actor \<Rightarrow> bool"
  for marshal unmarshal env a0 where
  start: "node_run marshal unmarshal env a0 a0"
| receive: "node_run marshal unmarshal env a0 a \<Longrightarrow>
    ac_receive unmarshal (nd_ProcessMessage marshal (pr_HandleMessage env) (pr_Broadcast env)) a data = Inr (a', h) \<Longrightarrow>
    node_run marshal unmarshal env a0 a'"
| simulate: "node_run marshal unmarshal env a0 a \<Longrightarrow> nd_turn marshal draw (ac_instance a) nd \<Longrightarrow>
    node_run marshal unmarshal env a0 (a\<lparr>ac_instance := nd\<rparr>)"
| clean_up: "node_run marshal unmarshal env a0 a \<Longrightarrow>
    node_run marshal unmarshal env a0 (a\<lparr>ac_instance := (ac_instance a)\<lparr>nd_process := pr_cleanUp (nd_process (ac_instance a)) b\<rparr>\<rparr>)"

lemma pr_cleanUp_views: "pr_wf (pr_cleanUp pr b) = pr_wf pr" "pr_value (pr_cleanUp pr b) = pr_value pr"
  by (cases pr; simp add: pr_cleanUp_def pr_wf_def pr_value_def sc_cleanUp_views)+

text \<open>The contract of the protocols holds all along.\<close>

lemma node_run_ok:
  "node_run marshal unmarshal env a0 a \<Longrightarrow> protocols.node_ok (ac_instance a0) \<Longrightarrow> protocols.node_ok (ac_instance a)"
proof (induction rule: node_run.induct)
  case (receive a data a' h)
  from receive(2) show ?case
    using receive.IH[OF receive.prems] by (cases rule: ac_receive_cases) (auto intro: protocols.node_ok_step)
next
  case (simulate a draw nd)
  then show ?case by (auto simp: nd_turn_def nd_doBroadcast_def nd_onOwnDelivered_def protocols.node_ok_def split: if_splits)
next
  case (clean_up a b)
  then show ?case by (simp add: protocols.node_ok_def pr_cleanUp_views)
qed

section \<open>Properties\<close>

lemma fresh_process:
  "pr_wf (BrachaProcess (br_InitProcess i pids ps own))" "pr_value (BrachaProcess (br_InitProcess i pids ps own)) = Map.empty"
  "pr_wf (ScalableProcess (sc_InitProcess i pids ps own))" "pr_value (ScalableProcess (sc_InitProcess i pids ps own)) = Map.empty"
  using sc_init_wf[of i pids ps own]
  by (simp_all add: pr_wf_def pr_value_def) (simp_all add: br_InitProcess_def br_wf_def br_value_def sc_InitProcess_def
      sc_value_def Let_def fun_eq_iff)

lemma sim_topology_truncate: "sim_topology (sim_flags.truncate fl) = sim_topology fl"
  by (simp add: sim_topology_def sim_flags.defs)

lemma sint_of_int32: "0 \<le> k \<Longrightarrow> k < 2 ^ 31 \<Longrightarrow> sint (of_int k :: int32) = k"
  by (simp add: signed_of_int signed_take_bit_int_eq_self)

text \<open>
  The addresses of \<open>n\<close> processes and the main server, and the mailboxes that start on them.
\<close>

lemma sim_addresses:
  assumes topo: "nodeIps \<noteq> []" "\<forall>h\<in>set nodeIps. CHR '':'' \<notin> set h" and ports: "0 \<le> basePort" "basePort + n + 1 < 2 ^ 63"
    and n: "0 < n" "n < 2 ^ 31" and sock: "\<And>a. sk_ListenUDP sk a" "\<And>a. sk_SetReadBuffer sk a ReadBufferSize"
  obtains pids udp where "GeneratePids nodeIps basePort (n + 1) = Inr pids" "length pids = nat (n + 1)" "pids \<noteq> []"
    "distinct udp" "length udp = nat (n + 1)"
    "\<And>i delay. 0 \<le> i \<Longrightarrow> i \<le> n \<Longrightarrow> newMailbox sk (of_int i) pids delay =
       Inr \<lparr>mb_id = of_int i, mb_udpAddresses = udp, mb_messageDelay = delay\<rparr>"
proof -
  let ?udp = "map (\<lambda>i. (nodeIps ! (i mod length nodeIps), basePort + int i)) [0..<nat (n + 1)]"
  have port: "basePort + (n + 1) < 2 ^ 63" "0 \<le> n + 1" using ports n by simp_all
  obtain pids where gen: "GeneratePids nodeIps basePort (n + 1) = Inr pids" "length pids = nat (n + 1)"
    using GeneratePids_readable[OF topo ports(1) port] by blast
  have "newMailbox sk (of_int i) pids delay = Inr \<lparr>mb_id = of_int i, mb_udpAddresses = ?udp, mb_messageDelay = delay\<rparr>"
    if "0 \<le> i" "i \<le> n" for i delay
  proof -
    have "sint (of_int i :: int32) = i" using that n by (intro sint_of_int32) simp_all
    then show ?thesis using newMailbox_GeneratePids(2)[OF topo ports(1) port(1) _ _ gen(1) refl, of "of_int i" sk delay] that sock by simp
  qed
  moreover have "distinct ?udp" unfolding distinct_map by (auto simp: inj_on_def)
  moreover have "pids \<noteq> []" using gen(2) n by auto
  ultimately show thesis using that[OF gen] by simp
qed

text \<open>
  C19: The whole simulation of Bracha's or the scalable protocol. Started with the same flags, and
  allowed by the system to listen on their addresses, the main server and the node of every process
  come up and agree on the addresses of all processes, which are pairwise different. Whatever
  datagrams a node then receives, and however the turns of its other goroutines come in between,
  those of \<open>simulate\<close> and those of the scalable protocol which delete the message state of a delivered
  instance, it delivers every broadcast instance at most once and has recorded exactly what it
  delivered.
\<close>

theorem simulation_delivers_once:
  assumes topo: "sim_topology fl = Inr nodeIps" "nodeIps \<noteq> []" "\<forall>h\<in>set nodeIps. CHR '':'' \<notin> set h"
    and ports: "0 \<le> fl_base_port fl" "fl_base_port fl + ProcessCount ps + 1 < 2 ^ 63"
    and idx: "0 \<le> fl_i fl" "fl_i fl < ProcessCount ps" "ProcessCount ps < 2 ^ 31"
    and proto: "proto = ''bracha'' \<or> proto = ''scalable''"
    and sock: "\<And>a. sk_ListenUDP sk a" "\<And>a. sk_SetReadBuffer sk a ReadBufferSize"
  shows "\<exists>a srv. node_main sk marshal env parse files fl (Some \<lparr>in_protocol = proto, in_parameters = ps\<rparr>) = Inr a \<and>
    server_main sk (sim_flags.truncate fl) (ProcessCount ps) = Inr srv \<and>
    mb_udpAddresses (ac_mailbox srv) = mb_udpAddresses (ac_mailbox a) \<and> distinct (mb_udpAddresses (ac_mailbox a)) \<and>
    length (mb_udpAddresses (ac_mailbox a)) = nat (ProcessCount ps + 1) \<and>
    (\<forall>unmarshal a'. node_run marshal unmarshal env a a' \<longrightarrow>
      distinct (map fst (deliveries (nd_effects (ac_instance a')))) \<and>
      pr_value (nd_process (ac_instance a')) = map_of (deliveries (nd_effects (ac_instance a'))))"
proof -
  let ?n = "ProcessCount ps" and ?i = "of_int (fl_i fl) :: int32"
  let ?np = "if proto = ''bracha'' then NewBracha else NewScalable"
  let ?pid = "\<lambda>pids. if proto = ''bracha'' then BrachaProcess (br_InitProcess ?i (take (length pids - 1) pids) ps (fl_stress_test fl))
    else ScalableProcess (sc_InitProcess ?i (take (length pids - 1) pids) ps (fl_stress_test fl))"
  have n: "0 < ?n" and port: "fl_base_port fl + ?n + 1 < 2 ^ 63" using idx ports by simp_all
  obtain pids udp where p: "GeneratePids nodeIps (fl_base_port fl) (?n + 1) = Inr pids" "length pids = nat (?n + 1)"
    and ne: "pids \<noteq> []" and dist: "distinct udp" and udp: "length udp = nat (?n + 1)"
    and mb: "\<And>i delay. 0 \<le> i \<Longrightarrow> i \<le> ?n \<Longrightarrow> newMailbox sk (of_int i) pids delay =
       Inr \<lparr>mb_id = of_int i, mb_udpAddresses = udp, mb_messageDelay = delay\<rparr>"
    using sim_addresses[OF topo(2,3) ports(1) port n idx(3) sock] by blast
  have np: "node_process parse files fl \<lparr>in_protocol = proto, in_parameters = ps\<rparr> = Inr ?np" using proto by (auto simp: node_process_def)
  have init: "pr_InitProcess env ?np ?i (take (length pids - 1) pids) ps (fl_stress_test fl) = Inr (?pid pids)"
    by (simp add: pr_InitProcess_def)
  let ?nd = "\<lparr>nd_processIndex = ?i, nd_pids = pids, nd_parameters = ps, nd_transactionsToSendOut = fl_transactions fl,
    nd_process = ?pid pids, nd_ownDelivered = 0, nd_stressTest = fl_stress_test fl,
    nd_context = cx_post marshal (of_nat (length pids - 1)) StartedContent (NewReliableContext ?i (fl_retransmission_timeout_ns fl)),
    nd_log = [], nd_simulations = 0, nd_effects = []\<rparr>"
  let ?a = "\<lparr>ac_receivedMessages = make_maps (length pids), ac_mailbox = \<lparr>mb_id = ?i, mb_udpAddresses = udp,
    mb_messageDelay = fl_message_delay fl\<rparr>, ac_instance = ?nd, ac_log = []\<rparr>"
  have nd: "nd_Start marshal (pr_InitProcess env ?np) ?i pids ps (fl_transactions fl) (fl_stress_test fl)
      (NewReliableContext ?i (fl_retransmission_timeout_ns fl)) = Inr ?nd"
    unfolding nd_Start_def Let_def init if_not_P[OF ne] go_bind.simps ..
  have "proto \<noteq> ''''" using proto by auto
  then have main: "node_main sk marshal env parse files fl (Some \<lparr>in_protocol = proto, in_parameters = ps\<rparr>) = Inr ?a"
    unfolding node_main_def option.case Input.select_convs ac_InitActor_def topo(1) p(1) np mb[OF idx(1) less_imp_le[OF idx(2)]] nd go_bind.simps by simp
  have "sim_topology (sim_flags.truncate fl) = Inr nodeIps" using topo(1) by (simp only: sim_topology_truncate)
  then obtain srv where srv: "server_main sk (sim_flags.truncate fl) ?n = Inr srv" "mb_udpAddresses (ac_mailbox srv) = udp"
    using p(1) mb[of ?n] n by (simp add: server_main_def ac_InitActor_def sim_flags.defs)
  have wf: "pr_wf (?pid pids)" "pr_value (?pid pids) = Map.empty" using fresh_process by simp_all
  have "distinct (map fst (deliveries (nd_effects (ac_instance a')))) \<and>
      pr_value (nd_process (ac_instance a')) = map_of (deliveries (nd_effects (ac_instance a')))"
    if "node_run marshal unmarshal env ?a a'" for unmarshal a'
  proof -
    have "protocols.node_ok (ac_instance ?a)"
      unfolding protocols.node_ok_def Actor.select_convs Node.select_convs wf(2) using wf(1) by (simp add: delivery_step_none)
    from node_run_ok[OF that this] show ?thesis unfolding protocols.node_ok_def delivery_step_def by simp
  qed
  then show ?thesis using main srv dist udp by (intro exI[of _ ?a] exI[of _ srv]) (simp del: distinct_map)
qed

text \<open>Two processes and the main server on two nodes of a star.\<close>

definition sim_sample :: node_flags where
  "sim_sample = \<lparr>fl_nodes = 2, fl_base_ip = ''10.0.0.1'', fl_base_port = 5001, fl_retransmission_timeout_ns = 6000000000,
     fl_topo = ''star'', fl_number_of_children = 4, fl_message_delay = 0, fl_i = 1, fl_transactions = 5,
     fl_stress_test = False, fl_mixing_time = 2, fl_keys_dir = ''keys''\<rparr>"

theorem simulation_delivers_once_witness:
  "\<forall>env. \<exists>a srv. node_main mb_sample (\<lambda>_. Some []) env (\<lambda>_. None) Map.empty sim_sample (Some \<lparr>in_protocol = ''scalable'', in_parameters = nd_parameters nd_sample\<rparr>) = Inr a \<and>
    server_main mb_sample (sim_flags.truncate sim_sample) 2 = Inr srv \<and> mb_udpAddresses (ac_mailbox srv) = mb_udpAddresses (ac_mailbox a) \<and>
    distinct (mb_udpAddresses (ac_mailbox a)) \<and> length (mb_udpAddresses (ac_mailbox a)) = 3 \<and>
    (\<forall>unmarshal a'. node_run (\<lambda>_. Some []) unmarshal env a a' \<longrightarrow> distinct (map fst (deliveries (nd_effects (ac_instance a')))))"
proof -
  have "GenerateStarTopology 2 ''10.0.0.1'' = Inr [''10.0.0.1'', ''10.0.0.2'']" by code_simp
  then have t: "sim_topology sim_sample = Inr [''10.0.0.1'', ''10.0.0.2'']" by (simp add: sim_topology_def sim_sample_def)
  have c: "ProcessCount (nd_parameters nd_sample) = 2" by (simp add: nd_sample_def)
  have f: "fl_base_port sim_sample = 5001" "fl_i sim_sample = 1" by (simp_all add: sim_sample_def)
  show ?thesis (is "\<forall>env. \<exists>a srv. ?P env a srv")
  proof
    fix env
    show "\<exists>a srv. ?P env a srv"
      using simulation_delivers_once[OF t, of "nd_parameters nd_sample" "''scalable''" mb_sample "\<lambda>_. Some []" env "\<lambda>_. None" Map.empty, unfolded c f]
      by (auto simp: mb_sample_def ReadBufferSize_def)
  qed
qed

end
