(* ===== verification/Simulation_Start.thy ===== *)
theory Simulation_Start
  imports Simulation
begin

text \<open>
  The world of \<open>Simulation_Network\<close> as the two programs start it: every actor fresh, with its own index,
  a new context and a new process of the protocol.
\<close>

section \<open>From the command lines\<close>

text \<open>
  The nodes of the processes \<open>C\<close> and the main server, started with the same flags, apart from the
  index of the process.
\<close>

definition sim_started ::
  "sockets \<Rightarrow> (Message \<Rightarrow> byte list option) \<Rightarrow> protocol_env \<Rightarrow> (byte list \<Rightarrow> (rsa_key \<times> rsa_key) option) \<Rightarrow>
   (string \<rightharpoonup> byte list) \<Rightarrow> node_flags \<Rightarrow> string \<Rightarrow> Parameters \<Rightarrow> int32 set \<Rightarrow> protocol_Process world \<Rightarrow> bool" where
  "sim_started sk marshal env parse files fl proto ps C W \<longleftrightarrow>
     (\<forall>x\<in>C. node_main sk marshal env parse files (fl\<lparr>fl_i := sint x\<rparr>)
        (Some \<lparr>in_protocol = proto, in_parameters = ps\<rparr>) = Inr (wd_nodes W x)) \<and>
     server_main sk (sim_flags.truncate fl) (ProcessCount ps) = Inr (wd_server W)"

text \<open>The processes \<open>0, ..., n - 1\<close>.\<close>

definition members :: "Parameters \<Rightarrow> int32 set" where
  "members ps = set (procs (nat (ProcessCount ps)))"

lemma sim_flags_index [simp]:
  "sim_topology (fl\<lparr>fl_i := k\<rparr>) = sim_topology fl" "fl_base_port (fl\<lparr>fl_i := k\<rparr>) = fl_base_port fl"
  by (simp_all add: sim_topology_def)

lemma server_main_truncate:
  "server_main sk (sim_flags.truncate fl) n = go_bind (sim_topology fl) (\<lambda>ips.
     go_bind (GeneratePids ips (fl_base_port fl) (n + 1)) (\<lambda>pids. ac_InitActor sk (of_int n) pids (\<lambda>c. Inr (ms_Start n c))
       (fl_retransmission_timeout_ns fl) (fl_message_delay fl)))"
proof -
  have "fl_base_port (sim_flags.truncate fl) = fl_base_port fl" "fl_message_delay (sim_flags.truncate fl) = fl_message_delay fl"
    "fl_retransmission_timeout_ns (sim_flags.truncate fl) = fl_retransmission_timeout_ns fl"
    by (simp_all add: sim_flags.defs)
  then show ?thesis by (simp only: server_main_def sim_topology_truncate)
qed

lemma ac_InitActor_fresh:
  assumes "ac_InitActor sk i addresses start timeout delay = Inr a"
  shows "start (NewReliableContext i timeout) = Inr (ac_instance a)" "ac_seen a = {}"
  using assms by (auto simp: ac_InitActor_def ac_seen_def go_simps)

lemma nd_Start_fields:
  assumes "nd_Start marshal init i pids ps transactions stressTest c = Inr nd"
  shows "init i (take (length pids - 1) pids) ps stressTest = Inr (nd_process nd)" "nd_effects nd = []"
    "nd_processIndex nd = i" "nd_context nd = cx_post marshal (of_nat (length pids - 1)) StartedContent c"
  using assms by (auto simp: nd_Start_def Let_def go_simps split: if_splits)

lemma sim_started_fresh:
  assumes start: "sim_started sk marshal env parse files fl proto ps C W" and n: "0 < ProcessCount ps"
  obtains pids init where "length pids = nat (ProcessCount ps)" "wd_fresh marshal C (of_int (ProcessCount ps)) init W"
    "\<And>x. x \<in> C \<Longrightarrow> \<exists>np. node_process parse files (fl\<lparr>fl_i := sint x\<rparr>) \<lparr>in_protocol = proto, in_parameters = ps\<rparr> = Inr np \<and>
       pr_InitProcess env np x pids ps (fl_stress_test fl) = Inr (init x)"
proof -
  obtain ips pids where ips: "sim_topology fl = Inr ips" and pids: "GeneratePids ips (fl_base_port fl) (ProcessCount ps + 1) = Inr pids"
    using start by (auto simp: sim_started_def server_main_truncate go_simps)
  let ?pids = "take (length pids - 1) pids"
  have len: "length pids = nat (ProcessCount ps + 1)" using pids by (auto simp: GeneratePids_def split: if_splits)
  then have len': "length ?pids = nat (ProcessCount ps)" using n by simp
  have server: "(of_nat (length pids - 1) :: int32) = of_int (ProcessCount ps)" using len n by simp
  have node: "(\<exists>np. node_process parse files (fl\<lparr>fl_i := sint x\<rparr>) \<lparr>in_protocol = proto, in_parameters = ps\<rparr> = Inr np \<and>
       pr_InitProcess env np x ?pids ps (fl_stress_test fl) = Inr (nd_process (wd_node W x))) \<and>
      nd_effects (wd_node W x) = [] \<and> nd_processIndex (wd_node W x) = x \<and> ac_seen (wd_nodes W x) = {} \<and>
      (\<exists>t. cx_extends marshal [(of_int (ProcessCount ps), StartedContent)] (NewReliableContext x t) (nd_context (wd_node W x)))"
    if x: "x \<in> C" for x
  proof -
    have "node_main sk marshal env parse files (fl\<lparr>fl_i := sint x\<rparr>) (Some \<lparr>in_protocol = proto, in_parameters = ps\<rparr>) = Inr (wd_nodes W x)"
      using start x by (simp add: sim_started_def)
    then obtain np where np: "node_process parse files (fl\<lparr>fl_i := sint x\<rparr>) \<lparr>in_protocol = proto, in_parameters = ps\<rparr> = Inr np"
      and a: "ac_InitActor sk x pids (nd_Start marshal (pr_InitProcess env np) x pids ps (fl_transactions fl) (fl_stress_test fl))
        (fl_retransmission_timeout_ns fl) (fl_message_delay fl) = Inr (wd_nodes W x)"
      using ips pids by (auto simp: node_main_def go_simps split: if_splits)
    note nd = nd_Start_fields[OF ac_InitActor_fresh(1)[OF a]]
    have "cx_extends marshal [(of_int (ProcessCount ps), StartedContent)]
        (NewReliableContext x (fl_retransmission_timeout_ns fl)) (nd_context (wd_node W x))"
      unfolding nd(4) server by (rule cx_post_extends)
    then show ?thesis using np nd(1-3) ac_InitActor_fresh(2)[OF a] by blast
  qed
  have "ac_InitActor sk (of_int (ProcessCount ps)) pids (\<lambda>c. Inr (ms_Start (ProcessCount ps) c))
      (fl_retransmission_timeout_ns fl) (fl_message_delay fl) = Inr (wd_server W)"
    using start ips pids by (simp add: sim_started_def server_main_truncate)
  from ac_InitActor_fresh(1)[OF this] have "ac_instance (wd_server W) =
      ms_Start (ProcessCount ps) (NewReliableContext (of_int (ProcessCount ps)) (fl_retransmission_timeout_ns fl))" by simp
  then have "ms_context (ac_instance (wd_server W)) =
      NewReliableContext (of_int (ProcessCount ps)) (fl_retransmission_timeout_ns fl)" by (simp add: ms_Start_def)
  then have "\<exists>t. cx_extends marshal [] (NewReliableContext (of_int (ProcessCount ps)) t) (ms_context (ac_instance (wd_server W)))"
    using cx_extends_refl by metis
  then have "wd_fresh marshal C (of_int (ProcessCount ps)) (\<lambda>x. nd_process (wd_node W x)) W" using node by (simp add: wd_fresh_def)
  then show thesis using that[OF len'] node by blast
qed

lemma members_server: "0 < ProcessCount ps \<Longrightarrow> ProcessCount ps < 2 ^ 31 \<Longrightarrow> of_int (ProcessCount ps) \<notin> members ps"
proof
  assume n: "0 < ProcessCount ps" "ProcessCount ps < 2 ^ 31" and "(of_int (ProcessCount ps) :: int32) \<in> members ps"
  then obtain i where i: "i < nat (ProcessCount ps)" "(of_int (ProcessCount ps) :: int32) = of_nat i"
    by (auto simp: members_def procs_def)
  then have "(of_int (int i) :: int32) = of_int (ProcessCount ps)" by simp
  then have "int i = ProcessCount ps" using sint_of_int32[of "int i"] sint_of_int32[of "ProcessCount ps"] i(1) n by simp
  then show False using i(1) by simp
qed

end
