(* ===== verification/Bracha_Simulation.thy ===== *)
theory Bracha_Simulation
  imports Simulation_Start
begin

text \<open>
  The whole simulation of Bracha's protocol, from the command lines to the datagrams. The actors
  refine the system of processes (\<open>Simulation_Network\<close>), and this one the model in which the
  guarantees of the protocol are proved (\<open>Bracha_Network\<close>); so the guarantees hold of what the nodes log.
\<close>

section \<open>The protocol inside the nodes\<close>

definition br_small :: "BroadcastInstanceMessage \<Rightarrow> bool" where
  "br_small bm \<longleftrightarrow> (\<exists>b st v. bm = br_msg b st v)"

definition pr_bracha :: "protocol_Process \<Rightarrow> bool" where
  "pr_bracha pr \<longleftrightarrow> (\<exists>p. pr = BrachaProcess p \<and> br_wf p)"

lemma br_to_all_small: "(to, bm) \<in> set (br_to_all p (br_msg b st v)) \<Longrightarrow> br_small bm"
  by (auto simp: br_to_all_def br_small_def)

lemma br_implements_small: "br_implements p b v r p' es \<Longrightarrow> (to, bm) \<in> set (sends es) \<Longrightarrow> br_small bm"
  by (auto simp: br_implements_def split: prod.splits if_splits dest: br_to_all_small)

lemma pr_bracha_handle:
  "pr_HandleMessage env (BrachaProcess p) q m = Inr (pr', es) \<longleftrightarrow>
     (\<exists>p'. pr' = BrachaProcess p' \<and> br_HandleMessage p q m = Inr (p', es))"
  by (auto simp: pr_HandleMessage_def go_simps)

lemma pr_bracha_broadcast:
  "pr_Broadcast env (BrachaProcess p) v = Inr (pr', es) \<longleftrightarrow>
     (\<exists>p'. pr' = BrachaProcess p' \<and> br_Broadcast p v = Inr (p', es))"
  by (auto simp: pr_Broadcast_def go_simps)

interpretation bracha_sim: simulated_protocol "pr_HandleMessage env" "pr_Broadcast env" br_small pr_bracha for env
proof unfold_locales
  fix pr pr' q m es v
  assume "pr_bracha pr"
  then obtain p where p: "pr = BrachaProcess p" "br_wf p" by (auto simp: pr_bracha_def)
  show "pr_bracha pr' \<and> (\<forall>(to, bm)\<in>set (sends es). br_small bm)" if "pr_HandleMessage env pr q m = Inr (pr', es)"
  proof -
    from that obtain p' where p': "pr' = BrachaProcess p'" "br_HandleMessage p q m = Inr (p', es)"
      unfolding p(1) pr_bracha_handle by blast
    from p(2) p'(2) have "\<forall>(to, bm)\<in>set (sends es). br_small bm"
      by (rule br_handle_cases) (auto dest: br_implements_small)
    then show ?thesis using bracha.handle_ok[OF p(2) p'(2)] p'(1) by (auto simp: pr_bracha_def)
  qed
  show "pr_bracha pr' \<and> (\<forall>(to, bm)\<in>set (sends es). br_small bm)" if "pr_Broadcast env pr v = Inr (pr', es)"
  proof -
    from that obtain p' where p': "pr' = BrachaProcess p'" "br_Broadcast p v = Inr (p', es)"
      unfolding p(1) pr_bracha_broadcast by blast
    then show ?thesis using br_Broadcast_eq[OF p'(2)] p(2) by (auto simp: pr_bracha_def dest: br_to_all_small)
  qed
qed

section \<open>The system of processes is the network of Bracha's protocol\<close>

text \<open>The processes, what the correct ones have sent, and what they have received agree.\<close>

definition br_sys_sim :: "int32 set \<Rightarrow> (int32 \<Rightarrow> protocol_Process sys_node) \<Rightarrow> br_net \<Rightarrow> bool" where
  "br_sys_sim C S s \<longleftrightarrow> (\<forall>x\<in>C. sn_process (S x) = BrachaProcess (br_nodes s x) \<and>
     (\<forall>y m. (x, y, m) \<in> set (br_wire s) \<longleftrightarrow> Send y m \<in> set (sn_effects (S x))) \<and>
     (\<forall>q m. Received q m \<in> set (sn_inputs (S x)) \<longrightarrow> (q, x, m) \<in> set (br_recvd s)))"

lemma br_sys_sim_post:
  assumes "br_sys_sim C S s" "r = (BrachaProcess p', es)" "\<And>q m. i = Received q m \<Longrightarrow> (q, x, m) \<in> set rs"
  shows "br_sys_sim C (S(x := sn_take (S x) i r)) (br_post s x p' es rs)"
  using assms by (auto simp: br_sys_sim_def sn_take_def br_post_def sends_mem)

lemma br_sys_refines:
  assumes "sys_run (pr_HandleMessage env) (pr_Broadcast env) (br_correct pids F) F
      (\<lambda>x. BrachaProcess (br_InitProcess x pids ps own)) S"
  shows "\<exists>s. br_reachable pids ps own F s \<and> br_sys_sim (br_correct pids F) S s"
  using assms
proof (induction rule: sys_run.induct)
  case start
  have "br_sys_sim (br_correct pids F) (\<lambda>x. sn_idle (BrachaProcess (br_InitProcess x pids ps own))) (br_net_init pids ps own)"
    by (simp add: br_sys_sim_def sn_idle_def br_net_init_def)
  then show ?case using br_reachable.start by blast
next
  case (message S x q m r)
  then obtain s where s: "br_reachable pids ps own F s" and sim: "br_sys_sim (br_correct pids F) S s" by blast
  obtain pr' es where r: "r = (pr', es)" by (cases r)
  have proc: "sn_process (S x) = BrachaProcess (br_nodes s x)" using sim message(2) by (simp add: br_sys_sim_def)
  then obtain p' where p': "pr' = BrachaProcess p'" "br_HandleMessage (br_nodes s x) q m = Inr (p', es)"
    using message(4) by (auto simp: r pr_bracha_handle)
  show ?case
  proof (cases "q \<in> F")
    case True
    let ?s = "s\<lparr>br_wire := br_wire s @ [(q, x, m)]\<rparr>"
    have "br_reachable pids ps own F ?s" by (rule br_reachable.step[OF s br_step.fault[OF True]])
    moreover have "br_step pids F ?s (br_post ?s x p' es [(q, x, m)])"
      by (rule br_step.receive[OF message(2)]) (use p'(2) in simp_all)
    moreover have "br_sys_sim (br_correct pids F) S ?s"
      using sim True by (auto simp: br_sys_sim_def br_correct_def)
    then have "br_sys_sim (br_correct pids F) (S(x := sn_take (S x) (Received q m) r)) (br_post ?s x p' es [(q, x, m)])"
      by (rule br_sys_sim_post) (simp_all add: r p'(1))
    ultimately show ?thesis using br_reachable.step by blast
  next
    case False
    then have "(q, x, m) \<in> set (br_wire s)" using message(3) sim by (auto simp: br_sys_sim_def)
    then have "br_step pids F s (br_post s x p' es [(q, x, m)])"
      by (rule br_step.receive[OF message(2)]) (use p'(2) in simp)
    moreover have "br_sys_sim (br_correct pids F) (S(x := sn_take (S x) (Received q m) r)) (br_post s x p' es [(q, x, m)])"
      by (rule br_sys_sim_post[OF sim]) (simp_all add: r p'(1))
    ultimately show ?thesis using br_reachable.step[OF s] by blast
  qed
next
  case (request S x v r)
  then obtain s where s: "br_reachable pids ps own F s" and sim: "br_sys_sim (br_correct pids F) S s" by blast
  obtain pr' es where r: "r = (pr', es)" by (cases r)
  have "sn_process (S x) = BrachaProcess (br_nodes s x)" using sim request(2) by (simp add: br_sys_sim_def)
  then obtain p' where p': "pr' = BrachaProcess p'" "br_Broadcast (br_nodes s x) v = Inr (p', es)"
    using request(3) by (auto simp: r pr_bracha_broadcast)
  have "br_step pids F s (br_post s x p' es [])" by (rule br_step.request[OF request(2) p'(2)])
  moreover have "br_sys_sim (br_correct pids F) (S(x := sn_take (S x) (Request v) r)) (br_post s x p' es [])"
    by (rule br_sys_sim_post[OF sim]) (simp_all add: r p'(1))
  ultimately show ?case using br_reachable.step[OF s] by blast
qed

lemma br_sys_settled:
  assumes "br_sys_sim (br_correct pids F) S s" "sys_settled (br_correct pids F) S"
  shows "br_settled pids F s"
  using assms unfolding br_settled_def br_sys_sim_def sys_settled_def list_all_iff by fast

section \<open>The own transactions of a process\<close>

text \<open>
  \<open>vs\<close> are the values process \<open>x\<close> has been asked to broadcast: the \<open>j\<close>-th one is announced to
  everybody as transaction \<open>j\<close> of \<open>x\<close>, and nothing else is announced.
\<close>

definition br_requested :: "string list \<Rightarrow> int32 \<Rightarrow> br_Process \<Rightarrow> effect list \<Rightarrow> int32 list \<Rightarrow> bool" where
  "br_requested pids x p es vs \<longleftrightarrow> br_wf p \<and> br_processIndex p = x \<and> br_n p = length pids \<and>
     br_transactionCounter p = of_nat (length vs) \<and> length vs \<le> length (sends es) \<and>
     (\<forall>to b v. Send to (br_msg b Bracha_INITIAL v) \<in> set es \<longrightarrow>
        (\<exists>j<length vs. b = \<lparr>Author = x, SeqNumber = of_nat j\<rparr> \<and> v = vs ! j)) \<and>
     (\<forall>b. Log (OnTransactionInit b) \<in> set es \<longrightarrow> (\<exists>j<length vs. b = \<lparr>Author = x, SeqNumber = of_nat j\<rparr> \<and>
        (\<forall>to\<in>set (procs (length pids)). Send to (br_msg b Bracha_INITIAL (vs ! j)) \<in> set es)))"

lemma br_broadcast_logs: "Log e \<notin> set (br_broadcast p b m)"
  by (auto simp: br_broadcast_def br_sendProtocolMessage_def)

lemma br_advance_logs: "br_advance p b v ms = (ms', es) \<Longrightarrow> Log e \<notin> set es"
  by (auto simp: br_advance_def br_broadcastEcho_def br_broadcastReady_def Let_def br_broadcast_logs split: if_splits)

lemma br_deliver_logs: "br_deliver p b v = Inr (p', es) \<Longrightarrow> Log (OnTransactionInit c) \<notin> set es"
  by (auto simp: br_deliver_def go_simps split: option.splits if_splits)

lemma br_stage_logs:
  "br_onInitial p b v ms = Inr (p', es) \<Longrightarrow> Log (OnTransactionInit c) \<notin> set es"
  "br_onEcho p q b v ms = Inr (p', es) \<Longrightarrow> Log (OnTransactionInit c) \<notin> set es"
  "br_onReady p q b v ms = Inr (p', es) \<Longrightarrow> Log (OnTransactionInit c) \<notin> set es"
  by (auto simp: br_onInitial_def br_onEcho_def br_onReady_def br_broadcastEcho_def br_broadcast_logs Let_def go_simps
      split: prod.splits if_splits dest: br_advance_logs br_deliver_logs)

lemma br_handle_logs:
  assumes "br_HandleMessage p q bm = Inr (p', es)"
  shows "Log (OnTransactionInit c) \<notin> set es"
proof -
  obtain b st v where bm: "bm = br_msg b st v" using br_HandleMessage_only_bracha[OF assms] by blast
  show ?thesis
  proof (cases "br_value p b")
    case (Some w)
    then show ?thesis using assms by (auto simp: bm br_HandleMessage_msg br_process_delivered split: if_splits)
  next
    case None
    then obtain p1 ms where "(case st of Bracha_INITIAL \<Rightarrow> br_onInitial p1 b v ms | Bracha_ECHO \<Rightarrow> br_onEcho p1 q b v ms
        | Bracha_READY \<Rightarrow> br_onReady p1 q b v ms | Bracha_OTHER k \<Rightarrow> Inr (br_store p1 b ms, [])) = Inr (p', es)"
      using assms unfolding bm br_HandleMessage_msg br_processProtocolMessage_def br_delivered_def br_value_def
      by (auto simp: Let_def elim: go_bindE)
    then show ?thesis by (cases st) (auto dest: br_stage_logs)
  qed
qed

lemma br_requested_handle:
  assumes req: "br_requested pids x p es vs" and h: "br_HandleMessage p q m = Inr (p', es')"
  shows "br_requested pids x p' (es @ es') vs"
proof -
  have wf: "br_wf p" using req by (simp add: br_requested_def)
  from wf h have "br_wf p' \<and> br_config p' = br_config p \<and> br_transactionCounter p' = br_transactionCounter p \<and>
      (\<forall>to b v. Send to (br_msg b Bracha_INITIAL v) \<notin> set es')"
  proof (cases rule: br_handle_cases)
    case (delivered b st v w)
    then show ?thesis using wf by (simp add: sends_mem[symmetric])
  next
    case (react b st v)
    then show ?thesis by (auto simp: br_implements_def sends_mem[symmetric] br_to_all_def split: prod.splits if_splits)
  qed
  then show ?thesis using req br_handle_logs[OF h] by (auto simp: br_requested_def br_config_def)
qed

lemma br_requested_broadcast:
  assumes req: "br_requested pids x p es vs" and b: "br_Broadcast p v = Inr (p', es')" and n: "pids \<noteq> []"
  shows "br_requested pids x p' (es @ es') (vs @ [v])"
proof -
  let ?b = "\<lparr>Author = x, SeqNumber = of_nat (length vs)\<rparr>"
  have p: "br_wf p" "br_processIndex p = x" "br_n p = length pids" "br_transactionCounter p = of_nat (length vs)"
    using req by (simp_all add: br_requested_def)
  have p': "p' = p\<lparr>br_transactionCounter := br_transactionCounter p + 1\<rparr>"
    and es': "es' = br_broadcast p ?b \<lparr>BrachaStage = Bracha_INITIAL, BrachaValue = v\<rparr> @ [Log (OnTransactionInit ?b)]"
    using b p by (simp_all add: br_Broadcast_def Let_def)
  have sends: "sends es' = map (\<lambda>y. (y, br_msg ?b Bracha_INITIAL v)) (procs (length pids))"
    by (simp add: es' br_to_all_def p(3))
  have sent: "Send to (br_msg c Bracha_INITIAL w) \<in> set es' \<longleftrightarrow> to \<in> set (procs (length pids)) \<and> c = ?b \<and> w = v" for to c w
    unfolding sends_mem[symmetric] sends by auto
  have logged: "Log (OnTransactionInit c) \<in> set es' \<longleftrightarrow> c = ?b" for c by (simp add: es' br_broadcast_logs)
  have "length vs < length (sends (es @ es'))" using req n by (cases pids) (auto simp: br_requested_def sends)
  moreover have "br_wf p'" "br_transactionCounter p' = of_nat (length (vs @ [v]))" using p by (simp_all add: p' br_wf_def)
  moreover have "\<exists>j<length (vs @ [v]). c = \<lparr>Author = x, SeqNumber = of_nat j\<rparr> \<and> w = (vs @ [v]) ! j"
    if "Send to (br_msg c Bracha_INITIAL w) \<in> set (es @ es')" for to c w
    using that req sent by (auto simp: br_requested_def nth_append less_Suc_eq) blast+
  moreover have "\<exists>j<length (vs @ [v]). c = \<lparr>Author = x, SeqNumber = of_nat j\<rparr> \<and>
      (\<forall>to\<in>set (procs (length pids)). Send to (br_msg c Bracha_INITIAL ((vs @ [v]) ! j)) \<in> set (es @ es'))"
    if "Log (OnTransactionInit c) \<in> set (es @ es')" for c
    using that req sent logged by (auto simp: br_requested_def nth_append less_Suc_eq)
  ultimately show ?thesis using p by (simp add: br_requested_def p')
qed

lemma br_sys_requested:
  assumes "sys_run (pr_HandleMessage env) (pr_Broadcast env) C F (\<lambda>x. BrachaProcess (br_InitProcess x pids ps own)) S"
    and "pids \<noteq> []" "x \<in> C"
  shows "\<exists>p vs. sn_process (S x) = BrachaProcess p \<and> br_requested pids x p (sn_effects (S x)) vs"
  using assms
proof (induction arbitrary: x rule: sys_run.induct)
  case start
  then show ?case by (auto simp: sn_idle_def br_requested_def br_InitProcess_def br_wf_def Let_def)
next
  case (message S z q m r)
  obtain p vs where p: "sn_process (S z) = BrachaProcess p" "br_requested pids z p (sn_effects (S z)) vs"
    using message.IH[OF message.prems(1) message(2)] by blast
  obtain pr' es where r: "r = (pr', es)" by (cases r)
  obtain p' where p': "pr' = BrachaProcess p'" "br_HandleMessage p q m = Inr (p', es)"
    using message(4) by (auto simp: r p(1) pr_bracha_handle)
  show ?case using br_requested_handle[OF p(2) p'(2)] message.IH[OF message.prems] p'(1) by (auto simp: sn_take_def r)
next
  case (request S z v r)
  obtain p vs where p: "sn_process (S z) = BrachaProcess p" "br_requested pids z p (sn_effects (S z)) vs"
    using request.IH[OF request.prems(1) request(2)] by blast
  obtain pr' es where r: "r = (pr', es)" by (cases r)
  obtain p' where p': "pr' = BrachaProcess p'" "br_Broadcast p v = Inr (p', es)"
    using request(3) by (auto simp: r p(1) pr_bracha_broadcast)
  show ?case using br_requested_broadcast[OF p(2) p'(2) request.prems(1)] request.IH[OF request.prems] p'(1)
    by (auto simp: sn_take_def r)
qed

section \<open>Down to the network of Bracha's protocol\<close>

lemma br_started_fresh:
  assumes start: "sim_started sk marshal env parse files fl ''bracha'' ps C W" and n: "0 < ProcessCount ps"
  shows "\<exists>pids. length pids = nat (ProcessCount ps) \<and>
    wd_fresh marshal C (of_int (ProcessCount ps)) (\<lambda>x. BrachaProcess (br_InitProcess x pids ps (fl_stress_test fl))) W"
proof -
  obtain pids init where len: "length pids = nat (ProcessCount ps)" and W: "wd_fresh marshal C (of_int (ProcessCount ps)) init W"
    and init: "\<And>x. x \<in> C \<Longrightarrow> \<exists>np. node_process parse files (fl\<lparr>fl_i := sint x\<rparr>) \<lparr>in_protocol = ''bracha'', in_parameters = ps\<rparr> = Inr np \<and>
       pr_InitProcess env np x pids ps (fl_stress_test fl) = Inr (init x)"
    by (rule sim_started_fresh[OF start n]) (rule that)
  have "init x = BrachaProcess (br_InitProcess x pids ps (fl_stress_test fl))" if "x \<in> C" for x
    using init[OF that] by (auto simp: node_process_def pr_InitProcess_def)
  then have "wd_fresh marshal C (of_int (ProcessCount ps)) (\<lambda>x. BrachaProcess (br_InitProcess x pids ps (fl_stress_test fl))) W"
    using W by (simp add: wd_fresh_def)
  then show ?thesis using len by blast
qed

text \<open>A run of the simulation is a run of the network of Bracha's protocol, with the same deliveries.\<close>

lemma br_simulation_refines:
  assumes start: "sim_started sk marshal env parse files fl ''bracha'' ps (members ps - F) W0" and n: "0 < ProcessCount ps" "ProcessCount ps < 2 ^ 31"
    and codec: "wd_codec marshal unmarshal br_small"
    and run: "wd_run marshal unmarshal (pr_HandleMessage env) (pr_Broadcast env) (members ps - F) F W0 W"
  obtains pids S P s where "length pids = nat (ProcessCount ps)" "br_correct pids F = members ps - F"
    "sys_run (pr_HandleMessage env) (pr_Broadcast env) (br_correct pids F) F
       (\<lambda>x. BrachaProcess (br_InitProcess x pids ps (fl_stress_test fl))) S"
    "wd_sim marshal (br_correct pids F) (of_int (ProcessCount ps)) W S P"
    "br_reachable pids ps (fl_stress_test fl) F s" "br_sys_sim (br_correct pids F) S s"
    "\<forall>x\<in>br_correct pids F. \<forall>b v. (b, v) \<in> set (deliveries (nd_effects (wd_node W x))) \<longleftrightarrow> br_at s x b = Some v"
proof -
  obtain pids where len: "length pids = nat (ProcessCount ps)" and fresh: "wd_fresh marshal (members ps - F)
      (of_int (ProcessCount ps)) (\<lambda>x. BrachaProcess (br_InitProcess x pids ps (fl_stress_test fl))) W0"
    using br_started_fresh[OF start n(1)] by blast
  have C: "br_correct pids F = members ps - F" by (simp add: br_correct_def members_def len)
  have init: "pr_bracha (BrachaProcess (br_InitProcess x pids ps (fl_stress_test fl)))" for x
    using fresh_process(1) by (simp add: pr_bracha_def pr_wf_def)
  obtain S P where S: "sys_run (pr_HandleMessage env) (pr_Broadcast env) (br_correct pids F) F
      (\<lambda>x. BrachaProcess (br_InitProcess x pids ps (fl_stress_test fl))) S"
    and sim: "wd_sim marshal (br_correct pids F) (of_int (ProcessCount ps)) W S P"
    using bracha_sim.wd_refines[OF fresh codec init _ _ run] members_server[OF n] unfolding C by blast
  obtain s where s: "br_reachable pids ps (fl_stress_test fl) F s" and net: "br_sys_sim (br_correct pids F) S s"
    using br_sys_refines[OF S] by blast
  have "(b, v) \<in> set (deliveries (nd_effects (wd_node W x))) \<longleftrightarrow> br_at s x b = Some v" if x: "x \<in> br_correct pids F" for x b v
  proof -
    have "nd_effects (wd_node W x) = sn_effects (S x)" using sim x by (simp add: wd_sim_def wd_node_sim_def)
    moreover have "pr_value (sn_process (S x)) b = br_at s x b" using net x by (simp add: br_sys_sim_def pr_value_def)
    ultimately show ?thesis using protocols.sys_run_delivered[OF S _ x] fresh_process(1,2) by simp
  qed
  then show ?thesis using that[OF len C S sim s net] by blast
qed

section \<open>The transactions of a correct process\<close>

text \<open>No process can be asked more often than its stamps allow, so it announces one value per transaction.\<close>

lemma br_requested_unique:
  assumes "length vs \<le> 2 ^ 32" "br_requested pids x p es vs" "j < length vs"
    and "Send to (br_msg \<lparr>Author = x, SeqNumber = of_nat j\<rparr> Bracha_INITIAL w) \<in> set es"
  shows "w = vs ! j"
proof -
  obtain i where i: "i < length vs" "w = vs ! i"
    and "\<lparr>Author = x, SeqNumber = of_nat j :: int32\<rparr> = \<lparr>Author = x, SeqNumber = of_nat i\<rparr>"
    using assms(2,4) unfolding br_requested_def by blast
  then have eq: "(of_nat i :: int32) = of_nat j" by simp
  have "distinct (procs (length vs))" by (rule distinct_procs[OF assms(1)])
  then have "i = j" using i(1) eq assms(3) by (auto simp: procs_def distinct_map inj_on_def)
  then show ?thesis using i(2) by simp
qed

lemma br_simulation_requested:
  assumes S: "sys_run (pr_HandleMessage env) (pr_Broadcast env) C F (\<lambda>x. BrachaProcess (br_InitProcess x pids ps own)) S"
    and sim: "wd_sim marshal C n W S P" and net: "br_sys_sim C S s" and ne: "pids \<noteq> []"
    and loss: "wd_lossless marshal br_small C W" and z: "z \<in> C"
  shows "\<exists>vs. length vs \<le> 2 ^ 32 \<and> br_requested pids z (br_nodes s z) (sn_effects (S z)) vs"
proof -
  have init: "pr_bracha (BrachaProcess (br_InitProcess x pids ps own))" for x
    using fresh_process(1) by (simp add: pr_bracha_def pr_wf_def)
  obtain vs where vs: "br_requested pids z (br_nodes s z) (sn_effects (S z)) vs"
    using br_sys_requested[OF S ne z] net z by (auto simp: br_sys_sim_def)
  have "length (sends (sn_effects (S z))) \<le> length (P z)" using sim z by (simp add: wd_sim_def wd_node_sim_def)
  then show ?thesis using vs bracha_sim.wd_lossless_sent(2)[OF sim S init loss z]
    by (auto simp: br_requested_def intro!: exI[of _ vs])
qed

text \<open>
  Without faulty processes an INITIAL message for a transaction of \<open>x\<close> comes from \<open>x\<close>, and a
  transaction that \<open>x\<close> has logged has been announced to everybody.
\<close>

lemma br_logged_initial:
  assumes net: "br_sys_sim C S s" and inv: "br_inv pids ps own {} s" and C: "C = br_correct pids {}"
    and own: "\<And>z. z \<in> C \<Longrightarrow> \<exists>vs. length vs \<le> 2 ^ 32 \<and> br_requested pids z (br_nodes s z) (sn_effects (S z)) vs"
    and x: "x \<in> C" "Log (OnTransactionInit b) \<in> set (sn_effects (S x))"
  shows "Author b = x \<and> (\<exists>v. br_said (set (br_wire s)) x b Bracha_INITIAL v \<and>
    (\<forall>q w. br_said (set (br_wire s)) q b Bracha_INITIAL w \<longrightarrow> w = v))"
proof -
  obtain vs where vs: "length vs \<le> 2 ^ 32" "br_requested pids x (br_nodes s x) (sn_effects (S x)) vs" using own[OF x(1)] by blast
  then obtain j where j: "j < length vs" "b = \<lparr>Author = x, SeqNumber = of_nat j\<rparr>"
    and sent: "\<forall>to\<in>set (procs (length pids)). Send to (br_msg b Bracha_INITIAL (vs ! j)) \<in> set (sn_effects (S x))"
    using x(2) unfolding br_requested_def by blast
  have first: "br_said (set (br_wire s)) x b Bracha_INITIAL (vs ! j)"
    using sent x(1) net C by (auto simp: br_said_def br_sys_sim_def br_correct_def)
  have "w = vs ! j" if "br_said (set (br_wire s)) q b Bracha_INITIAL w" for q w
  proof -
    from that obtain to where to: "(q, to, br_msg b Bracha_INITIAL w) \<in> set (br_wire s)" unfolding br_said_def by blast
    then have "q \<in> set (procs (length pids))" using inv unfolding br_inv_def br_wire_ok_def by blast
    then have q: "q \<in> C" by (simp add: br_correct_def C)
    then have s: "Send to (br_msg b Bracha_INITIAL w) \<in> set (sn_effects (S q))" using to net unfolding br_sys_sim_def by blast
    obtain us k where "b = \<lparr>Author = q, SeqNumber = of_nat k :: int32\<rparr>" using own[OF q] s unfolding br_requested_def by blast
    then have "q = x" using j(2) by simp
    then show ?thesis using br_requested_unique[OF vs j(1)] s j(2) by blast
  qed
  then show ?thesis using first j(2) by auto
qed

end
