(* ===== verification/Simulation_Sample.thy ===== *)
theory Simulation_Sample
  imports Bracha_Simulation
begin

text \<open>
  What closed runs of the simulation need. First a wire format for the parameters \<open>marshal\<close> and
  \<open>unmarshal\<close>: a message is a sequence of 32-bit words, little endian. It covers the messages of
  Bracha's protocol and those between the nodes and the main server. (The program uses protobuf.)
  Then the world as the command lines of \<open>sim_sample\<close> start it, in a form that can be evaluated.
\<close>

section \<open>Words\<close>

fun stage_words :: "BrachaProtocolMessage_Stage \<Rightarrow> int32 list" where
  "stage_words Bracha_INITIAL = [0]"
| "stage_words Bracha_ECHO = [1]"
| "stage_words Bracha_READY = [2]"
| "stage_words (Bracha_OTHER k) = [3, k]"

definition words_stage :: "int32 list \<Rightarrow> BrachaProtocolMessage_Stage option" where
  "words_stage ws = (case ws of
     [k] \<Rightarrow> if k = 0 then Some Bracha_INITIAL else if k = 1 then Some Bracha_ECHO
       else if k = 2 then Some Bracha_READY else None
   | [k, l] \<Rightarrow> Some (Bracha_OTHER l)
   | _ \<Rightarrow> None)"

definition content_words :: "Message_Content \<Rightarrow> int32 list option" where
  "content_words c = (case c of
     UnsetContent \<Rightarrow> Some [0]
   | StartedContent \<Rightarrow> Some [1]
   | SimulateContent \<Rightarrow> Some [2]
   | AckContent a \<Rightarrow> Some [3, AckSender a, AckStamp a]
   | BroadcastContent bc \<Rightarrow> Some [4, Value bc, XHash bc]
   | BroadcastInstanceContent bm \<Rightarrow> (case (BroadcastInstance_of bm, Message_of bm) of
        (Some b, BrachaMessage m) \<Rightarrow> Some ([5, Author b, SeqNumber b, BrachaValue m] @ stage_words (BrachaStage m))
      | _ \<Rightarrow> None))"

definition words_content :: "int32 list \<Rightarrow> Message_Content option" where
  "words_content ws = (case ws of
     k # a # b # v # st \<Rightarrow> map_option (\<lambda>s. BroadcastInstanceContent (br_msg \<lparr>Author = a, SeqNumber = b\<rparr> s v)) (words_stage st)
   | [k, a, b] \<Rightarrow> if k = 3 then Some (AckContent \<lparr>AckSender = a, AckStamp = b\<rparr>)
       else Some (BroadcastContent \<lparr>Value = a, XHash = b\<rparr>)
   | [k] \<Rightarrow> if k = 0 then Some UnsetContent else if k = 1 then Some StartedContent
       else if k = 2 then Some SimulateContent else None
   | _ \<Rightarrow> None)"

lemma words_stage_words: "words_stage (stage_words st) = Some st"
  by (cases st) (simp_all add: words_stage_def)

lemma words_content_words:
  "content_words c = Some ws \<Longrightarrow> words_content ws = Some c"
  by (auto simp: content_words_def words_content_def words_stage_words br_msg_def
      split: Message_Content.splits option.splits BroadcastInstanceMessage_Message.splits)

section \<open>Bytes\<close>

fun bytes_words :: "byte list \<Rightarrow> int32 list option" where
  "bytes_words [] = Some []"
| "bytes_words (a # b # c # d # r) = (case (ToInt32 [a, b, c, d], bytes_words r) of
     (Inr w, Some ws) \<Rightarrow> Some (w # ws) | _ \<Rightarrow> None)"
| "bytes_words _ = None"

definition words_bytes :: "int32 list \<Rightarrow> byte list" where
  "words_bytes ws = concat (map Int32ToBytes ws)"

definition sample_marshal :: "Message \<Rightarrow> byte list option" where
  "sample_marshal m = map_option (\<lambda>ws. words_bytes ([Sender m, Stamp m, RetransmissionStamp m] @ ws)) (content_words (Content m))"

definition sample_unmarshal :: "byte list \<Rightarrow> Message option" where
  "sample_unmarshal d = (case bytes_words d of
     Some (s # k # r # ws) \<Rightarrow>
       map_option (\<lambda>c. \<lparr>Sender = s, Stamp = k, RetransmissionStamp = r, Content = c\<rparr>) (words_content ws)
   | _ \<Rightarrow> None)"

lemma bytes_words_step: "bytes_words (Int32ToBytes w @ d) = map_option (\<lambda>ws. w # ws) (bytes_words d)"
proof -
  obtain a b c e where "Int32ToBytes w = [a, b, c, e]"
    using length_Int32ToBytes[of w] by (auto simp: numeral_eq_Suc length_Suc_conv simp del: length_Int32ToBytes)
  then show ?thesis using Int32ToBytes_roundtrip[of w] by (simp split: option.split)
qed

lemma bytes_words_bytes: "bytes_words (words_bytes ws) = Some ws"
  by (induction ws) (simp_all add: words_bytes_def bytes_words_step)

lemma length_words_bytes: "length (words_bytes ws) = 4 * length ws"
  by (induction ws) (simp_all add: words_bytes_def)

lemma stage_words_length: "length (stage_words st) \<le> 2"
  by (cases st) simp_all

lemma content_words_length: "content_words c = Some ws \<Longrightarrow> length ws \<le> 6"
  using stage_words_length by (auto simp: content_words_def split: Message_Content.splits option.splits BroadcastInstanceMessage_Message.splits)

lemma sample_length:
  assumes "sample_marshal m = Some d"
  shows "length d \<le> BufferSize" "sample_unmarshal d = Some m"
proof -
  obtain ws where ws: "content_words (Content m) = Some ws"
    and d: "d = words_bytes ([Sender m, Stamp m, RetransmissionStamp m] @ ws)"
    using assms by (auto simp: sample_marshal_def)
  show "length d \<le> BufferSize" using content_words_length[OF ws] by (simp add: d length_words_bytes BufferSize_def)
  show "sample_unmarshal d = Some m" by (simp add: sample_unmarshal_def d bytes_words_bytes words_content_words[OF ws])
qed

lemma sample_codec: "wd_codec sample_marshal sample_unmarshal small"
  by (simp add: wd_codec_def sample_length)

lemma sample_total:
  assumes "\<forall>bm. Content m = BroadcastInstanceContent bm \<longrightarrow> br_small bm"
  shows "sample_marshal m \<noteq> None"
  using assms by (auto simp: sample_marshal_def content_words_def br_small_def br_msg_def split: Message_Content.splits)

section \<open>Evaluation\<close>

text \<open>Code equations that do without unary numbers of the size of the buffer or of a transaction.\<close>

lemma nd_doBroadcast_code [code]:
  "nd_doBroadcast marshal draw nd = nd\<lparr>nd_context :=
     cx_post marshal (nd_processIndex nd)
       (BroadcastContent \<lparr>Value = of_int (int draw mod 1000000), XHash = 0\<rparr>) (nd_context nd)\<rparr>"
proof -
  have "(of_nat (draw mod 1000000) :: int32) = of_int (int (draw mod 1000000))" by (simp del: of_nat_mod)
  then show ?thesis by (simp add: nd_doBroadcast_def zmod_int)
qed

definition wd_cut :: "byte list \<Rightarrow> byte list" where
  "wd_cut d = take BufferSize d"

lemma wd_cut_code [code]: "wd_cut d = (if int (length d) \<le> 1024 then d else take 1024 d)"
  by (simp add: wd_cut_def BufferSize_def)

lemma wd_cut_unfold [code_unfold]: "take BufferSize d = wd_cut d"
  by (simp add: wd_cut_def)

section \<open>The world at the start\<close>

text \<open>
  The actors under the flags of \<open>sim_sample\<close>; \<open>np x\<close> is what node \<open>x\<close> makes its process from. What a
  run does depends neither on the addresses \<open>pids\<close> nor on the mailboxes \<open>mb\<close>.
\<close>

definition run_node ::
  "(Message \<Rightarrow> byte list option) \<Rightarrow> protocol_env \<Rightarrow> (int32 \<Rightarrow> new_Process) \<Rightarrow>
   (int32 \<Rightarrow> Mailbox) \<Rightarrow> Parameters \<Rightarrow> string list \<Rightarrow> int32 \<Rightarrow> protocol_Process Node Actor go" where
  "run_node marshal env np mb ps pids i =
     go_bind (nd_Start marshal (pr_InitProcess env (np i)) i pids ps 5 False (NewReliableContext i 6000000000)) (\<lambda>nd.
       Inr \<lparr>ac_receivedMessages = make_maps (length pids), ac_mailbox = mb i, ac_instance = nd, ac_log = []\<rparr>)"

definition run_world ::
  "(Message \<Rightarrow> byte list option) \<Rightarrow> protocol_env \<Rightarrow> (int32 \<Rightarrow> new_Process) \<Rightarrow>
   (int32 \<Rightarrow> Mailbox) \<Rightarrow> Parameters \<Rightarrow> string list \<Rightarrow> protocol_Process world go" where
  "run_world marshal env np mb ps pids = go_bind (go_map (run_node marshal env np mb ps pids) (procs (nat (ProcessCount ps)))) (\<lambda>as.
     Inr \<lparr>wd_nodes = (\<lambda>i. as ! unat i),
       wd_server = \<lparr>ac_receivedMessages = make_maps (length pids), ac_mailbox = mb (of_int (ProcessCount ps)),
         ac_instance = ms_Start (ProcessCount ps) (NewReliableContext (of_int (ProcessCount ps)) 6000000000), ac_log = []\<rparr>\<rparr>)"

lemma run_started:
  assumes n: "0 < ProcessCount ps" "ProcessCount ps < 2 ^ 31" and C: "C \<subseteq> members ps"
    and np: "\<And>x. x \<in> C \<Longrightarrow>
      node_process parse files (sim_sample\<lparr>fl_i := sint x\<rparr>) \<lparr>in_protocol = proto, in_parameters = ps\<rparr> = Inr (np x)"
  obtains mb pids where "length pids = nat (ProcessCount ps + 1)"
    "\<And>W. run_world marshal env np mb ps pids = Inr W \<Longrightarrow>
       sim_started mb_sample marshal env parse files sim_sample proto ps C W"
proof -
  let ?n = "ProcessCount ps" and ?ips = "[''10.0.0.1'', ''10.0.0.2'']"
  have t: "GenerateStarTopology 2 ''10.0.0.1'' = Inr ?ips" by code_simp
  have topo: "sim_topology sim_sample = Inr ?ips" "sim_topology (sim_flags.truncate sim_sample) = Inr ?ips"
    using t by (simp_all add: sim_topology_truncate) (simp_all add: sim_topology_def sim_sample_def)
  have hosts: "?ips \<noteq> []" "\<forall>h\<in>set ?ips. CHR '':'' \<notin> set h" "(0 :: int) \<le> 5001" by simp_all
  have port: "5001 + ?n + 1 < 2 ^ 63" using n by simp
  obtain pids udp where pids: "GeneratePids ?ips 5001 (?n + 1) = Inr pids" "length pids = nat (?n + 1)"
    and mbs: "\<And>i delay. 0 \<le> i \<Longrightarrow> i \<le> ?n \<Longrightarrow> newMailbox mb_sample (of_int i) pids delay =
       Inr \<lparr>mb_id = of_int i, mb_udpAddresses = udp, mb_messageDelay = delay\<rparr>"
    by (rule sim_addresses[OF hosts(1,2,3) port n, of mb_sample]) (auto simp: mb_sample_def ReadBufferSize_def)
  define mb where "mb i = projr (newMailbox mb_sample i pids 0)" for i
  have mb: "newMailbox mb_sample i pids 0 = Inr (mb i)" if "0 \<le> sint i" "sint i \<le> ?n" for i
    using mbs[OF that, of 0] by (simp add: mb_def)
  have flags: "fl_base_port (sim_flags.truncate sim_sample) = 5001" "fl_retransmission_timeout_ns (sim_flags.truncate sim_sample) = 6000000000"
    "fl_message_delay (sim_flags.truncate sim_sample) = 0" by (simp_all add: sim_sample_def sim_flags.defs)
  have "sim_started mb_sample marshal env parse files sim_sample proto ps C W"
    if W: "run_world marshal env np mb ps pids = Inr W" for W
  proof -
    obtain as where as: "go_map (run_node marshal env np mb ps pids) (procs (nat ?n)) = Inr as" "wd_nodes W = (\<lambda>i. as ! unat i)"
      and srv: "wd_server W = \<lparr>ac_receivedMessages = make_maps (length pids), ac_mailbox = mb (of_int ?n),
         ac_instance = ms_Start ?n (NewReliableContext (of_int ?n) 6000000000), ac_log = []\<rparr>"
      using W by (auto simp: run_world_def go_simps)
    have server: "server_main mb_sample (sim_flags.truncate sim_sample) ?n = Inr (wd_server W)"
      using mb[of "of_int ?n"] n by (simp add: server_main_def topo flags pids ac_InitActor_def srv sint_of_int32)
    have "node_main mb_sample marshal env parse files (sim_sample\<lparr>fl_i := sint x\<rparr>)
        (Some \<lparr>in_protocol = proto, in_parameters = ps\<rparr>) = Inr (wd_nodes W x)" if c: "x \<in> C" for x
    proof -
      have x: "x \<in> members ps" using c C by blast
      have "proto \<noteq> ''''" using np[OF c] by (auto simp: node_process_def)
      moreover obtain i where i: "i < nat ?n" "x = of_nat i" using x by (auto simp: members_def procs_def)
      have "int i < 2 ^ 31" using i(1) n by linarith
      then have u: "unat x = i" and s: "sint x = int i"
        using i(2) by (simp_all add: unat_of_nat take_bit_nat_eq_self sint_of_int32[of "int i", simplified])
      have "run_node marshal env np mb ps pids x = Inr (wd_nodes W x)" using go_map_nth[OF as(1), of i] i u by (simp add: as(2) procs_def)
      then have "ac_InitActor mb_sample x pids (nd_Start marshal (pr_InitProcess env (np x)) x pids ps 5 False)
          6000000000 0 = Inr (wd_nodes W x)"
        using mb[of x] s i(1) by (simp add: run_node_def ac_InitActor_def)
      moreover have "fl_base_port sim_sample = 5001" "fl_retransmission_timeout_ns sim_sample = 6000000000" "fl_message_delay sim_sample = 0"
        "fl_transactions sim_sample = 5" "\<not> fl_stress_test sim_sample" by (simp_all add: sim_sample_def)
      ultimately show ?thesis using np[OF c] by (simp add: node_main_def topo pids)
    qed
    then show ?thesis using server by (auto simp: sim_started_def)
  qed
  then show ?thesis by (rule that[OF pids(2)])
qed

section \<open>Runs\<close>

definition run_play where
  "run_play marshal unmarshal env np mb ps pids C F acts = (case run_world marshal env np mb ps pids of
     Inl e \<Rightarrow> None
   | Inr W \<Rightarrow> wd_play marshal unmarshal (pr_HandleMessage env) (pr_Broadcast env) C F acts W)"

lemma run_play_run:
  assumes "run_play marshal unmarshal env np mb ps pids C F acts = Some W"
  obtains W0 where "run_world marshal env np mb ps pids = Inr W0"
    "wd_run marshal unmarshal (pr_HandleMessage env) (pr_Broadcast env) C F W0 W"
proof -
  obtain W0 where W0: "run_world marshal env np mb ps pids = Inr W0"
    "wd_play marshal unmarshal (pr_HandleMessage env) (pr_Broadcast env) C F acts W0 = Some W"
    using assms by (auto simp: run_play_def split: sum.splits)
  from that[OF W0(1) wd_play_run[OF wd_run.start W0(2)]] show thesis .
qed

end
