(* ===== verification/Bracha_Simulation_Theorems.thy ===== *)
theory Bracha_Simulation_Theorems
  imports Simulation_Sample
begin

text \<open>
  What the whole simulation of Bracha's protocol guarantees, from the command lines to the values the
  nodes log: agreement and totality, validity, and the limit of both, the sender field of a
  datagram, which nothing authenticates. The runs that show the hypotheses can hold are
  evaluated.
\<close>

section \<open>Two processes\<close>

definition two_ps :: Parameters where
  "two_ps = nd_parameters nd_sample"

text \<open>Node 0 broadcasts the value 5 and everything sent between the nodes arrives once.\<close>

definition two_actions :: "wd_action list" where
  "two_actions =
    [ToServer 0 0, ToServer 1 0, FromServer 0 0, Turn 0 5, Deliver 0 0 1,
     Deliver 0 0 2, Deliver 0 1 3, Deliver 0 0 4, Deliver 1 0 1, Deliver 0 1 5, Deliver 1 1 2,
     Deliver 0 0 6, Deliver 1 0 3, Deliver 0 1 7, Deliver 1 1 4]"

definition one_tx :: BroadcastInstance where
  "one_tx = \<lparr>Author = 0, SeqNumber = 0\<rparr>"

definition two_checks :: "protocol_Process world \<Rightarrow> bool" where
  "two_checks W \<longleftrightarrow> list_all (\<lambda>x. length (wd_sent W x) \<le> 20 \<and>
     list_all (\<lambda>y. list_all (\<lambda>(to, d). to = x \<longrightarrow> (case sample_unmarshal (take BufferSize d) of None \<Rightarrow> False
         | Some m \<Rightarrow> lookup2 (ac_receivedMessages (wd_nodes W x)) (Sender m) (Stamp m) = Some True)) (wd_sent W y)) [0, 1]) [0, 1] \<and>
   Log (OnTransactionInit one_tx) \<in> set (nd_effects (wd_node W 0)) \<and>
   (one_tx, 5) \<in> set (deliveries (nd_effects (wd_node W 0)))"

lemma two_checked:
  "case run_play sample_marshal sample_unmarshal env (\<lambda>_. NewBracha) mb two_ps [p, q, r] {0, 1} {} two_actions of None \<Rightarrow> False | Some W \<Rightarrow> two_checks W"
  by code_simp

lemma two_members: "members two_ps = {0, 1}"
  by (simp add: members_def two_ps_def nd_sample_def procs_def upt_rec)

lemma two_run:
  obtains W0 W where "sim_started mb_sample sample_marshal env (\<lambda>_. None) Map.empty sim_sample ''bracha'' two_ps (members two_ps) W0"
    "wd_run sample_marshal sample_unmarshal (pr_HandleMessage env) (pr_Broadcast env) (members two_ps) {} W0 W"
    "wd_lossless sample_marshal br_small (members two_ps) W" "wd_settled sample_unmarshal (members two_ps) W"
    "Log (OnTransactionInit one_tx) \<in> set (nd_effects (wd_node W 0))" "(one_tx, 5) \<in> set (deliveries (nd_effects (wd_node W 0)))"
proof -
  have "0 < ProcessCount two_ps" "ProcessCount two_ps < 2 ^ 31" by (simp_all add: two_ps_def nd_sample_def)
  then obtain mb pids where len: "length pids = nat (ProcessCount two_ps + 1)"
    and started: "\<And>W. run_world sample_marshal env (\<lambda>_. NewBracha) mb two_ps pids = Inr W \<Longrightarrow>
      sim_started mb_sample sample_marshal env (\<lambda>_. None) Map.empty sim_sample ''bracha'' two_ps (members two_ps) W" 
    by (rule run_started[where marshal = sample_marshal and env = env and C = "members two_ps" and proto = "''bracha''" and parse = "\<lambda>_. None"
      and files = Map.empty and np = "\<lambda>_. NewBracha"]) (auto simp: node_process_def)
  from len have "length pids = 3" by (simp add: two_ps_def nd_sample_def)
  then obtain p q r where pids: "pids = [p, q, r]" by (auto simp: numeral_3_eq_3 length_Suc_conv)
  obtain W where W: "run_play sample_marshal sample_unmarshal env (\<lambda>_. NewBracha) mb two_ps pids {0, 1} {} two_actions = Some W" and chk: "two_checks W"
    using two_checked[of env mb p q r] pids by (auto split: option.splits)
  obtain W0 where W0: "run_world sample_marshal env (\<lambda>_. NewBracha) mb two_ps pids = Inr W0"
    and run: "wd_run sample_marshal sample_unmarshal (pr_HandleMessage env) (pr_Broadcast env) (members two_ps) {} W0 W"
    by (rule run_play_run[OF W]) (use that two_members in auto)
  have "wd_settled sample_unmarshal (members two_ps) W"
    using chk unfolding wd_settled_def two_members two_checks_def list_all_iff
    by (fastforce simp: ac_seen_def msg_key_def split: option.splits)
  moreover have "wd_lossless sample_marshal br_small (members two_ps) W"
    using chk sample_total by (fastforce simp: wd_lossless_def two_members two_checks_def)
  ultimately show thesis using that[OF started[OF W0] run] chk by (simp add: two_checks_def)
qed

section \<open>Properties\<close>

text \<open>
  C3: Agreement and totality of the whole simulation. The main server and the nodes of the processes
  that are not faulty are started by their command lines, and any datagrams arrive: those the actors
  have written, in any order and any number of times, and any that name a faulty process as the
  sender. With at most \<open>f\<close> faulty processes and \<open>f < 2^52\<close> (the thresholds would wrap for larger \<open>f\<close>),
  two nodes never log different values for a delivered transaction. If \<open>n \<ge> 3f + 1\<close> and everything the nodes have written to each other has arrived, a
  transaction that one node has delivered has been delivered by all of them.
\<close>

theorem bracha_simulation_agreement:
  assumes start: "sim_started sk marshal env parse files fl ''bracha'' ps (members ps - F) W0"
    and n: "0 < ProcessCount ps" "ProcessCount ps < 2 ^ 31"
    and faults: "F \<subseteq> members ps" "int (card F) \<le> FaultyProcesses ps" "FaultyProcesses ps < 2 ^ 52"
    and codec: "wd_codec marshal unmarshal br_small"
    and run: "wd_run marshal unmarshal (pr_HandleMessage env) (pr_Broadcast env) (members ps - F) F W0 W"
    and x: "x \<in> members ps - F" "(b, v) \<in> set (deliveries (nd_effects (wd_node W x)))" and y: "y \<in> members ps - F"
  shows "((b, w) \<in> set (deliveries (nd_effects (wd_node W y))) \<longrightarrow> v = w) \<and>
    (3 * FaultyProcesses ps + 1 \<le> ProcessCount ps \<and> wd_lossless marshal br_small (members ps - F) W \<and>
       wd_settled unmarshal (members ps - F) W \<longrightarrow> (b, v) \<in> set (deliveries (nd_effects (wd_node W y))))"
proof -
  obtain pids S P s where len: "length pids = nat (ProcessCount ps)" and C: "br_correct pids F = members ps - F"
    and S: "sys_run (pr_HandleMessage env) (pr_Broadcast env) (br_correct pids F) F
       (\<lambda>x. BrachaProcess (br_InitProcess x pids ps (fl_stress_test fl))) S"
    and sim: "wd_sim marshal (br_correct pids F) (of_int (ProcessCount ps)) W S P"
    and s: "br_reachable pids ps (fl_stress_test fl) F s" and net: "br_sys_sim (br_correct pids F) S s"
    and log: "\<forall>x\<in>br_correct pids F. \<forall>b v. (b, v) \<in> set (deliveries (nd_effects (wd_node W x))) \<longleftrightarrow> br_at s x b = Some v"
    by (rule br_simulation_refines[OF start n codec run])
  have f: "br_faults_bounded pids ps F" using faults n len by (simp add: br_faults_bounded_def br_sizes_exact_def members_def)
  note inv = br_reachable_inv[OF s f] and x' = x(1)[folded C] and y' = y[folded C]
  have at: "br_at s x b = Some v" using bspec[OF log x'] x(2) by simp
  have "v = w" if "(b, w) \<in> set (deliveries (nd_effects (wd_node W y)))"
    using br_delivered_unique[OF inv f x' at y'] bspec[OF log y'] that by simp
  moreover have "br_at s y b = Some v" if "3 * FaultyProcesses ps + 1 \<le> ProcessCount ps"
    "wd_lossless marshal br_small (members ps - F) W" "wd_settled unmarshal (members ps - F) W"
  proof -
    have "br_enough pids ps" using that(1) n by (simp add: br_enough_def len)
    moreover have "sys_settled (br_correct pids F) S"
      by (rule bracha_sim.wd_settles[OF sim S _ codec that(2,3)[folded C]]) (simp add: pr_bracha_def fresh_process(1)[unfolded pr_wf_def, simplified])
    ultimately show ?thesis using br_totality_inv[OF inv f _ br_sys_settled[OF net] x' at y'] by blast
  qed
  ultimately show ?thesis using bspec[OF log y'] by blast
qed

theorem bracha_simulation_agreement_witness:
  "\<forall>env. \<exists>W0 W. wd_run sample_marshal sample_unmarshal (pr_HandleMessage env) (pr_Broadcast env) (members two_ps) {} W0 W \<and>
    (one_tx, 5) \<in> set (deliveries (nd_effects (wd_node W 0))) \<and> (one_tx, 5) \<in> set (deliveries (nd_effects (wd_node W 1))) \<and>
    (one_tx, 6) \<notin> set (deliveries (nd_effects (wd_node W 1)))"
proof
  fix env
  obtain W0 W where W: "sim_started mb_sample sample_marshal env (\<lambda>_. None) Map.empty sim_sample ''bracha'' two_ps (members two_ps) W0"
    "wd_run sample_marshal sample_unmarshal (pr_HandleMessage env) (pr_Broadcast env) (members two_ps) {} W0 W"
    "wd_lossless sample_marshal br_small (members two_ps) W" "wd_settled sample_unmarshal (members two_ps) W"
    "(one_tx, 5) \<in> set (deliveries (nd_effects (wd_node W 0)))" by (rule two_run)
  have ps: "0 < ProcessCount two_ps" "ProcessCount two_ps < 2 ^ 31" "int (card ({} :: int32 set)) \<le> FaultyProcesses two_ps"
    "FaultyProcesses two_ps < 2 ^ 52"
    "3 * FaultyProcesses two_ps + 1 \<le> ProcessCount two_ps" by (simp_all add: two_ps_def nd_sample_def)
  have res: "((one_tx, w) \<in> set (deliveries (nd_effects (wd_node W 1))) \<longrightarrow> 5 = w) \<and>
      (one_tx, 5) \<in> set (deliveries (nd_effects (wd_node W 1)))" for w
    using bracha_simulation_agreement[of mb_sample sample_marshal env "\<lambda>_. None" Map.empty sim_sample two_ps "{}" W0 sample_unmarshal W
        0 one_tx 5 1 w] W ps sample_codec by (simp add: two_members)
  have six: "(5 :: int32) \<noteq> 6" by simp
  show "\<exists>W0 W. wd_run sample_marshal sample_unmarshal (pr_HandleMessage env) (pr_Broadcast env) (members two_ps) {} W0 W \<and>
    (one_tx, 5) \<in> set (deliveries (nd_effects (wd_node W 0))) \<and> (one_tx, 5) \<in> set (deliveries (nd_effects (wd_node W 1))) \<and>
    (one_tx, 6) \<notin> set (deliveries (nd_effects (wd_node W 1)))" using W(2,5) res[of 6] six by blast
qed

text \<open>
  C4: Validity of the whole simulation without faulty processes. Once everything the nodes have
  written to each other has arrived, every transaction that a node has begun is delivered by every
  node, and by all with the same value.
\<close>

theorem bracha_simulation_validity:
  assumes start: "sim_started sk marshal env parse files fl ''bracha'' ps (members ps) W0"
    and n: "0 < ProcessCount ps" "ProcessCount ps < 2 ^ 31"
    and f: "0 \<le> FaultyProcesses ps" "3 * FaultyProcesses ps + 1 \<le> ProcessCount ps"
    and codec: "wd_codec marshal unmarshal br_small"
    and run: "wd_run marshal unmarshal (pr_HandleMessage env) (pr_Broadcast env) (members ps) {} W0 W"
    and all: "wd_lossless marshal br_small (members ps) W" "wd_settled unmarshal (members ps) W"
    and x: "x \<in> members ps" "Log (OnTransactionInit b) \<in> set (nd_effects (wd_node W x))"
  shows "Author b = x \<and> (\<exists>v. \<forall>y\<in>members ps. (b, v) \<in> set (deliveries (nd_effects (wd_node W y))))"
proof -
  have start': "sim_started sk marshal env parse files fl ''bracha'' ps (members ps - {}) W0"
    and run': "wd_run marshal unmarshal (pr_HandleMessage env) (pr_Broadcast env) (members ps - {}) {} W0 W"
    using start run by simp_all
  obtain pids S P s where len: "length pids = nat (ProcessCount ps)" and C': "br_correct pids {} = members ps - {}"
    and S: "sys_run (pr_HandleMessage env) (pr_Broadcast env) (br_correct pids {}) {}
       (\<lambda>x. BrachaProcess (br_InitProcess x pids ps (fl_stress_test fl))) S"
    and sim: "wd_sim marshal (br_correct pids {}) (of_int (ProcessCount ps)) W S P"
    and s: "br_reachable pids ps (fl_stress_test fl) {} s" and net: "br_sys_sim (br_correct pids {}) S s"
    and log: "\<forall>x\<in>br_correct pids {}. \<forall>b v. (b, v) \<in> set (deliveries (nd_effects (wd_node W x))) \<longleftrightarrow> br_at s x b = Some v"
    by (rule br_simulation_refines[OF start' n codec run'])
  have C: "br_correct pids {} = members ps" using C' by simp
  have fb: "br_faults_bounded pids ps {}" and e: "br_enough pids ps" using f n len by (simp_all add: br_faults_bounded_def br_sizes_exact_def br_enough_def)
  note inv = br_reachable_inv[OF s fb]
  have init: "pr_bracha (BrachaProcess (br_InitProcess z pids ps (fl_stress_test fl)))" for z
    using fresh_process(1) by (simp add: pr_bracha_def pr_wf_def)
  have settled: "br_settled pids {} s"
    by (rule br_sys_settled[OF net bracha_sim.wd_settles[OF sim S init codec all[folded C]]])
  have ne: "pids \<noteq> []" using len n by auto
  have x': "x \<in> br_correct pids {}" using x(1) C by simp
  have "Log (OnTransactionInit b) \<in> set (sn_effects (S x))" using x(2) sim x' by (simp add: wd_sim_def wd_node_sim_def)
  from br_logged_initial[OF net inv refl br_simulation_requested[OF S sim net ne all(1)[folded C]] x' this]
  obtain v where "Author b = x" "br_said (set (br_wire s)) x b Bracha_INITIAL v"
    "\<And>q w. br_said (set (br_wire s)) q b Bracha_INITIAL w \<Longrightarrow> w = v" by blast
  then show ?thesis using br_validity_inv[OF inv fb e settled x'] log unfolding C by blast
qed

theorem bracha_simulation_validity_witness:
  "\<forall>env. \<exists>W0 W. wd_run sample_marshal sample_unmarshal (pr_HandleMessage env) (pr_Broadcast env) (members two_ps) {} W0 W \<and>
    Log (OnTransactionInit one_tx) \<in> set (nd_effects (wd_node W 0)) \<and>
    (\<exists>v. \<forall>y\<in>{0, 1}. (one_tx, v) \<in> set (deliveries (nd_effects (wd_node W y))))"
proof
  fix env
  obtain W0 W where W: "sim_started mb_sample sample_marshal env (\<lambda>_. None) Map.empty sim_sample ''bracha'' two_ps (members two_ps) W0"
    "wd_run sample_marshal sample_unmarshal (pr_HandleMessage env) (pr_Broadcast env) (members two_ps) {} W0 W"
    "wd_lossless sample_marshal br_small (members two_ps) W" "wd_settled sample_unmarshal (members two_ps) W"
    "Log (OnTransactionInit one_tx) \<in> set (nd_effects (wd_node W 0))" by (rule two_run)
  have ps: "0 < ProcessCount two_ps" "ProcessCount two_ps < 2 ^ 31" "0 \<le> FaultyProcesses two_ps"
    "3 * FaultyProcesses two_ps + 1 \<le> ProcessCount two_ps" by (simp_all add: two_ps_def nd_sample_def)
  from bracha_simulation_validity[OF W(1) ps sample_codec W(2-4) _ W(5)]
  show "\<exists>W0 W. wd_run sample_marshal sample_unmarshal (pr_HandleMessage env) (pr_Broadcast env) (members two_ps) {} W0 W \<and>
    Log (OnTransactionInit one_tx) \<in> set (nd_effects (wd_node W 0)) \<and>
    (\<exists>v. \<forall>y\<in>{0, 1}. (one_tx, v) \<in> set (deliveries (nd_effects (wd_node W y))))" using W(2,5) by (auto simp: two_members)
qed

section \<open>Forged senders\<close>

text \<open>A process that has taken READY messages of \<open>v\<close> in the names of \<open>qs\<close>, and nothing else of the instance.\<close>

definition br_flooded :: "br_Process \<Rightarrow> BroadcastInstance \<Rightarrow> int32 \<Rightarrow> ProcessId list \<Rightarrow> bool" where
  "br_flooded p b v qs \<longleftrightarrow> br_wf p \<and> Author b \<in> set (procs (br_n p)) \<and> br_value p b = None \<and>
     (\<forall>q. br_receivedReady (br_entry p b) q \<longleftrightarrow> q \<in> set qs) \<and> br_readyCount (br_entry p b) v = length qs"

lemma br_react_counts_ready:
  assumes "\<not> br_receivedReady ms0 q" "br_react p Bracha_READY q v ms0 = (ms, e, r, d)"
  shows "br_receivedReady ms = (br_receivedReady ms0)(q := True)" "br_readyCount ms v = Suc (br_readyCount ms0 v)"
    "d \<longleftrightarrow> br_messagesForDelivery p \<le> int (br_readyCount ms0 v) + 1"
  using assms by (auto simp: br_react_def Let_def split: if_splits)

lemma br_flooded_step:
  assumes h: "br_flooded p b v qs" and q: "q \<notin> set qs"
  shows "\<exists>p' es. br_HandleMessage p q (br_msg b Bracha_READY v) = Inr (p', es) \<and> br_config p' = br_config p \<and>
    (if br_messagesForDelivery p \<le> int (length qs) + 1 then (b, v) \<in> set (deliveries es) else br_flooded p' b v (qs @ [q]))"
proof -
  let ?ms = "(br_entry p b)\<lparr>br_receivedMessagesCnt := Suc (br_receivedMessagesCnt (br_entry p b))\<rparr>"
  have p: "br_wf p" "Author b \<in> set (procs (br_n p))" "br_value p b = None"
    and heard: "br_receivedReady (br_entry p b) x \<longleftrightarrow> x \<in> set qs" "br_readyCount (br_entry p b) v = length qs" for x
    using h by (simp_all add: br_flooded_def)
  obtain ms e r d where r: "br_react p Bracha_READY q v ?ms = (ms, e, r, d)" by (metis prod_cases4)
  have ms: "br_receivedReady ms = (br_receivedReady (br_entry p b))(q := True)" "br_readyCount ms v = Suc (length qs)"
    "d \<longleftrightarrow> br_messagesForDelivery p \<le> int (length qs) + 1"
    using br_react_counts_ready[OF _ r] heard q by auto
  obtain p' es where step: "br_HandleMessage p q (br_msg b Bracha_READY v) = Inr (p', es)"
    "br_implements p b v (ms, e, r, d) p' es"
    using br_process_ok[OF p, of q Bracha_READY v] unfolding r br_HandleMessage_msg by blast
  show ?thesis
  proof (cases d)
    case True
    then show ?thesis using step ms(3) by (auto simp: br_implements_def)
  next
    case False
    then have "br_value p' = br_value p" "br_state p' = (br_state p)(b \<mapsto> ms)" "br_wf p'" "br_config p' = br_config p"
      using step(2) by (simp_all add: br_implements_def)
    then have "br_flooded p' b v (qs @ [q])"
      using p ms(1,2) heard by (simp add: br_flooded_def br_entry_def br_config_def)
    then show ?thesis using step ms(3) False by (auto simp: br_implements_def)
  qed
qed

text \<open>A READY message of \<open>v\<close> that names \<open>q\<close> as its sender.\<close>

definition ready_message :: "BroadcastInstance \<Rightarrow> int32 \<Rightarrow> ProcessId \<Rightarrow> Message" where
  "ready_message b v q = \<lparr>Sender = q, Stamp = 0, RetransmissionStamp = 0,
     Content = BroadcastInstanceContent (br_msg b Bracha_READY v)\<rparr>"

lemma forged_readies_deliver:
  assumes "nd_process (ac_instance a) = BrachaProcess p" "br_flooded p b v done" "distinct (done @ qs)" "qs \<noteq> []"
    and "br_messagesForDelivery p = int (length (done @ qs))"
    and "\<forall>q\<in>set qs. q \<in> dom (ac_receivedMessages a) \<and> (q, 0) \<notin> ac_seen a \<and> unmarshal (D q) = Some (ready_message b v q)"
  shows "\<exists>a' h. ac_receiveMessages unmarshal (nd_ProcessMessage marshal (pr_HandleMessage env) (pr_Broadcast env)) a (map D qs) =
      Inr (a', h) \<and> (b, v) \<in> set (deliveries (nd_effects (ac_instance a')))"
  using assms
proof (induction qs arbitrary: a p "done")
  case (Cons q qs)
  let ?process = "nd_ProcessMessage marshal (pr_HandleMessage env) (pr_Broadcast env)"
  have q: "q \<notin> set done" "q \<in> dom (ac_receivedMessages a)" "(q, 0) \<notin> ac_seen a" "unmarshal (D q) = Some (ready_message b v q)"
    using Cons.prems(3,6) by auto
  obtain p' es where step: "br_HandleMessage p q (br_msg b Bracha_READY v) = Inr (p', es)" "br_config p' = br_config p"
    and now: "if br_messagesForDelivery p \<le> int (length done) + 1 then (b, v) \<in> set (deliveries es)
      else br_flooded p' b v (done @ [q])"
    using br_flooded_step[OF Cons.prems(2) q(1)] by blast
  obtain rm where rm: "assign2 (ac_receivedMessages a) q 0 True = Inr rm" using assign2_ok[OF q(2)] by blast
  define nd where "nd = nd_apply marshal (ac_instance a) (BrachaProcess p', es)"
  define a1 where "a1 = a\<lparr>ac_log := ac_log a @ [OnMessageReceived q 0], ac_receivedMessages := rm, ac_instance := nd\<rparr>"
  have rec: "ac_receive unmarshal ?process a (D q) = Inr (a1, Some (ready_message b v q))"
    using q(3) rm step(1) Cons.prems(1)
    by (simp add: ac_receive_def q(4) ready_message_def ac_seen_def nd_ProcessMessage_def pr_HandleMessage_def a1_def nd_def)
  show ?case
  proof (cases "qs = []")
    case True
    then have "(b, v) \<in> set (deliveries (nd_effects (ac_instance a1)))"
      using now Cons.prems(5) by (simp add: a1_def nd_def nd_apply_def)
    then show ?thesis using rec True by simp
  next
    case False
    then have "br_flooded p' b v (done @ [q])" using now Cons.prems(5) by (cases qs) auto
    moreover have "nd_process (ac_instance a1) = BrachaProcess p'" by (simp add: a1_def nd_def nd_apply_def)
    moreover have "br_messagesForDelivery p' = int (length ((done @ [q]) @ qs))"
      using Cons.prems(5) step(2) by (simp add: br_config_def)
    moreover have "\<forall>x\<in>set qs. x \<in> dom (ac_receivedMessages a1) \<and> (x, 0) \<notin> ac_seen a1 \<and> unmarshal (D x) = Some (ready_message b v x)"
      using Cons.prems(3,6) assign2_dom[OF rm] assign2_lookup[OF rm] by (auto simp: a1_def ac_seen_def)
    moreover have "distinct ((done @ [q]) @ qs)" using Cons.prems(3) by simp
    ultimately obtain a' h where "ac_receiveMessages unmarshal ?process a1 (map D qs) = Inr (a', h)"
      "(b, v) \<in> set (deliveries (nd_effects (ac_instance a')))" using Cons.IH[of a1 p' "done @ [q]"] False by blast
    then show ?thesis using rec by simp
  qed
qed simp

text \<open>A node of Bracha's protocol as \<open>main\<close> starts it.\<close>

lemma bracha_node_started:
  assumes start: "sim_started sk marshal env parse files fl ''bracha'' ps C W" and n: "0 < ProcessCount ps" and x: "x \<in> C"
  obtains pids where "length pids = nat (ProcessCount ps)"
    "nd_process (wd_node W x) = BrachaProcess (br_InitProcess x pids ps (fl_stress_test fl))"
    "ac_seen (wd_nodes W x) = {}" "members ps \<subseteq> dom (ac_receivedMessages (wd_nodes W x))"
proof -
  obtain pids init where pids: "length pids = nat (ProcessCount ps)"
    and fresh: "wd_fresh marshal C (of_int (ProcessCount ps)) init W"
    and init: "\<And>x. x \<in> C \<Longrightarrow> \<exists>np. node_process parse files (fl\<lparr>fl_i := sint x\<rparr>) \<lparr>in_protocol = ''bracha'', in_parameters = ps\<rparr> = Inr np \<and>
       pr_InitProcess env np x pids ps (fl_stress_test fl) = Inr (init x)"
    by (rule sim_started_fresh[OF start n]) blast
  have "nd_process (wd_node W x) = BrachaProcess (br_InitProcess x pids ps (fl_stress_test fl))"
    using fresh init[OF x] x by (auto simp: wd_fresh_def node_process_def pr_InitProcess_def)
  moreover have "node_main sk marshal env parse files (fl\<lparr>fl_i := sint x\<rparr>)
      (Some \<lparr>in_protocol = ''bracha'', in_parameters = ps\<rparr>) = Inr (wd_nodes W x)"
    using start x by (simp add: sim_started_def)
  then obtain ips addrs where gen: "GeneratePids ips (fl_base_port fl) (ProcessCount ps + 1) = Inr addrs"
    and rm: "ac_receivedMessages (wd_nodes W x) = make_maps (length addrs)"
    by (auto simp: node_main_def ac_InitActor_def go_simps split: if_splits) (metis Actor.select_convs(1))
  have "length addrs = nat (ProcessCount ps + 1)" using gen by (auto simp: GeneratePids_def split: if_splits)
  then have "members ps \<subseteq> dom (ac_receivedMessages (wd_nodes W x))"
    unfolding rm members_def dom_make_maps using n by (auto simp: procs_def)
  ultimately show thesis using that pids fresh x by (simp add: wd_fresh_def)
qed

text \<open>
  C25: The sender of a datagram is whatever the datagram says: the receive loop takes the field
  \<open>Sender\<close> of the message and never looks at the address the datagram came from. Let the main server
  and the nodes of all \<open>n \<ge> 2f + 1\<close> processes be started by their command lines, so that no process is
  faulty. Then \<open>2f + 1\<close> datagrams that anyone writes and sends to a node, one READY message in the
  name of each of \<open>2f + 1\<close> processes, make the node deliver any value for any transaction. With as
  many for a second node, two nodes deliver different values for the same transaction, although no
  process has broadcast it or sent anything of it: six datagrams for \<open>n = 4\<close> and \<open>f = 1\<close>.
\<close>

theorem bracha_simulation_spoofed:
  assumes start: "sim_started sk marshal env parse files fl ''bracha'' ps (members ps) W"
    and n: "0 < ProcessCount ps" "ProcessCount ps < 2 ^ 31"
    and f: "0 \<le> FaultyProcesses ps" "2 * FaultyProcesses ps + 1 \<le> ProcessCount ps"
    and codec: "wd_codec marshal unmarshal br_small"
      "\<forall>m. (\<forall>bm. Content m = BroadcastInstanceContent bm \<longrightarrow> br_small bm) \<longrightarrow> marshal m \<noteq> None"
    and b: "Author b \<in> members ps" and x: "x \<in> members ps" and y: "y \<in> members ps" "x \<noteq> y" "v \<noteq> w"
  shows "\<exists>D E a h c k. int (length D) = 2 * FaultyProcesses ps + 1 \<and> int (length E) = 2 * FaultyProcesses ps + 1 \<and>
    (\<forall>d\<in>set D. \<exists>q\<in>members ps. marshal (ready_message b v q) = Some d) \<and>
    (\<forall>d\<in>set E. \<exists>q\<in>members ps. marshal (ready_message b w q) = Some d) \<and>
    ac_receiveMessages unmarshal (nd_ProcessMessage marshal (pr_HandleMessage env) (pr_Broadcast env)) (wd_nodes W x)
      (map (take BufferSize) D) = Inr (a, h) \<and> (b, v) \<in> set (deliveries (nd_effects (ac_instance a))) \<and>
    ac_receiveMessages unmarshal (nd_ProcessMessage marshal (pr_HandleMessage env) (pr_Broadcast env)) (wd_nodes W y)
      (map (take BufferSize) E) = Inr (c, k) \<and> (b, w) \<in> set (deliveries (nd_effects (ac_instance c)))"
proof -
  let ?process = "nd_ProcessMessage marshal (pr_HandleMessage env) (pr_Broadcast env)"
  let ?qs = "procs (nat (2 * FaultyProcesses ps + 1))"
  have qs: "set ?qs \<subseteq> members ps" "distinct ?qs" "?qs \<noteq> []" "int (length ?qs) = 2 * FaultyProcesses ps + 1"
  proof -
    have k: "nat (2 * FaultyProcesses ps + 1) \<le> nat (ProcessCount ps)" "nat (2 * FaultyProcesses ps + 1) \<le> 2 ^ 32"
      using f n by simp_all
    show "set ?qs \<subseteq> members ps" using k(1) by (force simp: members_def procs_def)
    show "distinct ?qs" using card_procs[OF k(2)] by (simp add: card_distinct procs_def)
    show "?qs \<noteq> []" "int (length ?qs) = 2 * FaultyProcesses ps + 1" using f by (simp_all add: procs_def)
  qed
  have flood: "\<exists>D a h. int (length D) = 2 * FaultyProcesses ps + 1 \<and>
      (\<forall>d\<in>set D. \<exists>q\<in>members ps. marshal (ready_message b u q) = Some d) \<and>
      ac_receiveMessages unmarshal ?process (wd_nodes W z) (map (take BufferSize) D) = Inr (a, h) \<and>
      (b, u) \<in> set (deliveries (nd_effects (ac_instance a)))" if z: "z \<in> members ps" for z u
  proof -
    obtain pids where pids: "length pids = nat (ProcessCount ps)"
      and node: "nd_process (wd_node W z) = BrachaProcess (br_InitProcess z pids ps (fl_stress_test fl))"
        "ac_seen (wd_nodes W z) = {}" "members ps \<subseteq> dom (ac_receivedMessages (wd_nodes W z))"
      by (rule bracha_node_started[OF start n(1) z])
    let ?p = "br_InitProcess z pids ps (fl_stress_test fl)"
    have "br_faults_bounded pids ps {}" using f n pids by (simp add: br_faults_bounded_def br_sizes_exact_def)
    note thr = br_thresholds(3)[OF this, of z "fl_stress_test fl"]
    have flooded: "br_flooded ?p b u []"
      using b pids by (simp add: br_flooded_def br_InitProcess_def Let_def br_wf_def br_value_def br_entry_def br_state_def
        br_newMessageState_def members_def)
    define d where "d q = the (marshal (ready_message b u q))" for q
    have d: "marshal (ready_message b u q) = Some (d q)" "unmarshal (take BufferSize (d q)) = Some (ready_message b u q)" for q
    proof -
      have small: "\<forall>bm. Content (ready_message b u q) = BroadcastInstanceContent bm \<longrightarrow> br_small bm"
        by (auto simp: ready_message_def br_small_def)
      show m: "marshal (ready_message b u q) = Some (d q)" using codec(2) small by (auto simp: d_def)
      show "unmarshal (take BufferSize (d q)) = Some (ready_message b u q)" using codec(1) m small by (auto simp: wd_codec_def)
    qed
    have "\<exists>a h. ac_receiveMessages unmarshal ?process (wd_nodes W z) (map (\<lambda>q. take BufferSize (d q)) ?qs) = Inr (a, h) \<and>
        (b, u) \<in> set (deliveries (nd_effects (ac_instance a)))"
      by (rule forged_readies_deliver[OF node(1) flooded]) (use qs node d(2) thr in auto)
    then obtain a h where "ac_receiveMessages unmarshal ?process (wd_nodes W z) (map (take BufferSize) (map d ?qs)) = Inr (a, h)"
      "(b, u) \<in> set (deliveries (nd_effects (ac_instance a)))" by (auto simp: comp_def)
    moreover have "\<forall>e\<in>set (map d ?qs). \<exists>q\<in>members ps. marshal (ready_message b u q) = Some e" using d(1) qs(1) by auto
    ultimately show ?thesis using qs(4) by (intro exI[of _ "map d ?qs"]) auto
  qed
  show ?thesis using flood[OF x, of v] flood[OF y(1), of w] by blast
qed

text \<open>Four processes with \<open>f = 1\<close>: three datagrams for node 0 and three for node 1.\<close>

definition four_ps :: Parameters where
  "four_ps = two_ps\<lparr>ProcessCount := 4, FaultyProcesses := 1\<rparr>"

lemma four_members: "members four_ps = {0, 1, 2, 3}"
  by (simp add: members_def four_ps_def two_ps_def nd_sample_def procs_def upt_rec)

theorem bracha_simulation_spoofed_witness:
  "\<forall>env. \<exists>W D E a h c k. sim_started mb_sample sample_marshal env (\<lambda>_. None) Map.empty sim_sample ''bracha'' four_ps (members four_ps) W \<and>
    length D = 3 \<and> length E = 3 \<and>
    ac_receiveMessages sample_unmarshal (nd_ProcessMessage sample_marshal (pr_HandleMessage env) (pr_Broadcast env)) (wd_nodes W 0)
      (map (take BufferSize) D) = Inr (a, h) \<and> (one_tx, 5) \<in> set (deliveries (nd_effects (ac_instance a))) \<and>
    ac_receiveMessages sample_unmarshal (nd_ProcessMessage sample_marshal (pr_HandleMessage env) (pr_Broadcast env)) (wd_nodes W 1)
      (map (take BufferSize) E) = Inr (c, k) \<and> (one_tx, 6) \<in> set (deliveries (nd_effects (ac_instance c)))"
proof
  fix env
  have ps: "0 < ProcessCount four_ps" "ProcessCount four_ps < 2 ^ 31" "0 \<le> FaultyProcesses four_ps"
    "2 * FaultyProcesses four_ps + 1 \<le> ProcessCount four_ps" "2 * FaultyProcesses four_ps + 1 = 3" by (simp_all add: four_ps_def)
  have three: "int k = 3 \<longleftrightarrow> k = 3" for k by linarith
  obtain mb pids where started: "\<And>W. run_world sample_marshal env (\<lambda>_. NewBracha) mb four_ps pids = Inr W \<Longrightarrow>
      sim_started mb_sample sample_marshal env (\<lambda>_. None) Map.empty sim_sample ''bracha'' four_ps (members four_ps) W"
      and len: "length pids = nat (ProcessCount four_ps + 1)"
    by (rule run_started[where marshal = sample_marshal and env = env and C = "members four_ps" and proto = "''bracha''" and
      parse = "\<lambda>_. None" and files = Map.empty and np = "\<lambda>_. NewBracha", OF ps(1,2)]) (auto simp: node_process_def)
  have "pids \<noteq> []" using len ps(1) by auto
  then have "run_node sample_marshal env (\<lambda>_. NewBracha) mb four_ps pids i \<noteq> Inl e" for i e
    by (simp add: run_node_def nd_Start_def pr_InitProcess_def Let_def)
  then have node: "run_node sample_marshal env (\<lambda>_. NewBracha) mb four_ps pids i =
      Inr (projr (run_node sample_marshal env (\<lambda>_. NewBracha) mb four_ps pids i))" for i by (metis sum.exhaust_sel)
  have "go_map (run_node sample_marshal env (\<lambda>_. NewBracha) mb four_ps pids) xs =
      Inr (map (\<lambda>i. projr (run_node sample_marshal env (\<lambda>_. NewBracha) mb four_ps pids i)) xs)" for xs
    by (rule go_map_Inr_I) (rule node)
  then obtain W where "run_world sample_marshal env (\<lambda>_. NewBracha) mb four_ps pids = Inr W"
    by (simp add: run_world_def)
  note W = started[OF this]
  have total: "\<forall>m. (\<forall>bm. Content m = BroadcastInstanceContent bm \<longrightarrow> br_small bm) \<longrightarrow> sample_marshal m \<noteq> None"
    using sample_total by blast
  have mem: "Author one_tx \<in> members four_ps" "(0 :: int32) \<in> members four_ps" "(1 :: int32) \<in> members four_ps"
    "(0 :: int32) \<noteq> 1" "(5 :: int32) \<noteq> 6" by (simp_all add: four_members one_tx_def)
  show "\<exists>W D E a h c k. sim_started mb_sample sample_marshal env (\<lambda>_. None) Map.empty sim_sample ''bracha'' four_ps (members four_ps) W \<and>
    length D = 3 \<and> length E = 3 \<and>
    ac_receiveMessages sample_unmarshal (nd_ProcessMessage sample_marshal (pr_HandleMessage env) (pr_Broadcast env)) (wd_nodes W 0)
      (map (take BufferSize) D) = Inr (a, h) \<and> (one_tx, 5) \<in> set (deliveries (nd_effects (ac_instance a))) \<and>
    ac_receiveMessages sample_unmarshal (nd_ProcessMessage sample_marshal (pr_HandleMessage env) (pr_Broadcast env)) (wd_nodes W 1)
      (map (take BufferSize) E) = Inr (c, k) \<and> (one_tx, 6) \<in> set (deliveries (nd_effects (ac_instance c)))"
  proof -
    from bracha_simulation_spoofed[OF W ps(1-4) sample_codec total mem, unfolded ps(5) three]
    obtain D E a h c k where "length D = 3" "length E = 3"
      "ac_receiveMessages sample_unmarshal (nd_ProcessMessage sample_marshal (pr_HandleMessage env) (pr_Broadcast env)) (wd_nodes W 0)
        (map (take BufferSize) D) = Inr (a, h)" "(one_tx, 5) \<in> set (deliveries (nd_effects (ac_instance a)))"
      "ac_receiveMessages sample_unmarshal (nd_ProcessMessage sample_marshal (pr_HandleMessage env) (pr_Broadcast env)) (wd_nodes W 1)
        (map (take BufferSize) E) = Inr (c, k)" "(one_tx, 6) \<in> set (deliveries (nd_effects (ac_instance c)))"
      by (elim exE conjE)
    then show ?thesis using W
      by (intro exI[of _ W] exI[of _ D] exI[of _ E] exI[of _ a] exI[of _ h] exI[of _ c] exI[of _ k] conjI)
  qed
qed

end
