(* ===== verification/Reliable_Simulation.thy ===== *)
theory Reliable_Simulation
  imports Simulation_Sample Reliable_System
begin

text \<open>
  The whole simulation of the reliable protocol. A NOTIFY carries one ciphertext per process, and the
  mailbox reads 1024 bytes of a datagram: in a system with more processes than fit, what the processes
  send each other is never read.
\<close>

section \<open>The size of a message\<close>

text \<open>
  Every share is written in full, after at least two bytes for its tag and its length.
\<close>

definition share_bytes :: "BroadcastInstanceMessage \<Rightarrow> nat" where
  "share_bytes bm = (case Message_of bm of
     ReliableMessage r \<Rightarrow> sum_list (map (\<lambda>share. length share + 2) (EncryptedShares r))
   | _ \<Rightarrow> 0)"

definition message_bytes :: "Message \<Rightarrow> nat" where
  "message_bytes m = (case Content m of BroadcastInstanceContent bm \<Rightarrow> share_bytes bm | _ \<Rightarrow> 0)"

text \<open>
  The wire format: a datagram that the mailbox reads in full is parsed as it was written, and one that
  was cut is an error, because it ends inside the content of the message.
\<close>

definition wd_format :: "(Message \<Rightarrow> byte list option) \<Rightarrow> (byte list \<Rightarrow> Message option) \<Rightarrow> bool" where
  "wd_format marshal unmarshal \<longleftrightarrow> (\<forall>m d. marshal m = Some d \<longrightarrow> message_bytes m \<le> length d \<and>
     unmarshal (take BufferSize d) = (if length d \<le> BufferSize then Some m else None))"

text \<open>A process that has only sent what no mailbox reads, and has delivered nothing.\<close>

definition re_oversized :: "BroadcastInstanceMessage \<Rightarrow> bool" where
  "re_oversized bm \<longleftrightarrow> BufferSize < share_bytes bm"

definition re_mute :: "effect list \<Rightarrow> bool" where
  "re_mute es \<longleftrightarrow> deliveries es = [] \<and> (\<forall>to bm. Send to bm \<in> set es \<longrightarrow> re_oversized bm)"

lemma share_bytes_ge:
  assumes "\<And>s. s \<in> set shares \<Longrightarrow> k \<le> length s"
  shows "(k + 2) * length shares \<le> sum_list (map (\<lambda>share. length share + 2) shares)"
  using assms by (induction shares) (fastforce simp: algebra_simps)+

lemma re_Broadcast_mute:
  assumes b: "re_Broadcast env p v = Inr (p', es)"
    and cipher: "\<forall>key share c. env_EncryptPKCS1v15 env key share = Some c \<longrightarrow> k \<le> length c"
    and big: "BufferSize < (k + 2) * nat (re_processCount p)"
  shows "re_mute es" "re_processCount p' = re_processCount p"
proof -
  let ?b = "\<lparr>Author = re_processIndex p, SeqNumber = re_transactionCounter p\<rparr>"
  obtain shares ciphers p1 ms es0 x where
    c: "go_map (\<lambda>i. go_bind (go_index (re_PublicKeys p) (int i)) (\<lambda>key.
      go_bind (go_index shares (int i)) (Encrypt env key))) [0..<nat (re_processCount p)] = Inr ciphers"
    and init: "re_initMessageState env p ?b = Inr (p1, ms, es0)"
    and p': "p' = p1\<lparr>re_transactionCounter := re_transactionCounter p1 + 1\<rparr>"
    and es: "es = es0 @ re_broadcastToWitnesses env p1 ?b
      (re_msg Reliable_NOTIFY (Some \<lparr>Value = v, XHash = re_hash x\<rparr>) ciphers) ms @ [Log (OnTransactionInit ?b)]"
    using b by (auto simp: re_Broadcast_def Let_def go_simps split: option.splits)
  have len: "length ciphers = nat (re_processCount p)" using go_map_length[OF c] by simp
  have "k \<le> length s" if "s \<in> set ciphers" for s
  proof -
    from that len obtain i where "i < nat (re_processCount p)" "s = ciphers ! i" by (auto simp: in_set_conv_nth)
    then have "Encrypt env (re_PublicKeys p ! i) (shares ! i) = Inr s" using go_map_nth[OF c, of i] by (auto simp: go_simps)
    then have "env_EncryptPKCS1v15 env (re_PublicKeys p ! i) (shares ! i) = Some s"
      by (auto simp: Encrypt_def split: option.splits)
    then show ?thesis using cipher by blast
  qed
  from share_bytes_ge[of ciphers k, OF this] big
  have over: "BufferSize < sum_list (map (\<lambda>share. length share + 2) ciphers)" by (simp add: len)
  have "re_mute es0" "re_processCount p1 = re_processCount p"
    using init by (auto simp: re_initMessageState_def re_store_def re_mute_def Let_def go_simps split: prod.splits option.splits)
  then show "re_mute es" "re_processCount p' = re_processCount p"
    using over by (auto simp: es p' re_mute_def re_broadcastToWitnesses_def re_sendProtocolMessage_def re_oversized_def share_bytes_def
        re_msg_def comp_def)
qed

section \<open>Silence\<close>

text \<open>What an actor may have posted: nothing that is both a protocol message and short enough to be read.\<close>

definition posted_mute :: "(Message \<Rightarrow> byte list option) \<Rightarrow> int32 \<Rightarrow> ReliableContext \<Rightarrow> bool" where
  "posted_mute marshal x c \<longleftrightarrow> (\<exists>cs t. cx_extends marshal cs (NewReliableContext x t) c \<and>
     (\<forall>to bm. (to, BroadcastInstanceContent bm) \<in> set cs \<longrightarrow> re_oversized bm))"

lemma posted_mute_extends:
  assumes "posted_mute marshal x c" "cx_extends marshal cs c c'"
    and "\<And>to bm. (to, BroadcastInstanceContent bm) \<in> set cs \<Longrightarrow> re_oversized bm"
  shows "posted_mute marshal x c'"
proof -
  obtain ds t where ds: "cx_extends marshal ds (NewReliableContext x t) c"
    "\<And>to bm. (to, BroadcastInstanceContent bm) \<in> set ds \<Longrightarrow> re_oversized bm"
    using assms(1) unfolding posted_mute_def by blast
  have "\<forall>to bm. (to, BroadcastInstanceContent bm) \<in> set (ds @ cs) \<longrightarrow> re_oversized bm" using ds(2) assms(3) by auto
  then show ?thesis using cx_extends_trans[OF ds(1) assms(2)] unfolding posted_mute_def by blast
qed

lemma posted_mute_unread:
  assumes format: "wd_format marshal unmarshal" and posted: "posted_mute marshal x c" and d: "(y, d) \<in> set (cx_writeChan c)"
    and m: "unmarshal (take BufferSize d) = Some m"
  shows "Content m \<noteq> BroadcastInstanceContent bm"
proof
  assume bm: "Content m = BroadcastInstanceContent bm"
  obtain cs where "cx_writeChan c = packets marshal (stamped x 0 cs)"
    and cs: "\<And>to bm. (to, BroadcastInstanceContent bm) \<in> set cs \<Longrightarrow> re_oversized bm"
    using posted cx_extends_new unfolding posted_mute_def by blast
  then obtain m' where m': "(y, m') \<in> set (stamped x 0 cs)" "marshal m' = Some d" using d packets_mem by metis
  then have eq: "m' = m" "length d \<le> BufferSize" "message_bytes m' \<le> length d"
    using format m by (auto simp: wd_format_def split: if_splits)
  then have "re_oversized bm" using stamped_mem[OF m'(1)] cs bm by metis
  then show False using eq bm by (simp add: message_bytes_def re_oversized_def)
qed

definition wd_silent :: "(Message \<Rightarrow> byte list option) \<Rightarrow> int32 set \<Rightarrow> int \<Rightarrow> protocol_Process world \<Rightarrow> bool" where
  "wd_silent marshal C n W \<longleftrightarrow>
     (\<forall>x\<in>C. (\<exists>p. nd_process (wd_node W x) = ReliableProcess p \<and> re_processCount p = n) \<and> re_mute (nd_effects (wd_node W x)) \<and>
        posted_mute marshal x (nd_context (wd_node W x))) \<and>
     (\<exists>i. posted_mute marshal i (ms_context (ac_instance (wd_server W))))"

lemma wd_silent_wire:
  assumes "wd_silent marshal C n W" "wd_format marshal unmarshal"
    and "(x, d) \<in> wd_wire C W \<or> wd_faulty unmarshal {} (take BufferSize d)" "unmarshal (take BufferSize d) = Some m"
  shows "Content m \<noteq> BroadcastInstanceContent bm"
  using assms posted_mute_unread[OF assms(2) _ _ assms(4)]
  unfolding wd_silent_def wd_wire_def wd_faulty_def by fastforce

lemma re_node_mute:
  assumes msg: "nd_ProcessMessage marshal (pr_HandleMessage env) (pr_Broadcast env) nd m = Inr nd'"
    and plain: "\<And>bm. Content m \<noteq> BroadcastInstanceContent bm"
    and cipher: "\<forall>key share c. env_EncryptPKCS1v15 (pe_reliable env) key share = Some c \<longrightarrow> k \<le> length c"
    and big: "BufferSize < (k + 2) * nat n"
    and nd: "\<exists>p. nd_process nd = ReliableProcess p \<and> re_processCount p = n" "re_mute (nd_effects nd)" "posted_mute marshal x (nd_context nd)"
  shows "(\<exists>p. nd_process nd' = ReliableProcess p \<and> re_processCount p = n) \<and> re_mute (nd_effects nd') \<and>
    posted_mute marshal x (nd_context nd')"
  using msg
proof (cases rule: nd_ProcessMessage_cases)
  case other
  then show ?thesis using nd by simp
next
  case (request bc r)
  obtain p where p: "nd_process nd = ReliableProcess p" "re_processCount p = n" using nd(1) by blast
  obtain p' es where b: "re_Broadcast (pe_reliable env) p (Value bc) = Inr (p', es)" and r: "r = (ReliableProcess p', es)"
    using request(2) p(1) by (auto simp: pr_Broadcast_def go_simps)
  have mute: "re_mute es" "re_processCount p' = n"
    using re_Broadcast_mute[OF b cipher] big p(2) by simp_all
  have "posted_mute marshal x (cx_perform marshal es (nd_context nd))"
    by (rule posted_mute_extends[OF nd(3) cx_perform_extends]) (use mute(1) in \<open>auto simp: re_mute_def sends_mem\<close>)
  then show ?thesis using mute nd(2) by (auto simp: request(3) nd_apply_def r re_mute_def)
next
  case (message bm r)
  then show ?thesis using plain by blast
qed

lemma wd_silent_run:
  assumes run: "wd_run marshal unmarshal (pr_HandleMessage env) (pr_Broadcast env) C {} W0 W"
    and start: "wd_silent marshal C n W0" and format: "wd_format marshal unmarshal"
    and cipher: "\<forall>key share c. env_EncryptPKCS1v15 (pe_reliable env) key share = Some c \<longrightarrow> k \<le> length c"
    and big: "BufferSize < (k + 2) * nat n"
  shows "wd_silent marshal C n W"
  using run start
proof (induction rule: wd_run.induct)
  case (node W x d a h)
  then have IH: "wd_silent marshal C n W" by blast
  let ?ok = "\<lambda>nd. (\<exists>p. nd_process nd = ReliableProcess p \<and> re_processCount p = n) \<and> re_mute (nd_effects nd) \<and>
    posted_mute marshal x (nd_context nd)"
  have nd: "?ok (wd_node W x)" using IH node.hyps(2) by (simp add: wd_silent_def)
  have "?ok (ac_instance a)" using node.hyps(4)
  proof (cases rule: ac_receive_cases)
    case (fresh m)
    from wd_silent_wire[OF IH format node.hyps(3) fresh(1)]
    have plain: "\<And>bm. Content m \<noteq> BroadcastInstanceContent bm" .
    show ?thesis by (rule re_node_mute[OF fresh(4) plain cipher big]) (use nd in auto)
  qed (use nd in auto)
  then show ?case using IH by (auto simp: wd_silent_def wd_set_def)
next
  case (server W d s h)
  then have IH: "wd_silent marshal C n W" by blast
  then obtain i where i: "posted_mute marshal i (ms_context (ac_instance (wd_server W)))" by (auto simp: wd_silent_def)
  have "posted_mute marshal i (ms_context (ac_instance s))" using server.hyps(2)
  proof (cases rule: ac_receive_cases)
    case (fresh m)
    from ms_ProcessMessage_posts[OF fresh(4)] show ?thesis using posted_mute_extends[OF i] by fastforce
  qed (use i in auto)
  then show ?case using IH by (auto simp: wd_silent_def)
next
  case (simulate W x draw nd)
  then have IH: "wd_silent marshal C n W" by blast
  note turn = nd_turn_posts[OF simulate.hyps(3)]
  obtain v where "cx_extends marshal [(nd_processIndex (wd_node W x), BroadcastContent v)] (nd_context (wd_node W x)) (nd_context nd)"
    using turn(1) by blast
  then have "posted_mute marshal x (nd_context nd)"
    using posted_mute_extends[of marshal x "nd_context (wd_node W x)"] IH simulate.hyps(2) by (fastforce simp: wd_silent_def)
  then show ?case using IH simulate.hyps(2) turn(2,3) by (auto simp: wd_silent_def wd_set_def)
qed simp

lemma re_InitProcess_count:
  "re_InitProcess env sha256 sha512 ks k mixing i pids ps own = Inr p \<Longrightarrow> re_processCount p = ProcessCount ps"
  by (auto simp: re_InitProcess_def Let_def split: if_splits)

lemma re_started_silent:
  assumes start: "sim_started sk marshal env parse files fl ''reliable_accountability'' ps C W" and n: "0 < ProcessCount ps"
  shows "wd_silent marshal C (ProcessCount ps) W"
proof -
  obtain pids init where W: "wd_fresh marshal C (of_int (ProcessCount ps)) init W"
    and init: "\<And>x. x \<in> C \<Longrightarrow> \<exists>np. node_process parse files (fl\<lparr>fl_i := sint x\<rparr>)
        \<lparr>in_protocol = ''reliable_accountability'', in_parameters = ps\<rparr> = Inr np \<and>
       pr_InitProcess env np x pids ps (fl_stress_test fl) = Inr (init x)"
    by (rule sim_started_fresh[OF start n]) (rule that)
  have "\<exists>p. init x = ReliableProcess p \<and> re_processCount p = ProcessCount ps" if "x \<in> C" for x
  proof -
    from init[OF that] obtain np where "node_process parse files (fl\<lparr>fl_i := sint x\<rparr>) \<lparr>in_protocol = ''reliable_accountability'', in_parameters = ps\<rparr> = Inr np"
      and np: "pr_InitProcess env np x pids ps (fl_stress_test fl) = Inr (init x)" by blast
    then obtain ks k where "np = NewReliable ks k (fl_mixing_time fl)" by (auto simp: node_process_def go_simps)
    then obtain p where "re_InitProcess (pe_reliable env) HashSHA256_Hash HashSHA512_Hash ks k (fl_mixing_time fl) x pids ps
        (fl_stress_test fl) = Inr p" "init x = ReliableProcess p" using np by (auto simp: pr_InitProcess_def go_simps)
    then show ?thesis using re_InitProcess_count by blast
  qed
  then show ?thesis using W by (fastforce simp: wd_silent_def wd_fresh_def re_mute_def posted_mute_def)
qed

section \<open>A closed run\<close>

text \<open>
  One process whose ciphertexts have 1023 bytes. The evaluation leaves open what the ciphertexts are
  (\<open>cipher\<close>) and how protocol messages are written (\<open>big\<close>).
\<close>

definition one_env :: "byte list \<Rightarrow> protocol_env \<Rightarrow> protocol_env" where
  "one_env cipher env = \<lparr>pe_reliable = re_sample_env\<lparr>env_EncryptPKCS1v15 := (\<lambda>_ _. Some cipher)\<rparr>, pe_sort = pe_sort env,
     pe_co_order = pe_co_order env, pe_sc_order = pe_sc_order env, pe_random = pe_random env\<rparr>"

definition one_marshal :: "(Message \<Rightarrow> byte list option) \<Rightarrow> Message \<Rightarrow> byte list option" where
  "one_marshal big m = (case Content m of BroadcastInstanceContent bm \<Rightarrow> big m | _ \<Rightarrow> sample_marshal m)"

definition one_process :: "int32 \<Rightarrow> new_Process" where
  "one_process x = NewReliable [(1, 1)] (Some (1, 1)) 2"

lemma one_checked:
  "case run_play (one_marshal big) sample_unmarshal (one_env cipher env) one_process mb re_sample_params [p, q] {0} {}
     [ToServer 0 0, FromServer 0 0, Turn 0 5, Deliver 0 0 1] of
     None \<Rightarrow> False | Some W \<Rightarrow> Log (OnTransactionInit re_tx) \<in> set (nd_effects (wd_node W 0))"
  by code_simp

text \<open>Protocol messages as zeros, which do not parse.\<close>

definition zero_bytes :: "Message \<Rightarrow> byte list option" where
  "zero_bytes m = (if message_bytes m \<le> BufferSize then None else Some (replicate (message_bytes m) 0))"

lemma zeros_words: "bytes_words (replicate (4 * k) 0) = Some (replicate k 0)"
proof (induction k)
  case (Suc k)
  have "Int32ToBytes 0 = replicate 4 0" by code_simp
  then have "replicate (4 * Suc k) (0 :: byte) = Int32ToBytes 0 @ replicate (4 * k) 0" by (simp flip: replicate_add)
  then show ?case using Suc by (simp only: bytes_words_step) simp
qed simp

lemma zeros_unread: "sample_unmarshal (replicate BufferSize 0) = None"
proof -
  have b: "BufferSize = 4 * (10 + 246)" by (simp add: BufferSize_def)
  have "bytes_words (replicate BufferSize 0) = Some (replicate 10 0 @ replicate 246 0)"
    by (simp only: b zeros_words replicate_add)
  then show ?thesis by (simp add: sample_unmarshal_def words_content_def words_stage_def numeral_eq_Suc)
qed

lemma one_format: "wd_format (one_marshal zero_bytes) sample_unmarshal"
  unfolding wd_format_def
proof (intro allI impI)
  fix m d assume d: "one_marshal zero_bytes m = Some d"
  show "message_bytes m \<le> length d \<and> sample_unmarshal (take BufferSize d) = (if length d \<le> BufferSize then Some m else None)"
  proof (cases "\<exists>bm. Content m = BroadcastInstanceContent bm")
    case True
    then have "d = replicate (message_bytes m) 0" "BufferSize < message_bytes m"
      using d by (auto simp: one_marshal_def zero_bytes_def split: if_splits)
    then show ?thesis using zeros_unread by (simp add: min_def)
  next
    case False
    then have "sample_marshal m = Some d" "message_bytes m = 0"
      using d by (auto simp: one_marshal_def message_bytes_def split: Message_Content.splits)
    then show ?thesis using sample_length by simp
  qed
qed

lemma one_run:
  obtains W0 W where "sim_started mb_sample (one_marshal big) (one_env cipher env) (\<lambda>_. Some ((1, 1), 1, 1)) (\<lambda>_. Some []) sim_sample
      ''reliable_accountability'' re_sample_params (members re_sample_params) W0"
    "wd_run (one_marshal big) sample_unmarshal (pr_HandleMessage (one_env cipher env)) (pr_Broadcast (one_env cipher env))
       (members re_sample_params) {} W0 W"
    "Log (OnTransactionInit re_tx) \<in> set (nd_effects (wd_node W 0))" "0 \<in> members re_sample_params"
proof -
  let ?parse = "\<lambda>_ :: byte list. Some ((1, 1), 1, 1) :: (rsa_key \<times> rsa_key) option" and ?files = "\<lambda>_ :: string. Some [] :: byte list option"
  have n: "0 < ProcessCount re_sample_params" "ProcessCount re_sample_params < 2 ^ 31" "ProcessCount re_sample_params = int 1"
    by (simp_all add: re_sample_params_def)
  have mem: "members re_sample_params = {0}" by (simp add: members_def re_sample_params_def procs_def)
  have "node_keys ?parse ?files dir (int 1) idx = Inr (map (\<lambda>_. (1, 1)) [0..<1], if 0 \<le> idx \<and> idx < int 1 then Some (1, 1) else None)" for dir idx
    by (rule node_keys_all[where pub = "\<lambda>_. (1, 1)" and priv = "\<lambda>_. (1, 1)"]) (simp add: read_key_def)
  then have np: "node_process ?parse ?files (sim_sample\<lparr>fl_i := sint x\<rparr>) \<lparr>in_protocol = ''reliable_accountability'', in_parameters = re_sample_params\<rparr>
      = Inr (one_process x)" if "x \<in> members re_sample_params" for x
    using that by (simp add: mem node_process_def n(3) one_process_def sim_sample_def del: of_nat_1)
  obtain mb pids where len: "length pids = nat (ProcessCount re_sample_params + 1)"
    and started: "\<And>W. run_world (one_marshal big) (one_env cipher env) one_process mb re_sample_params pids = Inr W \<Longrightarrow>
      sim_started mb_sample (one_marshal big) (one_env cipher env) ?parse ?files sim_sample ''reliable_accountability''
        re_sample_params (members re_sample_params) W"
    by (rule run_started[where marshal = "one_marshal big" and env = "one_env cipher env", OF n(1,2) order_refl np]) auto
  from len have "length pids = 2" by (simp add: re_sample_params_def)
  then obtain p q where pids: "pids = [p, q]" by (auto simp: numeral_2_eq_2 length_Suc_conv)
  obtain W where W: "run_play (one_marshal big) sample_unmarshal (one_env cipher env) one_process mb re_sample_params pids
      (members re_sample_params) {} [ToServer 0 0, FromServer 0 0, Turn 0 5, Deliver 0 0 1] = Some W"
    and log: "Log (OnTransactionInit re_tx) \<in> set (nd_effects (wd_node W 0))"
    using one_checked[of big cipher env mb p q] unfolding pids mem by (auto split: option.splits)
  obtain W0 where W0: "run_world (one_marshal big) (one_env cipher env) one_process mb re_sample_params pids = Inr W0"
    and run: "wd_run (one_marshal big) sample_unmarshal (pr_HandleMessage (one_env cipher env)) (pr_Broadcast (one_env cipher env))
      (members re_sample_params) {} W0 W"
    by (rule run_play_run[OF W])
  show thesis by (rule that[OF started[OF W0] run log]) (simp add: mem)
qed

section \<open>Property\<close>

text \<open>
  C20: The reliable protocol is silent in large systems. Let every ciphertext have at least \<open>k\<close> bytes (it has
  as many as the modulus of its key; the bound is asked of all keys). If \<open>(k + 2) n\<close> exceeds 1024, the bytes the mailbox reads of a
  datagram, then no process ever delivers anything, although all are correct, whatever they are asked
  to broadcast, and however long the simulation runs: every NOTIFY is longer than a datagram that can
  be read. The keys that \<open>generate.go\<close> makes have 16 bytes, so 57 processes are too many; it makes
  keys for 260.
\<close>

theorem reliable_simulation_silent:
  assumes start: "sim_started sk marshal env parse files fl ''reliable_accountability'' ps (members ps) W0" and n: "0 < ProcessCount ps"
    and cipher: "\<forall>key share c. env_EncryptPKCS1v15 (pe_reliable env) key share = Some c \<longrightarrow> k \<le> length c"
    and many: "1024 < (k + 2) * nat (ProcessCount ps)"
    and format: "wd_format marshal unmarshal"
    and run: "wd_run marshal unmarshal (pr_HandleMessage env) (pr_Broadcast env) (members ps) {} W0 W"
    and x: "x \<in> members ps"
  shows "deliveries (nd_effects (wd_node W x)) = []"
  using wd_silent_run[OF run re_started_silent[OF start n] format cipher] many x
  by (simp add: wd_silent_def re_mute_def BufferSize_def)

theorem reliable_simulation_silent_witness:
  "\<forall>env. \<exists>W0 W. wd_run (one_marshal zero_bytes) sample_unmarshal (pr_HandleMessage (one_env (replicate 1023 0) env))
      (pr_Broadcast (one_env (replicate 1023 0) env)) (members re_sample_params) {} W0 W \<and>
    Log (OnTransactionInit re_tx) \<in> set (nd_effects (wd_node W 0)) \<and> deliveries (nd_effects (wd_node W 0)) = []"
proof
  fix env
  let ?env = "one_env (replicate 1023 0) env"
  obtain W0 W where W: "sim_started mb_sample (one_marshal zero_bytes) ?env (\<lambda>_. Some ((1, 1), 1, 1)) (\<lambda>_. Some []) sim_sample
      ''reliable_accountability'' re_sample_params (members re_sample_params) W0"
    "wd_run (one_marshal zero_bytes) sample_unmarshal (pr_HandleMessage ?env) (pr_Broadcast ?env) (members re_sample_params) {} W0 W"
    "Log (OnTransactionInit re_tx) \<in> set (nd_effects (wd_node W 0))" "0 \<in> members re_sample_params"
    by (rule one_run)
  have "\<forall>key share c. env_EncryptPKCS1v15 (pe_reliable ?env) key share = Some c \<longrightarrow> 1023 \<le> length c"
    by (simp add: one_env_def)
  from reliable_simulation_silent[OF W(1) _ this _ one_format W(2,4)] W(2,3)
  show "\<exists>W0 W. wd_run (one_marshal zero_bytes) sample_unmarshal (pr_HandleMessage ?env) (pr_Broadcast ?env) (members re_sample_params) {} W0 W \<and>
    Log (OnTransactionInit re_tx) \<in> set (nd_effects (wd_node W 0)) \<and> deliveries (nd_effects (wd_node W 0)) = []"
    by (auto simp: re_sample_params_def)
qed

end
