(* ===== verification/Consistent_Simulation.thy ===== *)
theory Consistent_Simulation
  imports Simulation_Sample Consistent_Theorems
begin

text \<open>
  The whole simulation of the consistent protocol: with two or more processes, an actor that is asked
  to broadcast, or that receives a message of the protocol, panics.
\<close>

section \<open>Processes that have done nothing\<close>

text \<open>The processes fail on whatever they receive and whatever they are asked to broadcast.\<close>

definition pr_fails :: "protocol_env \<Rightarrow> protocol_Process \<Rightarrow> bool" where
  "pr_fails env pr \<longleftrightarrow> (\<forall>q m. \<exists>e. pr_HandleMessage env pr q m = Inl e) \<and> (\<forall>v. \<exists>e. pr_Broadcast env pr v = Inl e)"

definition wd_untouched :: "protocol_env \<Rightarrow> int32 set \<Rightarrow> protocol_Process world \<Rightarrow> bool" where
  "wd_untouched env C W \<longleftrightarrow> (\<forall>x\<in>C. pr_fails env (nd_process (wd_node W x)) \<and> nd_effects (wd_node W x) = [])"

lemma nd_ProcessMessage_fails:
  assumes "pr_fails env (nd_process nd)"
    and "nd_ProcessMessage marshal (pr_HandleMessage env) (pr_Broadcast env) nd m = Inr nd'"
  shows "nd_process nd' = nd_process nd" "nd_effects nd' = nd_effects nd"
    "\<And>bm. Content m \<noteq> BroadcastInstanceContent bm" "\<And>bc. Content m \<noteq> BroadcastContent bc"
proof -
  have no: "pr_HandleMessage env (nd_process nd) q bm \<noteq> Inr r" "pr_Broadcast env (nd_process nd) v \<noteq> Inr r" for q bm v r
    using assms(1) by (metis pr_fails_def sum.distinct(1))+
  show "nd_process nd' = nd_process nd" "nd_effects nd' = nd_effects nd"
    using assms(2) no by (cases rule: nd_ProcessMessage_cases; simp)+
  show "Content m \<noteq> BroadcastInstanceContent bm" "Content m \<noteq> BroadcastContent bc" for bm bc
    using assms(2) no by (auto simp: nd_ProcessMessage_def go_simps)
qed

lemma wd_untouched_run:
  assumes "wd_run marshal unmarshal (pr_HandleMessage env) (pr_Broadcast env) C F W0 W" "wd_untouched env C W0"
  shows "wd_untouched env C W"
  using assms
proof (induction rule: wd_run.induct)
  case (node W x d a h)
  then have IH: "wd_untouched env C W" and fails: "pr_fails env (nd_process (wd_node W x))" by (auto simp: wd_untouched_def)
  have "nd_process (ac_instance a) = nd_process (wd_node W x) \<and> nd_effects (ac_instance a) = nd_effects (wd_node W x)"
    using node.hyps(4) by (cases rule: ac_receive_cases) (use nd_ProcessMessage_fails[OF fails] in auto)
  then show ?case using IH by (auto simp: wd_untouched_def wd_set_def)
next
  case (simulate W x draw nd)
  then show ?case using nd_turn_posts(2,3)[OF simulate.hyps(3)] by (auto simp: wd_untouched_def wd_set_def)
qed (auto simp: wd_untouched_def)

lemma consistent_fails:
  assumes init: "pr_InitProcess env NewConsistent i pids ps own = Inr pr" and n: "2 \<le> length pids" "length pids < 2 ^ 31"
    and bins: "0 \<le> NodeIdSize ps" "NumberOfBins ps < 2 ^ 63" "NodeIdSize ps div NumberOfBins ps \<le> 62"
  shows "pr_fails env pr"
proof -
  obtain p where p: "co_InitProcess HashSHA256_Hash HashSHA512_Hash i pids ps own = Inr p" "pr = ConsistentProcess p"
    using init by (auto simp: pr_InitProcess_def go_simps)
  note fail = co_two_processes_fail[OF p(1) n bins, of "pe_sort env" "pe_co_order env"]
  have "co_HandleMessage (pe_sort env) (pe_co_order env) p q m \<noteq> Inr r" for q m r
    using fail[of "Received q m" "[]" r] by (cases r) (auto simp: go_simps)
  moreover have "co_Broadcast (pe_sort env) (pe_co_order env) p v \<noteq> Inr r" for v r
    using fail[of "Request v" "[]" r] by (cases r) (auto simp: go_simps)
  ultimately have fails: "\<exists>e. co_HandleMessage (pe_sort env) (pe_co_order env) p q m = Inl e"
    "\<exists>e. co_Broadcast (pe_sort env) (pe_co_order env) p v = Inl e" for q m v
    by (metis sum.exhaust)+
  show ?thesis unfolding pr_fails_def
  proof (intro conjI allI)
    show "\<exists>e. pr_HandleMessage env pr q m = Inl e" for q m using fails(1)[of q m] by (auto simp: p(2) pr_HandleMessage_def)
    show "\<exists>e. pr_Broadcast env pr v = Inl e" for v using fails(2)[of v] by (auto simp: p(2) pr_Broadcast_def)
  qed
qed

lemma consistent_started:
  assumes start: "sim_started sk marshal env parse files fl ''consistent_accountability'' ps C W"
    and n: "2 \<le> ProcessCount ps" "ProcessCount ps < 2 ^ 31"
    and bins: "0 \<le> NodeIdSize ps" "NumberOfBins ps < 2 ^ 63" "NodeIdSize ps div NumberOfBins ps \<le> 62"
  shows "wd_untouched env C W"
proof -
  have "0 < ProcessCount ps" using n by simp
  from sim_started_fresh[OF start this] obtain pids init where len: "length pids = nat (ProcessCount ps)"
    and W: "wd_fresh marshal C (of_int (ProcessCount ps)) init W"
    and init: "\<And>x. x \<in> C \<Longrightarrow> \<exists>np. node_process parse files (fl\<lparr>fl_i := sint x\<rparr>)
        \<lparr>in_protocol = ''consistent_accountability'', in_parameters = ps\<rparr> = Inr np \<and>
       pr_InitProcess env np x pids ps (fl_stress_test fl) = Inr (init x)" by blast
  have "pr_fails env (init x)" if "x \<in> C" for x
  proof -
    from init[OF that] have "pr_InitProcess env NewConsistent x pids ps (fl_stress_test fl) = Inr (init x)"
      by (auto simp: node_process_def)
    then show ?thesis by (rule consistent_fails) (use len n bins in auto)
  qed
  then show ?thesis using W by (simp add: wd_untouched_def wd_fresh_def)
qed

section \<open>A closed run\<close>

definition pair_ps :: Parameters where
  "pair_ps = \<lparr>ProcessCount = 2, FaultyProcesses = 0, MinOwnWitnessSetSize_param = 1,
     MinPotWitnessSetSize_param = 1, OwnWitnessSetRadius_param = 0, PotWitnessSetRadius_param = 0,
     WitnessThreshold = 1, RecoverySwitchTimeoutNs = 0, NodeIdSize = 4, NumberOfBins = 1,
     GossipSampleSize = 0, EchoSampleSize = 0, EchoThreshold = 0, ReadySampleSize = 0, ReadyThreshold = 0,
     DeliverySampleSize = 0, DeliveryThreshold = 0, CleanUpTimeout = 0\<rparr>"

text \<open>Both nodes have reported to the server, and node 0 has asked itself to broadcast.\<close>

lemma pair_checked:
  "case run_play sample_marshal sample_unmarshal env (\<lambda>_. NewConsistent) mb pair_ps [p, q, r] {0, 1} {}
     [ToServer 0 0, ToServer 1 0, FromServer 0 0, Turn 0 5] of
     None \<Rightarrow> False
   | Some W \<Rightarrow> list_ex (\<lambda>(to, d). to = 0 \<and> (case sample_unmarshal (take BufferSize d) of None \<Rightarrow> False
       | Some m \<Rightarrow> Content m = BroadcastContent \<lparr>Value = 5, XHash = 0\<rparr> \<and>
           lookup2 (ac_receivedMessages (wd_nodes W 0)) (Sender m) (Stamp m) \<noteq> Some True)) (wd_sent W 0)"
  by code_simp

section \<open>Property\<close>

text \<open>
  C28: In the whole simulation of the consistent protocol with two or more processes nothing is ever
  sent, logged or delivered by a process: the first request to broadcast, and the first message of the
  protocol, from whomever it comes, makes the receive loop of the actor panic. \<open>initMessageState\<close>
  passes one history hash to a selection that reads one per process.
\<close>

theorem consistent_simulation_panics:
  assumes start: "sim_started sk marshal env parse files fl ''consistent_accountability'' ps C W0"
    and n: "2 \<le> ProcessCount ps" "ProcessCount ps < 2 ^ 31"
    and bins: "0 \<le> NodeIdSize ps" "NumberOfBins ps < 2 ^ 63" "NodeIdSize ps div NumberOfBins ps \<le> 62"
    and run: "wd_run marshal unmarshal (pr_HandleMessage env) (pr_Broadcast env) C F W0 W"
    and x: "x \<in> C"
  shows "nd_effects (wd_node W x) = [] \<and>
    (\<forall>d m. unmarshal (take BufferSize d) = Some m \<and> msg_key m \<notin> ac_seen (wd_nodes W x) \<and>
       ((\<exists>v. Content m = BroadcastContent v) \<or> (\<exists>bm. Content m = BroadcastInstanceContent bm)) \<longrightarrow>
      (\<exists>e. ac_receive unmarshal (nd_ProcessMessage marshal (pr_HandleMessage env) (pr_Broadcast env)) (wd_nodes W x)
        (take BufferSize d) = Inl e))"
proof -
  have W: "wd_untouched env C W" using wd_untouched_run[OF run consistent_started[OF start n bins]] .
  then have fails: "pr_fails env (nd_process (wd_node W x))" using x by (simp add: wd_untouched_def)
  let ?receive = "ac_receive unmarshal (nd_ProcessMessage marshal (pr_HandleMessage env) (pr_Broadcast env)) (wd_nodes W x)"
  have "\<exists>e. ?receive (take BufferSize d) = Inl e"
    if m: "unmarshal (take BufferSize d) = Some m" "msg_key m \<notin> ac_seen (wd_nodes W x)"
      and c: "(\<exists>v. Content m = BroadcastContent v) \<or> (\<exists>bm. Content m = BroadcastInstanceContent bm)" for d m
  proof (cases "?receive (take BufferSize d)")
    case (Inr r)
    obtain a h where r: "r = (a, h)" by (cases r)
    have "nd_ProcessMessage marshal (pr_HandleMessage env) (pr_Broadcast env) (wd_node W x) m = Inr (ac_instance a)"
      using Inr[unfolded r] by (cases rule: ac_receive_cases) (use m in auto)
    then show ?thesis using nd_ProcessMessage_fails(3,4)[OF fails] c by blast
  qed blast
  then show ?thesis using W x by (simp add: wd_untouched_def)
qed

theorem consistent_simulation_panics_witness:
  "\<forall>env. \<exists>W0 W d e. wd_run sample_marshal sample_unmarshal (pr_HandleMessage env) (pr_Broadcast env) {0, 1} {} W0 W \<and>
    (0, d) \<in> wd_wire {0, 1} W \<and>
    ac_receive sample_unmarshal (nd_ProcessMessage sample_marshal (pr_HandleMessage env) (pr_Broadcast env)) (wd_nodes W 0)
      (take BufferSize d) = Inl e"
proof
  fix env
  have n: "0 < ProcessCount pair_ps" "ProcessCount pair_ps < 2 ^ 31" "2 \<le> ProcessCount pair_ps" by (simp_all add: pair_ps_def)
  have mem: "members pair_ps = {0, 1}" by (simp add: members_def pair_ps_def procs_def upt_rec)
  obtain mb pids where len: "length pids = nat (ProcessCount pair_ps + 1)"
    and started: "\<And>W. run_world sample_marshal env (\<lambda>_. NewConsistent) mb pair_ps pids = Inr W \<Longrightarrow>
      sim_started mb_sample sample_marshal env (\<lambda>_. None) Map.empty sim_sample ''consistent_accountability'' pair_ps (members pair_ps) W"
    by (rule run_started[where marshal = sample_marshal and env = env and C = "members pair_ps" and parse = "\<lambda>_. None"
      and files = Map.empty and proto = "''consistent_accountability''" and np = "\<lambda>_. NewConsistent", OF n(1,2)])
      (auto simp: node_process_def)
  from len have "length pids = 3" by (simp add: pair_ps_def)
  then obtain p q r where pids: "pids = [p, q, r]" by (auto simp: numeral_3_eq_3 length_Suc_conv)
  obtain W d m where W: "run_play sample_marshal sample_unmarshal env (\<lambda>_. NewConsistent) mb pair_ps pids {0, 1} {}
      [ToServer 0 0, ToServer 1 0, FromServer 0 0, Turn 0 5] = Some W"
    and d: "(0, d) \<in> set (wd_sent W 0)" "sample_unmarshal (take BufferSize d) = Some m"
      "Content m = BroadcastContent \<lparr>Value = 5, XHash = 0\<rparr>" "msg_key m \<notin> ac_seen (wd_nodes W 0)"
    using pair_checked[of env mb p q r] unfolding pids
    by (auto simp: list_ex_iff ac_seen_def msg_key_def split: option.splits)
  obtain W0 where W0: "run_world sample_marshal env (\<lambda>_. NewConsistent) mb pair_ps pids = Inr W0"
    and run: "wd_run sample_marshal sample_unmarshal (pr_HandleMessage env) (pr_Broadcast env) (members pair_ps) {} W0 W"
    by (rule run_play_run[OF W]) (auto simp: mem)
  have "0 \<in> members pair_ps" by (simp add: mem)
  from consistent_simulation_panics[OF started[OF W0] n(3,2) _ _ _ run this] d(2-4)
  obtain e where "ac_receive sample_unmarshal (nd_ProcessMessage sample_marshal (pr_HandleMessage env) (pr_Broadcast env)) (wd_nodes W 0)
      (take BufferSize d) = Inl e" by (auto simp: pair_ps_def)
  moreover have "(0, d) \<in> wd_wire {0, 1} W" using d(1) by (auto simp: wd_wire_def)
  ultimately show "\<exists>W0 W d e. wd_run sample_marshal sample_unmarshal (pr_HandleMessage env) (pr_Broadcast env) {0, 1} {} W0 W \<and>
    (0, d) \<in> wd_wire {0, 1} W \<and>
    ac_receive sample_unmarshal (nd_ProcessMessage sample_marshal (pr_HandleMessage env) (pr_Broadcast env)) (wd_nodes W 0)
      (take BufferSize d) = Inl e" using run[unfolded mem] by blast
qed

end
