(* ===== verification/Event_Log.thy ===== *)
theory Event_Log
  imports Reliable_Context History_Hash Topology
begin

text \<open>
  \<open>impl/eventlogger/logger.go\<close>: the lines the program writes, and how \<open>logs_analyzer.py\<close> reads
  them. A method is the text it hands to Go's logger, which puts the date in front of it; \<open>now\<close> is
  the result of \<open>utils.GetNow\<close>. The protocol models report events (\<open>event\<close>, \<open>log_entry\<close>);
  \<open>event_text\<close> and \<open>entry_text\<close> are the calls they stand for.
\<close>

section \<open>Formatting\<close>

definition BroadcastInstance_ToString :: "BroadcastInstance \<Rightarrow> string" where
  "BroadcastInstance_ToString b = ''{'' @ Itoa (sint (Author b)) @ '';'' @ Itoa (sint (SeqNumber b)) @ ''}''"

text \<open>\<open>%v\<close> of a slice: its elements in brackets, with blanks between them.\<close>

definition format_slice :: "string list \<Rightarrow> string" where
  "format_slice xs = ''['' @ Join (CHR '' '') xs @ '']''"

definition HistoryHash_ToString :: "HistoryHash \<Rightarrow> string" where
  "HistoryHash_ToString hh = format_slice (map Itoa (vector (bins hh)))"

abbreviation newline :: char where "newline \<equiv> CHR 0x0A"

section \<open>The methods of the logger\<close>

record EventLogger =
  el_pid :: int32

definition InitEventLogger :: "int32 \<Rightarrow> EventLogger" where
  "InitEventLogger pid = \<lparr>el_pid = pid\<rparr>"

definition el_Println :: "string \<Rightarrow> string" where
  "el_Println msg = msg @ [newline]"

definition el_OnBroadcastStart :: "EventLogger \<Rightarrow> int \<Rightarrow> string" where
  "el_OnBroadcastStart el now =
     ''Starting broadcast: '' @ Itoa (sint (el_pid el)) @ '', timestamp: '' @ Itoa now @ [newline]"

definition el_OnSimulationStart :: "EventLogger \<Rightarrow> int \<Rightarrow> string" where
  "el_OnSimulationStart el now =
     ''Simulation started: '' @ Itoa (sint (el_pid el)) @ '', timestamp: '' @ Itoa now @ [newline]"

definition el_OnTransactionInit :: "int \<Rightarrow> BroadcastInstance \<Rightarrow> string" where
  "el_OnTransactionInit now b =
     ''Initialising transaction: '' @ BroadcastInstance_ToString b @ '', timestamp: '' @ Itoa now @ [newline]"

text \<open>The set is copied into a slice in the order the map is ranged over: \<open>pids\<close>.\<close>

definition el_OnWitnessSetSelected :: "int \<Rightarrow> string \<Rightarrow> BroadcastInstance \<Rightarrow> string list \<Rightarrow> string" where
  "el_OnWitnessSetSelected now wsType b pids =
     ''Witness set selected; type: '' @ wsType @ '', transaction: '' @ BroadcastInstance_ToString b @
     '', pids: '' @ format_slice pids @ '', timestamp: '' @ Itoa now @ [newline]"

definition el_OnRecoveryProtocolSwitch :: "int \<Rightarrow> BroadcastInstance \<Rightarrow> string" where
  "el_OnRecoveryProtocolSwitch now b =
     ''Switching to the recovery protocol; transaction: '' @ BroadcastInstance_ToString b @
     '', timestamp: '' @ Itoa now @ [newline]"

definition el_OnDeliver :: "int \<Rightarrow> BroadcastInstance \<Rightarrow> int32 \<Rightarrow> int \<Rightarrow> string" where
  "el_OnDeliver now b value messagesReceived =
     ''Delivered transaction: '' @ BroadcastInstance_ToString b @ '', value: '' @ Itoa (sint value) @
     '', messages received: '' @ Itoa messagesReceived @ '', timestamp: '' @ Itoa now @ [newline]"

definition el_OnHistoryUsedInWitnessSetSelection ::
  "int \<Rightarrow> BroadcastInstance \<Rightarrow> HistoryHash \<Rightarrow> string list \<Rightarrow> string" where
  "el_OnHistoryUsedInWitnessSetSelection now b historyHash deliveredMessagesHistory =
     ''Witness set selection; transaction: '' @ BroadcastInstance_ToString b @
     '', history hash: '' @ HistoryHash_ToString historyHash @
     '', history: '' @ format_slice deliveredMessagesHistory @ '', timestamp: '' @ Itoa now @ [newline]"

definition el_OnAttack :: "int \<Rightarrow> BroadcastInstance \<Rightarrow> int32 \<Rightarrow> int32 \<Rightarrow> string" where
  "el_OnAttack now b receivedValue committedValue =
     ''Detected a duplicated seq number attack; transaction: '' @ BroadcastInstance_ToString b @
     '', received value: '' @ Itoa (sint receivedValue) @ '', committed value: '' @ Itoa (sint committedValue) @
     '', timestamp: '' @ Itoa now @ [newline]"

definition el_OnMessageSent :: "EventLogger \<Rightarrow> int \<Rightarrow> int32 \<Rightarrow> string" where
  "el_OnMessageSent el now msgId =
     ''Sent message: {'' @ Itoa (sint (el_pid el)) @ '';'' @ Itoa (sint msgId) @ ''}, timestamp: '' @
     Itoa now @ [newline]"

definition el_OnMessageReceived :: "int \<Rightarrow> int32 \<Rightarrow> int32 \<Rightarrow> string" where
  "el_OnMessageReceived now senderPid msgId =
     ''Received message: {'' @ Itoa (sint senderPid) @ '';'' @ Itoa (sint msgId) @ ''}, timestamp: '' @
     Itoa now @ [newline]"

definition el_OnAckReceived :: "int32 \<Rightarrow> string" where
  "el_OnAckReceived msgId = ''Received ack: '' @ Itoa (sint msgId) @ [newline]"

definition el_OnStart :: "EventLogger \<Rightarrow> string" where
  "el_OnStart el = ''Process started: '' @ Itoa (sint (el_pid el)) @ [newline]"

definition el_OnStop :: "EventLogger \<Rightarrow> string" where
  "el_OnStop el = ''Process '' @ Itoa (sint (el_pid el)) @ '' is terminating'' @ [newline]"

text \<open>The calls behind the events of the protocols and the entries of contexts, actors and nodes.\<close>

fun event_text :: "int \<Rightarrow> event \<Rightarrow> string" where
  "event_text now (OnTransactionInit b) = el_OnTransactionInit now b"
| "event_text now (OnWitnessSetSelected wsType b pids) = el_OnWitnessSetSelected now wsType b pids"
| "event_text now (OnDeliver b v k) = el_OnDeliver now b v (int k)"
| "event_text now (OnAttack b v w) = el_OnAttack now b v w"
| "event_text now (OnHashMismatch expected actual) =
     el_Println (''X hash mismatch: delivered: '' @ Itoa (sint expected) @ '', received: '' @ Itoa (sint actual) @ [newline])"

fun entry_text :: "EventLogger \<Rightarrow> int \<Rightarrow> log_entry \<Rightarrow> string" where
  "entry_text el now (OnMessageSent k) = el_OnMessageSent el now k"
| "entry_text el now (OnMessageReceived s k) = el_OnMessageReceived now s k"
| "entry_text el now OnBroadcastStart = el_OnBroadcastStart el now"
| "entry_text el now OnSimulationStart = el_OnSimulationStart el now"

text \<open>The line with which \<open>main\<close> of \<open>simulation/node/main.go\<close> begins every log of a process.\<close>

definition main_Running :: "string \<Rightarrow> string" where
  "main_Running protocol = ''Running protocol: '' @ protocol @ [newline]"

text \<open>\<open>log.Fatal\<close>: a line break is added when the message has none at its end.\<close>

definition fatal_text :: "string \<Rightarrow> string" where
  "fatal_text msg = (if msg \<noteq> [] \<and> last msg = newline then msg else msg @ [newline])"

section \<open>Reading a line\<close>

text \<open>\<open>str.split\<close> with a separator of two characters, \<open>str.strip(" \n")\<close> and \<open>str.isalpha\<close> for ASCII.\<close>

fun split2 :: "char \<Rightarrow> char \<Rightarrow> string \<Rightarrow> string list" where
  "split2 a b [] = [[]]"
| "split2 a b [c] = [[c]]"
| "split2 a b (c # d # s) = (if c = a \<and> d = b then [] # split2 a b s
     else case split2 a b (d # s) of [] \<Rightarrow> [[c]] | w # ws \<Rightarrow> (c # w) # ws)"

definition strip :: "string \<Rightarrow> string" where
  "strip s = (let blank = (\<lambda>c. c = CHR '' '' \<or> c = newline) in rev (dropWhile blank (rev (dropWhile blank s))))"

definition is_alpha :: "char \<Rightarrow> bool" where
  "is_alpha c = (let k = (of_char c :: nat) in 65 \<le> k \<and> k \<le> 90 \<or> 97 \<le> k \<and> k \<le> 122)"

definition drop_date :: "string \<Rightarrow> string" where
  "drop_date line = dropWhile (\<lambda>c. \<not> is_alpha c) line"

text \<open>An element without the separator makes Python raise: \<open>IndexOutOfRange\<close>.\<close>

definition parse_data_from_logged_line :: "string \<Rightarrow> string list go" where
  "parse_data_from_logged_line line =
     go_map (\<lambda>elem. go_index (split2 (CHR '':'') (CHR '' '') elem) 1) (split2 (CHR '','') (CHR '' '') line)"

definition log_prefixes :: "string list" where
  "log_prefixes = [''Sent message'', ''Received message'', ''Initialising transaction'',
     ''Delivered transaction'', ''Witness set selected'', ''Witness set selection'', ''Simulation started'']"

definition get_log_line_prefix :: "string \<Rightarrow> string" where
  "get_log_line_prefix line = (case find (\<lambda>p. take (length p) line = p) log_prefixes of None \<Rightarrow> [] | Some p \<Rightarrow> p)"

text \<open>What the analyzer makes of a line of a log file: its kind and its data.\<close>

definition analyze_line :: "string \<Rightarrow> (string \<times> string list) option go" where
  "analyze_line raw =
     (let line = drop_date (strip raw); prefix = get_log_line_prefix line in
      if prefix = [] then Inr None
      else go_bind (parse_data_from_logged_line line) (\<lambda>data. Inr (Some (prefix, data))))"

text \<open>The elements of a formatted slice, as the analyzer recovers them.\<close>

definition read_slice :: "string \<Rightarrow> string list" where
  "read_slice s = (let inner = butlast (tl s) in if inner = [] then [] else Split (CHR '' '') inner)"

section \<open>Lines are fields\<close>

fun fields_text :: "(string \<times> string) list \<Rightarrow> string" where
  "fields_text [] = []"
| "fields_text [(k, v)] = k @ '': '' @ v"
| "fields_text ((k, v) # fs) = k @ '': '' @ v @ '', '' @ fields_text fs"

text \<open>\<open>w\<close> holds no separator, and does not end in its first character.\<close>

definition unsplit :: "char \<Rightarrow> char \<Rightarrow> string \<Rightarrow> bool" where
  "unsplit a b w \<longleftrightarrow> split2 a b w = [w] \<and> (w = [] \<or> last w \<noteq> a)"

lemma split2_absent: "a \<notin> set w \<Longrightarrow> split2 a b w = [w]"
  by (induction a b w rule: split2.induct) auto

lemma unsplit_absent: "a \<notin> set w \<Longrightarrow> unsplit a b w"
  by (auto simp: unsplit_def split2_absent)

lemma split2_nonempty: "split2 a b w \<noteq> []"
  by (induction a b w rule: split2.induct) (auto split: list.splits)

lemma split2_pair [simp]: "split2 a b (a # b # s) = [] # split2 a b s"
  by simp

lemma split2_step: "\<not> (c = a \<and> s \<noteq> [] \<and> hd s = b) \<Longrightarrow> split2 a b (c # s) = (c # hd (split2 a b s)) # tl (split2 a b s)"
  by (cases s) (auto split: list.splits simp: split2_nonempty)

lemma unsplit_Cons: "unsplit a b (c # w) \<Longrightarrow> unsplit a b w \<and> \<not> (c = a \<and> (w = [] \<or> hd w = b))"
  by (cases w) (auto simp: unsplit_def split: if_splits list.splits)

lemma unsplit_append:
  assumes "unsplit a b v"
  shows "split2 a b (v @ s) = (v @ hd (split2 a b s)) # tl (split2 a b s)"
  using assms
proof (induction v)
  case Nil
  then show ?case by (simp add: split2_nonempty)
next
  case (Cons c v)
  have v: "unsplit a b v" "\<not> (c = a \<and> (v = [] \<or> hd v = b))"
    using unsplit_Cons[OF Cons.prems] by blast+
  then have "split2 a b (c # v @ s) = (c # hd (split2 a b (v @ s))) # tl (split2 a b (v @ s))"
    by (intro split2_step) (auto simp: hd_append split: if_splits)
  then show ?case using Cons.IH[OF v(1)] by simp
qed

lemma split2_field: "unsplit a b v \<Longrightarrow> split2 a b (v @ a # b # s) = v # split2 a b s"
  by (simp add: unsplit_append)

lemma unsplit_appendI: "unsplit a b v \<Longrightarrow> unsplit a b w \<Longrightarrow> unsplit a b (v @ w)"
  using unsplit_append[of a b v w] by (auto simp: unsplit_def last_append)

lemma unsplit_Join:
  assumes "\<And>w. w \<in> set ws \<Longrightarrow> unsplit a b w" and "sep \<noteq> a"
  shows "unsplit a b (Join sep ws)"
  using assms
proof (induction sep ws rule: Join.induct)
  case (3 sep w v ws)
  have "unsplit a b ([sep] @ Join sep (v # ws))"
    by (rule unsplit_appendI[OF unsplit_absent]) (use 3 in auto)
  then show ?case using 3(2) by (auto intro!: unsplit_appendI)
qed (auto simp: unsplit_absent)

lemma unsplit_no_blank: "b \<notin> set w \<Longrightarrow> w = [] \<or> last w \<noteq> a \<Longrightarrow> unsplit a b w"
  unfolding unsplit_def by (induction a b w rule: split2.induct) (auto split: if_splits)

definition field_ok :: "string \<times> string \<Rightarrow> bool" where
  "field_ok f \<longleftrightarrow> CHR '','' \<notin> set (fst f) \<and> CHR '':'' \<notin> set (fst f) \<and> CHR '','' \<notin> set (snd f) \<and>
     unsplit (CHR '':'') (CHR '' '') (snd f)"

lemma split2_fields:
  "fs \<noteq> [] \<Longrightarrow> \<forall>f\<in>set fs. field_ok f \<Longrightarrow>
   split2 (CHR '','') (CHR '' '') (fields_text fs) = map (\<lambda>(k, v). k @ '': '' @ v) fs"
proof (induction fs rule: fields_text.induct)
  case (2 k v)
  then show ?case by (simp add: field_ok_def split2_absent)
next
  case (3 k v f fs)
  have "unsplit (CHR '','') (CHR '' '') (k @ '': '' @ v)" using 3(3) by (intro unsplit_absent) (simp add: field_ok_def)
  from split2_field[OF this, of "fields_text (f # fs)"] show ?case using 3 by simp
qed simp

lemma parse_fields:
  assumes "fs \<noteq> []" "\<forall>f\<in>set fs. field_ok f"
  shows "parse_data_from_logged_line (fields_text fs) = Inr (map snd fs)"
proof -
  have "split2 (CHR '':'') (CHR '' '') (k @ '': '' @ v) = [k, v]" if "(k, v) \<in> set fs" for k v
    using assms(2) that split2_field[OF unsplit_absent, of "CHR '':''" k "CHR '' ''" v]
    by (auto simp: field_ok_def unsplit_def)
  then have "go_map (\<lambda>elem. go_index (split2 (CHR '':'') (CHR '' '') elem) 1) (map (\<lambda>(k, v). k @ '': '' @ v) fs) =
      Inr (map (\<lambda>elem. split2 (CHR '':'') (CHR '' '') elem ! 1) (map (\<lambda>(k, v). k @ '': '' @ v) fs))"
    by (intro go_map_Inr_I) (auto simp: go_index_def)
  also have "map (\<lambda>elem. split2 (CHR '':'') (CHR '' '') elem ! 1) (map (\<lambda>(k, v). k @ '': '' @ v) fs) = map snd fs"
    using \<open>\<And>v k. (k, v) \<in> set fs \<Longrightarrow> split2 (CHR '':'') (CHR '' '') (k @ '': '' @ v) = [k, v]\<close> by auto
  finally show ?thesis by (simp add: parse_data_from_logged_line_def split2_fields[OF assms])
qed

text \<open>The date in front of a line and the line breaks at its end are dropped.\<close>

lemma drop_date_strip:
  assumes date: "\<forall>c\<in>set date. \<not> is_alpha c" and t: "t \<noteq> []" "is_alpha (hd t)" "last t \<noteq> CHR '' ''" "last t \<noteq> newline"
    and end_of_line: "\<forall>c\<in>set breaks. c = newline"
  shows "drop_date (strip (date @ t @ breaks)) = t"
proof -
  let ?blank = "\<lambda>c. c = CHR '' '' \<or> c = newline"
  have hd: "\<not> ?blank (hd t)" using t(2) by (auto simp: is_alpha_def)
  have "dropWhile ?blank (date @ t @ breaks) = dropWhile ?blank date @ t @ breaks"
    using hd t(1) by (cases t) (auto simp: dropWhile_append dropWhile_eq_Nil_conv)
  moreover have "dropWhile ?blank (rev breaks @ rev t @ s) = rev t @ s" for s
  proof -
    have "dropWhile ?blank (rev breaks @ rev t @ s) = dropWhile ?blank (rev t @ s)"
      using end_of_line by (intro dropWhile_append2) simp
    moreover obtain c u where "t = u @ [c]" using t(1) by (metis rev_exhaust)
    ultimately show ?thesis using t(3,4) by simp
  qed
  ultimately have "strip (date @ t @ breaks) = dropWhile ?blank date @ t"
    by (simp add: strip_def Let_def)
  moreover have "dropWhile (\<lambda>c. \<not> is_alpha c) (dropWhile ?blank date @ t) = dropWhile (\<lambda>c. \<not> is_alpha c) t"
    using date by (intro dropWhile_append2) (auto dest: set_dropWhileD)
  ultimately show ?thesis using t by (cases t) (simp_all add: drop_date_def)
qed

section \<open>The lines of the program\<close>

lemma Itoa_codes: "c \<in> set (Itoa k) \<Longrightarrow> of_char c = (45 :: nat) \<or> 48 \<le> (of_char c :: nat) \<and> (of_char c :: nat) \<le> 57"
proof -
  assume "c \<in> set (Itoa k)"
  then consider "c = CHR ''-''" | n where "c \<in> set (decimal n)" by (auto simp: Itoa_def split: if_splits)
  then show ?thesis
  proof cases
    case (2 n)
    then obtain d where "d < 10" "c = digit_char d" using decimal_chars by blast
    then show ?thesis using digit_char_less[of d] by simp
  qed simp
qed

lemma Itoa_nonempty: "Itoa k \<noteq> []"
  by (simp add: Itoa_def decimal_nonempty)

lemma Itoa_not [simp]:
  "CHR '','' \<notin> set (Itoa k)" "CHR '':'' \<notin> set (Itoa k)" "CHR '' '' \<notin> set (Itoa k)" "CHR '';'' \<notin> set (Itoa k)"
  "newline \<notin> set (Itoa k)" "CHR ''}'' \<notin> set (Itoa k)"
  using Itoa_codes[of _ k] by force+

lemma last_Itoa: "last (Itoa k) \<noteq> CHR '' ''" "last (Itoa k) \<noteq> newline"
  using last_in_set[OF Itoa_nonempty, of k] Itoa_not[of k] by metis+

lemma Itoa_inject: "- (2 ^ 63) \<le> i \<Longrightarrow> i < 2 ^ 63 \<Longrightarrow> - (2 ^ 63) \<le> j \<Longrightarrow> j < 2 ^ 63 \<Longrightarrow> Itoa i = Itoa j \<longleftrightarrow> i = j"
  by (metis Atoi_Itoa option.inject)

lemma Itoa_sint_inject: "Itoa (sint (a :: int32)) = Itoa (sint b) \<longleftrightarrow> a = b"
  using sint_greater_eq[of a] sint_less[of a] sint_greater_eq[of b] sint_less[of b] Itoa_inject[of "sint a" "sint b"]
  by (auto intro: signed_word_eqI)

text \<open>\<open>{i;k}\<close> names a transaction or a message uniquely.\<close>

definition pair_text :: "int32 \<Rightarrow> int32 \<Rightarrow> string" where
  "pair_text i k = ''{'' @ Itoa (sint i) @ '';'' @ Itoa (sint k) @ ''}''"

lemma pair_text_inject: "pair_text i k = pair_text i' k' \<longleftrightarrow> i = i' \<and> k = k'"
proof
  assume "pair_text i k = pair_text i' k'"
  then have "Split (CHR '';'') (Itoa (sint i) @ CHR '';'' # Itoa (sint k)) =
      Split (CHR '';'') (Itoa (sint i') @ CHR '';'' # Itoa (sint k'))"
    by (simp add: pair_text_def)
  then show "i = i' \<and> k = k'" by (simp add: Split_Cons Split_none Itoa_sint_inject)
qed simp

lemma ToString_pair: "BroadcastInstance_ToString b = pair_text (Author b) (SeqNumber b)"
  by (simp add: BroadcastInstance_ToString_def pair_text_def)

lemma pair_text_ok: "CHR '','' \<notin> set (pair_text i k)" "CHR '':'' \<notin> set (pair_text i k)"
  by (simp_all add: pair_text_def)

text \<open>An address as a field value: no comma and no blank in it, and no colon at its end.\<close>

definition plain_pid :: "string \<Rightarrow> bool" where
  "plain_pid pid \<longleftrightarrow> pid \<noteq> [] \<and> CHR '','' \<notin> set pid \<and> CHR '' '' \<notin> set pid \<and> last pid \<noteq> CHR '':''"

lemma set_Join: "set (Join sep ws) \<subseteq> insert sep (\<Union> (set ` set ws))"
  by (induction sep ws rule: Join.induct) auto

lemma format_slice_ok:
  assumes "\<forall>pid\<in>set pids. plain_pid pid"
  shows "field_ok (k, format_slice pids) \<longleftrightarrow> CHR '','' \<notin> set k \<and> CHR '':'' \<notin> set k"
    and "read_slice (format_slice pids) = pids"
proof -
  have "unsplit (CHR '':'') (CHR '' '') (Join (CHR '' '') pids)"
    by (rule unsplit_Join) (use assms in \<open>auto simp: plain_pid_def intro!: unsplit_no_blank\<close>)
  then have "unsplit (CHR '':'') (CHR '' '') (''['' @ Join (CHR '' '') pids @ '']'')"
    by (intro unsplit_appendI) (simp_all add: unsplit_absent)
  moreover have "CHR '','' \<notin> set (Join (CHR '' '') pids)"
    using set_Join[of "CHR '' ''" pids] assms by (auto simp: plain_pid_def)
  ultimately show "field_ok (k, format_slice pids) \<longleftrightarrow> CHR '','' \<notin> set k \<and> CHR '':'' \<notin> set k"
    by (auto simp: field_ok_def format_slice_def)
  have "Join (CHR '' '') pids = [] \<longleftrightarrow> pids = []"
    using assms by (induction "CHR '' ''" pids rule: Join.induct) (auto simp: plain_pid_def)
  moreover have "pids \<noteq> [] \<Longrightarrow> Split (CHR '' '') (Join (CHR '' '') pids) = pids"
    by (rule Split_Join) (use assms in \<open>auto simp: plain_pid_def\<close>)
  ultimately show "read_slice (format_slice pids) = pids"
    by (auto simp: read_slice_def format_slice_def Let_def butlast_append)
qed

text \<open>A line of fields whose last one is a number: the analyzer gets the values back.\<close>

lemma fields_text_snoc:
  "fs \<noteq> [] \<Longrightarrow> fields_text (fs @ [(k, v)]) = fields_text fs @ '', '' @ k @ '': '' @ v"
  by (induction fs rule: fields_text.induct) auto

lemma analyze_fields:
  assumes date: "\<forall>c\<in>set date. \<not> is_alpha c" and ok: "\<forall>f\<in>set fs. field_ok f" and fs: "fs = (k, v) # fs'"
    and alpha: "k \<noteq> [] \<and> is_alpha (hd k)" and prefix: "get_log_line_prefix (fields_text (fs @ [(''timestamp'', Itoa now)])) = p"
  shows "analyze_line (date @ fields_text (fs @ [(''timestamp'', Itoa now)]) @ [newline]) =
    (if p = [] then Inr None else Inr (Some (p, map snd fs @ [Itoa now])))"
proof -
  let ?t = "fields_text (fs @ [(''timestamp'', Itoa now)])"
  have snoc: "?t = fields_text fs @ '', '' @ ''timestamp'' @ '': '' @ Itoa now" by (rule fields_text_snoc) (simp add: fs)
  have "take (length k) (fields_text fs) = k" by (cases fs') (auto simp: fs)
  then have "hd ?t = hd k" using alpha snoc by (cases k; cases "fields_text fs") auto
  moreover have "last ?t = last (Itoa now)" by (simp add: snoc Itoa_nonempty)
  ultimately have "drop_date (strip (date @ ?t @ [newline])) = ?t"
    using alpha last_Itoa[of now] by (intro drop_date_strip[OF date]) (simp_all add: snoc)
  moreover have "parse_data_from_logged_line ?t = Inr (map snd (fs @ [(''timestamp'', Itoa now)]))"
    by (rule parse_fields) (use ok in \<open>auto simp: field_ok_def unsplit_absent\<close>)
  ultimately show ?thesis using prefix by (simp add: analyze_line_def Let_def)
qed

lemma analyze_texts:
  assumes date: "\<forall>c\<in>set date. \<not> is_alpha c"
  shows "analyze_line (date @ event_text now (OnTransactionInit b)) =
      Inr (Some (''Initialising transaction'', [BroadcastInstance_ToString b, Itoa now]))"
    and "analyze_line (date @ event_text now (OnDeliver b v k)) =
      Inr (Some (''Delivered transaction'', [BroadcastInstance_ToString b, Itoa (sint v), Itoa (int k), Itoa now]))"
    and "analyze_line (date @ entry_text el now OnSimulationStart) =
      Inr (Some (''Simulation started'', [Itoa (sint (el_pid el)), Itoa now]))"
    and "analyze_line (date @ entry_text el now (OnMessageSent st)) =
      Inr (Some (''Sent message'', [pair_text (el_pid el) st, Itoa now]))"
    and "analyze_line (date @ entry_text el now (OnMessageReceived s st)) =
      Inr (Some (''Received message'', [pair_text s st, Itoa now]))"
  using analyze_fields[OF date, where fs = "[(''Initialising transaction'', BroadcastInstance_ToString b)]" and now = now, OF _ refl _ refl]
    analyze_fields[OF date, where fs = "[(''Delivered transaction'', BroadcastInstance_ToString b), (''value'', Itoa (sint v)),
      (''messages received'', Itoa (int k))]" and now = now, OF _ refl _ refl]
    analyze_fields[OF date, where fs = "[(''Simulation started'', Itoa (sint (el_pid el)))]" and now = now, OF _ refl _ refl]
    analyze_fields[OF date, where fs = "[(''Sent message'', pair_text (el_pid el) st)]" and now = now, OF _ refl _ refl]
    analyze_fields[OF date, where fs = "[(''Received message'', pair_text s st)]" and now = now, OF _ refl _ refl]
  by (simp_all add: field_ok_def unsplit_absent ToString_pair pair_text_ok is_alpha_def get_log_line_prefix_def log_prefixes_def
      el_OnTransactionInit_def el_OnDeliver_def el_OnSimulationStart_def el_OnMessageSent_def el_OnMessageReceived_def
      pair_text_def)

lemma analyze_witness_set:
  assumes date: "\<forall>c\<in>set date. \<not> is_alpha c" and pids: "\<forall>pid\<in>set pids. plain_pid pid"
    and ty: "CHR '','' \<notin> set wsType" "CHR '':'' \<notin> set wsType"
  shows "analyze_line (date @ event_text now (OnWitnessSetSelected wsType b pids)) =
    Inr (Some (''Witness set selected'', [wsType, BroadcastInstance_ToString b, format_slice pids, Itoa now]))"
  using analyze_fields[OF date, where fs = "[(''Witness set selected; type'', wsType), (''transaction'', BroadcastInstance_ToString b),
      (''pids'', format_slice pids)]" and now = now, OF _ refl _ refl] format_slice_ok(1)[OF pids, of "''pids''"] ty
  by (simp add: field_ok_def unsplit_absent ToString_pair pair_text_ok is_alpha_def get_log_line_prefix_def log_prefixes_def
      el_OnWitnessSetSelected_def)

lemma analyze_ignored:
  assumes date: "\<forall>c\<in>set date. \<not> is_alpha c"
  shows "analyze_line (date @ event_text now (OnAttack b v w)) = Inr None"
    and "analyze_line (date @ entry_text el now OnBroadcastStart) = Inr None"
    and "analyze_line (date @ event_text now (OnHashMismatch x y)) = Inr None"
proof -
  show "analyze_line (date @ event_text now (OnAttack b v w)) = Inr None"
    "analyze_line (date @ entry_text el now OnBroadcastStart) = Inr None"
    using analyze_fields[OF date, where fs = "[(''Detected a duplicated seq number attack; transaction'', BroadcastInstance_ToString b),
        (''received value'', Itoa (sint v)), (''committed value'', Itoa (sint w))]" and now = now, OF _ refl _ refl]
      analyze_fields[OF date, where fs = "[(''Starting broadcast'', Itoa (sint (el_pid el)))]" and now = now, OF _ refl _ refl]
    by (simp_all add: field_ok_def unsplit_absent ToString_pair pair_text_ok is_alpha_def get_log_line_prefix_def
        log_prefixes_def el_OnAttack_def el_OnBroadcastStart_def)
  let ?t = "''X hash mismatch: delivered: '' @ Itoa (sint x) @ '', received: '' @ Itoa (sint y)"
  have "drop_date (strip (date @ ?t @ [newline, newline])) = ?t"
    using last_Itoa[of "sint y"] by (intro drop_date_strip[OF date]) (simp_all add: is_alpha_def Itoa_nonempty)
  then show "analyze_line (date @ event_text now (OnHashMismatch x y)) = Inr None"
    by (simp add: analyze_line_def Let_def el_Println_def get_log_line_prefix_def log_prefixes_def)
qed

lemma analyze_running:
  assumes date: "\<forall>c\<in>set date. \<not> is_alpha c" and p: "p \<noteq> []" "last p \<noteq> CHR '' ''" "last p \<noteq> newline"
  shows "analyze_line (date @ main_Running p) = Inr None"
proof -
  have "drop_date (strip (date @ (''Running protocol: '' @ p) @ [newline])) = ''Running protocol: '' @ p"
    using p by (intro drop_date_strip[OF date]) (simp_all add: is_alpha_def)
  then show ?thesis
    by (simp add: analyze_line_def Let_def main_Running_def get_log_line_prefix_def log_prefixes_def)
qed

text \<open>The report of a hash mismatch ends in two line breaks: it is a line and an empty one.\<close>

lemma analyze_mismatch:
  assumes date: "\<forall>c\<in>set date. \<not> is_alpha c"
  shows "analyze_line (date @ ''X hash mismatch: delivered: '' @ Itoa x @ '', received: '' @ Itoa y @ [newline]) = Inr None"
    and "analyze_line [newline] = Inr None"
proof -
  let ?t = "''X hash mismatch: delivered: '' @ Itoa x @ '', received: '' @ Itoa y"
  have "drop_date (strip (date @ ?t @ [newline])) = ?t"
    using last_Itoa[of y] by (intro drop_date_strip[OF date]) (simp_all add: is_alpha_def Itoa_nonempty)
  then show "analyze_line (date @ ''X hash mismatch: delivered: '' @ Itoa x @ '', received: '' @ Itoa y @ [newline]) = Inr None"
    by (simp add: analyze_line_def Let_def get_log_line_prefix_def log_prefixes_def)
  show "analyze_line [newline] = Inr None" by code_simp
qed

section \<open>Property\<close>

text \<open>
  C40: What the program logs is what the analyzer reads. Whatever stands in front of a line, as long
  as it holds no letter, the analyzer recognises the lines about transactions, deliveries, witness
  sets, messages and the start of the simulation, and gets their data back: the transaction or the
  message, the value, the number of messages, the witnesses in order, and the time; the other lines
  of the protocols are skipped. Different transactions have different names in the log, and a number
  is read back as it was written.
\<close>

theorem log_lines_read:
  assumes date: "\<forall>c\<in>set date. \<not> is_alpha c"
    and pids: "\<forall>pid\<in>set pids. plain_pid pid" and ty: "wsType = ''own'' \<or> wsType = ''pot''"
    and now: "0 \<le> now" "now < 2 ^ 63"
  shows "analyze_line (date @ event_text now (OnTransactionInit b)) =
      Inr (Some (''Initialising transaction'', [BroadcastInstance_ToString b, Itoa now])) \<and>
    analyze_line (date @ event_text now (OnDeliver b v k)) =
      Inr (Some (''Delivered transaction'', [BroadcastInstance_ToString b, Itoa (sint v), Itoa (int k), Itoa now])) \<and>
    analyze_line (date @ event_text now (OnWitnessSetSelected wsType b pids)) =
      Inr (Some (''Witness set selected'', [wsType, BroadcastInstance_ToString b, format_slice pids, Itoa now])) \<and>
    read_slice (format_slice pids) = pids \<and>
    analyze_line (date @ event_text now (OnAttack b v w)) = Inr None \<and>
    analyze_line (date @ event_text now (OnHashMismatch x y)) = Inr None \<and>
    analyze_line (date @ entry_text el now (OnMessageSent st)) = Inr (Some (''Sent message'', [pair_text (el_pid el) st, Itoa now])) \<and>
    analyze_line (date @ entry_text el now (OnMessageReceived s st)) = Inr (Some (''Received message'', [pair_text s st, Itoa now])) \<and>
    analyze_line (date @ entry_text el now OnSimulationStart) =
      Inr (Some (''Simulation started'', [Itoa (sint (el_pid el)), Itoa now])) \<and>
    analyze_line (date @ entry_text el now OnBroadcastStart) = Inr None \<and>
    (BroadcastInstance_ToString b = BroadcastInstance_ToString b' \<longleftrightarrow> b = b') \<and>
    (pair_text s st = pair_text s' st' \<longleftrightarrow> s = s' \<and> st = st') \<and> Atoi (Itoa now) = Some now"
proof -
  have "BroadcastInstance_ToString b = BroadcastInstance_ToString b' \<longleftrightarrow> b = b'"
    by (auto simp: ToString_pair pair_text_inject)
  moreover have "CHR '','' \<notin> set wsType" "CHR '':'' \<notin> set wsType" using ty by auto
  ultimately show ?thesis
    using analyze_texts[OF date] analyze_ignored[OF date] analyze_witness_set[OF date pids]
      format_slice_ok(2)[OF pids] pair_text_inject Atoi_Itoa[of now] now by (intro conjI) simp_all
qed

text \<open>A line as Go's logger writes it, with a witness set of two addresses.\<close>

theorem log_lines_read_witness:
  "analyze_line (''2023/05/02 10:00:00 '' @ event_text 7 (OnWitnessSetSelected ''own'' \<lparr>Author = 1, SeqNumber = 0\<rparr>
      [''10.0.0.1:5001'', ''10.0.0.2:5002''])) =
    Inr (Some (''Witness set selected'', [''own'', BroadcastInstance_ToString \<lparr>Author = 1, SeqNumber = 0\<rparr>,
      format_slice [''10.0.0.1:5001'', ''10.0.0.2:5002''], Itoa 7])) \<and>
   read_slice (format_slice [''10.0.0.1:5001'', ''10.0.0.2:5002'']) = [''10.0.0.1:5001'', ''10.0.0.2:5002'']"
proof -
  have d: "\<forall>c\<in>set ''2023/05/02 10:00:00 ''. \<not> is_alpha c" by (simp add: is_alpha_def)
  have p: "\<forall>pid\<in>set [''10.0.0.1:5001'', ''10.0.0.2:5002'']. plain_pid pid" by (simp add: plain_pid_def)
  show ?thesis
    using log_lines_read[OF d p, of "''own''" 7 "\<lparr>Author = 1, SeqNumber = 0\<rparr>"] by simp
qed

end
