(* ===== verification/Log_Statistics.thy ===== *)
theory Log_Statistics
  imports Event_Log "HOL-Library.AList"
begin

text \<open>
  \<open>logs_analyzer.py\<close>: what it collects from the log files of the processes and the statistics it
  computes. A dictionary of Python is an association list in the order of insertion. An exception
  that ends the script is a failure: \<open>IndexOutOfRange\<close> for \<open>IndexError\<close>, \<open>DivideByZero\<close>
  for \<open>ZeroDivisionError\<close> and \<open>FatalExit\<close> for every other kind. Floats are modelled by reals.
\<close>

section \<open>Collecting\<close>

record TransactionInitInfo =
  ti_process_id :: nat
  ti_init_timestamp :: int

record TransactionCommitInfo =
  tc_process_id :: nat
  tc_received_messages_cnt :: int
  tc_commit_timestamp :: int

record log_data =
  ld_sent_messages :: "(string \<times> int) list"
  ld_received_messages :: "(string \<times> int) list"
  ld_transaction_inits :: "(string \<times> TransactionInitInfo) list"
  ld_transaction_commit_infos :: "(string \<times> TransactionCommitInfo list) list"
  ld_transaction_histories :: "(string \<times> string set list) list"
  ld_own_witness_sets :: "(string \<times> string set list) list"
  ld_pot_witness_sets :: "(string \<times> string set list) list"
  ld_simulation_start :: "int option"
  ld_simulation_end :: "int option"

definition no_data :: log_data where
  "no_data = \<lparr>ld_sent_messages = [], ld_received_messages = [], ld_transaction_inits = [], ld_transaction_commit_infos = [],
     ld_transaction_histories = [], ld_own_witness_sets = [], ld_pot_witness_sets = [],
     ld_simulation_start = None, ld_simulation_end = None\<rparr>"

text \<open>\<open>int(s)\<close> on a sign and digits; blanks and underscores do not occur in the data.\<close>

definition py_int :: "string \<Rightarrow> int go" where
  "py_int s =
     (let (neg, ds) = (case s of [] \<Rightarrow> (False, [])
        | c # cs \<Rightarrow> if c = CHR ''-'' then (True, cs) else if c = CHR ''+'' then (False, cs) else (False, s))
      in if ds = [] then Inl FatalExit
         else case digits_value 0 ds of None \<Rightarrow> Inl FatalExit | Some v \<Rightarrow> Inr (if neg then - int v else int v))"

definition dict_append :: "string \<Rightarrow> 'v \<Rightarrow> (string \<times> 'v list) list \<Rightarrow> (string \<times> 'v list) list" where
  "dict_append k v d = AList.update k ((case map_of d k of None \<Rightarrow> [] | Some vs \<Rightarrow> vs) @ [v]) d"

text \<open>The set between square brackets, which are asserted.\<close>

definition read_set :: "string \<Rightarrow> string set go" where
  "read_set s = (if s = [] then Inl IndexOutOfRange
     else if hd s = CHR ''['' \<and> last s = CHR '']'' then Inr (set (read_slice s)) else Inl FatalExit)"

definition earlier :: "int option \<Rightarrow> int \<Rightarrow> int option" where
  "earlier old t = (case old of None \<Rightarrow> Some t | Some s \<Rightarrow> Some (if t < s then t else s))"

definition later :: "int option \<Rightarrow> int \<Rightarrow> int option" where
  "later old t = (case old of None \<Rightarrow> Some t | Some s \<Rightarrow> Some (if t > s then t else s))"

definition collect_line :: "nat \<Rightarrow> log_data \<Rightarrow> string \<Rightarrow> log_data go" where
  "collect_line process_id d0 raw = go_bind (analyze_line raw) (\<lambda>r. case r of
     None \<Rightarrow> Inr d0
   | Some (kind, data) \<Rightarrow>
       go_bind (go_index data (int (length data) - 1)) (\<lambda>ts.
       go_bind (py_int ts) (\<lambda>timestamp.
       let d = d0\<lparr>ld_simulation_end := later (ld_simulation_end d0) timestamp\<rparr> in
       go_bind (go_index data 0) (\<lambda>key.
       if kind = ''Simulation started'' then
         Inr (d\<lparr>ld_simulation_start := earlier (ld_simulation_start d) timestamp\<rparr>)
       else if kind = ''Sent message'' then
         Inr (d\<lparr>ld_sent_messages := AList.update key timestamp (ld_sent_messages d)\<rparr>)
       else if kind = ''Received message'' then
         Inr (d\<lparr>ld_received_messages := AList.update key timestamp (ld_received_messages d)\<rparr>)
       else if kind = ''Initialising transaction'' then
         Inr (d\<lparr>ld_transaction_inits := AList.update key
           \<lparr>ti_process_id = process_id, ti_init_timestamp = timestamp\<rparr> (ld_transaction_inits d)\<rparr>)
       else if kind = ''Delivered transaction'' then
         go_bind (go_index data 2) (\<lambda>c. go_bind (py_int c) (\<lambda>received_messages_cnt.
           Inr (d\<lparr>ld_transaction_commit_infos := dict_append key
             \<lparr>tc_process_id = process_id, tc_received_messages_cnt = received_messages_cnt, tc_commit_timestamp = timestamp\<rparr>
             (ld_transaction_commit_infos d)\<rparr>)))
       else if kind = ''Witness set selection'' then
         go_bind (go_index data 2) (\<lambda>h. go_bind (read_set h) (\<lambda>history.
           Inr (d\<lparr>ld_transaction_histories := dict_append key history (ld_transaction_histories d)\<rparr>)))
       else
         go_bind (go_index data 1) (\<lambda>transaction.
         go_bind (go_index data 2) (\<lambda>p. go_bind (read_set p) (\<lambda>pids.
           if key = ''own'' then Inr (d\<lparr>ld_own_witness_sets := dict_append transaction pids (ld_own_witness_sets d)\<rparr>)
           else if key = ''pot'' then Inr (d\<lparr>ld_pot_witness_sets := dict_append transaction pids (ld_pot_witness_sets d)\<rparr>)
           else Inl FatalExit)))))))"

text \<open>What iterating over a text file yields: its lines, each with its line break.\<close>

fun py_lines :: "string \<Rightarrow> string list" where
  "py_lines [] = []"
| "py_lines (c # s) = (if c = newline then [newline] # py_lines s
     else case py_lines s of [] \<Rightarrow> [[c]] | w # ws \<Rightarrow> (c # w) # ws)"

definition process_file :: "string \<Rightarrow> nat \<Rightarrow> string" where
  "process_file directory process_id = directory @ ''/process'' @ Itoa (int process_id) @ ''.txt''"

definition parse_data_from_files :: "(string \<rightharpoonup> string) \<Rightarrow> string \<Rightarrow> nat \<Rightarrow> log_data go" where
  "parse_data_from_files files directory n = go_fold (\<lambda>d process_id.
     case files (process_file directory process_id) of
       None \<Rightarrow> Inl FatalExit
     | Some f \<Rightarrow> go_fold (collect_line process_id) d (py_lines f)) no_data [0..<n]"

section \<open>Statistics\<close>

text \<open>The result has three components when no message that was sent has been received.\<close>

datatype message_latencies = Nothing_received | Latencies nat nat int int real

fun latency_loop :: "(string \<times> int) list \<Rightarrow> (string \<times> int) list \<Rightarrow> int list \<Rightarrow> nat \<Rightarrow> int list \<times> nat" where
  "latency_loop received [] latencies lost = (latencies, lost)"
| "latency_loop received ((message, send_timestamp) # sent) latencies lost =
     (case map_of received message of
        None \<Rightarrow> latency_loop received sent latencies (lost + 1)
      | Some receive_timestamp \<Rightarrow> latency_loop received sent (latencies @ [receive_timestamp - send_timestamp]) lost)"

definition calc_message_latencies :: "(string \<times> int) list \<Rightarrow> (string \<times> int) list \<Rightarrow> message_latencies" where
  "calc_message_latencies sent received = (let (latencies, lost) = latency_loop received sent [] 0 in
     case latencies of
       [] \<Rightarrow> Nothing_received
     | l # ls \<Rightarrow>
         let (mn, mx, sum) = fold (\<lambda>latency (mn, mx, sum). (min mn latency, max mx latency, sum + latency)) latencies (l, l, 0)
         in Latencies lost (length sent) mn mx (of_int sum / of_nat (length latencies)))"

record transaction_loop =
  tl_sum_latency :: int
  tl_min_latency :: "int option"
  tl_max_latency :: "int option"
  tl_sum_messages_exchanged :: int
  tl_transaction_cnt :: nat

text \<open>
  A transaction counts when its source has committed it; the last commit of the source is taken. What
  the loop prints is left out.
\<close>

definition source_commit :: "TransactionInitInfo \<Rightarrow> TransactionCommitInfo list \<Rightarrow> int option" where
  "source_commit init_info commit_infos = fold (\<lambda>c t.
     if tc_process_id c = ti_process_id init_info then Some (tc_commit_timestamp c) else t) commit_infos None"

definition transaction_step ::
  "(string \<times> TransactionCommitInfo list) list \<Rightarrow> string \<times> TransactionInitInfo \<Rightarrow> transaction_loop \<Rightarrow> transaction_loop" where
  "transaction_step commits ti s = (case map_of commits (fst ti) of
     None \<Rightarrow> s
   | Some commit_infos \<Rightarrow> (case source_commit (snd ti) commit_infos of
       None \<Rightarrow> s
     | Some commit_timestamp \<Rightarrow>
         let latency = commit_timestamp - ti_init_timestamp (snd ti) in
         s\<lparr>tl_min_latency := earlier (tl_min_latency s) latency, tl_max_latency := later (tl_max_latency s) latency,
           tl_sum_latency := tl_sum_latency s + latency,
           tl_sum_messages_exchanged := tl_sum_messages_exchanged s + sum_list (map tc_received_messages_cnt commit_infos),
           tl_transaction_cnt := tl_transaction_cnt s + 1\<rparr>))"

definition calc_transaction_stat ::
  "(string \<times> TransactionInitInfo) list \<Rightarrow> (string \<times> TransactionCommitInfo list) list \<Rightarrow> int option \<Rightarrow> int option \<Rightarrow>
   (int option \<times> int option \<times> real \<times> int \<times> real) go" where
  "calc_transaction_stat inits commits simulation_start simulation_end =
     (let s = fold (transaction_step commits) inits \<lparr>tl_sum_latency = 0, tl_min_latency = None, tl_max_latency = None,
            tl_sum_messages_exchanged = 0, tl_transaction_cnt = 0\<rparr>;
          cnt = tl_transaction_cnt s in
      go_bind (case (simulation_start, simulation_end) of
          (Some a, Some b) \<Rightarrow> if b - a = 0 then Inl DivideByZero else Inr (of_nat cnt * 10 ^ 9 / of_int (b - a))
        | _ \<Rightarrow> Inr 0) (\<lambda>throughput.
      if cnt = 0 then Inl DivideByZero
      else Inr (tl_min_latency s, tl_max_latency s, of_int (tl_sum_latency s) / of_nat cnt,
        go_quot (tl_sum_messages_exchanged s) (int cnt), throughput)))"

record statistics =
  st_lost_messages_cnt :: nat
  st_total_messages_cnt :: nat
  st_message_latency :: "real \<times> real \<times> real"
  st_transaction_latency :: "real \<times> real \<times> real"
  st_avg_messages_exchanged :: int
  st_throughput :: real

text \<open>Unpacking three values where five are expected is an exception.\<close>

definition calculate_stat :: "(string \<rightharpoonup> string) \<Rightarrow> string \<Rightarrow> nat \<Rightarrow> statistics go" where
  "calculate_stat files directory n = go_bind (parse_data_from_files files directory n) (\<lambda>data.
     case calc_message_latencies (ld_sent_messages data) (ld_received_messages data) of
       Nothing_received \<Rightarrow> Inl FatalExit
     | Latencies lost messages mn mx avg \<Rightarrow>
         go_bind (calc_transaction_stat (ld_transaction_inits data) (ld_transaction_commit_infos data)
           (ld_simulation_start data) (ld_simulation_end data)) (\<lambda>(tmin, tmax, tavg, exchanged, throughput).
         go_bind (go_deref tmin) (\<lambda>tmin. go_bind (go_deref tmax) (\<lambda>tmax.
           Inr \<lparr>st_lost_messages_cnt = lost, st_total_messages_cnt = messages,
             st_message_latency = (of_int mn / 10 ^ 9, of_int mx / 10 ^ 9, avg / 10 ^ 9),
             st_transaction_latency = (of_int tmin / 10 ^ 9, of_int tmax / 10 ^ 9, tavg / 10 ^ 9),
             st_avg_messages_exchanged = exchanged, st_throughput = throughput\<rparr>))))"

section \<open>Differences of witness sets and histories\<close>

definition get_distance_metrics :: "'a set list \<Rightarrow> nat" where
  "get_distance_metrics sets = fold (\<lambda>i m. fold (\<lambda>j m.
     max m (card (sets ! i \<union> sets ! j) - card (sets ! i \<inter> sets ! j))) [i + 1..<length sets] m) [0..<length sets] 0"

definition get_histories_diff_metrics :: "(string \<times> 'a set list) list \<Rightarrow> nat \<Rightarrow> nat list" where
  "get_histories_diff_metrics transaction_histories n =
     map (\<lambda>(transaction, histories). get_distance_metrics histories)
       (filter (\<lambda>(transaction, histories). length histories = n) transaction_histories)"

definition get_witness_sets_diff_metrics :: "log_data \<Rightarrow> nat \<Rightarrow> string \<Rightarrow> nat list go" where
  "get_witness_sets_diff_metrics data n ws_type =
     (let metrics = (\<lambda>sets. map (\<lambda>(transaction, witness_sets). get_distance_metrics witness_sets)
        (filter (\<lambda>(transaction, witness_sets). length witness_sets = n) sets)) in
      if ws_type = ''own'' then Inr (metrics (ld_own_witness_sets data))
      else if ws_type = ''pot'' then Inr (metrics (ld_pot_witness_sets data))
      else Inl FatalExit)"

section \<open>Reading what the program logs\<close>

text \<open>
  An entry of a log file: the date Go's logger puts in front, the time, and the call that wrote it. The
  log of a process has the entry of \<open>main\<close>, those of the protocols, the context, the actor and the
  node, and, when the program stops by \<open>Fatal\<close>, its message.
\<close>

datatype log_call =
    Running_protocol string
  | Event_call event
  | Entry_call log_entry
  | Fatal_call string

type_synonym log_line = "string \<times> int \<times> log_call"

definition line_text :: "int32 \<Rightarrow> log_line \<Rightarrow> string" where
  "line_text pid l = (case l of (date, now, call) \<Rightarrow>
     date @ (case call of
         Running_protocol protocol \<Rightarrow> main_Running protocol
       | Event_call ev \<Rightarrow> event_text now ev
       | Entry_call e \<Rightarrow> entry_text (InitEventLogger pid) now e
       | Fatal_call msg \<Rightarrow> fatal_text msg))"

definition log_text :: "int32 \<Rightarrow> log_line list \<Rightarrow> string" where
  "log_text pid ls = concat (map (line_text pid) ls)"

text \<open>
  What the entries satisfy: the date has no letter, the protocol is one that \<open>main\<close> accepts, the names
  of processes are addresses, and no message of \<open>Fatal\<close> reads like one of the other lines.
\<close>

definition line_ok :: "log_line \<Rightarrow> bool" where
  "line_ok l \<longleftrightarrow> (case l of (date, now, call) \<Rightarrow>
     (\<forall>c\<in>set date. \<not> is_alpha c \<and> c \<noteq> newline) \<and> 0 \<le> now \<and> now < 2 ^ 63 \<and>
     (case call of
        Running_protocol protocol \<Rightarrow>
          protocol \<in> {''reliable_accountability'', ''consistent_accountability'', ''bracha'', ''scalable''}
      | Event_call (OnWitnessSetSelected ty b pids) \<Rightarrow>
          (ty = ''own'' \<or> ty = ''pot'') \<and> (\<forall>pid\<in>set pids. plain_pid pid \<and> newline \<notin> set pid)
      | Fatal_call msg \<Rightarrow> \<forall>raw\<in>set (py_lines (date @ fatal_text msg)). analyze_line raw = Inr None
      | _ \<Rightarrow> True))"

definition sent_in :: "int32 \<Rightarrow> log_line list \<Rightarrow> (int32 \<times> int32) set" where
  "sent_in pid ls = {(pid, k) | k. \<exists>date now. (date, now, Entry_call (OnMessageSent k)) \<in> set ls}"

definition received_in :: "log_line list \<Rightarrow> (int32 \<times> int32) set" where
  "received_in ls = {(s, k). \<exists>date now. (date, now, Entry_call (OnMessageReceived s k)) \<in> set ls}"

definition pair_key :: "int32 \<times> int32 \<Rightarrow> string" where
  "pair_key p = pair_text (fst p) (snd p)"

lemma pair_key_inj: "inj pair_key"
  by (rule injI) (simp add: pair_key_def pair_text_inject prod_eq_iff)

lemma py_int_Itoa: "py_int (Itoa k) = Inr k"
proof -
  obtain c cs where d: "decimal (nat \<bar>k\<bar>) = c # cs" by (cases "decimal (nat \<bar>k\<bar>)") (auto simp: decimal_nonempty)
  have c: "c \<noteq> CHR ''-''" "c \<noteq> CHR ''+''"
    using decimal_chars[of c "nat \<bar>k\<bar>"] d digit_char_other(3,4) by auto
  have v: "digits_value 0 (c # cs) = Some (nat \<bar>k\<bar>)" using decimal_value[of "nat \<bar>k\<bar>"] d by simp
  show ?thesis
  proof (cases "k < 0")
    case True
    then have "Itoa k = CHR ''-'' # c # cs" using d by (simp add: Itoa_def)
    then show ?thesis using v True by (simp add: py_int_def Let_def del: digits_value.simps)
  next
    case False
    then have "Itoa k = c # cs" using d by (simp add: Itoa_def)
    then show ?thesis using v c False by (simp add: py_int_def Let_def del: digits_value.simps)
  qed
qed

lemma py_lines_append: "t = [] \<or> last t = newline \<Longrightarrow> py_lines (t @ s) = py_lines t @ py_lines s"
proof (induction t)
  case (Cons c t)
  show ?case
  proof (cases "t = []")
    case False
    then have "py_lines t \<noteq> []" by (cases t) (auto split: list.splits)
    then show ?thesis using Cons False by (auto split: list.splits)
  qed (use Cons in simp)
qed simp

lemma py_lines_line: "newline \<notin> set w \<Longrightarrow> py_lines (w @ newline # s) = (w @ [newline]) # py_lines s"
  by (induction w) auto

text \<open>Every entry ends in a line break, and all but the reports of a mismatch and of \<open>Fatal\<close> are one line.\<close>

lemma event_text_ends: "event_text now ev \<noteq> []" "last (event_text now ev) = newline"
  by (cases ev; simp add: el_OnTransactionInit_def el_OnWitnessSetSelected_def el_OnDeliver_def el_OnAttack_def el_Println_def)+

lemma entry_text_ends: "entry_text el now e \<noteq> []" "last (entry_text el now e) = newline"
  by (cases e; simp add: el_OnMessageSent_def el_OnMessageReceived_def el_OnBroadcastStart_def el_OnSimulationStart_def)+

lemma line_text_ends: "line_text pid l \<noteq> [] \<and> last (line_text pid l) = newline"
proof -
  obtain date now call where l: "l = (date, now, call)" by (cases l)
  show ?thesis
    by (cases call) (simp_all add: l line_text_def main_Running_def fatal_text_def event_text_ends entry_text_ends
      del: event_text.simps entry_text.simps)
qed

lemma Join_no_newline: "\<forall>w\<in>set ws. newline \<notin> set w \<Longrightarrow> newline \<notin> set (format_slice ws)"
  using set_Join[of "CHR '' ''" ws] by (auto simp: format_slice_def)

lemma line_text_single:
  assumes "line_ok (date, now, call)" and "\<forall>x y. call \<noteq> Event_call (OnHashMismatch x y)" "\<forall>msg. call \<noteq> Fatal_call msg"
  shows "py_lines (line_text pid (date, now, call)) = [line_text pid (date, now, call)]"
proof -
  have "\<forall>c\<in>set date. \<not> is_alpha c \<and> c \<noteq> newline" using assms(1) by (simp add: line_ok_def)
  then have date: "newline \<notin> set date" by blast
  have one: "py_lines (date @ t) = [date @ t]" if "t \<noteq> []" "last t = newline" "newline \<notin> set (butlast t)" for t
  proof -
    have t: "t = butlast t @ [newline]" using append_butlast_last_id[OF that(1)] that(2) by simp
    have "newline \<notin> set (date @ butlast t)" using that(3) date by simp
    from py_lines_line[OF this, of "[]"] have "py_lines (date @ butlast t @ [newline]) = [date @ butlast t @ [newline]]" by simp
    then show ?thesis unfolding t[symmetric] .
  qed
  show ?thesis
  proof (cases call)
    case (Running_protocol p)
    have "p \<in> {''reliable_accountability'', ''consistent_accountability'', ''bracha'', ''scalable''}"
      using assms(1) unfolding Running_protocol by (simp add: line_ok_def)
    then have "newline \<notin> set p" by (elim insertE emptyE) simp_all
    then show ?thesis using one[of "main_Running p"]
      by (simp add: Running_protocol line_text_def main_Running_def butlast_append)
  next
    case (Event_call ev)
    have "newline \<notin> set (butlast (event_text now ev))"
    proof (cases ev)
      case (OnWitnessSetSelected ty b pids)
      then have ty: "ty = ''own'' \<or> ty = ''pot''" and pids: "\<forall>pid\<in>set pids. newline \<notin> set pid"
        using assms(1) by (simp_all add: Event_call line_ok_def)
      have "newline \<notin> set ty" using ty by (elim disjE) simp_all
      moreover note Join_no_newline[OF pids]
      ultimately show ?thesis
        by (simp add: OnWitnessSetSelected el_OnWitnessSetSelected_def BroadcastInstance_ToString_def butlast_append)
    qed (use assms(2) in \<open>simp_all add: Event_call el_OnTransactionInit_def el_OnDeliver_def el_OnAttack_def
      BroadcastInstance_ToString_def butlast_append\<close>)
    from one[OF event_text_ends this] show ?thesis by (simp add: Event_call line_text_def)
  next
    case (Entry_call e)
    have "newline \<notin> set (butlast (entry_text (InitEventLogger pid) now e))"
      by (cases e) (simp_all add: el_OnMessageSent_def el_OnMessageReceived_def el_OnBroadcastStart_def
        el_OnSimulationStart_def butlast_append)
    from one[OF entry_text_ends this] show ?thesis by (simp add: Entry_call line_text_def)
  qed (use assms(3) in simp)
qed

text \<open>What reading the lines of one entry adds.\<close>

definition collected :: "int32 \<Rightarrow> log_line \<Rightarrow> log_data \<Rightarrow> log_data \<Rightarrow> bool" where
  "collected pid l d d' \<longleftrightarrow>
    ld_sent_messages d' = (case snd (snd l) of
        Entry_call (OnMessageSent k) \<Rightarrow> AList.update (pair_key (pid, k)) (fst (snd l)) (ld_sent_messages d)
      | _ \<Rightarrow> ld_sent_messages d) \<and>
    ld_received_messages d' = (case snd (snd l) of
        Entry_call (OnMessageReceived s k) \<Rightarrow> AList.update (pair_key (s, k)) (fst (snd l)) (ld_received_messages d)
      | _ \<Rightarrow> ld_received_messages d)"

lemma collect_ignored: "\<forall>raw\<in>set raws. analyze_line raw = Inr None \<Longrightarrow> go_fold (collect_line i) d raws = Inr d"
  by (induction raws) (simp_all add: collect_line_def)

lemma collect_single_ok:
  assumes "line_ok l" and "\<forall>msg. snd (snd l) \<noteq> Fatal_call msg"
  shows "\<exists>d'. collect_line i d (line_text pid l) = Inr d' \<and> collected pid l d d'"
proof -
  obtain date now call where l: "l = (date, now, call)" by (cases l)
  have date: "\<forall>c\<in>set date. \<not> is_alpha c" using assms by (simp add: l line_ok_def)
  note texts = analyze_texts[OF date] analyze_ignored[OF date]
  show ?thesis
  proof (cases call)
    case (Running_protocol p)
    have "p \<in> {''reliable_accountability'', ''consistent_accountability'', ''bracha'', ''scalable''}"
      using assms(1) unfolding l Running_protocol by (simp add: line_ok_def)
    then have "p \<noteq> []" "last p \<noteq> CHR '' ''" "last p \<noteq> newline" by (elim insertE emptyE; simp)+
    then show ?thesis using analyze_running[OF date]
      by (simp add: l Running_protocol line_text_def collect_line_def collected_def)
  next
    case (Event_call ev)
    show ?thesis
    proof (cases ev)
      case (OnWitnessSetSelected ty b pids)
      then have ty: "ty = ''own'' \<or> ty = ''pot''" and pids: "\<forall>pid\<in>set pids. plain_pid pid"
        using assms by (simp_all add: l Event_call line_ok_def)
      have "CHR '','' \<notin> set ty" "CHR '':'' \<notin> set ty" using ty by auto
      note line = analyze_witness_set[OF date pids this, of now b]
      have "read_set (format_slice pids) = Inr (set (read_slice (format_slice pids)))"
        by (simp add: read_set_def format_slice_def)
      then show ?thesis using ty line
        by (auto simp: l Event_call OnWitnessSetSelected line_text_def collected_def collect_line_def go_index_def
          py_int_Itoa Let_def simp del: event_text.simps)
    qed (simp_all add: l Event_call line_text_def collected_def collect_line_def go_index_def py_int_Itoa Let_def texts
        del: event_text.simps)
  next
    case (Entry_call e)
    then show ?thesis
      by (cases e) (simp_all add: l line_text_def collected_def collect_line_def go_index_def py_int_Itoa Let_def texts
        pair_key_def InitEventLogger_def del: entry_text.simps)
  qed (use assms(2) l in simp)
qed

lemma collect_line_ok:
  assumes "line_ok l"
  shows "\<exists>d'. go_fold (collect_line i) d (py_lines (line_text pid l)) = Inr d' \<and> collected pid l d d'"
proof -
  obtain date now call where l: "l = (date, now, call)" by (cases l)
  have "\<forall>c\<in>set date. \<not> is_alpha c \<and> c \<noteq> newline" using assms by (simp add: l line_ok_def)
  then have date: "\<forall>c\<in>set date. \<not> is_alpha c" "newline \<notin> set date" by blast+
  consider x y where "call = Event_call (OnHashMismatch x y)" | msg where "call = Fatal_call msg"
    | "\<forall>x y. call \<noteq> Event_call (OnHashMismatch x y)" "\<forall>msg. call \<noteq> Fatal_call msg" by blast
  then show ?thesis
  proof cases
    case (1 x y)
    let ?w = "''X hash mismatch: delivered: '' @ Itoa (sint x) @ '', received: '' @ Itoa (sint y)"
    have "py_lines (line_text pid l) = [date @ ?w @ [newline], [newline]]"
      using py_lines_line[of "date @ ?w" "[newline]"] date(2) by (simp add: l 1 line_text_def el_Println_def)
    then have "go_fold (collect_line i) d (py_lines (line_text pid l)) = Inr d"
      using analyze_mismatch[OF date(1)] by (intro collect_ignored) simp
    then show ?thesis by (simp add: l 1 collected_def)
  next
    case (2 msg)
    have "go_fold (collect_line i) d (py_lines (line_text pid l)) = Inr d"
      by (rule collect_ignored) (use assms in \<open>simp add: l 2 line_ok_def line_text_def\<close>)
    then show ?thesis by (simp add: l 2 collected_def)
  next
    case 3
    then show ?thesis
      using collect_single_ok[OF assms, of i d pid] line_text_single[OF assms[unfolded l] 3, of pid] by (auto simp: l)
  qed
qed

lemma collect_lines_ok:
  assumes "\<forall>l\<in>set ls. line_ok l" "distinct (map fst (ld_sent_messages d))"
  shows "\<exists>d'. go_fold (collect_line i) d (py_lines (log_text pid ls)) = Inr d' \<and> distinct (map fst (ld_sent_messages d')) \<and>
    fst ` set (ld_sent_messages d') = fst ` set (ld_sent_messages d) \<union> pair_key ` sent_in pid ls \<and>
    fst ` set (ld_received_messages d') = fst ` set (ld_received_messages d) \<union> pair_key ` received_in ls"
  using assms
proof (induction ls arbitrary: d)
  case (Cons l ls)
  obtain d1 where d1: "go_fold (collect_line i) d (py_lines (line_text pid l)) = Inr d1"
    "ld_sent_messages d1 = (case snd (snd l) of
        Entry_call (OnMessageSent k) \<Rightarrow> AList.update (pair_key (pid, k)) (fst (snd l)) (ld_sent_messages d)
      | _ \<Rightarrow> ld_sent_messages d)"
    "ld_received_messages d1 = (case snd (snd l) of
        Entry_call (OnMessageReceived s k) \<Rightarrow> AList.update (pair_key (s, k)) (fst (snd l)) (ld_received_messages d)
      | _ \<Rightarrow> ld_received_messages d)"
    using collect_line_ok[of l i d pid] Cons.prems(1) unfolding collected_def by auto
  have keys: "fst ` set (AList.update k v al) = insert k (fst ` set al)" for k :: string and v :: int and al
    using dom_update[of k v al] by (simp add: dom_map_of_conv_image_fst)
  have sent: "fst ` set (ld_sent_messages d1) = fst ` set (ld_sent_messages d) \<union> pair_key ` sent_in pid [l]"
    by (cases l rule: prod_cases3) (auto simp: d1(2) sent_in_def keys split: log_call.splits log_entry.splits)
  have received: "fst ` set (ld_received_messages d1) = fst ` set (ld_received_messages d) \<union> pair_key ` received_in [l]"
    by (cases l rule: prod_cases3) (auto simp: d1(3) received_in_def keys split: log_call.splits log_entry.splits)
  have "distinct (map fst (ld_sent_messages d1))"
    using Cons.prems(2) by (auto simp: d1(2) distinct_update split: log_call.splits log_entry.splits)
  then obtain d' where d': "go_fold (collect_line i) d1 (py_lines (log_text pid ls)) = Inr d'" "distinct (map fst (ld_sent_messages d'))"
    "fst ` set (ld_sent_messages d') = fst ` set (ld_sent_messages d1) \<union> pair_key ` sent_in pid ls"
    "fst ` set (ld_received_messages d') = fst ` set (ld_received_messages d1) \<union> pair_key ` received_in ls"
    using Cons.IH[of d1] Cons.prems(1) by auto
  have "sent_in pid (l # ls) = sent_in pid [l] \<union> sent_in pid ls" "received_in (l # ls) = received_in [l] \<union> received_in ls"
    by (auto simp: sent_in_def received_in_def)
  moreover have "py_lines (log_text pid (l # ls)) = py_lines (line_text pid l) @ py_lines (log_text pid ls)"
    using py_lines_append line_text_ends by (simp add: log_text_def)
  ultimately show ?case using d1(1) d' sent received by (auto simp: image_Un go_fold_append)
qed (simp add: sent_in_def received_in_def log_text_def)

text \<open>The logs \<open>L i\<close> of the processes \<open>i < n\<close>: what some process has sent, and what some process has received.\<close>

definition all_sent :: "nat \<Rightarrow> (nat \<Rightarrow> log_line list) \<Rightarrow> (int32 \<times> int32) set" where
  "all_sent n L = (\<Union>i<n. sent_in (of_nat i) (L i))"

definition all_received :: "nat \<Rightarrow> (nat \<Rightarrow> log_line list) \<Rightarrow> (int32 \<times> int32) set" where
  "all_received n L = (\<Union>i<n. received_in (L i))"

lemma parse_files_ok:
  assumes "\<forall>i<n. \<forall>l\<in>set (L i). line_ok l"
    and "\<forall>i<n. files (process_file directory i) = Some (log_text (of_nat i) (L i))"
  shows "\<exists>d. parse_data_from_files files directory n = Inr d \<and> distinct (map fst (ld_sent_messages d)) \<and>
    fst ` set (ld_sent_messages d) = pair_key ` all_sent n L \<and> fst ` set (ld_received_messages d) = pair_key ` all_received n L"
  using assms
proof (induction n)
  case 0
  then show ?case by (simp add: parse_data_from_files_def no_data_def all_sent_def all_received_def)
next
  case (Suc n)
  have "\<forall>i<n. \<forall>l\<in>set (L i). line_ok l"
    "\<forall>i<n. files (process_file directory i) = Some (log_text (of_nat i) (L i))" using Suc.prems less_SucI by blast+
  from Suc.IH[OF this] obtain d where d: "parse_data_from_files files directory n = Inr d" "distinct (map fst (ld_sent_messages d))"
    "fst ` set (ld_sent_messages d) = pair_key ` all_sent n L" "fst ` set (ld_received_messages d) = pair_key ` all_received n L"
    by blast
  have "\<forall>l\<in>set (L n). line_ok l" using Suc.prems(1) lessI by blast
  from collect_lines_ok[OF this d(2), of n "of_nat n"] obtain d' where
    d': "go_fold (collect_line n) d (py_lines (log_text (of_nat n) (L n))) = Inr d'" "distinct (map fst (ld_sent_messages d'))"
    "fst ` set (ld_sent_messages d') = fst ` set (ld_sent_messages d) \<union> pair_key ` sent_in (of_nat n) (L n)"
    "fst ` set (ld_received_messages d') = fst ` set (ld_received_messages d) \<union> pair_key ` received_in (L n)"
    by (elim exE conjE) (erule (3) that)
  have "parse_data_from_files files directory (Suc n) = Inr d'"
    using d(1) d'(1) Suc.prems(2) by (simp add: parse_data_from_files_def go_fold_append)
  moreover have "all_sent (Suc n) L = all_sent n L \<union> sent_in (of_nat n) (L n)"
    "all_received (Suc n) L = all_received n L \<union> received_in (L n)"
    by (auto simp: all_sent_def all_received_def lessThan_Suc)
  ultimately show ?case using d' d by (auto simp: image_Un)
qed

section \<open>The message statistics\<close>

lemma latency_loop_eq:
  "latency_loop received sent ls lost =
     (ls @ map (\<lambda>(m, s). the (map_of received m) - s) (filter (\<lambda>(m, s). map_of received m \<noteq> None) sent),
      lost + length (filter (\<lambda>(m, s). map_of received m = None) sent))"
  by (induction received sent ls lost rule: latency_loop.induct) (auto split: option.splits)

lemma latency_fold:
  "fold (\<lambda>latency (mn, mx, sum). (min mn latency, max mx latency, sum + latency)) ls (a, b, c) =
     (fold min ls a, fold max ls b, c + sum_list ls)" for a b c :: int
  by (induction ls arbitrary: a b c) (simp_all add: min.commute max.commute algebra_simps)

lemma sum_list_average:
  assumes "ls \<noteq> []" "\<And>x. x \<in> set ls \<Longrightarrow> a \<le> x \<and> x \<le> b"
  shows "of_int a \<le> (of_int (sum_list ls) / of_nat (length ls) :: real)" "(of_int (sum_list ls) / of_nat (length ls) :: real) \<le> of_int b"
proof -
  have "a * int (length ls) \<le> sum_list ls \<and> sum_list ls \<le> b * int (length ls)"
    using assms(2) by (induction ls) (fastforce simp: algebra_simps)+
  then have "of_int (a * int (length ls)) \<le> (of_int (sum_list ls) :: real)" "of_int (sum_list ls) \<le> (of_int (b * int (length ls)) :: real)"
    unfolding of_int_le_iff by blast+
  then show "of_int a \<le> (of_int (sum_list ls) / of_nat (length ls) :: real)" "(of_int (sum_list ls) / of_nat (length ls) :: real) \<le> of_int b"
    using assms(1) by (simp_all add: field_simps)
qed

text \<open>A message is lost when its sender and stamp have been received by nobody.\<close>

lemma message_latencies_eq:
  assumes "distinct (map fst sent)"
  shows "case calc_message_latencies sent received of
      Nothing_received \<Rightarrow> fst ` set sent \<inter> fst ` set received = {}
    | Latencies lost messages mn mx avg \<Rightarrow> fst ` set sent \<inter> fst ` set received \<noteq> {} \<and>
        lost = card (fst ` set sent - fst ` set received) \<and> messages = card (fst ` set sent) \<and>
        of_int mn \<le> avg \<and> avg \<le> of_int mx"
proof -
  let ?ls = "map (\<lambda>(m, s). the (map_of received m) - s) (filter (\<lambda>(m, s). map_of received m \<noteq> None) sent)"
    and ?lost = "filter (\<lambda>(m, s). map_of received m = None) sent"
  have some: "map_of received m \<noteq> None \<longleftrightarrow> m \<in> fst ` set received" for m by (simp add: map_of_eq_None_iff)
  have loop: "latency_loop received sent [] 0 = (?ls, length ?lost)" by (simp add: latency_loop_eq)
  have "fst ` set ?lost = fst ` set sent - fst ` set received"
  proof (intro set_eqI)
    fix m show "m \<in> fst ` set ?lost \<longleftrightarrow> m \<in> fst ` set sent - fst ` set received"
      using some[of m] by (cases "map_of received m") (force simp: image_iff)+
  qed
  moreover have "distinct (map fst ?lost)" using assms by (rule distinct_map_filter)
  ultimately have lost: "length ?lost = card (fst ` set sent - fst ` set received)"
    by (metis distinct_card length_map list.set_map)
  have messages: "length sent = card (fst ` set sent)" using distinct_card[OF assms] by simp
  have empty: "?ls = [] \<longleftrightarrow> fst ` set sent \<inter> fst ` set received = {}"
  proof -
    have "?ls = [] \<longleftrightarrow> (\<forall>p\<in>set sent. fst p \<notin> fst ` set received)"
      unfolding map_is_Nil_conv filter_empty_conv case_prod_beta some by simp
    then show ?thesis by blast
  qed
  show ?thesis
  proof (cases ?ls)
    case Nil
    then have "calc_message_latencies sent received = Nothing_received" unfolding calc_message_latencies_def loop by simp
    then show ?thesis using Nil empty by simp
  next
    case (Cons l ls)
    have mn: "fold min (l # ls) l = Min (set (l # ls))" and mx: "fold max (l # ls) l = Max (set (l # ls))"
      unfolding Min.set_eq_fold Max.set_eq_fold by simp_all
    have res: "calc_message_latencies sent received = Latencies (length ?lost) (length sent) (Min (set (l # ls))) (Max (set (l # ls)))
        (of_int (sum_list (l # ls)) / of_nat (length (l # ls)))"
      unfolding calc_message_latencies_def loop Cons Let_def prod.case list.case latency_fold mn mx by simp
    have "Min (set (l # ls)) \<le> x \<and> x \<le> Max (set (l # ls))" if "x \<in> set (l # ls)" for x using that by simp
    note average = sum_list_average[OF list.distinct(2)[of l ls] this]
    have "fst ` set sent \<inter> fst ` set received \<noteq> {}" using empty Cons by (metis list.distinct(1))
    then show ?thesis unfolding res message_latencies.case using lost messages average by (intro conjI) assumption+
  qed
qed

section \<open>Property\<close>

text \<open>
  C38: What the analyzer counts. The log files of \<open>n\<close> processes hold what these have written: the line
  \<open>Running protocol\<close>, the lines of every call of the event logger, and perhaps a fatal error, each
  after its date. From them the analyzer counts every message, named by its sender and stamp, that a
  process has sent, and as lost those that no process has received. Among these is the Started message
  of every process: only the main server receives it, and its log is not read. If no message at all has
  been received, the script stops with an exception instead of a result: it unpacks three values into
  five.
\<close>

theorem analyzer_counts:
  assumes lines: "\<forall>i<n. \<forall>l\<in>set (L i). line_ok l"
    and files: "\<forall>i<n. files (process_file directory i) = Some (log_text (of_nat i) (L i))"
  shows "if all_sent n L \<inter> all_received n L = {} then calculate_stat files directory n = Inl FatalExit
    else \<exists>data mn mx avg. parse_data_from_files files directory n = Inr data \<and>
      calc_message_latencies (ld_sent_messages data) (ld_received_messages data) =
        Latencies (card (all_sent n L - all_received n L)) (card (all_sent n L)) mn mx avg \<and>
      of_int mn \<le> avg \<and> avg \<le> of_int mx"
proof -
  obtain d where d: "parse_data_from_files files directory n = Inr d" "distinct (map fst (ld_sent_messages d))"
    "fst ` set (ld_sent_messages d) = pair_key ` all_sent n L" "fst ` set (ld_received_messages d) = pair_key ` all_received n L"
    using parse_files_ok[OF assms] by blast
  have inj: "inj_on pair_key A" for A using pair_key_inj by (rule inj_on_subset) simp
  have sets: "pair_key ` all_sent n L \<inter> pair_key ` all_received n L = pair_key ` (all_sent n L \<inter> all_received n L)"
    "pair_key ` all_sent n L - pair_key ` all_received n L = pair_key ` (all_sent n L - all_received n L)"
    by (simp_all add: image_Int[OF pair_key_inj] image_set_diff[OF pair_key_inj])
  note eq = message_latencies_eq[OF d(2), of "ld_received_messages d", unfolded d(3,4) sets card_image[OF inj]]
  show ?thesis
  proof (cases "calc_message_latencies (ld_sent_messages d) (ld_received_messages d)")
    case Nothing_received
    then show ?thesis using eq d(1) by (simp add: calculate_stat_def)
  next
    case (Latencies lost messages mn mx avg)
    then show ?thesis using eq d(1) by auto
  qed
qed

text \<open>Two processes of Bracha's protocol: one message each to the main server, and one that arrives.\<close>

definition sample_log :: "nat \<Rightarrow> log_line list" where
  "sample_log i = (''2023/05/02 10:00:00 '', 0, Running_protocol ''bracha'') #
     (if i = 0 then [(''2023/05/02 10:00:00 '', 1, Entry_call (OnMessageSent 0)),
        (''2023/05/02 10:00:01 '', 2, Entry_call (OnMessageSent 1))]
      else [(''2023/05/02 10:00:00 '', 1, Entry_call (OnMessageSent 0)),
        (''2023/05/02 10:00:01 '', 4, Entry_call (OnMessageReceived 0 1))])"

theorem analyzer_counts_witness:
  "let files = (\<lambda>f. if f = process_file ''out'' 0 then Some (log_text 0 (sample_log 0))
      else if f = process_file ''out'' 1 then Some (log_text 1 (sample_log 1)) else None) in
   \<exists>data mn mx avg. parse_data_from_files files ''out'' 2 = Inr data \<and>
     calc_message_latencies (ld_sent_messages data) (ld_received_messages data) = Latencies 2 3 mn mx avg"
proof -
  let ?files = "(\<lambda>f. if f = process_file ''out'' 0 then Some (log_text 0 (sample_log 0))
      else if f = process_file ''out'' 1 then Some (log_text 1 (sample_log 1)) else None)"
  have two: "i < 2 \<longleftrightarrow> i = 0 \<or> i = 1" for i :: nat by auto
  have ok: "\<forall>i<2. \<forall>l\<in>set (sample_log i). line_ok l" by (auto simp: sample_log_def line_ok_def is_alpha_def)
  have "process_file ''out'' 0 \<noteq> process_file ''out'' 1" by code_simp
  then have files: "\<forall>i<2. ?files (process_file ''out'' i) = Some (log_text (of_nat i) (sample_log i))" by (auto simp: two)
  have "all_sent 2 sample_log = {(0, 0), (0, 1), (1, 0)}" "all_received 2 sample_log = {(0, 1)}"
    by (auto simp: sample_log_def all_sent_def all_received_def sent_in_def received_in_def two)
  then have sets: "all_sent 2 sample_log \<inter> all_received 2 sample_log \<noteq> {}"
    "card (all_sent 2 sample_log - all_received 2 sample_log) = 2" "card (all_sent 2 sample_log) = 3"
    by auto
  show ?thesis unfolding Let_def using analyzer_counts[OF ok files] sets by metis
qed

end
