(* ===== verification/Log_File.thy ===== *)
theory Log_File
  imports Messages
begin

text \<open>
  The wrappers of \<open>impl/utils/simulation.go\<close> around the file system and protobuf. They report an error
  on the standard logger and go on; the third-party calls are parameters.
\<close>

section \<open>The log file\<close>

text \<open>\<open>filepath.Split\<close>: everything up to the last separator, and the rest.\<close>

definition Split_path :: "string \<Rightarrow> string \<times> string" where
  "Split_path path = (let file = rev (takeWhile (\<lambda>c. c \<noteq> CHR ''/'') (rev path))
     in (take (length path - length file) path, file))"

text \<open>
  \<open>MkdirAll\<close> and \<open>Create\<close> succeed or not. The result is the file, \<open>None\<close> for the nil pointer, and
  what is printed.
\<close>

definition OpenLogFile :: "(string \<Rightarrow> bool) \<Rightarrow> (string \<Rightarrow> bool) \<Rightarrow> string \<Rightarrow> string option \<times> string list" where
  "OpenLogFile MkdirAll Create logFile =
     (let (dir, _) = Split_path logFile;
          dirErr = (if MkdirAll dir then [] else [''Could not create parent directories for '' @ logFile]);
          fileErr = (if Create logFile then [] else [''Could not open file '' @ logFile @ '' to write logs into''])
      in (if Create logFile then Some logFile else None, dirErr @ fileErr))"

section \<open>The wire format\<close>

definition Marshal :: "(Message \<Rightarrow> byte list option) \<Rightarrow> Message \<Rightarrow> byte list option \<times> string list" where
  "Marshal proto message = (case proto message of
     None \<Rightarrow> (None, [''Could not marshal message'']) | Some data \<Rightarrow> (Some data, []))"

definition Unmarshal :: "(byte list \<Rightarrow> Message option) \<Rightarrow> byte list \<Rightarrow> Message option \<times> string list" where
  "Unmarshal proto data = (case proto data of
     None \<Rightarrow> (None, [''Could not unmarshal message'']) | Some msg \<Rightarrow> (Some msg, []))"

section \<open>Facts\<close>

lemma Split_path_parts:
  assumes "Split_path path = (dir, file)"
  shows "path = dir @ file" "CHR ''/'' \<notin> set file" "dir = [] \<or> last dir = CHR ''/''"
proof -
  let ?P = "\<lambda>c. c \<noteq> CHR ''/''"
  have f: "file = rev (takeWhile ?P (rev path))" using assms by (auto simp: Split_path_def Let_def)
  have split: "rev (dropWhile ?P (rev path)) @ file = path"
    unfolding f by (metis rev_append rev_rev_ident takeWhile_dropWhile_id)
  then have "length path - length file = length (rev (dropWhile ?P (rev path)))" by (metis add_diff_cancel_right' length_append)
  then have dir: "dir = rev (dropWhile ?P (rev path))"
    using assms split f by (auto simp: Split_path_def Let_def) (metis append_eq_conv_conj length_rev)
  show "path = dir @ file" using split dir by simp
  show "CHR ''/'' \<notin> set file" by (auto simp: f dest: set_takeWhileD)
  show "dir = [] \<or> last dir = CHR ''/''"
    using hd_dropWhile[of ?P "rev path"] by (auto simp: dir last_rev)
qed

text \<open>The program only lacks its log file when the file cannot be created, and says so.\<close>

lemma OpenLogFile_silent:
  "OpenLogFile MkdirAll Create logFile = (f, []) \<longleftrightarrow>
     f = Some logFile \<and> Create logFile \<and> MkdirAll (fst (Split_path logFile))"
  by (auto simp: OpenLogFile_def Let_def split: prod.splits)

end
