(* ===== verification/Go_Sort.thy ===== *)
theory Go_Sort
  imports Witness_Selection
begin

text \<open>
  What \<open>sort.Sort\<close> sees of the distances: the methods \<open>Len\<close>, \<open>Swap\<close> and \<open>Less\<close> of \<open>byDist\<close> in
  \<open>impl/hashing/witnesses_selection.go\<close>. Locale \<open>sort_Sort\<close> is the documented behaviour of the library
  function, which touches the data through these methods only; it gives the contract \<open>dist_sort\<close>
  that the selection relies on.
\<close>

section \<open>The interface of the sort\<close>

definition byDist_Len :: "dist list \<Rightarrow> nat" where
  "byDist_Len bd = length bd"

definition byDist_Swap :: "dist list \<Rightarrow> nat \<Rightarrow> nat \<Rightarrow> dist list" where
  "byDist_Swap bd i j = bd[i := bd ! j, j := bd ! i]"

definition byDist_Less :: "dist list \<Rightarrow> nat \<Rightarrow> nat \<Rightarrow> bool" where
  "byDist_Less bd i j \<longleftrightarrow> dist_d (bd ! i) < dist_d (bd ! j)"

text \<open>The data after any number of calls of \<open>Swap\<close> within the range.\<close>

inductive swapped :: "dist list \<Rightarrow> dist list \<Rightarrow> bool" where
  none: "swapped bd bd"
| swap: "swapped bd es \<Longrightarrow> i < byDist_Len es \<Longrightarrow> j < byDist_Len es \<Longrightarrow> swapped bd (byDist_Swap es i j)"

text \<open>When the sort returns, no element is less than one before it.\<close>

locale sort_Sort =
  fixes sort_dists :: "dist list \<Rightarrow> dist list"
  assumes by_swaps: "swapped ds (sort_dists ds)"
    and in_order: "i < j \<Longrightarrow> j < byDist_Len (sort_dists ds) \<Longrightarrow> \<not> byDist_Less (sort_dists ds) j i"

lemma swapped_mset: "swapped ds es \<Longrightarrow> mset es = mset ds"
  by (induction rule: swapped.induct) (simp_all add: byDist_Swap_def byDist_Len_def mset_swap)

sublocale sort_Sort \<subseteq> dist_sort
  using swapped_mset[OF by_swaps] in_order
  by unfold_locales (auto simp: byDist_Less_def byDist_Len_def sorted_iff_nth_mono_less not_less)

section \<open>Every permutation is a sequence of swaps\<close>

lemma swapped_trans: "swapped es fs \<Longrightarrow> swapped ds es \<Longrightarrow> swapped ds fs"
  by (induction rule: swapped.induct) (auto intro: swapped.intros)

lemma swapped_Cons: "swapped ds es \<Longrightarrow> swapped (x # ds) (x # es)"
proof (induction rule: swapped.induct)
  case (swap ds es i j)
  then have "swapped (x # ds) (byDist_Swap (x # es) (Suc i) (Suc j))"
    by (intro swapped.swap) (simp_all add: byDist_Len_def)
  then show ?case by (simp add: byDist_Swap_def)
qed (rule swapped.none)

lemma mset_swapped: "mset ds = mset es \<Longrightarrow> swapped ds es"
proof (induction es arbitrary: ds)
  case (Cons y es)
  then have "y \<in> set ds" by (metis list.set_intros(1) set_mset_mset)
  then obtain k where k: "k < length ds" "ds ! k = y" by (auto simp: in_set_conv_nth)
  let ?ds = "byDist_Swap ds 0 k"
  have first: "swapped ds ?ds" using k(1) by (intro swapped.intros) (auto simp: byDist_Len_def)
  have "?ds \<noteq> []" "hd ?ds = y" using k by (cases ds; cases k; auto simp: byDist_Swap_def)+
  then have ds: "?ds = y # tl ?ds" by (metis list.collapse)
  then have "mset (y # tl ?ds) = mset (y # es)" using swapped_mset[OF first] Cons.prems by simp
  then have "swapped (y # tl ?ds) (y # es)" by (intro swapped_Cons Cons.IH) simp
  then show ?case using swapped_trans first ds by metis
qed (simp add: swapped.none)

interpretation stable_swaps: sort_Sort stable_sort
proof
  fix ds :: "dist list" and i j :: nat
  show "swapped ds (stable_sort ds)" by (rule mset_swapped) (simp add: stable_sort_def)
  assume "i < j" "j < byDist_Len (stable_sort ds)"
  then show "\<not> byDist_Less (stable_sort ds) j i"
    using stable.sort_sorted[of ds] by (auto simp: byDist_Less_def byDist_Len_def sorted_iff_nth_mono_less not_less)
qed

end
