(* ===== verification/Spec2Isabelle.thy ===== *)
theory Spec2Isabelle
  imports Bracha_Theorems Hashing_Theorems Consistent_Theorems Scalable_Theorems Main_Server Node
    Mailbox Reliable_Reveal Reliable_Validity Reliable_Requests Bracha_Simulation_Theorems
    Reliable_Simulation Consistent_Simulation Log_Statistics Log_File Go_Sort
begin

text \<open>
  A verification library for \<open>stochastic-checking-simulation\<close>, a Go program that simulates four
  Byzantine broadcast protocols on a network of processes. Every definition that models code keeps
  the name the code uses, with a prefix for the package where two packages use the same one:
  \<open>br_\<close> Bracha, \<open>co_\<close> consistent, \<open>re_\<close> reliable, \<open>sc_\<close> scalable, \<open>cx_\<close> context, \<open>ac_\<close> actor,
  \<open>mb_\<close> mailbox, \<open>nd_\<close> node, \<open>ms_\<close> main server, \<open>hh_\<close> history hash, \<open>ws_\<close> witness selection,
  \<open>el_\<close> event logger, \<open>pr_\<close> the interface of the protocols. The files named below are under \<open>src/\<close>.

  \<^bold>\<open>The program.\<close> A main server and \<open>n\<close> nodes run as actors (\<open>simulation/\<close>). An actor owns a mailbox,
  which exchanges UDP datagrams, and a context, which stamps, marshals and queues what the actor
  sends (\<open>context/\<close>). The receive loop of the actor drops what it has seen and hands the rest to its
  instance: the main server, which starts the simulation when all nodes have connected, or a node,
  which hands requests and protocol messages to one process of a broadcast protocol
  (\<open>impl/protocols/\<close>). Two of the protocols ask witnesses, which they draw from the hashed history of
  the process (\<open>impl/hashing/\<close>). Everything is logged (\<open>impl/eventlogger/\<close>) and evaluated by a script.

  \<^bold>\<open>How Go is modelled.\<close> A call that may panic or stop the program returns \<open>'a go = failure + 'a\<close>
  (\<open>Prelude\<close>); sequencing is \<open>go_bind\<close>, loops are \<open>go_map\<close> and \<open>go_fold\<close>. \<open>int32\<close>, \<open>uint64\<close> and \<open>byte\<close>
  are words; \<open>int\<close> is the unbounded \<open>int\<close> for counters and sizes, and wraps explicitly (\<open>i64\<close>) where it
  matters: in the ring arithmetic, and in Bracha's thresholds, which come from a configured number of
  faulty processes that nobody checks. A map of maps is a \<open>map2\<close> with the nil-map panic of Go. State is a
  record that an operation returns updated; what a step does outside (messages, log entries, tokens
  on a channel) is the list of its effects, in the order of the code. A pointer shared by two
  variables is read and written through the map it came from.

  \<^bold>\<open>Theories, bottom up.\<close>
  \<^item> \<open>Prelude\<close>: words, failures, slices, nested maps, process identifiers.
  \<^item> \<open>Votes\<close>: counting votes with one vote per sender (locale \<open>vote_box\<close>, interpreted for every vote
    counter of the protocols) and quorums (locale \<open>byzantine_quorums\<close>). \<open>Quorums\<close> interprets the
    latter on the thresholds the protocols configure.
  \<^item> \<open>Messages\<close>: \<open>impl/messages/messages.pb.go\<close> (types) and \<open>helpers.go\<close> (\<open>Copy\<close>); the effects of a step.
  \<^item> \<open>Byte_Utils\<close>, \<open>Multi_Ring\<close>, \<open>History_Hash\<close>, \<open>Hashes\<close>, \<open>Witness_Selection\<close>: \<open>impl/utils/hashing.go\<close> and
    \<open>impl/hashing\<close>. Locales \<open>ring_metric\<close> (the distance is a metric), \<open>accumulator\<close> (a history never
    fails and forgets the order) and \<open>dist_sort\<close> (what a sort promises) are their interfaces; \<open>Go_Sort\<close> derives the last one from what
    \<open>sort.Sort\<close> documents over the methods of \<open>byDist\<close> (locale \<open>sort_Sort\<close>).
    \<open>Hashes\<close> writes out SHA-256 and SHA-512, which the program takes from Go's library.
    \<open>Hashing_Theorems\<close> has their properties.
  \<^item> \<open>Process_Interface\<close>: \<open>impl/parameters\<close> and \<open>impl/protocols/process.go\<close>; locale \<open>broadcast_process\<close>
    is the contract of a protocol process: it delivers an instance at most once and records exactly
    what it has delivered. It is interpreted by Bracha, consistent, scalable and by the sum of the
    protocols in \<open>Simulation\<close>. \<open>f64\<close> rounds an integer as the conversion to \<open>float64\<close> does.
  \<^item> \<open>Bracha\<close> (\<open>impl/protocols/bracha\<close>): one process. \<open>Bracha_Network\<close>: \<open>n\<close> processes, an adversary and
    a network that loses, repeats and reorders, as an inductive step relation. \<open>Bracha_Safety\<close>: its
    invariant. \<open>Bracha_Theorems\<close>: agreement, integrity, totality, validity, no duplication, every
    outcome of the handler and its refinement of an automaton, the missing authentication of authors.
    Agreement and integrity assume \<open>n\<close> and \<open>f\<close> below \<open>2^52\<close> (\<open>br_sizes_exact\<close>, part of \<open>br_faults_bounded\<close>);
    \<open>br_threshold_wraps\<close> is why: with \<open>f = 2^62\<close> the delivery threshold is negative.
  \<^item> \<open>Consistent\<close> (\<open>impl/protocols/accountability/consistent\<close>) and \<open>Consistent_Theorems\<close>: deliveries are
    backed by a threshold of members of the instance's witness set; every outcome; and that every run of two or more processes
    ends in a panic, because the witnesses are drawn from one history instead of all of them.
  \<^item> \<open>Reliable\<close> (\<open>impl/protocols/accountability/reliable\<close>), the largest component: the reliable part
    (NOTIFY to VALIDATE), delivery, and the reveal part (REVEAL, DONE, FAILED), which decodes a secret
    and writes it into the histories. \<open>Reliable_Steps\<close> views the state as four vote boxes and a record
    of books, \<open>Reliable_Calls\<close> says case by case what a call does, \<open>Reliable_Run\<close> has the invariant of a
    run (\<open>re_reaches\<close>), \<open>Reliable_History\<close> follows checkpoints, commitments and histories.
    \<open>Reliable_Theorems\<close>: agreement of the correct processes, backed deliveries, no duplication, the
    type of a state, equal histories for equal commitments. \<open>Reliable_Reveal\<close>: every outcome of a
    REVEAL, and two weaknesses: DONE is not bound to the secret, FAILED is answered without end. \<open>Reliable_System\<close> composes processes to a system
    (\<open>re_system_run\<close>: correct processes, faulty ones that send what they like, a network that loses,
    repeats and reorders) and has a scheduler that plays concrete runs. \<open>Reliable_Progress\<close> and
    \<open>Reliable_Owed\<close> say what a process owes for what it has received: every message that has reached
    it is answered unless the state explains why not. \<open>Reliable_Validity\<close> proves totality and validity
    of the system when processes only crash, for an instance that nobody has committed and on whose
    potential witnesses all processes agree, with enough living own witnesses (\<open>re_witnesses_alive\<close>);
    \<open>Reliable_Totality\<close> is the run that refutes both when one process is faulty: who delivers early stops
    helping the others. The runs of \<open>re_reaches\<close> and \<open>re_system_run\<close> have requests only for instances the
    process has not heard of; \<open>Reliable_Requests\<close> has the runs with every request (\<open>re_open_run\<close>), among
    them one in which a request makes a correct process deliver an instance again.
  \<^item> \<open>Scalable\<close> (\<open>impl/protocols/scalable\<close>), \<open>Scalable_Steps\<close>, \<open>Scalable_Theorems\<close>: one process with its
    samples; the clean-up goroutine is a step of its own. A READY is backed by the echo sample, an
    instance is delivered once, the handler returns; a repeated READY is counted again.
  \<^item> \<open>Reliable_Context\<close> (\<open>context/context.go\<close>), \<open>Mailbox\<close>, \<open>Actor\<close> (\<open>simulation/actor\<close>), \<open>Main_Server\<close>
    (\<open>simulation/mainserver/server.go\<close>), \<open>Node\<close> (\<open>simulation/node/node.go\<close>): the runtime. Locale
    \<open>actor_instance\<close> is what the receive loop needs from its instance, interpreted by server and node.
    Every message is handed over exactly once, the server starts the simulation exactly when the last
    node connects (and again on every later message), a mailbox sends to the right address and cuts
    long datagrams; when a read fails it neither sends nor receives any more.
  \<^item> \<open>Topology\<close> and \<open>Log_File\<close> (\<open>impl/utils/simulation.go\<close>): the addresses, with Go's number formatting and
    parsing; opening a log file and the wrappers around protobuf.
  \<^item> \<open>Key_Files\<close> (\<open>generate.go\<close>, \<open>reader.go\<close>, the key loop of \<open>simulation/node/main.go\<close>), \<open>Event_Log\<close>
    (\<open>impl/eventlogger/logger.go\<close> and the reading of its lines by \<open>logs_analyzer.py\<close>), \<open>Log_Statistics\<close>
    (the rest of that script): what is collected from the log files of all processes, with everything
    these write into them (\<open>log_text\<close>: the line of \<open>main\<close>, the calls of the logger, a fatal error), and
    the statistics.
  \<^item> \<open>Simulation\<close> (\<open>simulation/node/main.go\<close>, \<open>simulation/mainserver/main.go\<close>): the two programs from the
    flags to the running actor, over the sum of the four protocols. The property there composes
    addresses, mailbox, actor, node and protocol; its runs (\<open>node_run\<close>) are of datagrams, turns of the
    goroutine \<open>simulate\<close>, and turns of the clean-up goroutines of the scalable protocol (\<open>pr_cleanUp\<close>).
  \<^item> \<open>Simulation_Network\<close>: everything at once, the main server and the nodes with their actors, contexts
    and goroutines, and a network of datagrams that loses, repeats, reorders and carries what faulty
    processes write (\<open>wd_run\<close>). Locale \<open>simulated_protocol\<close> is what a protocol needs (its messages
    survive the wire format, its steps keep them so), and proves once that a run of datagrams is a
    run of the processes alone that receive and send protocol messages (\<open>sys_run\<close>), with the same
    deliveries. \<open>Bracha_Simulation\<close> interprets it on Bracha's protocol and goes on down to
    \<open>Bracha_Network\<close>; \<open>Bracha_Simulation_Theorems\<close> has the guarantees of the whole program, from the
    command lines to the logged deliveries, and what \<open>2f + 1\<close> datagrams with forged senders do
    to a node, although no process is faulty, which shows where they end. They assume a wire format that reads back what it writes (\<open>wd_codec\<close>), faulty datagrams that
    name faulty senders (the set \<open>F\<close> of \<open>wd_run\<close>), and for totality and validity that no process has used a 32-bit stamp
    twice. \<open>Simulation_Start\<close> says that the command lines start such a world, \<open>Simulation_Sample\<close> has a wire
    format and what evaluated runs need. \<open>Reliable_Simulation\<close> shows in the same world that the reliable
    protocol never delivers anything once the ciphertexts of a NOTIFY outgrow what a mailbox reads, \<open>Consistent_Simulation\<close> that two actors of
    the consistent protocol panic as soon as they have anything to do.

  \<^bold>\<open>Parameters of the model.\<close> Code that is not in the repository is an argument: the order in which Go
  ranges over a map, \<open>sort.Sort\<close> (any function with the contract \<open>dist_sort\<close>), marshalling (\<open>None\<close> is
  its error), the Reed-Solomon encoder, RSA and PKCS1, the random numbers, whether a system call on a
  socket succeeds. The theorems hold for all
  of them, or name the documented behaviour they use as a hypothesis. Definitions that take a hash
  function as argument take the field \<open>hasher\<close> of a history; \<open>Simulation\<close> passes the real ones.

  \<^bold>\<open>Bounds and fuel.\<close> No definition is cut off by fuel. The one loop of the code that may run forever,
  drawing a gossip sample, is a \<open>partial_function\<close> into \<open>option\<close> over the infinite sequence of drawn
  numbers; not returning is the failure \<open>Diverges\<close>, and \<open>sc_HandleMessage_returns\<close> shows that the loop
  ends when the numbers name enough processes.
  \<open>float64\<close> is modelled by the reals (\<open>Multi_Ring\<close>) and halves by integer division
  (\<open>ceil_half\<close>), exact for integers below \<open>2^53\<close>, which the sums of the code are; in Bracha's echo threshold,
  whose sum has no bound, the rounding is written out (\<open>f64\<close>). The thresholds of the reliable protocol
  need neither: the encoder it makes first rejects the share counts with which they could wrap.

  \<^bold>\<open>Not modelled.\<close> The generated getters, reflection tables and descriptors of \<open>messages.pb.go\<close>; the
  sleeps between sends; that a full channel blocks its sender; interleaving
  inside a handler (the code handles messages one at a time; the goroutines that run beside it are
  steps of their own); time, apart from being an argument of a log line; that the program writes its
  log to the file it has opened; the acknowledgements and retransmissions that are commented out in \<open>context.go\<close>; what
  \<open>logs_analyzer.py\<close> prints and the start scripts.
\<close>

end
